(* ===== verification/Prelude.thy ===== *)
theory Prelude
  imports Main "HOL-Library.Word" "HOL-Library.List_Lexorder" "HOL-Library.Char_ord"
begin

text \<open>
  Shared vocabulary of the development: machine integers and byte strings, the result type
  (\<open>Inl\<close> an error, \<open>Inr\<close> a value), fixed-size byte arrays as words (a Rust
  \<open>[u8; n]\<close> is an \<open>8n\<close>-bit word, most significant byte first), the ordered map
  (Rust's \<open>BTreeMap\<close>) as a key-sorted association list, and SQL tables as lists of rows
  with the statements the source issues. The collections \<open>tbl\<close> and \<open>btree\<close> gather
  the rewrite rules of the last two for the component proofs.
\<close>

unbundle bit_operations_syntax

named_theorems tbl \<open>rewrite rules for table statements\<close>
named_theorems btree \<open>rewrite rules for ordered maps\<close>

section \<open>Machine integers and byte strings\<close>

type_synonym u8 = "8 word"
type_synonym u32 = "32 word"
type_synonym u64 = "64 word"
type_synonym i64 = "64 word"
type_synonym bytes = "8 word list"

abbreviation i64_max :: int where "i64_max \<equiv> 2 ^ 63 - 1"

definition u64_max :: u64 where "u64_max = - 1"

text \<open>\<open>u64::saturating_add\<close>, \<open>saturating_mul\<close>, \<open>checked_mul\<close> and
  \<open>i64::try_from(u64)\<close>. An \<open>i64\<close> is the same 64-bit word, read with \<open>sint\<close>; the
  cast \<open>as i64\<close> leaves the bits as they are.\<close>

definition sat_add64 :: "u64 \<Rightarrow> u64 \<Rightarrow> u64" where
  "sat_add64 a b = (if uint a + uint b < 2 ^ 64 then a + b else u64_max)"

definition sat_mul64 :: "u64 \<Rightarrow> u64 \<Rightarrow> u64" where
  "sat_mul64 a b = (if uint a * uint b < 2 ^ 64 then a * b else u64_max)"

definition checked_mul64 :: "u64 \<Rightarrow> u64 \<Rightarrow> u64 option" where
  "checked_mul64 a b = (if uint a * uint b < 2 ^ 64 then Some (a * b) else None)"

definition i64_try_from :: "u64 \<Rightarrow> i64 option" where
  "i64_try_from x = (if uint x < 2 ^ 63 then Some x else None)"

lemma u64_max_unat [simp]: "unat u64_max = 2 ^ 64 - 1"
  by (simp add: u64_max_def unsigned_minus_1_eq_mask mask_eq_exp_minus_1)

lemma uint_less_iff:
  "uint a + uint b < 2 ^ n \<longleftrightarrow> unat a + unat b < 2 ^ n"
  "uint a * uint b < 2 ^ n \<longleftrightarrow> unat a * unat b < 2 ^ n"
  "uint a < 2 ^ n \<longleftrightarrow> unat a < 2 ^ n"
proof -
  have "int (unat a + unat b) < int (2 ^ n) \<longleftrightarrow> unat a + unat b < 2 ^ n"
    "int (unat a * unat b) < int (2 ^ n) \<longleftrightarrow> unat a * unat b < 2 ^ n"
    "int (unat a) < int (2 ^ n) \<longleftrightarrow> unat a < 2 ^ n"
    by (simp_all only: of_nat_less_iff)
  then show "uint a + uint b < 2 ^ n \<longleftrightarrow> unat a + unat b < 2 ^ n"
    "uint a * uint b < 2 ^ n \<longleftrightarrow> unat a * unat b < 2 ^ n"
    "uint a < 2 ^ n \<longleftrightarrow> unat a < 2 ^ n"
    by simp_all
qed

lemma unat_sat_add64: "unat (sat_add64 a b) = min (unat a + unat b) (2 ^ 64 - 1)"
  unfolding sat_add64_def uint_less_iff by (simp add: unat_word_ariths)

lemma unat_sat_mul64: "unat (sat_mul64 a b) = min (unat a * unat b) (2 ^ 64 - 1)"
  unfolding sat_mul64_def uint_less_iff by (simp add: unat_word_ariths)

lemma i64_try_from_Some: "i64_try_from x = Some y \<longleftrightarrow> y = x \<and> unat x < 2 ^ 63"
  unfolding i64_try_from_def uint_less_iff by auto

lemma unat_sat_add64_exact:
  "unat a + unat b < 2 ^ 64 \<Longrightarrow> unat (sat_add64 a b) = unat a + unat b"
  by (simp add: unat_sat_add64)

lemma sint_small_unat:
  assumes "unat (x :: u64) < 2 ^ 63"
  shows "sint x = int (unat x)"
proof -
  have "int (unat x) < int (2 ^ 63)"
    using assms by (simp only: of_nat_less_iff)
  then have u: "uint x < 9223372036854775808"
    by simp
  have "sint x = (uint x + 9223372036854775808) mod 18446744073709551616 - 9223372036854775808"
    using int_word_sint [where 'a = 64 and x = "uint x"] by simp
  also have "\<dots> = uint x"
    using u uint_ge_0 [of x] by (subst mod_pos_pos_trivial) linarith+
  finally show ?thesis by simp
qed

section \<open>Fixed-size byte arrays\<close>

text \<open>A Rust \<open>[u8; n]\<close> is an \<open>8n\<close>-bit word; \<open>be_bytes\<close> lists its bytes,
  most significant first, and \<open>be_word\<close> is \<open>copy_from_slice\<close> back. Because the first
  byte is the most significant, the lexicographic order of the arrays is the order of the words.\<close>

definition be_bytes :: "'a::len word \<Rightarrow> bytes" where
  "be_bytes w = map (\<lambda>i. ucast (drop_bit (8 * i) w)) (rev [0..<LENGTH('a) div 8])"

lemma be_bytes_code [code]:
  "be_bytes (w :: 'a::len word) =
     (let k = uint w in map (\<lambda>i. word_of_int (drop_bit (8 * i) k)) (rev [0..<LENGTH('a) div 8]))"
proof -
  have "ucast (drop_bit n w) = (word_of_int (drop_bit n (uint w)) :: 8 word)" for n
    by (rule bit_word_eqI) (simp add: bit_simps bit_uint_iff)
  then show ?thesis by (simp add: be_bytes_def Let_def)
qed

definition be_word :: "bytes \<Rightarrow> 'a::len word" where
  "be_word bs = word_rcat bs"

text \<open>\<open>TryFrom<Vec<u8>>\<close> for an array: the length must match.\<close>

definition array_try_from :: "bytes \<Rightarrow> 'a::len word option" where
  "array_try_from bs = (if length bs = LENGTH('a) div 8 then Some (be_word bs) else None)"

lemma length_be_bytes [simp]: "length (be_bytes (w :: 'a::len word)) = LENGTH('a) div 8"
  by (simp add: be_bytes_def)

lemma bit_be_word:
  assumes "n < LENGTH('a)"
  shows "bit (be_word bs :: 'a::len word) n
    \<longleftrightarrow> n div 8 < length bs \<and> bit (rev bs ! (n div 8)) (n mod 8)"
  using assms bit_horner_sum_uint_exp_iff [where ws = "rev bs" and n = n and 'a = 8]
  by (simp add: be_word_def word_rcat_def bit_word_of_int_iff)

lemma rev_be_bytes_nth:
  "i < LENGTH('a) div 8 \<Longrightarrow> rev (be_bytes (w :: 'a::len word)) ! i = ucast (drop_bit (8 * i) w)"
  by (simp add: be_bytes_def rev_map)

lemma be_word_be_bytes [simp]:
  assumes "8 dvd LENGTH('a)"
  shows "be_word (be_bytes (w :: 'a::len word)) = w"
proof (rule bit_word_eqI)
  fix n
  assume n: "n < LENGTH('a)"
  with assms have d: "n div 8 < LENGTH('a) div 8"
    by (auto elim!: dvdE)
  show "bit (be_word (be_bytes w) :: 'a word) n = bit w n"
    using n d by (simp add: bit_be_word rev_be_bytes_nth bit_simps)
qed

lemma be_bytes_be_word:
  assumes "length bs = LENGTH('a) div 8" and "8 dvd LENGTH('a)"
  shows "be_bytes (be_word bs :: 'a::len word) = bs"
proof -
  have "rev (be_bytes (be_word bs :: 'a word)) = rev bs"
  proof (rule nth_equalityI)
    show "length (rev (be_bytes (be_word bs :: 'a word))) = length (rev bs)"
      using assms by simp
    fix i
    assume "i < length (rev (be_bytes (be_word bs :: 'a word)))"
    then have i: "i < LENGTH('a) div 8" by simp
    show "rev (be_bytes (be_word bs :: 'a word)) ! i = rev bs ! i"
    proof (rule bit_word_eqI)
      fix n
      assume "n < LENGTH(8)"
      then have n: "n < 8" by simp
      with i have "8 * i + n < LENGTH('a)" by linarith
      with i n assms(1) show "bit (rev (be_bytes (be_word bs :: 'a word)) ! i) n = bit (rev bs ! i) n"
        by (simp add: rev_be_bytes_nth bit_be_word bit_simps)
    qed
  qed
  then show ?thesis by simp
qed

lemma array_try_from_be_bytes [simp]:
  "8 dvd LENGTH('a) \<Longrightarrow> array_try_from (be_bytes (w :: 'a::len word)) = Some w"
  by (simp add: array_try_from_def)

lemma array_try_from_Some:
  "8 dvd LENGTH('a) \<Longrightarrow> array_try_from bs = Some (w :: 'a::len word) \<longleftrightarrow> bs = be_bytes w"
  by (auto simp: array_try_from_def be_bytes_be_word split: if_splits)

lemma be_bytes_inject [simp]:
  "8 dvd LENGTH('a) \<Longrightarrow> be_bytes (v :: 'a::len word) = be_bytes w \<longleftrightarrow> v = w"
  by (metis be_word_be_bytes)

section \<open>Results\<close>

text \<open>\<open>Result::map_err\<close>, \<open>Option::ok_or\<close> and \<open>Result::ok\<close>. An
  \<open>anyhow::Error\<close> is its message.\<close>

type_synonym anyhow = string

definition map_err :: "('e \<Rightarrow> 'f) \<Rightarrow> 'e + 'a \<Rightarrow> 'f + 'a" where
  "map_err f r = (case r of Inl e \<Rightarrow> Inl (f e) | Inr x \<Rightarrow> Inr x)"

definition ok_or :: "'e \<Rightarrow> 'a option \<Rightarrow> 'e + 'a" where
  "ok_or e x = (case x of None \<Rightarrow> Inl e | Some v \<Rightarrow> Inr v)"

definition is_ok :: "'e + 'a \<Rightarrow> bool" where
  "is_ok r = (case r of Inl _ \<Rightarrow> False | Inr _ \<Rightarrow> True)"

text \<open>The operator \<open>?\<close>: \<open>let x = r?; f(x)\<close>.\<close>

definition and_then :: "'e + 'a \<Rightarrow> ('a \<Rightarrow> 'e + 'b) \<Rightarrow> 'e + 'b" where
  "and_then r f = (case r of Inl e \<Rightarrow> Inl e | Inr x \<Rightarrow> f x)"

lemma and_then_simps [simp]: "and_then (Inl e) f = Inl e" "and_then (Inr x) f = f x"
  by (simp_all add: and_then_def)

lemma and_then_Inr [simp]: "and_then r f = Inr y \<longleftrightarrow> (\<exists>x. r = Inr x \<and> f x = Inr y)"
  by (cases r) auto

lemma and_then_cong [fundef_cong]:
  "r = r' \<Longrightarrow> (\<And>x. r' = Inr x \<Longrightarrow> f x = g x) \<Longrightarrow> and_then r f = and_then r' g"
  by (cases r') auto

lemma is_ok_simps [simp]: "is_ok (Inr x)" "\<not> is_ok (Inl e)"
  by (simp_all add: is_ok_def)

lemma is_ok_iff: "is_ok r \<longleftrightarrow> (\<exists>x. r = Inr x)"
  by (cases r) auto

lemma map_err_simps [simp]:
  "map_err f (Inl e) = Inl (f e)" "map_err f (Inr x) = Inr x"
  by (simp_all add: map_err_def)

lemma map_err_Inr [simp]: "map_err f r = Inr x \<longleftrightarrow> r = Inr x"
  by (cases r) auto

lemma ok_or_simps [simp]: "ok_or e None = Inl e" "ok_or e (Some v) = Inr v"
  by (simp_all add: ok_or_def)

lemma ok_or_Inr [simp]: "ok_or e x = Inr v \<longleftrightarrow> x = Some v"
  by (cases x) auto

section \<open>Ordered maps\<close>

text \<open>A \<open>BTreeMap\<close> is the list of its entries in key order: iteration is the list, \<open>get\<close>
  is \<open>map_of\<close>.\<close>

type_synonym ('k, 'v) btree = "('k \<times> 'v) list"

fun bt_insert :: "'k::linorder \<Rightarrow> 'v \<Rightarrow> ('k, 'v) btree \<Rightarrow> ('k, 'v) btree" where
  "bt_insert k v [] = [(k, v)]"
| "bt_insert k v ((k', v') # m) =
     (if k < k' then (k, v) # (k', v') # m
      else if k = k' then (k, v) # m
      else (k', v') # bt_insert k v m)"

definition bt_wf :: "('k::linorder, 'v) btree \<Rightarrow> bool" where
  "bt_wf m \<longleftrightarrow> sorted_wrt (<) (map fst m)"

lemma bt_wf_simps [simp, btree]:
  "bt_wf []"
  "bt_wf ((k, v) # m) \<longleftrightarrow> (\<forall>k' \<in> fst ` set m. k < k') \<and> bt_wf m"
  by (auto simp: bt_wf_def)

lemma map_of_bt_insert [simp, btree]: "map_of (bt_insert k v m) = (map_of m)(k \<mapsto> v)"
  by (induction k v m rule: bt_insert.induct) (auto simp: fun_eq_iff)

lemma fst_bt_insert [simp, btree]: "fst ` set (bt_insert k v m) = insert k (fst ` set m)"
  by (induction k v m rule: bt_insert.induct) auto

lemma bt_wf_bt_insert [simp, btree]: "bt_wf m \<Longrightarrow> bt_wf (bt_insert k v m)"
  by (induction k v m rule: bt_insert.induct) (auto simp: less_imp_neq not_less order_le_less)

lemma bt_wf_distinct: "bt_wf m \<Longrightarrow> distinct (map fst m)"
  by (induction m) (auto simp: bt_wf_def)

lemma bt_insert_ne [simp]: "bt_insert k v m \<noteq> []"
  by (cases "(k, v, m)" rule: bt_insert.cases) auto

section \<open>SQL tables\<close>

text \<open>A table is the list of its rows; \<open>key\<close> reads a row's primary key or unique index. The
  statements are the ones the source issues: \<open>SELECT\<close> one row by key, \<open>INSERT\<close> (a
  conflict is an error), \<open>INSERT OR REPLACE\<close>, \<open>INSERT OR IGNORE\<close>, \<open>DELETE\<close> and
  \<open>UPDATE\<close>.\<close>

definition t_get :: "('r \<Rightarrow> 'k) \<Rightarrow> 'k \<Rightarrow> 'r list \<Rightarrow> 'r option" where
  "t_get key k t = find (\<lambda>r. key r = k) t"

definition t_insert :: "('r \<Rightarrow> 'k) \<Rightarrow> 'r \<Rightarrow> 'r list \<Rightarrow> 'r list option" where
  "t_insert key r t = (if key r \<in> key ` set t then None else Some (t @ [r]))"

definition t_replace :: "('r \<Rightarrow> 'k) \<Rightarrow> 'r \<Rightarrow> 'r list \<Rightarrow> 'r list" where
  "t_replace key r t = filter (\<lambda>x. key x \<noteq> key r) t @ [r]"

definition t_ignore :: "('r \<Rightarrow> 'k) \<Rightarrow> 'r \<Rightarrow> 'r list \<Rightarrow> 'r list" where
  "t_ignore key r t = (if key r \<in> key ` set t then t else t @ [r])"

definition t_delete :: "('r \<Rightarrow> bool) \<Rightarrow> 'r list \<Rightarrow> 'r list" where
  "t_delete P t = filter (\<lambda>r. \<not> P r) t"

definition t_update :: "('r \<Rightarrow> bool) \<Rightarrow> ('r \<Rightarrow> 'r) \<Rightarrow> 'r list \<Rightarrow> 'r list" where
  "t_update P f t = map (\<lambda>r. if P r then f r else r) t"

definition t_unique :: "('r \<Rightarrow> 'k) \<Rightarrow> 'r list \<Rightarrow> bool" where
  "t_unique key t \<longleftrightarrow> distinct (map key t)"

lemma t_get_simps [tbl]:
  "t_get key k [] = None"
  "t_get key k (r # t) = (if key r = k then Some r else t_get key k t)"
  by (simp_all add: t_get_def)

lemma t_get_SomeD: "t_get key k t = Some r \<Longrightarrow> r \<in> set t \<and> key r = k"
  by (induction t) (auto simp: t_get_simps split: if_splits)

lemma t_get_None [tbl]: "t_get key k t = None \<longleftrightarrow> k \<notin> key ` set t"
  by (induction t) (auto simp: t_get_simps)

lemma t_get_append [tbl]:
  "t_get key k (s @ t) = (case t_get key k s of None \<Rightarrow> t_get key k t | Some r \<Rightarrow> Some r)"
  by (induction s) (auto simp: t_get_simps)

lemma t_get_replace [tbl]:
  "t_get key k (t_replace key r t) = (if key r = k then Some r else t_get key k t)"
proof -
  have "t_get key k (filter (\<lambda>x. key x \<noteq> key r) t) = (if key r = k then None else t_get key k t)"
    by (induction t) (auto simp: t_get_simps)
  then show ?thesis
    by (simp add: t_replace_def t_get_append t_get_simps split: option.split)
qed

lemma t_get_ignore [tbl]:
  "t_get key k (t_ignore key r t) =
     (case t_get key k t of None \<Rightarrow> (if key r = k then Some r else None) | Some x \<Rightarrow> Some x)"
proof (cases "key r \<in> key ` set t")
  case True
  then have "t_get key k t \<noteq> None \<or> key r \<noteq> k"
    by (auto simp: t_get_None)
  with True show ?thesis
    by (auto simp: t_ignore_def split: option.split)
next
  case False
  then have "t_get key (key r) t = None"
    by (simp only: t_get_None not_False_eq_True)
  with False show ?thesis
    by (auto simp only: t_ignore_def t_get_append t_get_simps if_False split: option.split)
qed

lemma t_get_unique:
  "t_unique key t \<Longrightarrow> r \<in> set t \<Longrightarrow> t_get key (key r) t = Some r"
  by (induction t) (auto simp: t_get_simps t_unique_def)

lemma t_unique_replace [simp, tbl]: "t_unique key t \<Longrightarrow> t_unique key (t_replace key r t)"
  by (auto simp: t_unique_def t_replace_def distinct_map_filter)

lemma t_unique_ignore [simp, tbl]: "t_unique key t \<Longrightarrow> t_unique key (t_ignore key r t)"
  by (auto simp: t_unique_def t_ignore_def)

lemma t_unique_insert [tbl]: "t_unique key t \<Longrightarrow> t_insert key r t = Some t' \<Longrightarrow> t_unique key t'"
  by (auto simp: t_unique_def t_insert_def split: if_splits)

lemma t_unique_delete [simp, tbl]: "t_unique key t \<Longrightarrow> t_unique key (t_delete P t)"
  by (simp add: t_unique_def t_delete_def distinct_map_filter)

lemma t_unique_update [tbl]:
  assumes "t_unique key t" and "\<And>r. key (f r) = key r"
  shows "t_unique key (t_update P f t)"
proof -
  have "map key (t_update P f t) = map key t"
    by (simp add: t_update_def assms(2))
  with assms(1) show ?thesis by (simp add: t_unique_def)
qed

lemma set_t_delete [simp, tbl]: "set (t_delete P t) = {r \<in> set t. \<not> P r}"
  by (auto simp: t_delete_def)

lemma set_t_replace [tbl]: "set (t_replace key r t) = insert r {x \<in> set t. key x \<noteq> key r}"
  by (auto simp: t_replace_def)

section \<open>The contract of a keyed store\<close>

text \<open>What a client of a \<open>BTreeMap\<close> or of a table with a primary key relies on: a write
  is read back under its key, leaves every other key alone and keeps the invariant. Its
  consequence for a loop of writes is proved once.\<close>

locale keyed_store =
  fixes look :: "'s \<Rightarrow> 'k \<Rightarrow> 'v option"
    and put :: "'k \<Rightarrow> 'v \<Rightarrow> 's \<Rightarrow> 's"
    and ok :: "'s \<Rightarrow> bool"
  assumes look_put: "look (put k v s) k' = (if k = k' then Some v else look s k')"
    and ok_put: "ok s \<Longrightarrow> ok (put k v s)"
begin

lemma look_foldl:
  "look (foldl (\<lambda>s (k, v). put k v s) s kvs) k
     = (case map_of (rev kvs) k of None \<Rightarrow> look s k | Some v \<Rightarrow> Some v)"
proof (induction kvs arbitrary: s)
  case Nil
  show ?case by simp
next
  case (Cons kv kvs)
  then show ?case
    by (cases kv) (auto simp: look_put map_add_def split: option.split)
qed

lemma ok_foldl: "ok s \<Longrightarrow> ok (foldl (\<lambda>s (k, v). put k v s) s kvs)"
  by (induction kvs arbitrary: s) (auto simp: ok_put split: prod.split)

end

interpretation bt: keyed_store map_of bt_insert bt_wf
  by unfold_locales auto

end
