(* ===== verification/Libs.thy ===== *)
theory Libs
  imports Prelude
begin

text \<open>
  The third-party crates the program calls, as parameters. A record \<open>ext\<close> holds one
  function per crate entry point: BLAKE3, the BCS and JSON back ends of serde, hex, base64, Ed25519,
  X25519, XChaCha20-Poly1305, XChaCha20 and EquiX. None of them is defined here; what the code relies on is
  stated as a named law (\<open>bcs_law\<close>, \<open>sig_law\<close>, \<dots>) that the properties take as
  a hypothesis, and the theory \<open>Demo\<close> gives a concrete instance of all of them.

  serde: a \<open>#[derive(Serialize)]\<close> type describes itself to a back end in serde's data
  model. \<open>sval\<close> is that data model and \<open>styp\<close> the shape a derived
  \<open>Deserialize\<close> asks a back end for; each type of the program translates its derive to
  a function \<open>ser_\<dots>\<close> into \<open>sval\<close>, a shape \<open>ty_\<dots>\<close> and a function
  \<open>de_\<dots>\<close> back, which also runs the type's own validation.
\<close>

named_theorems serde \<open>serialisation round trips and shapes\<close>

section \<open>The serde data model\<close>

datatype sval =
    VBool bool
  | VU8 u8
  | VU64 u64
  | VStr string
  | VBytes bytes
  | VSeq "sval list"
  | VTup "sval list"
  | VVar nat sval
  | VOpt "sval option"
  | VMap "(sval \<times> sval) list"

datatype styp =
    TBool
  | TU8
  | TU64
  | TStr
  | TBytes
  | TSeq styp
  | TTup "styp list"
  | TVar "styp list"
  | TOpt styp
  | TMap styp styp

fun matches_all :: "('x \<Rightarrow> bool) list \<Rightarrow> 'x list \<Rightarrow> bool" where
  "matches_all [] [] = True"
| "matches_all (p # ps) (v # vs) = (p v \<and> matches_all ps vs)"
| "matches_all _ _ = False"

primrec has_styp :: "styp \<Rightarrow> sval \<Rightarrow> bool" where
  "has_styp TBool = (\<lambda>v. case v of VBool b \<Rightarrow> True | _ \<Rightarrow> False)"
| "has_styp TU8 = (\<lambda>v. case v of VU8 b \<Rightarrow> True | _ \<Rightarrow> False)"
| "has_styp TU64 = (\<lambda>v. case v of VU64 n \<Rightarrow> True | _ \<Rightarrow> False)"
| "has_styp TStr = (\<lambda>v. case v of VStr s \<Rightarrow> True | _ \<Rightarrow> False)"
| "has_styp TBytes = (\<lambda>v. case v of VBytes b \<Rightarrow> True | _ \<Rightarrow> False)"
| "has_styp (TSeq t) = (\<lambda>v. case v of VSeq vs \<Rightarrow> list_all (has_styp t) vs | _ \<Rightarrow> False)"
| "has_styp (TTup ts) = (\<lambda>v. case v of VTup vs \<Rightarrow> matches_all (map has_styp ts) vs | _ \<Rightarrow> False)"
| "has_styp (TVar ts) = (\<lambda>v. case v of VVar i w \<Rightarrow> i < length ts \<and> (map has_styp ts ! i) w | _ \<Rightarrow> False)"
| "has_styp (TOpt t) = (\<lambda>v. case v of VOpt None \<Rightarrow> True | VOpt (Some w) \<Rightarrow> has_styp t w | _ \<Rightarrow> False)"
| "has_styp (TMap k w) = (\<lambda>v. case v of VMap kvs \<Rightarrow> list_all (\<lambda>(a, b). has_styp k a \<and> has_styp w b) kvs | _ \<Rightarrow> False)"

declare has_styp.simps [simp del]

lemma has_styp_simps [simp, serde]:
  "has_styp TBool (VBool b)" "has_styp TU8 (VU8 u)" "has_styp TU64 (VU64 n)"
  "has_styp TStr (VStr s)" "has_styp TBytes (VBytes bs)"
  "has_styp (TSeq t) (VSeq vs) \<longleftrightarrow> list_all (has_styp t) vs"
  "has_styp (TTup ts) (VTup vs) \<longleftrightarrow> matches_all (map has_styp ts) vs"
  "has_styp (TVar ts) (VVar i v) \<longleftrightarrow> i < length ts \<and> (map has_styp ts ! i) v"
  "has_styp (TOpt t) (VOpt None)"
  "has_styp (TOpt t) (VOpt (Some v)) \<longleftrightarrow> has_styp t v"
  "has_styp (TMap kt vt) (VMap kvs) \<longleftrightarrow> list_all (\<lambda>(a, b). has_styp kt a \<and> has_styp vt b) kvs"
  by (simp_all add: has_styp.simps)

text \<open>A back end may reorder the entries of a map, so its round trip is promised for shapes
  without maps.\<close>

fun map_free :: "styp \<Rightarrow> bool" where
  "map_free (TSeq t) = map_free t"
| "map_free (TTup ts) = (\<forall>t \<in> set ts. map_free t)"
| "map_free (TVar ts) = (\<forall>t \<in> set ts. map_free t)"
| "map_free (TOpt t) = map_free t"
| "map_free (TMap k v) = False"
| "map_free _ = True"

text \<open>\<open>FromInto<Vec<u8>>\<close> and plain byte arrays serialise element by element.\<close>

definition ser_vec_u8 :: "bytes \<Rightarrow> sval" where
  "ser_vec_u8 bs = VSeq (map VU8 bs)"

definition ser_arr_u8 :: "'a::len word \<Rightarrow> sval" where
  "ser_arr_u8 w = VTup (map VU8 (be_bytes w))"

fun de_u8 :: "sval \<Rightarrow> u8 option" where
  "de_u8 (VU8 b) = Some b"
| "de_u8 _ = None"

fun de_list :: "('x \<Rightarrow> 'a option) \<Rightarrow> 'x list \<Rightarrow> 'a list option" where
  "de_list f [] = Some []"
| "de_list f (v # vs) =
     (case f v of None \<Rightarrow> None
      | Some x \<Rightarrow> (case de_list f vs of None \<Rightarrow> None | Some xs \<Rightarrow> Some (x # xs)))"

fun de_vec_u8 :: "sval \<Rightarrow> bytes option" where
  "de_vec_u8 (VSeq vs) = de_list de_u8 vs"
| "de_vec_u8 _ = None"

fun de_arr_u8 :: "sval \<Rightarrow> 'a::len word option" where
  "de_arr_u8 (VTup vs) = Option.bind (de_list de_u8 vs) array_try_from"
| "de_arr_u8 _ = None"

text \<open>\<open>serde_with::Bytes\<close> on a byte array: a byte string whose length is checked on the way
  back.\<close>

definition ser_bytes_arr :: "'a::len word \<Rightarrow> sval" where
  "ser_bytes_arr w = VBytes (be_bytes w)"

fun de_bytes_arr :: "sval \<Rightarrow> 'a::len word option" where
  "de_bytes_arr (VBytes bs) = array_try_from bs"
| "de_bytes_arr _ = None"

fun de_bool :: "sval \<Rightarrow> bool option" where
  "de_bool (VBool b) = Some b"
| "de_bool _ = None"

fun de_u64 :: "sval \<Rightarrow> u64 option" where
  "de_u64 (VU64 n) = Some n"
| "de_u64 _ = None"

fun de_str :: "sval \<Rightarrow> string option" where
  "de_str (VStr s) = Some s"
| "de_str _ = None"

fun de_bytes :: "sval \<Rightarrow> bytes option" where
  "de_bytes (VBytes b) = Some b"
| "de_bytes _ = None"

definition ser_opt :: "('a \<Rightarrow> sval) \<Rightarrow> 'a option \<Rightarrow> sval" where
  "ser_opt f x = VOpt (map_option f x)"

fun de_opt :: "(sval \<Rightarrow> 'a option) \<Rightarrow> sval \<Rightarrow> 'a option option" where
  "de_opt f (VOpt None) = Some None"
| "de_opt f (VOpt (Some v)) = map_option Some (f v)"
| "de_opt f _ = None"

fun de_seq :: "(sval \<Rightarrow> 'a option) \<Rightarrow> sval \<Rightarrow> 'a list option" where
  "de_seq f (VSeq vs) = de_list f vs"
| "de_seq f _ = None"

lemma de_list_map [simp, serde]:
  "(\<And>x. x \<in> set xs \<Longrightarrow> d (s x) = Some x) \<Longrightarrow> de_list d (map s xs) = Some xs"
  by (induction xs) auto

lemma de_list_all: "de_list d vs = Some xs \<Longrightarrow> (\<And>v x. d v = Some x \<Longrightarrow> P x) \<Longrightarrow> list_all P xs"
  by (induction vs arbitrary: xs) (auto split: option.splits)

lemma de_list_length: "de_list f xs = Some ys \<Longrightarrow> length ys = length xs"
  by (induction xs arbitrary: ys) (auto split: option.splits)

lemma serde_bytes [simp, serde]:
  "de_vec_u8 (ser_vec_u8 bs) = Some bs"
  "8 dvd LENGTH('a) \<Longrightarrow> de_arr_u8 (ser_arr_u8 w) = Some (w :: 'a::len word)"
  "8 dvd LENGTH('a) \<Longrightarrow> de_bytes_arr (ser_bytes_arr w) = Some (w :: 'a::len word)"
  by (simp_all add: ser_vec_u8_def ser_arr_u8_def ser_bytes_arr_def)

lemma serde_opt [simp, serde]:
  "(\<And>y. x = Some y \<Longrightarrow> d (s y) = Some y) \<Longrightarrow> de_opt d (ser_opt s x) = Some x"
  by (cases x) (simp_all add: ser_opt_def)

lemma matches_all_bytes: "matches_all (map has_styp (replicate (length bs) TU8)) (map VU8 bs)"
  by (induction bs) auto

lemma has_styp_bytes [simp, serde]:
  "has_styp (TSeq TU8) (ser_vec_u8 bs)"
  "has_styp (TTup (replicate (LENGTH('a) div 8) TU8)) (ser_arr_u8 (w :: 'a::len word))"
  "has_styp TBytes (ser_bytes_arr w)"
  using matches_all_bytes [of "be_bytes w"]
  by (auto simp: ser_vec_u8_def ser_arr_u8_def ser_bytes_arr_def list_all_iff)

lemma has_styp_opt [simp, serde]:
  "(\<And>y. x = Some y \<Longrightarrow> has_styp t (s y)) \<Longrightarrow> has_styp (TOpt t) (ser_opt s x)"
  by (cases x) (simp_all add: ser_opt_def)

section \<open>The crates\<close>

record ext =
  blake3 :: "bytes \<Rightarrow> 256 word"                        \<comment> \<open>\<open>blake3::hash\<close>\<close>
  blake3_keyed :: "256 word \<Rightarrow> bytes \<Rightarrow> 256 word"      \<comment> \<open>\<open>blake3::keyed_hash\<close>\<close>
  bcs_enc :: "sval \<Rightarrow> bytes option"                     \<comment> \<open>\<open>bcs::to_bytes\<close>\<close>
  bcs_dec :: "styp \<Rightarrow> bytes \<Rightarrow> sval option"            \<comment> \<open>\<open>bcs::from_bytes\<close>\<close>
  json_enc :: "sval \<Rightarrow> bytes option"                    \<comment> \<open>\<open>serde_json::to_vec\<close>\<close>
  json_dec :: "styp \<Rightarrow> bytes \<Rightarrow> sval option"           \<comment> \<open>\<open>serde_json::from_slice\<close>\<close>
  hex_enc :: "bytes \<Rightarrow> string"                          \<comment> \<open>\<open>hex::encode\<close>\<close>
  hex_dec :: "string \<Rightarrow> bytes option"                   \<comment> \<open>\<open>hex::decode\<close>\<close>
  b64_enc :: "bytes \<Rightarrow> string"                          \<comment> \<open>\<open>URL_SAFE_NO_PAD.encode\<close>\<close>
  b64_dec :: "string \<Rightarrow> bytes option"                   \<comment> \<open>\<open>URL_SAFE_NO_PAD.decode\<close>\<close>
  ed_pk :: "256 word \<Rightarrow> 256 word"                       \<comment> \<open>\<open>SigningKey::verification_key\<close>\<close>
  ed_key_ok :: "256 word \<Rightarrow> bool"                       \<comment> \<open>\<open>VerificationKey::try_from\<close> succeeds\<close>
  ed_sign :: "256 word \<Rightarrow> bytes \<Rightarrow> 512 word"
  ed_verify :: "256 word \<Rightarrow> 512 word \<Rightarrow> bytes \<Rightarrow> bool"
  x_pk :: "256 word \<Rightarrow> 256 word"                        \<comment> \<open>X25519 public key of a secret\<close>
  x_dh :: "256 word \<Rightarrow> 256 word \<Rightarrow> 256 word"           \<comment> \<open>X25519 of a secret and a public key\<close>
  aead_seal :: "256 word \<Rightarrow> 192 word \<Rightarrow> bytes \<Rightarrow> bytes \<Rightarrow> bytes option"
  aead_open :: "256 word \<Rightarrow> 192 word \<Rightarrow> bytes \<Rightarrow> bytes \<Rightarrow> bytes option"
  keystream :: "256 word \<Rightarrow> 192 word \<Rightarrow> nat \<Rightarrow> bytes" \<comment> \<open>XChaCha20, first bytes\<close>
  equix_ok :: "256 word \<Rightarrow> bytes \<Rightarrow> bool"              \<comment> \<open>\<open>EquiX::verify_bytes\<close>\<close>
  equix_solve :: "256 word \<Rightarrow> bytes list option"        \<comment> \<open>\<open>EquiX::solve\<close>, solutions as bytes\<close>

text \<open>The documented behaviour the code relies on.\<close>

definition bcs_law :: "ext \<Rightarrow> bool" where
  "bcs_law E \<longleftrightarrow> (\<forall>v t b. map_free t \<longrightarrow> has_styp t v \<longrightarrow> bcs_enc E v = Some b \<longrightarrow> bcs_dec E t b = Some v)"

definition json_law :: "ext \<Rightarrow> bool" where
  "json_law E \<longleftrightarrow> (\<forall>v t b. map_free t \<longrightarrow> has_styp t v \<longrightarrow> json_enc E v = Some b \<longrightarrow> json_dec E t b = Some v)"

definition hex_law :: "ext \<Rightarrow> bool" where
  "hex_law E \<longleftrightarrow> (\<forall>b. hex_dec E (hex_enc E b) = Some b)"

definition b64_law :: "ext \<Rightarrow> bool" where
  "b64_law E \<longleftrightarrow> (\<forall>b. b64_dec E (b64_enc E b) = Some b)"

definition sig_law :: "ext \<Rightarrow> bool" where
  "sig_law E \<longleftrightarrow> (\<forall>sk m. ed_verify E (ed_pk E sk) (ed_sign E sk m) m) \<and> (\<forall>sk. ed_key_ok E (ed_pk E sk))"

definition dh_law :: "ext \<Rightarrow> bool" where
  "dh_law E \<longleftrightarrow> (\<forall>a b. x_dh E a (x_pk E b) = x_dh E b (x_pk E a))"

definition aead_law :: "ext \<Rightarrow> bool" where
  "aead_law E \<longleftrightarrow> (\<forall>k n m a c. aead_seal E k n m a = Some c \<longrightarrow> aead_open E k n c a = Some m)"

definition stream_law :: "ext \<Rightarrow> bool" where
  "stream_law E \<longleftrightarrow> (\<forall>k n l. length (keystream E k n l) = l)"

text \<open>A solution EquiX finds is a solution EquiX accepts, of the fixed size
  \<open>Solution::NUM_BYTES\<close>.\<close>

definition equix_bytes :: nat where "equix_bytes = 16"

definition equix_law :: "ext \<Rightarrow> bool" where
  "equix_law E \<longleftrightarrow> (\<forall>c sols. equix_solve E c = Some sols \<longrightarrow>
     (\<forall>s \<in> set sols. equix_ok E c s \<and> length s = equix_bytes))"

lemma bcs_lawD:
  "bcs_law E \<Longrightarrow> bcs_enc E v = Some b \<Longrightarrow> map_free t \<Longrightarrow> has_styp t v \<Longrightarrow> bcs_dec E t b = Some v"
  by (simp add: bcs_law_def)

lemma json_lawD:
  "json_law E \<Longrightarrow> json_enc E v = Some b \<Longrightarrow> map_free t \<Longrightarrow> has_styp t v \<Longrightarrow> json_dec E t b = Some v"
  by (simp add: json_law_def)

text \<open>\<open>bcs::from_bytes::<T>\<close> and \<open>serde_json::from_slice::<T>\<close>: the back end parses the
  shape, the type's \<open>Deserialize\<close> validates it.\<close>

definition bcs_from :: "ext \<Rightarrow> styp \<Rightarrow> (sval \<Rightarrow> 'a option) \<Rightarrow> bytes \<Rightarrow> 'a option" where
  "bcs_from E t d bs = Option.bind (bcs_dec E t bs) d"

definition json_from :: "ext \<Rightarrow> styp \<Rightarrow> (sval \<Rightarrow> 'a option) \<Rightarrow> bytes \<Rightarrow> 'a option" where
  "json_from E t d bs = Option.bind (json_dec E t bs) d"

lemma bcs_from_enc:
  "bcs_law E \<Longrightarrow> bcs_enc E v = Some b \<Longrightarrow> map_free t \<Longrightarrow> has_styp t v \<Longrightarrow> bcs_from E t d b = d v"
  by (simp add: bcs_from_def bcs_lawD)

lemma json_from_enc:
  "json_law E \<Longrightarrow> json_enc E v = Some b \<Longrightarrow> map_free t \<Longrightarrow> has_styp t v \<Longrightarrow> json_from E t d b = d v"
  by (simp add: json_from_def json_lawD)

text \<open>The sites that write \<open>bcs::to_bytes(..).expect(..)\<close> or \<open>.unwrap()\<close>: the value is
  the encoding, and the model is of the runs in which the \<open>expect\<close> does not panic (BCS
  refuses only sequences of \<open>2\<^sup>3\<^sup>1\<close> or more elements and nesting beyond 500 levels).\<close>

definition bcs_expect :: "ext \<Rightarrow> sval \<Rightarrow> bytes" where
  "bcs_expect E v = (case bcs_enc E v of Some b \<Rightarrow> b | None \<Rightarrow> [])"

lemma bcs_expect_Some [simp]: "bcs_enc E v = Some b \<Longrightarrow> bcs_expect E v = b"
  by (simp add: bcs_expect_def)

end
