(* ===== verification/Crypt.thy ===== *)
theory Crypt
  imports Libs
begin

text \<open>
  The crate \<open>nullspace-crypt\<close>: hashes and hashing of serialised values, base64 key text,
  Ed25519 keys and the \<open>Signable\<close> trait, X25519 keys and the triple Diffie-Hellman, the
  stream and AEAD keys. A key or a hash is a newtype over its byte array, as in the source. The
  trait is the locale \<open>signable\<close>: each implementation interprets it where the type is
  declared, and what is proved once in it (a value signed by a key verifies under its public key) is
  read off at every implementation.
\<close>

section \<open>Hashes\<close>

datatype hash = Hash "256 word"

primrec hash_to_bytes :: "hash \<Rightarrow> 256 word" where
  "hash_to_bytes (Hash w) = w"

instantiation hash :: linorder
begin

definition less_eq_hash :: "hash \<Rightarrow> hash \<Rightarrow> bool" where
  "less_eq_hash a b \<longleftrightarrow> hash_to_bytes a \<le> hash_to_bytes b"

definition less_hash :: "hash \<Rightarrow> hash \<Rightarrow> bool" where
  "less_hash a b \<longleftrightarrow> hash_to_bytes a < hash_to_bytes b"

instance
proof
  fix a b :: hash
  show "a \<le> b \<Longrightarrow> b \<le> a \<Longrightarrow> a = b"
    by (cases a; cases b) (simp add: less_eq_hash_def)
qed (auto simp: less_eq_hash_def less_hash_def)

end

lemma less_hash_simps [simp]:
  "Hash a \<le> Hash b \<longleftrightarrow> a \<le> b" "Hash a < Hash b \<longleftrightarrow> a < b"
  by (simp_all add: less_eq_hash_def less_hash_def)

definition zero_hash :: hash where "zero_hash = Hash 0"

definition digest :: "ext \<Rightarrow> bytes \<Rightarrow> hash" where
  "digest E msg = Hash (blake3 E msg)"

definition keyed_digest :: "ext \<Rightarrow> bytes \<Rightarrow> bytes \<Rightarrow> hash" where
  "keyed_digest E key msg = Hash (blake3_keyed E (blake3 E key) msg)"

datatype hash_parse_error = HashParseError

definition hash_display :: "ext \<Rightarrow> hash \<Rightarrow> string" where
  "hash_display E h = hex_enc E (be_bytes (hash_to_bytes h))"

definition hash_from_str :: "ext \<Rightarrow> string \<Rightarrow> hash_parse_error + hash" where
  "hash_from_str E s =
     (case hex_dec E s of
        None \<Rightarrow> Inl HashParseError
      | Some bs \<Rightarrow> if length bs \<noteq> 32 then Inl HashParseError else Inr (Hash (be_word bs)))"

primrec ser_hash :: "hash \<Rightarrow> sval" where
  "ser_hash (Hash w) = ser_bytes_arr w"

definition de_hash :: "sval \<Rightarrow> hash option" where
  "de_hash v = map_option Hash (de_bytes_arr v)"

text \<open>\<open>BcsHashExt\<close>: the hash of the BCS encoding; the text of a domain is its UTF-8 bytes.\<close>

definition str_bytes :: "string \<Rightarrow> bytes" where
  "str_bytes s = map (\<lambda>c. of_nat (of_char c)) s"

definition bcs_hash :: "ext \<Rightarrow> sval \<Rightarrow> hash" where
  "bcs_hash E v = digest E (bcs_expect E v)"

definition bcs_keyed_hash :: "ext \<Rightarrow> string \<Rightarrow> sval \<Rightarrow> hash" where
  "bcs_keyed_hash E domain v = keyed_digest E (str_bytes domain) (bcs_expect E v)"

lemma serde_hash [simp, serde]: "de_hash (ser_hash h) = Some h" "has_styp TBytes (ser_hash h)"
  by (cases h; simp add: de_hash_def)
    (cases h; simp)

lemma str_bytes_inject [simp]: "str_bytes s = str_bytes t \<longleftrightarrow> s = t"
proof -
  have "inj (\<lambda>c. of_nat (of_char c) :: u8)"
  proof (rule injI)
    fix c d :: char
    assume "(of_nat (of_char c) :: u8) = of_nat (of_char d)"
    then have "unat (of_nat (of_char c) :: u8) = unat (of_nat (of_char d) :: u8)"
      by simp
    then show "c = d"
      by (simp add: unat_of_nat)
  qed
  then show ?thesis
    by (simp add: str_bytes_def inj_map_eq_map)
qed

lemma length_str_bytes [simp]: "length (str_bytes s) = length s"
  by (simp add: str_bytes_def)

lemma hash_from_display: "hex_law E \<Longrightarrow> hash_from_str E (hash_display E h) = Inr h"
  by (cases h) (simp add: hash_from_str_def hash_display_def hex_law_def)

section \<open>Key text\<close>

datatype parse_key_error = InvalidBase64 | InvalidLength | ParseInvalidPublicKey

definition encode_32_base64 :: "ext \<Rightarrow> 256 word \<Rightarrow> string" where
  "encode_32_base64 E w = b64_enc E (be_bytes w)"

definition decode_32_base64 :: "ext \<Rightarrow> string \<Rightarrow> parse_key_error + 256 word" where
  "decode_32_base64 E s =
     (case b64_dec E s of
        None \<Rightarrow> Inl InvalidBase64
      | Some bs \<Rightarrow> if length bs \<noteq> 32 then Inl InvalidLength else Inr (be_word bs))"

lemma decode_encode_32_base64 [simp]:
  "b64_law E \<Longrightarrow> decode_32_base64 E (encode_32_base64 E w) = Inr w"
  by (simp add: decode_32_base64_def encode_32_base64_def b64_law_def)

lemma decode_32_base64_errors:
  "decode_32_base64 E s = Inl e \<longleftrightarrow>
     (e = InvalidBase64 \<and> b64_dec E s = None) \<or>
     (e = InvalidLength \<and> (\<exists>bs. b64_dec E s = Some bs \<and> length bs \<noteq> 32))"
  by (auto simp: decode_32_base64_def split: option.splits)

section \<open>Ed25519 keys and signatures\<close>

datatype signing_public = SigningPublic "256 word"
datatype signing_secret = SigningSecret "256 word"
datatype signature = Signature "512 word"

datatype signing_error = InvalidPublicKey | InvalidSignature

primrec signing_public_to_bytes :: "signing_public \<Rightarrow> 256 word" where
  "signing_public_to_bytes (SigningPublic w) = w"

definition signing_public_from_bytes :: "ext \<Rightarrow> 256 word \<Rightarrow> signing_error + signing_public" where
  "signing_public_from_bytes E w =
     (if ed_key_ok E w then Inr (SigningPublic w) else Inl InvalidPublicKey)"

primrec signature_to_bytes :: "signature \<Rightarrow> 512 word" where
  "signature_to_bytes (Signature w) = w"

definition zero_signature :: signature where "zero_signature = Signature 0"

primrec verify_sig :: "ext \<Rightarrow> signing_public \<Rightarrow> signature \<Rightarrow> bytes \<Rightarrow> signing_error + unit" where
  "verify_sig E (SigningPublic pk) sig msg =
     (if ed_verify E pk (signature_to_bytes sig) msg then Inr () else Inl InvalidSignature)"

primrec signing_secret_to_bytes :: "signing_secret \<Rightarrow> 256 word" where
  "signing_secret_to_bytes (SigningSecret sk) = sk"

primrec signing_public_key :: "ext \<Rightarrow> signing_secret \<Rightarrow> signing_public" where
  "signing_public_key E (SigningSecret sk) = SigningPublic (ed_pk E sk)"

primrec sign_bytes_with :: "ext \<Rightarrow> signing_secret \<Rightarrow> bytes \<Rightarrow> signature" where
  "sign_bytes_with E (SigningSecret sk) msg = Signature (ed_sign E sk msg)"

definition signing_public_display :: "ext \<Rightarrow> signing_public \<Rightarrow> string" where
  "signing_public_display E pk = encode_32_base64 E (signing_public_to_bytes pk)"

definition signing_public_from_str :: "ext \<Rightarrow> string \<Rightarrow> parse_key_error + signing_public" where
  "signing_public_from_str E s =
     (case decode_32_base64 E s of
        Inl e \<Rightarrow> Inl e
      | Inr w \<Rightarrow> map_err (\<lambda>_. ParseInvalidPublicKey) (signing_public_from_bytes E w))"

definition signing_secret_display :: "ext \<Rightarrow> signing_secret \<Rightarrow> string" where
  "signing_secret_display E sk = encode_32_base64 E (signing_secret_to_bytes sk)"

definition signing_secret_from_str :: "ext \<Rightarrow> string \<Rightarrow> parse_key_error + signing_secret" where
  "signing_secret_from_str E s =
     (case decode_32_base64 E s of Inl e \<Rightarrow> Inl e | Inr w \<Rightarrow> Inr (SigningSecret w))"

primrec ser_signing_public :: "signing_public \<Rightarrow> sval" where
  "ser_signing_public (SigningPublic w) = ser_bytes_arr w"

definition de_signing_public :: "ext \<Rightarrow> sval \<Rightarrow> signing_public option" where
  "de_signing_public E v =
     Option.bind (de_bytes_arr v) (\<lambda>w.
       case signing_public_from_bytes E w of Inl _ \<Rightarrow> None | Inr pk \<Rightarrow> Some pk)"

primrec ser_signing_secret :: "signing_secret \<Rightarrow> sval" where
  "ser_signing_secret (SigningSecret w) = ser_bytes_arr w"

definition de_signing_secret :: "sval \<Rightarrow> signing_secret option" where
  "de_signing_secret v = map_option SigningSecret (de_bytes_arr v)"

primrec ser_signature :: "signature \<Rightarrow> sval" where
  "ser_signature (Signature w) = ser_bytes_arr w"

definition de_signature :: "sval \<Rightarrow> signature option" where
  "de_signature v = map_option Signature (de_bytes_arr v)"

text \<open>A public key is only ever built from bytes the library accepts; \<open>pk_valid\<close> is that
  invariant of the Rust type.\<close>

definition pk_valid :: "ext \<Rightarrow> signing_public \<Rightarrow> bool" where
  "pk_valid E pk \<longleftrightarrow> ed_key_ok E (signing_public_to_bytes pk)"

lemma pk_valid_public_key [simp]: "sig_law E \<Longrightarrow> pk_valid E (signing_public_key E sk)"
  by (cases sk) (simp add: pk_valid_def sig_law_def)

lemma pk_valid_from_bytes: "signing_public_from_bytes E w = Inr pk \<Longrightarrow> pk_valid E pk"
  by (auto simp: signing_public_from_bytes_def pk_valid_def split: if_splits)

lemma pk_valid_from_str: "signing_public_from_str E s = Inr pk \<Longrightarrow> pk_valid E pk"
  by (auto simp: signing_public_from_str_def pk_valid_from_bytes split: sum.splits)

lemma serde_signing_public [simp, serde]:
  "pk_valid E pk \<Longrightarrow> de_signing_public E (ser_signing_public pk) = Some pk"
  by (cases pk) (simp add: de_signing_public_def signing_public_from_bytes_def pk_valid_def)

lemma pk_valid_de: "de_signing_public E v = Some pk \<Longrightarrow> pk_valid E pk"
  by (cases "de_bytes_arr v :: 256 word option")
    (auto simp: de_signing_public_def dest: pk_valid_from_bytes split: sum.splits)

lemma has_styp_keys [simp, serde]:
  "has_styp TBytes (ser_signing_public pk)"
  "has_styp TBytes (ser_signing_secret sk)"
  "has_styp TBytes (ser_signature sig)"
proof -
  show "has_styp TBytes (ser_signing_public pk)" by (cases pk) simp
  show "has_styp TBytes (ser_signing_secret sk)" by (cases sk) simp
  show "has_styp TBytes (ser_signature sig)" by (cases sig) simp
qed

lemma serde_signing_secret [simp, serde]: "de_signing_secret (ser_signing_secret sk) = Some sk"
  by (cases sk) (simp add: de_signing_secret_def)

lemma serde_signature [simp, serde]: "de_signature (ser_signature sig) = Some sig"
  by (cases sig) (simp add: de_signature_def)

lemma verify_own_signature [simp]:
  "sig_law E \<Longrightarrow> verify_sig E (signing_public_key E sk) (sign_bytes_with E sk m) m = Inr ()"
  by (cases sk) (simp add: sig_law_def)

lemma signing_public_text:
  "b64_law E \<Longrightarrow> signing_public_from_str E (signing_public_display E pk) =
     (if pk_valid E pk then Inr pk else Inl ParseInvalidPublicKey)"
  by (cases pk) (simp add: signing_public_from_str_def signing_public_display_def pk_valid_def
      signing_public_from_bytes_def)

lemma signing_secret_text: "b64_law E \<Longrightarrow> signing_secret_from_str E (signing_secret_display E sk) = Inr sk"
  by (cases sk) (simp add: signing_secret_from_str_def signing_secret_display_def)

section \<open>The trait \<open>Signable\<close>\<close>

text \<open>\<open>sign\<close> and \<open>verify\<close> are the trait's provided methods, written over its three required
  ones.\<close>

definition sign_with ::
  "ext \<Rightarrow> ('a \<Rightarrow> bytes) \<Rightarrow> (signature \<Rightarrow> 'a \<Rightarrow> 'a) \<Rightarrow> 'a \<Rightarrow> signing_secret \<Rightarrow> 'a" where
  "sign_with E signed_value set_signature x signer =
     set_signature (sign_bytes_with E signer (signed_value x)) x"

definition verify_with ::
  "ext \<Rightarrow> ('a \<Rightarrow> bytes) \<Rightarrow> ('a \<Rightarrow> signature) \<Rightarrow> 'a \<Rightarrow> signing_public \<Rightarrow> signing_error + unit" where
  "verify_with E signed_value get_signature x signer =
     verify_sig E signer (get_signature x) (signed_value x)"

text \<open>The contract: what is signed does not depend on the signature field, and the signature field
  reads back what was written.\<close>

locale signable =
  fixes E :: ext
    and signed_value :: "'a \<Rightarrow> bytes"
    and get_signature :: "'a \<Rightarrow> signature"
    and set_signature :: "signature \<Rightarrow> 'a \<Rightarrow> 'a"
  assumes signed_value_set: "signed_value (set_signature s x) = signed_value x"
    and get_set: "get_signature (set_signature s x) = s"
begin

lemma verify_sign:
  "sig_law E \<Longrightarrow>
     verify_with E signed_value get_signature (sign_with E signed_value set_signature x sk)
       (signing_public_key E sk) = Inr ()"
  by (simp add: verify_with_def sign_with_def signed_value_set get_set)

lemma signed_value_sign:
  "signed_value (sign_with E signed_value set_signature x sk) = signed_value x"
  by (simp add: sign_with_def signed_value_set)

lemma resign:
  "sign_with E signed_value set_signature (set_signature s x) sk =
     set_signature (sign_bytes_with E sk (signed_value x)) (set_signature s x)"
  by (simp add: sign_with_def signed_value_set)

end

section \<open>X25519 keys and the triple Diffie-Hellman\<close>

datatype dh_public = DhPublic "256 word"
datatype dh_secret = DhSecret "256 word"
datatype dh_error = InvalidSharedSecret

primrec dh_public_to_bytes :: "dh_public \<Rightarrow> 256 word" where
  "dh_public_to_bytes (DhPublic w) = w"

primrec dh_secret_to_bytes :: "dh_secret \<Rightarrow> 256 word" where
  "dh_secret_to_bytes (DhSecret w) = w"

primrec dh_public_key :: "ext \<Rightarrow> dh_secret \<Rightarrow> dh_public" where
  "dh_public_key E (DhSecret w) = DhPublic (x_pk E w)"

definition diffie_hellman :: "ext \<Rightarrow> dh_secret \<Rightarrow> dh_public \<Rightarrow> dh_error + 256 word" where
  "diffie_hellman E sk peer =
     (let ss = x_dh E (dh_secret_to_bytes sk) (dh_public_to_bytes peer)
      in if ss = 0 then Inl InvalidSharedSecret else Inr ss)"

definition triple_dh_key :: "ext \<Rightarrow> 256 word \<Rightarrow> 256 word \<Rightarrow> 256 word \<Rightarrow> 256 word" where
  "triple_dh_key E dh1 dh2 dh3 =
     hash_to_bytes (digest E (be_bytes dh1 @ be_bytes dh2 @ be_bytes dh3))"

text \<open>Rust compares the pair of byte arrays lexicographically.\<close>

definition pair_le :: "256 word \<times> 256 word \<Rightarrow> 256 word \<times> 256 word \<Rightarrow> bool" where
  "pair_le p q \<longleftrightarrow> fst p < fst q \<or> fst p = fst q \<and> snd p \<le> snd q"

definition triple_dh ::
  "ext \<Rightarrow> dh_secret \<Rightarrow> dh_secret \<Rightarrow> dh_public \<Rightarrow> dh_public \<Rightarrow> dh_error + 256 word" where
  "triple_dh E local_long_term local_ephemeral remote_long_term remote_ephemeral =
     (let local_lt_pub = dh_public_key E local_long_term;
          local_eph_pub = dh_public_key E local_ephemeral
      in case diffie_hellman E local_long_term remote_ephemeral of
           Inl e \<Rightarrow> Inl e
         | Inr dh1 \<Rightarrow>
        (case diffie_hellman E local_ephemeral remote_long_term of
           Inl e \<Rightarrow> Inl e
         | Inr dh2 \<Rightarrow>
        (case diffie_hellman E local_ephemeral remote_ephemeral of
           Inl e \<Rightarrow> Inl e
         | Inr dh3 \<Rightarrow>
           (let local_id = (dh_public_to_bytes local_lt_pub, dh_public_to_bytes local_eph_pub);
                remote_id = (dh_public_to_bytes remote_long_term, dh_public_to_bytes remote_ephemeral);
                fs = (if pair_le local_id remote_id then (dh1, dh2) else (dh2, dh1))
            in Inr (triple_dh_key E (fst fs) (snd fs) dh3)))))"

definition dh_public_display :: "ext \<Rightarrow> dh_public \<Rightarrow> string" where
  "dh_public_display E pk = encode_32_base64 E (dh_public_to_bytes pk)"

definition dh_public_from_str :: "ext \<Rightarrow> string \<Rightarrow> parse_key_error + dh_public" where
  "dh_public_from_str E s =
     (case decode_32_base64 E s of Inl e \<Rightarrow> Inl e | Inr w \<Rightarrow> Inr (DhPublic w))"

definition dh_secret_display :: "ext \<Rightarrow> dh_secret \<Rightarrow> string" where
  "dh_secret_display E sk = encode_32_base64 E (dh_secret_to_bytes sk)"

definition dh_secret_from_str :: "ext \<Rightarrow> string \<Rightarrow> parse_key_error + dh_secret" where
  "dh_secret_from_str E s =
     (case decode_32_base64 E s of Inl e \<Rightarrow> Inl e | Inr w \<Rightarrow> Inr (DhSecret w))"

primrec ser_dh_public :: "dh_public \<Rightarrow> sval" where
  "ser_dh_public (DhPublic w) = ser_bytes_arr w"

definition de_dh_public :: "sval \<Rightarrow> dh_public option" where
  "de_dh_public v = map_option DhPublic (de_bytes_arr v)"

primrec ser_dh_secret :: "dh_secret \<Rightarrow> sval" where
  "ser_dh_secret (DhSecret w) = ser_bytes_arr w"

definition de_dh_secret :: "sval \<Rightarrow> dh_secret option" where
  "de_dh_secret v = map_option DhSecret (de_bytes_arr v)"

lemma serde_dh [simp, serde]:
  "de_dh_public (ser_dh_public pk) = Some pk"
  "de_dh_secret (ser_dh_secret sk) = Some sk"
  by (cases pk; simp add: de_dh_public_def) (cases sk; simp add: de_dh_secret_def)

lemma has_styp_dh [simp, serde]:
  "has_styp TBytes (ser_dh_public pk)" "has_styp TBytes (ser_dh_secret sk)"
  by (cases pk; simp) (cases sk; simp)

lemma dh_text:
  assumes "b64_law E"
  shows "dh_public_from_str E (dh_public_display E pk) = Inr pk"
    and "dh_secret_from_str E (dh_secret_display E sk) = Inr sk"
  using assms by (cases pk; cases sk;
      simp add: dh_public_from_str_def dh_public_display_def dh_secret_from_str_def dh_secret_display_def)+

lemma diffie_hellman_agree:
  assumes "dh_law E"
  shows "diffie_hellman E a (dh_public_key E b) = diffie_hellman E b (dh_public_key E a)"
  using assms by (cases a; cases b) (simp add: diffie_hellman_def dh_law_def)

lemma diffie_hellman_nonzero: "diffie_hellman E a p = Inr ss \<Longrightarrow> ss \<noteq> 0"
  by (auto simp: diffie_hellman_def Let_def split: if_splits)

lemma pair_le_antisym: "pair_le p q \<Longrightarrow> pair_le q p \<Longrightarrow> p = q"
  by (cases p; cases q) (auto simp: pair_le_def)

lemma pair_le_total: "pair_le p q \<or> pair_le q p"
  by (auto simp: pair_le_def)

section \<open>Stream and AEAD keys\<close>

datatype stream_key = StreamKey "256 word"
datatype aead_key = AeadKey "256 word"
datatype aead_error = AeadEncrypt | AeadDecrypt

primrec stream_encrypt :: "ext \<Rightarrow> stream_key \<Rightarrow> 192 word \<Rightarrow> bytes \<Rightarrow> bytes" where
  "stream_encrypt E (StreamKey k) nonce plaintext =
     map2 (\<lambda>a b. a XOR b) plaintext (keystream E k nonce (length plaintext))"

primrec stream_decrypt :: "ext \<Rightarrow> stream_key \<Rightarrow> 192 word \<Rightarrow> bytes \<Rightarrow> bytes" where
  "stream_decrypt E (StreamKey k) nonce ciphertext =
     map2 (\<lambda>a b. a XOR b) ciphertext (keystream E k nonce (length ciphertext))"

primrec aead_key_to_bytes :: "aead_key \<Rightarrow> 256 word" where
  "aead_key_to_bytes (AeadKey k) = k"

primrec aead_encrypt :: "ext \<Rightarrow> aead_key \<Rightarrow> 192 word \<Rightarrow> bytes \<Rightarrow> bytes \<Rightarrow> aead_error + bytes" where
  "aead_encrypt E (AeadKey k) nonce plaintext aad =
     (case aead_seal E k nonce plaintext aad of None \<Rightarrow> Inl AeadEncrypt | Some c \<Rightarrow> Inr c)"

primrec aead_decrypt :: "ext \<Rightarrow> aead_key \<Rightarrow> 192 word \<Rightarrow> bytes \<Rightarrow> bytes \<Rightarrow> aead_error + bytes" where
  "aead_decrypt E (AeadKey k) nonce ciphertext aad =
     (case aead_open E k nonce ciphertext aad of None \<Rightarrow> Inl AeadDecrypt | Some m \<Rightarrow> Inr m)"

primrec ser_aead_key :: "aead_key \<Rightarrow> sval" where
  "ser_aead_key (AeadKey w) = ser_bytes_arr w"

definition de_aead_key :: "sval \<Rightarrow> aead_key option" where
  "de_aead_key v = map_option AeadKey (de_bytes_arr v)"

lemma serde_aead_key [simp, serde]:
  "de_aead_key (ser_aead_key k) = Some k" "has_styp TBytes (ser_aead_key k)"
  by (cases k; simp add: de_aead_key_def) (cases k; simp)

lemma xor_map2_involutive:
  "length xs = length ks \<Longrightarrow>
     map2 (\<lambda>a b. a XOR b) (map2 (\<lambda>a b. a XOR b) xs ks) ks = (xs :: bytes)"
  by (induction xs ks rule: list_induct2) (simp_all add: ac_simps flip: xor.assoc)

lemma stream_decrypt_encrypt [simp]:
  "stream_law E \<Longrightarrow> stream_decrypt E k n (stream_encrypt E k n m) = m"
  by (cases k) (simp add: stream_law_def xor_map2_involutive)

lemma length_stream_decrypt [simp]: "stream_law E \<Longrightarrow> length (stream_decrypt E k n c) = length c"
  by (cases k) (simp add: stream_law_def)

lemma length_stream_encrypt [simp]: "stream_law E \<Longrightarrow> length (stream_encrypt E k n c) = length c"
  by (cases k) (simp add: stream_law_def)

lemma aead_decrypt_encrypt:
  "aead_law E \<Longrightarrow> aead_encrypt E k n m a = Inr c \<Longrightarrow> aead_decrypt E k n c a = Inr m"
  by (cases k) (auto simp: aead_law_def split: option.splits)

end
