(* ===== verification/Structs.thy ===== *)
theory Structs
  imports Crypt
begin

text \<open>
  The shared types of \<open>nullspace-structs\<close>: timestamps, blobs, names and the grammar they are
  parsed against, group, mailbox and token identifiers, events and the trait \<open>EventPayload\<close>
  (the locale \<open>event_payload\<close>, interpreted on the three payload types), attachments and
  fragments.
\<close>

section \<open>Timestamps and blobs\<close>

type_synonym timestamp = u64
type_synonym nano_timestamp = u64

text \<open>\<open>NanoTimestamp::naive_date\<close>: the calendar is the library \<open>chrono\<close>, a parameter from
  seconds and nanoseconds to a date.\<close>

definition naive_date :: "(i64 \<Rightarrow> u32 \<Rightarrow> 'd option) \<Rightarrow> nano_timestamp \<Rightarrow> 'd option" where
  "naive_date from_timestamp t =
     (case i64_try_from (t div 1000000000) of
        None \<Rightarrow> None
      | Some secs \<Rightarrow> from_timestamp secs (ucast (t mod 1000000000)))"

record blob =
  blob_kind :: string
  blob_inner :: bytes

definition V1_MESSAGE_CONTENT :: string where "V1_MESSAGE_CONTENT = ''v1.message_content''"
definition V1_PLAINTEXT_DIRECT_MESSAGE :: string where
  "V1_PLAINTEXT_DIRECT_MESSAGE = ''v1.plaintext_direct_message''"
definition V1_DIRECT_MESSAGE :: string where "V1_DIRECT_MESSAGE = ''v1.direct_message''"
definition V1_GROUP_MESSAGE :: string where "V1_GROUP_MESSAGE = ''v1.group_message''"
definition V1_GROUP_REKEY :: string where "V1_GROUP_REKEY = ''v1.group_rekey''"
definition V1_USER_DESCRIPTOR :: string where "V1_USER_DESCRIPTOR = ''v1.user_descriptor''"
definition V1_SERVER_DESCRIPTOR :: string where "V1_SERVER_DESCRIPTOR = ''v1.server_descriptor''"

lemmas v1_kinds = V1_MESSAGE_CONTENT_def V1_PLAINTEXT_DIRECT_MESSAGE_def V1_DIRECT_MESSAGE_def
  V1_GROUP_MESSAGE_def V1_GROUP_REKEY_def V1_USER_DESCRIPTOR_def V1_SERVER_DESCRIPTOR_def

definition ser_blob :: "blob \<Rightarrow> sval" where
  "ser_blob b = VTup [VStr (blob_kind b), ser_vec_u8 (blob_inner b)]"

definition ty_blob :: styp where "ty_blob = TTup [TStr, TSeq TU8]"

fun de_blob :: "sval \<Rightarrow> blob option" where
  "de_blob (VTup [k, i]) =
     (case (de_str k, de_vec_u8 i) of
        (Some kind, Some inner) \<Rightarrow> Some \<lparr> blob_kind = kind, blob_inner = inner \<rparr>
      | _ \<Rightarrow> None)"
| "de_blob _ = None"

lemma serde_blob [simp, serde]:
  "de_blob (ser_blob b) = Some b" "has_styp ty_blob (ser_blob b)" "map_free ty_blob"
  by (simp_all add: ser_blob_def ty_blob_def)

section \<open>Names\<close>

definition name_char :: "char \<Rightarrow> bool" where
  "name_char c = (let n = (of_char c :: nat)
     in (65 \<le> n \<and> n \<le> 90) \<or> (97 \<le> n \<and> n \<le> 122) \<or> (48 \<le> n \<and> n \<le> 57) \<or> n = 95)"

text \<open>The patterns \<open>^@[A-Za-z0-9_]{5,15}$\<close> and \<open>^~[A-Za-z0-9_]{5,15}$\<close>.\<close>

fun name_re :: "char \<Rightarrow> string \<Rightarrow> bool" where
  "name_re sigil [] = False"
| "name_re sigil (c # s) = (c = sigil \<and> 5 \<le> length s \<and> length s \<le> 15 \<and> list_all name_char s)"

definition USERNAME_RE :: "string \<Rightarrow> bool" where "USERNAME_RE = name_re (CHR ''@'')"
definition SERVER_NAME_RE :: "string \<Rightarrow> bool" where "SERVER_NAME_RE = name_re (CHR ''~'')"

datatype username = UserName string
datatype username_error = UserNameError
datatype server_name = ServerName string
datatype server_name_error = ServerNameError

primrec username_as_str :: "username \<Rightarrow> string" where "username_as_str (UserName s) = s"
primrec server_name_as_str :: "server_name \<Rightarrow> string" where "server_name_as_str (ServerName s) = s"

definition username_parse :: "string \<Rightarrow> username_error + username" where
  "username_parse s =
     (if USERNAME_RE s then Inr (UserName s)
      else let with_at = CHR ''@'' # s
           in if USERNAME_RE with_at then Inr (UserName with_at) else Inl UserNameError)"

definition username_try_from :: "string \<Rightarrow> username_error + username" where
  "username_try_from s = (if \<not> USERNAME_RE s then Inl UserNameError else Inr (UserName s))"

definition server_name_parse :: "string \<Rightarrow> server_name_error + server_name" where
  "server_name_parse s =
     (if SERVER_NAME_RE s then Inr (ServerName s)
      else let with_tilde = CHR ''~'' # s
           in if SERVER_NAME_RE with_tilde then Inr (ServerName with_tilde) else Inl ServerNameError)"

definition server_name_try_from :: "string \<Rightarrow> server_name_error + server_name" where
  "server_name_try_from s = (if \<not> SERVER_NAME_RE s then Inl ServerNameError else Inr (ServerName s))"

text \<open>The invariant of the two private newtypes.\<close>

definition username_wf :: "username \<Rightarrow> bool" where "username_wf u \<longleftrightarrow> USERNAME_RE (username_as_str u)"
definition server_name_wf :: "server_name \<Rightarrow> bool" where
  "server_name_wf n \<longleftrightarrow> SERVER_NAME_RE (server_name_as_str n)"

primrec ser_username :: "username \<Rightarrow> sval" where "ser_username (UserName s) = VStr s"
primrec ser_server_name :: "server_name \<Rightarrow> sval" where "ser_server_name (ServerName s) = VStr s"

definition de_username :: "sval \<Rightarrow> username option" where
  "de_username v = Option.bind (de_str v) (\<lambda>s.
     case username_try_from s of Inl _ \<Rightarrow> None | Inr u \<Rightarrow> Some u)"

definition de_server_name :: "sval \<Rightarrow> server_name option" where
  "de_server_name v = Option.bind (de_str v) (\<lambda>s.
     case server_name_try_from s of Inl _ \<Rightarrow> None | Inr u \<Rightarrow> Some u)"

lemma name_re_sigil: "name_re sigil s \<Longrightarrow> \<not> name_char sigil \<Longrightarrow> \<not> name_re sigil (sigil # s)"
  by (cases s) auto

lemma at_not_name_char: "\<not> name_char (CHR ''@'')" "\<not> name_char (CHR ''~'')"
  by (simp_all add: name_char_def Let_def)

lemma username_parse_wf: "username_parse s = Inr u \<Longrightarrow> username_wf u"
  by (auto simp: username_parse_def username_wf_def Let_def split: if_splits)

lemma server_name_parse_wf: "server_name_parse s = Inr u \<Longrightarrow> server_name_wf u"
  by (auto simp: server_name_parse_def server_name_wf_def Let_def split: if_splits)

lemma username_parse_as_str: "username_wf u \<Longrightarrow> username_parse (username_as_str u) = Inr u"
  by (cases u) (simp add: username_parse_def username_wf_def)

lemma server_name_parse_as_str: "server_name_wf u \<Longrightarrow> server_name_parse (server_name_as_str u) = Inr u"
  by (cases u) (simp add: server_name_parse_def server_name_wf_def)

lemma username_parse_bare:
  "username_wf (UserName (CHR ''@'' # s)) \<Longrightarrow> username_parse s = Inr (UserName (CHR ''@'' # s))"
  by (cases s) (auto simp: username_parse_def username_wf_def USERNAME_RE_def at_not_name_char)

lemma serde_username [simp, serde]:
  "username_wf u \<Longrightarrow> de_username (ser_username u) = Some u" "has_styp TStr (ser_username u)"
  by (cases u; simp add: de_username_def username_try_from_def username_wf_def) (cases u; simp)

lemma serde_server_name [simp, serde]:
  "server_name_wf n \<Longrightarrow> de_server_name (ser_server_name n) = Some n" "has_styp TStr (ser_server_name n)"
  by (cases n; simp add: de_server_name_def server_name_try_from_def server_name_wf_def) (cases n; simp)

lemma de_username_wf: "de_username v = Some u \<Longrightarrow> username_wf u"
  by (cases "de_str v") (auto simp: de_username_def username_try_from_def username_wf_def split: if_splits)

instantiation username :: linorder
begin

definition less_eq_username :: "username \<Rightarrow> username \<Rightarrow> bool" where
  "less_eq_username a b \<longleftrightarrow> username_as_str a \<le> username_as_str b"

definition less_username :: "username \<Rightarrow> username \<Rightarrow> bool" where
  "less_username a b \<longleftrightarrow> username_as_str a < username_as_str b"

instance
proof
  fix a b :: username
  show "a \<le> b \<Longrightarrow> b \<le> a \<Longrightarrow> a = b"
    by (cases a; cases b) (simp add: less_eq_username_def)
qed (auto simp: less_eq_username_def less_username_def)

end

record user_descriptor =
  ud_server_name :: server_name
  ud_root_cert_hash :: hash

definition ser_user_descriptor :: "user_descriptor \<Rightarrow> sval" where
  "ser_user_descriptor d = VTup [ser_server_name (ud_server_name d), ser_hash (ud_root_cert_hash d)]"

definition ty_user_descriptor :: styp where "ty_user_descriptor = TTup [TStr, TBytes]"

fun de_user_descriptor :: "sval \<Rightarrow> user_descriptor option" where
  "de_user_descriptor (VTup [s, h]) =
     (case (de_server_name s, de_hash h) of
        (Some sn, Some rh) \<Rightarrow> Some \<lparr> ud_server_name = sn, ud_root_cert_hash = rh \<rparr>
      | _ \<Rightarrow> None)"
| "de_user_descriptor _ = None"

lemma serde_user_descriptor [simp, serde]:
  "server_name_wf (ud_server_name d) \<Longrightarrow> de_user_descriptor (ser_user_descriptor d) = Some d"
  "has_styp ty_user_descriptor (ser_user_descriptor d)" "map_free ty_user_descriptor"
  by (simp_all add: ser_user_descriptor_def ty_user_descriptor_def)

section \<open>Identifiers\<close>

datatype group_id = GroupId hash
datatype group_id_parse_error = GroupIdParseError
datatype mailbox_id = MailboxId hash
datatype auth_token = AuthToken "160 word"

primrec group_id_hash :: "group_id \<Rightarrow> hash" where "group_id_hash (GroupId h) = h"
primrec mailbox_id_hash :: "mailbox_id \<Rightarrow> hash" where "mailbox_id_hash (MailboxId h) = h"
primrec auth_token_to_bytes :: "auth_token \<Rightarrow> 160 word" where "auth_token_to_bytes (AuthToken w) = w"

definition group_id_as_bytes :: "group_id \<Rightarrow> 256 word" where
  "group_id_as_bytes g = hash_to_bytes (group_id_hash g)"

text \<open>\<open>format!("{byte:02x}")\<close>.\<close>

definition fmt_02x :: "u8 \<Rightarrow> string" where
  "fmt_02x b = map (\<lambda>d. ''0123456789abcdef'' ! d) [unat b div 16, unat b mod 16]"

definition group_short_id :: "group_id \<Rightarrow> string" where
  "group_short_id g = concat (map fmt_02x (take 4 (be_bytes (group_id_as_bytes g))))"

definition group_id_display :: "ext \<Rightarrow> group_id \<Rightarrow> string" where
  "group_id_display E g = hash_display E (group_id_hash g)"

definition group_id_from_str :: "ext \<Rightarrow> string \<Rightarrow> group_id_parse_error + group_id" where
  "group_id_from_str E s =
     (case map_err (\<lambda>_. GroupIdParseError) (hash_from_str E s) of Inl e \<Rightarrow> Inl e | Inr h \<Rightarrow> Inr (GroupId h))"

definition mailbox_direct :: "ext \<Rightarrow> username \<Rightarrow> mailbox_id" where
  "mailbox_direct E u = MailboxId (keyed_digest E (str_bytes ''direct-mailbox'') (str_bytes (username_as_str u)))"

definition mailbox_group_messages :: "ext \<Rightarrow> group_id \<Rightarrow> mailbox_id" where
  "mailbox_group_messages E g =
     MailboxId (keyed_digest E (str_bytes ''group-messages'') (be_bytes (group_id_as_bytes g)))"

definition mailbox_group :: "ext \<Rightarrow> group_id \<Rightarrow> mailbox_id" where
  "mailbox_group E g = mailbox_group_messages E g"

definition mailbox_group_management :: "ext \<Rightarrow> group_id \<Rightarrow> mailbox_id" where
  "mailbox_group_management E g =
     MailboxId (keyed_digest E (str_bytes ''group-management'') (be_bytes (group_id_as_bytes g)))"

definition anonymous :: auth_token where "anonymous = AuthToken 0"

primrec ser_auth_token :: "auth_token \<Rightarrow> sval" where "ser_auth_token (AuthToken w) = ser_bytes_arr w"

definition de_auth_token :: "sval \<Rightarrow> auth_token option" where
  "de_auth_token v = map_option AuthToken (de_bytes_arr v)"

lemma serde_auth_token [simp, serde]:
  "de_auth_token (ser_auth_token t) = Some t" "has_styp TBytes (ser_auth_token t)"
  by (cases t; simp add: de_auth_token_def) (cases t; simp)

lemma group_id_from_display: "hex_law E \<Longrightarrow> group_id_from_str E (group_id_display E g) = Inr g"
  by (cases g) (simp add: group_id_from_str_def group_id_display_def hash_from_display)

instantiation mailbox_id :: linorder
begin

definition less_eq_mailbox_id :: "mailbox_id \<Rightarrow> mailbox_id \<Rightarrow> bool" where
  "less_eq_mailbox_id a b \<longleftrightarrow> mailbox_id_hash a \<le> mailbox_id_hash b"

definition less_mailbox_id :: "mailbox_id \<Rightarrow> mailbox_id \<Rightarrow> bool" where
  "less_mailbox_id a b \<longleftrightarrow> mailbox_id_hash a < mailbox_id_hash b"

instance
proof
  fix a b :: mailbox_id
  show "a \<le> b \<Longrightarrow> b \<le> a \<Longrightarrow> a = b"
    by (cases a; cases b) (simp add: less_eq_mailbox_id_def)
qed (auto simp: less_eq_mailbox_id_def less_mailbox_id_def)

end

end
