(* ===== verification/Demo.thy ===== *)
theory Demo
  imports Crypt
begin

text \<open>
  One concrete instance of the crates of \<open>Libs\<close>, on which the witnesses evaluate the
  properties: a length-prefixed binary codec for the serde data model, decoded along the shape, and
  toy ciphers that satisfy the laws (a polynomial hash, a signature that is a hash under the key, a
  commutative Diffie-Hellman product). It shows that the laws the properties assume hold together;
  no property depends on it.
\<close>

section \<open>A codec for the serde data model\<close>

definition demo_len :: "nat \<Rightarrow> bytes option" where
  "demo_len n = (if int n < 65536 then Some (be_bytes (of_nat n :: 16 word)) else None)"

fun demo_all :: "bytes option list \<Rightarrow> bytes option" where
  "demo_all [] = Some []"
| "demo_all (None # xs) = None"
| "demo_all (Some b # xs) = map_option (\<lambda>r. b @ r) (demo_all xs)"

definition demo_seq :: "bytes option list \<Rightarrow> bytes option" where
  "demo_seq es = Option.bind (demo_len (length es)) (\<lambda>l. map_option (\<lambda>r. l @ r) (demo_all es))"

primrec demo_enc :: "sval \<Rightarrow> bytes option" where
  "demo_enc (VBool b) = Some [if b then 1 else 0]"
| "demo_enc (VU8 b) = Some [b]"
| "demo_enc (VU64 n) = Some (be_bytes n)"
| "demo_enc (VStr s) = map_option (\<lambda>l. l @ str_bytes s) (demo_len (length s))"
| "demo_enc (VBytes b) = map_option (\<lambda>l. l @ b) (demo_len (length b))"
| "demo_enc (VSeq vs) = demo_seq (map demo_enc vs)"
| "demo_enc (VTup vs) = demo_all (map demo_enc vs)"
| "demo_enc (VVar i v) = Option.bind (demo_len i) (\<lambda>l. map_option (\<lambda>r. l @ r) (demo_enc v))"
| "demo_enc (VOpt x) = (case map_option demo_enc x of None \<Rightarrow> Some [0] | Some e \<Rightarrow> map_option (\<lambda>r. 1 # r) e)"
| "demo_enc (VMap kvs) =
     demo_seq (map (\<lambda>(a, b). demo_all [a, b]) (map (map_prod demo_enc demo_enc) kvs))"

definition demo_unlen :: "bytes \<Rightarrow> (nat \<times> bytes) option" where
  "demo_unlen bs = (if length bs < 2 then None else Some (unat (be_word (take 2 bs) :: 16 word), drop 2 bs))"

definition demo_take :: "nat \<Rightarrow> bytes \<Rightarrow> (bytes \<times> bytes) option" where
  "demo_take n bs = (if length bs < n then None else Some (take n bs, drop n bs))"

type_synonym demo_parser = "bytes \<Rightarrow> (sval \<times> bytes) option"

fun demo_run :: "demo_parser list \<Rightarrow> bytes \<Rightarrow> (sval list \<times> bytes) option" where
  "demo_run [] bs = Some ([], bs)"
| "demo_run (p # ps) bs =
     Option.bind (p bs) (\<lambda>(v, r). map_option (\<lambda>(vs, r'). (v # vs, r')) (demo_run ps r))"

primrec demo_dec :: "styp \<Rightarrow> demo_parser" where
  "demo_dec TBool = (\<lambda>bs. map_option (\<lambda>(b, r). (VBool (b = [1]), r)) (demo_take 1 bs))"
| "demo_dec TU8 = (\<lambda>bs. map_option (\<lambda>(b, r). (VU8 (hd b), r)) (demo_take 1 bs))"
| "demo_dec TU64 = (\<lambda>bs. map_option (\<lambda>(b, r). (VU64 (be_word b), r)) (demo_take 8 bs))"
| "demo_dec TStr = (\<lambda>bs. Option.bind (demo_unlen bs) (\<lambda>(n, r).
     map_option (\<lambda>(b, r'). (VStr (map (\<lambda>x. char_of (unat x)) b), r')) (demo_take n r)))"
| "demo_dec TBytes = (\<lambda>bs. Option.bind (demo_unlen bs) (\<lambda>(n, r).
     map_option (\<lambda>(b, r'). (VBytes b, r')) (demo_take n r)))"
| "demo_dec (TSeq t) = (\<lambda>bs. Option.bind (demo_unlen bs) (\<lambda>(n, r).
     map_option (\<lambda>(vs, r'). (VSeq vs, r')) (demo_run (replicate n (demo_dec t)) r)))"
| "demo_dec (TTup ts) = (\<lambda>bs. map_option (\<lambda>(vs, r). (VTup vs, r)) (demo_run (map demo_dec ts) bs))"
| "demo_dec (TVar ts) = (\<lambda>bs. Option.bind (demo_unlen bs) (\<lambda>(i, r).
     if i < length ts then map_option (\<lambda>(v, r'). (VVar i v, r')) ((map demo_dec ts ! i) r) else None))"
| "demo_dec (TOpt t) = (\<lambda>bs. Option.bind (demo_take 1 bs) (\<lambda>(b, r).
     if b = [0] then Some (VOpt None, r)
     else map_option (\<lambda>(v, r'). (VOpt (Some v), r')) (demo_dec t r)))"
| "demo_dec (TMap k v) = (\<lambda>bs. None)"

definition demo_parse :: "styp \<Rightarrow> bytes \<Rightarrow> sval option" where
  "demo_parse t bs = (case demo_dec t bs of Some (v, []) \<Rightarrow> Some v | _ \<Rightarrow> None)"

lemma demo_unlen_len: "demo_len n = Some l \<Longrightarrow> demo_unlen (l @ r) = Some (n, r)"
  by (auto simp: demo_len_def demo_unlen_def unat_of_nat split: if_splits)

lemma demo_take_append [simp]: "length b = n \<Longrightarrow> demo_take n (b @ r) = Some (b, r)"
  by (simp add: demo_take_def)

lemma demo_all_Cons_Some:
  "demo_all (e # es) = Some b \<longleftrightarrow> (\<exists>b1 b2. e = Some b1 \<and> demo_all es = Some b2 \<and> b = b1 @ b2)"
  by (cases e) auto

lemma demo_run_all:
  assumes "length ps = length vs"
    and "\<And>i b r. i < length vs \<Longrightarrow> demo_enc (vs ! i) = Some b \<Longrightarrow> (ps ! i) (b @ r) = Some (vs ! i, r)"
    and "demo_all (map demo_enc vs) = Some b"
  shows "demo_run ps (b @ r) = Some (vs, r)"
  using assms
proof (induction ps vs arbitrary: b rule: list_induct2)
  case Nil
  then show ?case by simp
next
  case (Cons p ps v vs)
  from Cons.prems(2) obtain b1 b2 where
    b: "demo_enc v = Some b1" "demo_all (map demo_enc vs) = Some b2" "b = b1 @ b2"
    by (auto simp: demo_all_Cons_Some)
  have "\<And>i b r. i < length vs \<Longrightarrow> demo_enc (vs ! i) = Some b \<Longrightarrow> (ps ! i) (b @ r) = Some (vs ! i, r)"
    using Cons.prems(1) [of "Suc i" for i] by auto
  with Cons.IH b have "demo_run ps (b2 @ r) = Some (vs, r)" by blast
  moreover have "p (b @ r) = Some (v, b2 @ r)"
    using Cons.prems(1) [of 0] b by simp
  ultimately show ?case using b by simp
qed

lemma str_bytes_back [simp]: "map (\<lambda>x. char_of (unat x)) (str_bytes s) = s"
  by (simp add: str_bytes_def unat_of_nat o_def)

lemma matches_all_nth:
  "matches_all ps vs \<longleftrightarrow> length ps = length vs \<and> (\<forall>i < length vs. (ps ! i) (vs ! i))"
proof (induction ps vs rule: matches_all.induct)
  case (2 p ps v vs)
  then show ?case by (auto simp: nth_Cons less_Suc_eq_0_disj split: nat.split)
qed auto

lemma demo_dec_enc:
  "map_free t \<Longrightarrow> has_styp t v \<Longrightarrow> demo_enc v = Some b \<Longrightarrow> demo_dec t (b @ r) = Some (v, r)"
proof (induction t arbitrary: v b r)
  case TBool
  then show ?case by (cases v) (auto simp: demo_take_def has_styp.simps split: if_splits)
next
  case TU8
  then show ?case by (cases v) (auto simp: demo_take_def has_styp.simps)
next
  case TU64
  then show ?case by (cases v) (auto simp: has_styp.simps)
next
  case TStr
  then show ?case
    by (cases v) (auto simp: has_styp.simps demo_unlen_len)
next
  case TBytes
  then show ?case by (cases v) (auto simp: has_styp.simps demo_unlen_len)
next
  case (TSeq t)
  then obtain vs where v: "v = VSeq vs" "list_all (has_styp t) vs"
    by (cases v) (auto simp: has_styp.simps)
  from TSeq.prems v obtain l e where
    b: "demo_len (length vs) = Some l" "demo_all (map demo_enc vs) = Some e" "b = l @ e"
    by (auto simp: demo_seq_def Option.bind_eq_Some_conv)
  have "demo_run (replicate (length vs) (demo_dec t)) (e @ r) = Some (vs, r)"
    using TSeq v b by (intro demo_run_all) (auto simp: list_all_length)
  with b v show ?case by (simp add: demo_unlen_len)
next
  case (TTup ts)
  then obtain vs where v: "v = VTup vs" "matches_all (map has_styp ts) vs"
    by (cases v) (auto simp: has_styp.simps)
  then have len: "length ts = length vs" and ok: "\<forall>i < length vs. has_styp (ts ! i) (vs ! i)"
    by (auto simp: matches_all_nth)
  have "demo_run (map demo_dec ts) (b @ r) = Some (vs, r)"
    using TTup len ok v by (intro demo_run_all) auto
  with v show ?case by simp
next
  case (TVar ts)
  then obtain i w where v: "v = VVar i w" "i < length ts" "has_styp (ts ! i) w"
    by (cases v) (auto simp: has_styp.simps)
  with TVar.prems obtain l e where b: "demo_len i = Some l" "demo_enc w = Some e" "b = l @ e"
    by (auto simp: Option.bind_eq_Some_conv)
  have "demo_dec (ts ! i) (e @ r) = Some (w, r)"
    using TVar v b by auto
  with b v show ?case by (simp add: demo_unlen_len)
next
  case (TOpt t)
  then obtain x where v: "v = VOpt x"
    by (cases v) (auto simp: has_styp.simps)
  show ?case
  proof (cases x)
    case None
    with v TOpt.prems show ?thesis by (auto simp: demo_take_def)
  next
    case (Some w)
    with v TOpt.prems obtain e where "demo_enc w = Some e" "b = 1 # e" by auto
    with v Some TOpt show ?thesis by (auto simp: demo_take_def)
  qed
next
  case (TMap k w)
  then show ?case by simp
qed

lemma demo_parse_enc:
  "map_free t \<Longrightarrow> has_styp t v \<Longrightarrow> demo_enc v = Some b \<Longrightarrow> demo_parse t b = Some v"
  using demo_dec_enc [of t v b "[]"] by (simp add: demo_parse_def)

section \<open>Text codecs and toy ciphers\<close>

definition demo_hex :: "bytes \<Rightarrow> string" where
  "demo_hex bs = concat (map (\<lambda>b. [''0123456789abcdef'' ! (unat b div 16), ''0123456789abcdef'' ! (unat b mod 16)]) bs)"

definition hex_val :: "char \<Rightarrow> nat option" where
  "hex_val c = find (\<lambda>i. ''0123456789abcdef'' ! i = c) [0..<16]"

fun demo_unhex :: "string \<Rightarrow> bytes option" where
  "demo_unhex [] = Some []"
| "demo_unhex [c] = None"
| "demo_unhex (c # d # s) =
     (case (hex_val c, hex_val d, demo_unhex s) of
        (Some h, Some l, Some bs) \<Rightarrow> Some (of_nat (16 * h + l) # bs)
      | _ \<Rightarrow> None)"

definition demo_hash :: "bytes \<Rightarrow> 256 word" where
  "demo_hash bs = word_of_int (foldl (\<lambda>h b. (h * 31 + uint b + 1) mod 65521) 7 bs)"

definition demo_sign :: "256 word \<Rightarrow> bytes \<Rightarrow> 512 word" where
  "demo_sign sk m = ucast sk * 65536 + ucast (demo_hash m)"

definition demo_tag :: "256 word \<Rightarrow> 192 word \<Rightarrow> bytes \<Rightarrow> bytes" where
  "demo_tag k n a = be_bytes k @ [ucast n, ucast (demo_hash a)]"

definition demo_open :: "256 word \<Rightarrow> 192 word \<Rightarrow> bytes \<Rightarrow> bytes \<Rightarrow> bytes option" where
  "demo_open k n c a =
     (if take 34 c = demo_tag k n a then Some (drop 34 c) else None)"

definition demo_keyed :: "256 word \<Rightarrow> bytes \<Rightarrow> 256 word" where "demo_keyed k m = k * 3 + demo_hash m"
definition demo_ed_pk :: "256 word \<Rightarrow> 256 word" where "demo_ed_pk sk = sk"
definition demo_key_ok :: "256 word \<Rightarrow> bool" where "demo_key_ok pk = True"
definition demo_verify :: "256 word \<Rightarrow> 512 word \<Rightarrow> bytes \<Rightarrow> bool" where
  "demo_verify pk sig m \<longleftrightarrow> sig = demo_sign pk m"
definition demo_x_pk :: "256 word \<Rightarrow> 256 word" where "demo_x_pk a = a * 9"
definition demo_x_dh :: "256 word \<Rightarrow> 256 word \<Rightarrow> 256 word" where "demo_x_dh a p = a * p"
definition demo_seal :: "256 word \<Rightarrow> 192 word \<Rightarrow> bytes \<Rightarrow> bytes \<Rightarrow> bytes option" where
  "demo_seal k n m a = Some (demo_tag k n a @ m)"
definition demo_keystream :: "256 word \<Rightarrow> 192 word \<Rightarrow> nat \<Rightarrow> bytes" where
  "demo_keystream k n l = replicate l (ucast k)"
definition demo_equix_ok :: "256 word \<Rightarrow> bytes \<Rightarrow> bool" where "demo_equix_ok c s \<longleftrightarrow> s = ucast c # replicate 15 0"
definition demo_equix_solve :: "256 word \<Rightarrow> bytes list option" where
  "demo_equix_solve c = Some [ucast c # replicate 15 0]"

definition demo_ext :: ext where
  "demo_ext = \<lparr>
     blake3 = demo_hash, blake3_keyed = demo_keyed,
     bcs_enc = demo_enc, bcs_dec = demo_parse, json_enc = demo_enc, json_dec = demo_parse,
     hex_enc = demo_hex, hex_dec = demo_unhex, b64_enc = demo_hex, b64_dec = demo_unhex,
     ed_pk = demo_ed_pk, ed_key_ok = demo_key_ok, ed_sign = demo_sign, ed_verify = demo_verify,
     x_pk = demo_x_pk, x_dh = demo_x_dh, aead_seal = demo_seal, aead_open = demo_open,
     keystream = demo_keystream, equix_ok = demo_equix_ok, equix_solve = demo_equix_solve \<rparr>"

lemma demo_unhex_hex: "demo_unhex (demo_hex bs) = Some bs"
proof (induction bs)
  case Nil
  show ?case by (simp add: demo_hex_def)
next
  case (Cons b bs)
  have digit: "hex_val (''0123456789abcdef'' ! i) = Some i" if "i < 16" for i
  proof -
    have "\<forall>i < 16. hex_val (''0123456789abcdef'' ! i) = Some i"
      unfolding hex_val_def by code_simp
    with that show ?thesis by blast
  qed
  have "unat b < 256" using unsigned_less [where 'a = nat, of b] by simp
  then have "unat b div 16 < 16" "unat b mod 16 < 16" by auto
  moreover have "16 * (unat b div 16) + unat b mod 16 = unat b" by simp
  ultimately show ?case
    using Cons.IH digit by (simp add: demo_hex_def del: mult_div_mod_eq div_mult_mod_eq)
qed

lemma demo_laws [simp]:
  "bcs_law demo_ext" "json_law demo_ext" "hex_law demo_ext" "b64_law demo_ext" "sig_law demo_ext"
  "dh_law demo_ext" "aead_law demo_ext" "stream_law demo_ext" "equix_law demo_ext"
  by (simp_all add: demo_ext_def bcs_law_def json_law_def hex_law_def b64_law_def sig_law_def
      dh_law_def aead_law_def stream_law_def demo_parse_enc demo_unhex_hex demo_open_def demo_seal_def
      demo_tag_def demo_ed_pk_def demo_verify_def demo_key_ok_def demo_x_pk_def demo_x_dh_def
      demo_keystream_def equix_law_def
      demo_equix_solve_def demo_equix_ok_def equix_bytes_def ac_simps)

end
