(* ===== verification/Certificate.thy ===== *)
theory Certificate
  imports Structs Demo
begin

text \<open>
  Device certificates and certificate chains (\<open>nullspace-structs/src/certificate.rs\<close>): issuing,
  and \<open>CertificateChain::verify\<close> with its two loops, the scan that takes out the trusted root's
  certificates and the passes that take out every certificate signed by an already trusted issuer
  until a pass makes no progress. The specification is the inductive set \<open>issuer\<close> of the keys
  that may issue; the loops are proved to compute exactly what it says.
\<close>

section \<open>Certificates\<close>

text \<open>\<open>DevicePublic\<close> and \<open>DeviceSecret\<close> are transparent newtypes that dereference to the
  signing keys.\<close>

type_synonym device_public = signing_public
type_synonym device_secret = signing_secret

record device_certificate =
  cert_pk :: device_public
  cert_expiry :: timestamp
  cert_can_issue :: bool
  cert_signature :: signature

record certificate_chain =
  chain_ancestors :: "device_certificate list"
  chain_this :: device_certificate

definition cert_signed_value :: "ext \<Rightarrow> device_certificate \<Rightarrow> bytes" where
  "cert_signed_value E c =
     bcs_expect E (VTup [ser_signing_public (cert_pk c), VU64 (cert_expiry c), VBool (cert_can_issue c)])"

definition set_cert_signature :: "signature \<Rightarrow> device_certificate \<Rightarrow> device_certificate" where
  "set_cert_signature s c = c \<lparr> cert_signature := s \<rparr>"

interpretation cert_signable: signable E "cert_signed_value E" cert_signature set_cert_signature for E
  by unfold_locales (simp_all add: cert_signed_value_def set_cert_signature_def)

definition cert_sign :: "ext \<Rightarrow> device_certificate \<Rightarrow> signing_secret \<Rightarrow> device_certificate" where
  "cert_sign E = sign_with E (cert_signed_value E) set_cert_signature"

definition cert_verify :: "ext \<Rightarrow> device_certificate \<Rightarrow> signing_public \<Rightarrow> signing_error + unit" where
  "cert_verify E = verify_with E (cert_signed_value E) cert_signature"

definition self_signed :: "ext \<Rightarrow> device_secret \<Rightarrow> timestamp \<Rightarrow> bool \<Rightarrow> device_certificate" where
  "self_signed E sk expiry can_issue =
     cert_sign E \<lparr> cert_pk = signing_public_key E sk, cert_expiry = expiry,
       cert_can_issue = can_issue, cert_signature = zero_signature \<rparr> sk"

definition issue_certificate ::
  "ext \<Rightarrow> device_secret \<Rightarrow> device_public \<Rightarrow> timestamp \<Rightarrow> bool \<Rightarrow> device_certificate" where
  "issue_certificate E sk subject expiry can_issue =
     cert_sign E \<lparr> cert_pk = subject, cert_expiry = expiry,
       cert_can_issue = can_issue, cert_signature = zero_signature \<rparr> sk"

definition chain_certs :: "certificate_chain \<Rightarrow> device_certificate list" where
  "chain_certs ch = chain_ancestors ch @ [chain_this ch]"

definition last_device :: "certificate_chain \<Rightarrow> device_certificate" where
  "last_device ch = chain_this ch"

definition ser_cert :: "device_certificate \<Rightarrow> sval" where
  "ser_cert c = VTup [ser_signing_public (cert_pk c), VU64 (cert_expiry c), VBool (cert_can_issue c),
     ser_signature (cert_signature c)]"

definition ty_cert :: styp where "ty_cert = TTup [TBytes, TU64, TBool, TBytes]"

fun de_cert :: "ext \<Rightarrow> sval \<Rightarrow> device_certificate option" where
  "de_cert E (VTup [p, e, i, s]) =
     (case (de_signing_public E p, de_u64 e, de_bool i, de_signature s) of
        (Some pk, Some expiry, Some can_issue, Some sig) \<Rightarrow>
          Some \<lparr> cert_pk = pk, cert_expiry = expiry, cert_can_issue = can_issue, cert_signature = sig \<rparr>
      | _ \<Rightarrow> None)"
| "de_cert E _ = None"

definition ser_chain :: "certificate_chain \<Rightarrow> sval" where
  "ser_chain ch = VTup [VSeq (map ser_cert (chain_ancestors ch)), ser_cert (chain_this ch)]"

definition ty_chain :: styp where "ty_chain = TTup [TSeq ty_cert, ty_cert]"

fun de_chain :: "ext \<Rightarrow> sval \<Rightarrow> certificate_chain option" where
  "de_chain E (VTup [a, t]) =
     (case (de_seq (de_cert E) a, de_cert E t) of
        (Some as, Some this) \<Rightarrow> Some \<lparr> chain_ancestors = as, chain_this = this \<rparr>
      | _ \<Rightarrow> None)"
| "de_chain E _ = None"

definition chain_wf :: "ext \<Rightarrow> certificate_chain \<Rightarrow> bool" where
  "chain_wf E ch \<longleftrightarrow> list_all (\<lambda>c. pk_valid E (cert_pk c)) (chain_certs ch)"

lemma serde_cert [simp, serde]:
  "pk_valid E (cert_pk c) \<Longrightarrow> de_cert E (ser_cert c) = Some c"
  "has_styp ty_cert (ser_cert c)" "map_free ty_cert"
  by (simp_all add: ser_cert_def ty_cert_def)

lemma serde_chain [simp, serde]:
  "chain_wf E ch \<Longrightarrow> de_chain E (ser_chain ch) = Some ch"
  "has_styp ty_chain (ser_chain ch)" "map_free ty_chain"
  by (simp_all add: ser_chain_def ty_chain_def chain_wf_def chain_certs_def list_all_iff)

lemma de_cert_valid: "de_cert E v = Some c \<Longrightarrow> pk_valid E (cert_pk c)"
  by (cases "(E, v)" rule: de_cert.cases) (auto split: option.splits dest: pk_valid_de)

lemma de_chain_wf:
  assumes "de_chain E v = Some ch"
  shows "chain_wf E ch"
proof -
  obtain a t as this where v: "de_seq (de_cert E) a = Some as" "de_cert E t = Some this"
    and ch: "ch = \<lparr> chain_ancestors = as, chain_this = this \<rparr>"
    using assms by (cases "(E, v)" rule: de_chain.cases) (auto split: option.splits)
  from v(1) have "list_all (\<lambda>c. pk_valid E (cert_pk c)) as"
    by (cases a) (auto elim: de_list_all intro: de_cert_valid)
  with v(2) show ?thesis by (simp add: ch chain_wf_def chain_certs_def de_cert_valid)
qed

section \<open>Chain verification\<close>

definition is_root :: "ext \<Rightarrow> hash \<Rightarrow> device_certificate \<Rightarrow> bool" where
  "is_root E trusted c \<longleftrightarrow> bcs_hash E (ser_signing_public (cert_pk c)) = trusted"

text \<open>The first loop. \<open>pending.remove(idx)\<close> without advancing \<open>idx\<close> is the recursion that
  drops the head; \<open>idx += 1\<close> keeps it. The state is the trusted signers, \<open>trusted_root_found\<close>
  and \<open>this_verified\<close>.\<close>

type_synonym chain_state = "signing_public list \<times> bool \<times> bool"

fun root_scan ::
  "ext \<Rightarrow> hash \<Rightarrow> timestamp \<Rightarrow> device_certificate \<Rightarrow> device_certificate list \<Rightarrow> chain_state
    \<Rightarrow> anyhow + (device_certificate list \<times> chain_state)" where
  "root_scan E trusted now this [] st = Inr ([], st)"
| "root_scan E trusted now this (c # cs) (signers, found, verified) =
     (if is_root E trusted c then
        (case cert_verify E c (cert_pk c) of
           Inl _ \<Rightarrow> Inl ''signature verification failed''
         | Inr _ \<Rightarrow>
             root_scan E trusted now this cs
               (if cert_expiry c > now
                then (if cert_can_issue c then signers @ [cert_pk c] else signers, True,
                      verified \<or> c = this)
                else (signers, found, verified)))
      else
        (case root_scan E trusted now this cs (signers, found, verified) of
           Inl e \<Rightarrow> Inl e
         | Inr (rest, st) \<Rightarrow> Inr (c # rest, st)))"

text \<open>One pass of the second loop's inner \<open>while\<close>; the last component is \<open>progress\<close>.\<close>

fun issue_pass ::
  "ext \<Rightarrow> timestamp \<Rightarrow> device_certificate \<Rightarrow> device_certificate list \<Rightarrow> signing_public list \<Rightarrow> bool
    \<Rightarrow> device_certificate list \<times> signing_public list \<times> bool \<times> bool" where
  "issue_pass E now this [] signers verified = ([], signers, verified, False)"
| "issue_pass E now this (c # cs) signers verified =
     (if \<not> list_ex (\<lambda>pk. is_ok (cert_verify E c pk)) signers then
        (let (rest, signers', verified', progress) = issue_pass E now this cs signers verified
         in (c # rest, signers', verified', progress))
      else
        (let (rest, signers', verified', progress) =
           (if cert_expiry c > now
            then issue_pass E now this cs (if cert_can_issue c then signers @ [cert_pk c] else signers)
                   (verified \<or> c = this)
            else issue_pass E now this cs signers verified)
         in (rest, signers', verified', True)))"

lemma issue_pass_length:
  "issue_pass E now this cs S V = (cs', S', V', progress) \<Longrightarrow>
     length cs' \<le> length cs \<and> (progress \<longrightarrow> length cs' < length cs)"
proof (induction cs arbitrary: S V cs' S' V' progress)
  case Nil
  then show ?case by simp
next
  case (Cons c cs)
  then show ?case
    by (fastforce split: if_splits prod.splits)
qed

function issue_loop ::
  "ext \<Rightarrow> timestamp \<Rightarrow> device_certificate \<Rightarrow> device_certificate list \<Rightarrow> signing_public list \<Rightarrow> bool
    \<Rightarrow> device_certificate list \<times> signing_public list \<times> bool" where
  "issue_loop E now this pending signers verified =
     (if pending = [] then (pending, signers, verified)
      else case issue_pass E now this pending signers verified of
        (pending', signers', verified', progress) \<Rightarrow>
          if progress then issue_loop E now this pending' signers' verified'
          else (pending', signers', verified'))"
  by pat_completeness auto
termination
  by (relation "measure (\<lambda>(E, now, this, pending, signers, verified). length pending)")
    (simp, simp, metis issue_pass_length)

declare issue_loop.simps [simp del]

definition chain_verify :: "ext \<Rightarrow> timestamp \<Rightarrow> certificate_chain \<Rightarrow> hash \<Rightarrow> anyhow + unit" where
  "chain_verify E now chain trusted_pk_hash =
     (let this = chain_this chain;
          pending = chain_ancestors chain @ [this]
      in case root_scan E trusted_pk_hash now this pending ([], False, False) of
           Inl e \<Rightarrow> Inl e
         | Inr (pending, signers, trusted_root_found, this_verified) \<Rightarrow>
             if \<not> trusted_root_found then Inl ''certificate chain does not include trusted root''
             else
               (case issue_loop E now this pending signers this_verified of
                  (pending, signers, this_verified) \<Rightarrow>
                    if pending \<noteq> [] then Inl ''certificate chain contains unverifiable entries''
                    else if \<not> this_verified
                      then Inl ''certificate chain does not authenticate leaf device''
                    else Inr ()))"

section \<open>What the chain loops compute\<close>

text \<open>Which keys may issue, for a list of certificates: the key of a fresh, issuing root certificate, and
  the key of a fresh, issuing certificate signed by a key that may issue.\<close>

definition fresh :: "timestamp \<Rightarrow> device_certificate \<Rightarrow> bool" where
  "fresh now c \<longleftrightarrow> cert_expiry c > now"

definition signed_by :: "ext \<Rightarrow> signing_public \<Rightarrow> device_certificate \<Rightarrow> bool" where
  "signed_by E pk c \<longleftrightarrow> is_ok (cert_verify E c pk)"

inductive_set issuer ::
  "ext \<Rightarrow> hash \<Rightarrow> timestamp \<Rightarrow> device_certificate list \<Rightarrow> signing_public set"
  for E :: ext and trusted :: hash and now :: timestamp and cs :: "device_certificate list" where
  root: "c \<in> set cs \<Longrightarrow> is_root E trusted c \<Longrightarrow> signed_by E (cert_pk c) c \<Longrightarrow> fresh now c \<Longrightarrow>
    cert_can_issue c \<Longrightarrow> cert_pk c \<in> issuer E trusted now cs"
| issued: "c \<in> set cs \<Longrightarrow> \<not> is_root E trusted c \<Longrightarrow> pk \<in> issuer E trusted now cs \<Longrightarrow>
    signed_by E pk c \<Longrightarrow> fresh now c \<Longrightarrow> cert_can_issue c \<Longrightarrow> cert_pk c \<in> issuer E trusted now cs"

text \<open>What \<open>verify\<close> promises.\<close>

definition chain_ok :: "ext \<Rightarrow> timestamp \<Rightarrow> certificate_chain \<Rightarrow> hash \<Rightarrow> bool" where
  "chain_ok E now chain trusted \<longleftrightarrow>
     (let cs = chain_certs chain in
       (\<forall>c \<in> set cs. is_root E trusted c \<longrightarrow> signed_by E (cert_pk c) c) \<and>
       (\<exists>c \<in> set cs. is_root E trusted c \<and> fresh now c) \<and>
       (\<forall>c \<in> set cs. \<not> is_root E trusted c \<longrightarrow> (\<exists>pk \<in> issuer E trusted now cs. signed_by E pk c)) \<and>
       fresh now (chain_this chain))"

lemma root_scan_spec:
  "root_scan E trusted now this cs (S, F, V) =
     (if \<forall>c \<in> set cs. is_root E trusted c \<longrightarrow> signed_by E (cert_pk c) c
      then Inr (filter (\<lambda>c. \<not> is_root E trusted c) cs,
        S @ map cert_pk (filter (\<lambda>c. is_root E trusted c \<and> fresh now c \<and> cert_can_issue c) cs),
        F \<or> (\<exists>c \<in> set cs. is_root E trusted c \<and> fresh now c),
        V \<or> (\<exists>c \<in> set cs. is_root E trusted c \<and> fresh now c \<and> c = this))
      else Inl ''signature verification failed'')"
proof (induction cs arbitrary: S F V)
  case Nil
  show ?case by simp
next
  case (Cons c cs)
  then show ?case
    by (cases "cert_verify E c (cert_pk c)") (auto simp: signed_by_def fresh_def)
qed

lemma issue_pass_spec:
  assumes "issue_pass E now this cs S V = (cs', S', V', progress)"
  shows "set S \<subseteq> set S' \<and> set cs' \<subseteq> set cs \<and> (V \<longrightarrow> V')
    \<and> (\<not> progress \<longrightarrow> S' = S \<and> V' = V \<and> cs' = cs \<and> (\<forall>c \<in> set cs. \<forall>pk \<in> set S. \<not> signed_by E pk c))
    \<and> (\<forall>c \<in> set cs - set cs'. (\<exists>pk \<in> set S'. signed_by E pk c)
         \<and> (fresh now c \<and> cert_can_issue c \<longrightarrow> cert_pk c \<in> set S'))
    \<and> (fresh now this \<and> this \<in> set cs - set cs' \<longrightarrow> V')
    \<and> (V' \<longrightarrow> V \<or> this \<in> set cs \<and> fresh now this)"
  using assms
proof (induction cs arbitrary: S V cs' S' V' progress)
  case Nil
  then show ?case by simp
next
  case (Cons c cs)
  let ?sgn = "list_ex (\<lambda>pk. is_ok (cert_verify E c pk)) S"
  let ?S = "if cert_expiry c > now \<and> cert_can_issue c then S @ [cert_pk c] else S"
  let ?V = "if cert_expiry c > now then V \<or> c = this else V"
  show ?case
  proof (cases ?sgn)
    case False
    then obtain r where "issue_pass E now this cs S V = (r, S', V', progress)" "cs' = c # r"
      using Cons.prems by (auto split: prod.splits)
    with Cons.IH [OF this(1)] False show ?thesis
      by (auto simp: list_ex_iff signed_by_def)
  next
    case True
    then obtain p where p: "issue_pass E now this cs ?S ?V = (cs', S', V', p)" "progress"
      using Cons.prems by (auto split: prod.splits if_splits)
    from True obtain pk where pk: "pk \<in> set S" "signed_by E pk c"
      by (auto simp: list_ex_iff signed_by_def)
    show ?thesis
      using Cons.IH [OF p(1)] p(2) pk by (auto simp: fresh_def split: if_splits)
  qed
qed

lemma issue_pass_stuck:
  assumes "issue_pass E now this cs S V = (cs', S', V', False)"
  shows "S' = S \<and> V' = V \<and> cs' = cs \<and> (\<forall>c \<in> set cs. \<forall>pk \<in> set S. \<not> signed_by E pk c)"
proof -
  have "\<not> False \<longrightarrow> S' = S \<and> V' = V \<and> cs' = cs \<and> (\<forall>c \<in> set cs. \<forall>pk \<in> set S. \<not> signed_by E pk c)"
    using issue_pass_spec [OF assms] by (elim conjE)
  then show ?thesis by simp
qed

lemma issue_loop_spec:
  assumes "issue_loop E now this cs S V = (cs', S', V')"
  shows "set S \<subseteq> set S' \<and> set cs' \<subseteq> set cs \<and> (V \<longrightarrow> V')
    \<and> (\<forall>c \<in> set cs'. \<forall>pk \<in> set S'. \<not> signed_by E pk c)
    \<and> (\<forall>c \<in> set cs - set cs'. (\<exists>pk \<in> set S'. signed_by E pk c)
         \<and> (fresh now c \<and> cert_can_issue c \<longrightarrow> cert_pk c \<in> set S'))
    \<and> (fresh now this \<and> this \<in> set cs - set cs' \<longrightarrow> V')
    \<and> (V' \<longrightarrow> V \<or> this \<in> set cs \<and> fresh now this)"
  using assms
proof (induction E now this cs S V arbitrary: cs' S' V' rule: issue_loop.induct)
  case (1 E now this cs S V)
  show ?case
  proof (cases "cs = []")
    case True
    with "1.prems" show ?thesis by (simp add: issue_loop.simps)
  next
    case False
    obtain r S1 V1 p where pass: "issue_pass E now this cs S V = (r, S1, V1, p)"
      by (metis prod_cases4)
    note spec = issue_pass_spec [OF pass]
    show ?thesis
    proof (cases p)
      case False
      with "1.prems" \<open>cs \<noteq> []\<close> pass have "cs' = r" "S' = S1" "V' = V1"
        by (simp_all add: issue_loop.simps [of E now this cs])
      with issue_pass_stuck [of E now this cs S V r S1 V1] pass False show ?thesis by auto
    next
      case True
      with "1.prems" False pass have loop: "issue_loop E now this r S1 V1 = (cs', S', V')"
        by (simp add: issue_loop.simps [of E now this cs])
      note ih = "1.IH" [OF False pass [symmetric] refl refl True loop]
      have sub: "set S1 \<subseteq> set S'" "set r \<subseteq> set cs" using spec ih by simp_all
      have "(\<exists>pk \<in> set S'. signed_by E pk c) \<and> (fresh now c \<and> cert_can_issue c \<longrightarrow> cert_pk c \<in> set S')"
        if "c \<in> set cs - set cs'" for c
      proof (cases "c \<in> set r")
        case True
        with ih that show ?thesis by simp
      next
        case False
        with spec that have "(\<exists>pk \<in> set S1. signed_by E pk c)
          \<and> (fresh now c \<and> cert_can_issue c \<longrightarrow> cert_pk c \<in> set S1)"
          by simp
        with sub show ?thesis by blast
      qed
      moreover have "fresh now this \<and> this \<in> set cs - set cs' \<longrightarrow> V'"
        using spec ih by (cases "this \<in> set r") simp_all
      moreover have "set S \<subseteq> set S'" "set cs' \<subseteq> set cs" "V \<longrightarrow> V'"
        "V' \<longrightarrow> V \<or> this \<in> set cs \<and> fresh now this"
        using spec ih sub by simp_all blast+
      ultimately show ?thesis using ih by simp
    qed
  qed
qed

text \<open>Soundness of the signers: the loops add only keys that may issue.\<close>

lemma issue_pass_sound:
  assumes "issue_pass E now this ps S V = (ps', S', V', progress)"
    and "set ps \<subseteq> {c \<in> set cs. \<not> is_root E trusted c}"
    and "set S \<subseteq> issuer E trusted now cs"
  shows "set S' \<subseteq> issuer E trusted now cs"
  using assms
proof (induction ps arbitrary: S V ps' S' V' progress)
  case Nil
  then show ?case by simp
next
  case (Cons c ps)
  show ?case
  proof (cases "list_ex (\<lambda>pk. is_ok (cert_verify E c pk)) S")
    case False
    then obtain r where "issue_pass E now this ps S V = (r, S', V', progress)"
      using Cons.prems by (auto split: prod.splits)
    with Cons.IH [OF this] Cons.prems show ?thesis by simp
  next
    case True
    let ?S = "if cert_expiry c > now \<and> cert_can_issue c then S @ [cert_pk c] else S"
    let ?V = "if cert_expiry c > now then V \<or> c = this else V"
    from True Cons.prems obtain p where p: "issue_pass E now this ps ?S ?V = (ps', S', V', p)"
      by (auto split: prod.splits if_splits)
    from True obtain pk where "pk \<in> set S" "signed_by E pk c"
      by (auto simp: list_ex_iff signed_by_def)
    with Cons.prems have "set ?S \<subseteq> issuer E trusted now cs"
      by (auto simp: fresh_def intro: issuer.issued)
    with Cons.IH [OF p] Cons.prems show ?thesis by simp
  qed
qed

lemma issue_loop_sound:
  assumes "issue_loop E now this ps S V = (ps', S', V')"
    and "set ps \<subseteq> {c \<in> set cs. \<not> is_root E trusted c}"
    and "set S \<subseteq> issuer E trusted now cs"
  shows "set S' \<subseteq> issuer E trusted now cs"
  using assms
proof (induction E now this ps S V arbitrary: ps' S' V' rule: issue_loop.induct)
  case (1 E now this ps S V)
  obtain r S1 V1 p where pass: "issue_pass E now this ps S V = (r, S1, V1, p)"
    by (metis prod_cases4)
  note sound = issue_pass_sound [OF pass "1.prems"(2,3)]
  have sub: "set r \<subseteq> {c \<in> set cs. \<not> is_root E trusted c}"
    using issue_pass_spec [OF pass] "1.prems"(2) by blast
  show ?case
  proof (cases "ps \<noteq> [] \<and> p")
    case True
    with "1.prems" pass have loop: "issue_loop E now this r S1 V1 = (ps', S', V')"
      by (simp add: issue_loop.simps [of E now this ps])
    from True show ?thesis
      by (intro "1.IH" [OF _ pass [symmetric] refl refl _ loop sub sound]) simp_all
  next
    case False
    with "1.prems" pass sound show ?thesis
      by (auto simp: issue_loop.simps [of E now this ps] split: if_splits)
  qed
qed

text \<open>Completeness: at the fixed point every key that may issue is a signer, unless a certificate
  in the way is left over.\<close>

lemma issuers_trusted:
  assumes loop: "issue_loop E now this (filter (\<lambda>c. \<not> is_root E trusted c) cs)
      (map cert_pk (filter (\<lambda>c. is_root E trusted c \<and> fresh now c \<and> cert_can_issue c) cs)) V = (ps', S', V')"
    and pk: "pk \<in> issuer E trusted now cs"
  shows "pk \<in> set S'"
  using pk
proof (induction rule: issuer.induct)
  case (root c)
  then show ?case using issue_loop_spec [OF loop] by auto
next
  case (issued c pk)
  then have "c \<notin> set ps'" using issue_loop_spec [OF loop] by blast
  with issued show ?case using issue_loop_spec [OF loop] by auto
qed

text \<open>What the second loop leaves, started on what the first hands over.\<close>

lemma issue_loop_result:
  fixes E now trusted cs this
  defines "V \<equiv> \<exists>c \<in> set cs. is_root E trusted c \<and> fresh now c \<and> c = this"
  assumes loop: "issue_loop E now this (filter (\<lambda>c. \<not> is_root E trusted c) cs)
      (map cert_pk (filter (\<lambda>c. is_root E trusted c \<and> fresh now c \<and> cert_can_issue c) cs)) V = (ps', S', V')"
    and roots: "\<forall>c \<in> set cs. is_root E trusted c \<longrightarrow> signed_by E (cert_pk c) c" and this_in: "this \<in> set cs"
  shows "set S' = issuer E trusted now cs"
    and "ps' = [] \<longleftrightarrow> (\<forall>c \<in> set cs. \<not> is_root E trusted c \<longrightarrow> (\<exists>pk \<in> set S'. signed_by E pk c))"
    and "ps' = [] \<Longrightarrow> V' \<longleftrightarrow> fresh now this"
proof -
  note spec = issue_loop_spec [OF loop]
  have "set (map cert_pk (filter (\<lambda>c. is_root E trusted c \<and> fresh now c \<and> cert_can_issue c) cs)) \<subseteq> issuer E trusted now cs"
    using roots by (auto intro: issuer.root)
  then show "set S' = issuer E trusted now cs"
    using issue_loop_sound [OF loop, where cs = cs and trusted = trusted] issuers_trusted [OF loop] by auto
  have left: "set ps' \<subseteq> set (filter (\<lambda>c. \<not> is_root E trusted c) cs)" "\<forall>c \<in> set ps'. \<forall>pk \<in> set S'. \<not> signed_by E pk c"
    and gone: "\<forall>c \<in> set (filter (\<lambda>c. \<not> is_root E trusted c) cs) - set ps'. \<exists>pk \<in> set S'. signed_by E pk c"
    using spec by (elim conjE; blast)+
  show "ps' = [] \<longleftrightarrow> (\<forall>c \<in> set cs. \<not> is_root E trusted c \<longrightarrow> (\<exists>pk \<in> set S'. signed_by E pk c))"
    using left gone by (cases ps') fastforce+
  show "V' \<longleftrightarrow> fresh now this" if "ps' = []"
  proof (cases "is_root E trusted this")
    case True
    then have "this \<notin> set (filter (\<lambda>c. \<not> is_root E trusted c) cs)" and "V \<longleftrightarrow> fresh now this"
      using this_in by (simp, auto simp: V_def)
    with spec show ?thesis by (elim conjE) blast
  next
    case False
    then have "this \<in> set (filter (\<lambda>c. \<not> is_root E trusted c) cs) - set ps'" "\<not> V"
      using this_in that by (simp, auto simp: V_def)
    with spec show ?thesis by (elim conjE) blast
  qed
qed

lemma chain_verify_iff: "chain_verify E now chain trusted = Inr () \<longleftrightarrow> chain_ok E now chain trusted"
proof -
  define cs where "cs = chain_certs chain"
  define this where "this = chain_this chain"
  let ?roots = "map cert_pk (filter (\<lambda>c. is_root E trusted c \<and> fresh now c \<and> cert_can_issue c) cs)"
  let ?rest = "filter (\<lambda>c. \<not> is_root E trusted c) cs"
  let ?V = "\<exists>c \<in> set cs. is_root E trusted c \<and> fresh now c \<and> c = this"
  have this_in: "this \<in> set cs" by (simp add: this_def cs_def chain_certs_def)
  have verify: "chain_verify E now chain trusted =
     (case root_scan E trusted now this cs ([], False, False) of
        Inl e \<Rightarrow> Inl e
      | Inr (pending, signers, found, verified) \<Rightarrow>
          if \<not> found then Inl ''certificate chain does not include trusted root''
          else (case issue_loop E now this pending signers verified of
            (pending, signers, verified) \<Rightarrow>
              if pending \<noteq> [] then Inl ''certificate chain contains unverifiable entries''
              else if \<not> verified then Inl ''certificate chain does not authenticate leaf device''
              else Inr ()))"
    unfolding chain_verify_def Let_def cs_def this_def chain_certs_def by (rule refl)
  show ?thesis
  proof (cases "\<forall>c \<in> set cs. is_root E trusted c \<longrightarrow> signed_by E (cert_pk c) c")
    case False
    then show ?thesis
      by (auto simp: verify chain_ok_def root_scan_spec Let_def simp flip: cs_def)
  next
    case True
    obtain ps' S' V' where loop: "issue_loop E now this ?rest ?roots ?V = (ps', S', V')"
      by (metis prod_cases3)
    note result = issue_loop_result [OF loop True this_in]
    have "chain_verify E now chain trusted = Inr () \<longleftrightarrow>
        (\<exists>c \<in> set cs. is_root E trusted c \<and> fresh now c) \<and> ps' = [] \<and> V'"
      using True loop by (simp add: verify root_scan_spec)
    also have "\<dots> \<longleftrightarrow> chain_ok E now chain trusted"
      unfolding chain_ok_def Let_def cs_def [symmetric] this_def [symmetric]
      using result True by blast
    finally show ?thesis .
  qed
qed

lemma certs_of_issuing [simp]:
  "cert_pk (self_signed E sk x b) = signing_public_key E sk"
  "cert_pk (issue_certificate E sk pk x b) = pk"
  "cert_expiry (self_signed E sk x b) = x" "cert_expiry (issue_certificate E sk pk x b) = x"
  "cert_can_issue (self_signed E sk x b) = b" "cert_can_issue (issue_certificate E sk pk x b) = b"
  by (simp_all add: self_signed_def issue_certificate_def cert_sign_def sign_with_def set_cert_signature_def)

lemma signed_by_issuer:
  assumes "sig_law E"
  shows "signed_by E (signing_public_key E sk) (self_signed E sk x b)"
    and "signed_by E (signing_public_key E sk) (issue_certificate E sk pk x b)"
  using cert_signable.verify_sign [OF assms]
  by (simp_all add: signed_by_def cert_verify_def self_signed_def issue_certificate_def cert_sign_def)

section \<open>Properties\<close>


text \<open>A chain built with the issuing operations verifies against the root's key hash, in any order
  of the ancestors: the root signs itself, and signs the leaf device's certificate.\<close>

theorem issued_chain_verifies:
  assumes "sig_law E" and "root_expiry > now" and "leaf_expiry > now"
    and "set ancestors = {self_signed E root root_expiry True}"
    and "bcs_hash E (ser_signing_public leaf) \<noteq> bcs_hash E (ser_signing_public (signing_public_key E root))"
  shows "chain_verify E now
    \<lparr> chain_ancestors = ancestors, chain_this = issue_certificate E root leaf leaf_expiry can_issue \<rparr>
    (bcs_hash E (ser_signing_public (signing_public_key E root))) = Inr ()"
proof -
  let ?r = "self_signed E root root_expiry True" and ?h = "bcs_hash E (ser_signing_public (signing_public_key E root))"
  let ?l = "issue_certificate E root leaf leaf_expiry can_issue"
  let ?ch = "\<lparr> chain_ancestors = ancestors, chain_this = ?l \<rparr>"
  have certs: "set (chain_certs ?ch) = {?r, ?l}"
    using assms(4) by (auto simp: chain_certs_def)
  have "cert_pk ?r \<in> issuer E ?h now (chain_certs ?ch)"
    by (rule issuer.root) (simp_all add: certs is_root_def fresh_def assms signed_by_issuer)
  then have "\<exists>pk \<in> issuer E ?h now (chain_certs ?ch). signed_by E pk ?l"
    by (rule bexI [rotated]) (simp add: assms signed_by_issuer)
  with assms show ?thesis
    unfolding chain_verify_iff chain_ok_def Let_def certs
    by (auto simp: is_root_def fresh_def signed_by_issuer)
qed

theorem issued_chain_verifies_witness:
  "chain_verify demo_ext 100
    \<lparr> chain_ancestors = [self_signed demo_ext (SigningSecret 5) 200 True],
      chain_this = issue_certificate demo_ext (SigningSecret 5) (SigningPublic 6) 150 False \<rparr>
    (bcs_hash demo_ext (ser_signing_public (signing_public_key demo_ext (SigningSecret 5)))) = Inr ()"
proof (rule issued_chain_verifies)
  show "bcs_hash demo_ext (ser_signing_public (SigningPublic 6)) \<noteq>
      bcs_hash demo_ext (ser_signing_public (signing_public_key demo_ext (SigningSecret 5)))"
    by code_simp
qed simp_all

end
