(* ===== verification/Events.thy ===== *)
theory Events
  imports Structs
begin

text \<open>
  Events and the payloads they carry: the trait \<open>EventPayload\<close> and its two helpers (the locale
  \<open>event_payload\<close>), attachments, fragments, group descriptors, invites and management
  messages, with their BCS and JSON forms. A type that is written by both back ends serialises its
  byte arrays as bytes in the one and as text in the other; its \<open>ser_\<dots>\<close> takes those two
  as arguments.
\<close>

section \<open>JSON text of byte arrays\<close>

definition serj_hash :: "ext \<Rightarrow> hash \<Rightarrow> sval" where
  "serj_hash E h = VStr (hash_display E h)"

definition dej_hash :: "ext \<Rightarrow> sval \<Rightarrow> hash option" where
  "dej_hash E v = Option.bind (de_str v) (\<lambda>s. case hash_from_str E s of Inl _ \<Rightarrow> None | Inr h \<Rightarrow> Some h)"

definition serj_aead_key :: "ext \<Rightarrow> aead_key \<Rightarrow> sval" where
  "serj_aead_key E k = VStr (b64_enc E (be_bytes (aead_key_to_bytes k)))"

definition dej_aead_key :: "ext \<Rightarrow> sval \<Rightarrow> aead_key option" where
  "dej_aead_key E v = Option.bind (de_str v) (\<lambda>s. Option.bind (b64_dec E s) (\<lambda>b.
     map_option AeadKey (array_try_from b)))"

definition serj_auth_token :: "ext \<Rightarrow> auth_token \<Rightarrow> sval" where
  "serj_auth_token E t = VStr (hex_enc E (be_bytes (auth_token_to_bytes t)))"

definition dej_auth_token :: "ext \<Rightarrow> sval \<Rightarrow> auth_token option" where
  "dej_auth_token E v = Option.bind (de_str v) (\<lambda>s. Option.bind (hex_dec E s) (\<lambda>b.
     map_option AuthToken (array_try_from b)))"

lemma serde_json_arrays [simp, serde]:
  "hex_law E \<Longrightarrow> dej_hash E (serj_hash E h) = Some h"
  "b64_law E \<Longrightarrow> dej_aead_key E (serj_aead_key E k) = Some k"
  "hex_law E \<Longrightarrow> dej_auth_token E (serj_auth_token E t) = Some t"
  "has_styp TStr (serj_hash E h)" "has_styp TStr (serj_aead_key E k)" "has_styp TStr (serj_auth_token E t)"
proof -
  show "hex_law E \<Longrightarrow> dej_hash E (serj_hash E h) = Some h"
    by (simp add: dej_hash_def serj_hash_def hash_from_display)
  show "b64_law E \<Longrightarrow> dej_aead_key E (serj_aead_key E k) = Some k"
    by (cases k) (simp add: dej_aead_key_def serj_aead_key_def b64_law_def)
  show "hex_law E \<Longrightarrow> dej_auth_token E (serj_auth_token E t) = Some t"
    by (cases t) (simp add: dej_auth_token_def serj_auth_token_def hex_law_def)
qed (simp_all add: serj_hash_def serj_aead_key_def serj_auth_token_def)

section \<open>Attachments and fragments\<close>

type_synonym child = "hash \<times> u64"

record attachment =
  att_filename :: string
  att_mime :: string
  att_children :: "child list"
  att_content_key :: aead_key

record fragment_node = node_children :: "child list"
record fragment_leaf =
  leaf_nonce :: "192 word"
  leaf_data :: bytes

datatype fragment = Node fragment_node | Leaf fragment_leaf

text \<open>\<open>iter().map(|(_, size)| *size).sum()\<close>, in the release profile, where a \<open>u64\<close> sum
  wraps.\<close>

definition attachment_total_size :: "attachment \<Rightarrow> u64" where
  "attachment_total_size a = sum_list (map snd (att_children a))"

definition node_total_size :: "fragment_node \<Rightarrow> u64" where
  "node_total_size n = sum_list (map snd (node_children n))"

definition ser_child :: "(hash \<Rightarrow> sval) \<Rightarrow> child \<Rightarrow> sval" where
  "ser_child sh c = VTup [sh (fst c), VU64 (snd c)]"

fun de_child :: "(sval \<Rightarrow> hash option) \<Rightarrow> sval \<Rightarrow> child option" where
  "de_child dh (VTup [h, s]) = (case (dh h, de_u64 s) of (Some x, Some n) \<Rightarrow> Some (x, n) | _ \<Rightarrow> None)"
| "de_child dh _ = None"

definition ser_attachment :: "(hash \<Rightarrow> sval) \<Rightarrow> (aead_key \<Rightarrow> sval) \<Rightarrow> attachment \<Rightarrow> sval" where
  "ser_attachment sh sk a = VTup [VStr (att_filename a), VStr (att_mime a),
     VSeq (map (ser_child sh) (att_children a)), sk (att_content_key a)]"

fun de_attachment ::
  "(sval \<Rightarrow> hash option) \<Rightarrow> (sval \<Rightarrow> aead_key option) \<Rightarrow> sval \<Rightarrow> attachment option" where
  "de_attachment dh dk (VTup [f, m, cs, k]) =
     (case (de_str f, de_str m, de_seq (de_child dh) cs, dk k) of
        (Some fn, Some mi, Some ch, Some ck) \<Rightarrow>
          Some \<lparr> att_filename = fn, att_mime = mi, att_children = ch, att_content_key = ck \<rparr>
      | _ \<Rightarrow> None)"
| "de_attachment dh dk _ = None"

definition ty_attachment :: "styp \<Rightarrow> styp \<Rightarrow> styp" where
  "ty_attachment th tk = TTup [TStr, TStr, TSeq (TTup [th, TU64]), tk]"

primrec ser_fragment :: "fragment \<Rightarrow> sval" where
  "ser_fragment (Node n) = VVar 0 (VTup [VSeq (map (ser_child ser_hash) (node_children n))])"
| "ser_fragment (Leaf l) = VVar 1 (VTup [ser_bytes_arr (leaf_nonce l), ser_vec_u8 (leaf_data l)])"

definition ty_fragment :: styp where
  "ty_fragment = TVar [TTup [TSeq (TTup [TBytes, TU64])], TTup [TBytes, TSeq TU8]]"

fun de_fragment :: "sval \<Rightarrow> fragment option" where
  "de_fragment (VVar i v) =
     (case v of
        VTup [cs] \<Rightarrow> if i = 0
          then map_option (\<lambda>c. Node \<lparr> node_children = c \<rparr>) (de_seq (de_child de_hash) cs) else None
      | VTup [n, d] \<Rightarrow> if i = 1 then
          (case (de_bytes_arr n, de_vec_u8 d) of
             (Some nonce, Some dat) \<Rightarrow> Some (Leaf \<lparr> leaf_nonce = nonce, leaf_data = dat \<rparr>)
           | _ \<Rightarrow> None) else None
      | _ \<Rightarrow> None)"
| "de_fragment _ = None"

lemma serde_child:
  "dh (sh (fst c)) = Some (fst c) \<Longrightarrow> de_child dh (ser_child sh c) = Some c"
  "has_styp th (sh (fst c)) \<Longrightarrow> has_styp (TTup [th, TU64]) (ser_child sh c)"
  by (cases c; simp add: ser_child_def)+

lemma serde_attachment [simp, serde]:
  assumes "\<And>h. dh (sh h) = Some h" and "\<And>k. dk (sk k) = Some k"
  shows "de_attachment dh dk (ser_attachment sh sk a) = Some a"
  using assms by (simp add: ser_attachment_def serde_child)

lemma has_styp_attachment [simp, serde]:
  assumes "\<And>h. has_styp th (sh h)" and "\<And>k. has_styp tk (sk k)"
  shows "has_styp (ty_attachment th tk) (ser_attachment sh sk a)"
  using assms by (simp add: ser_attachment_def ty_attachment_def list_all_iff serde_child)

lemma serde_fragment [simp, serde]:
  "de_fragment (ser_fragment f) = Some f" "has_styp ty_fragment (ser_fragment f)" "map_free ty_fragment"
proof -
  show "de_fragment (ser_fragment f) = Some f"
    by (cases f) (simp_all add: serde_child)
  show "has_styp ty_fragment (ser_fragment f)"
    by (cases f) (simp_all add: serde_child ty_fragment_def list_all_iff)
qed (simp add: ty_fragment_def)

section \<open>Groups: descriptors, invites and management messages\<close>

record group_descriptor =
  gd_nonce :: hash
  gd_init_admin :: username
  gd_created_at :: timestamp
  gd_server :: server_name
  gd_management_key :: aead_key

record group_invite_msg =
  gi_descriptor :: group_descriptor
  gi_group_key :: aead_key
  gi_token :: auth_token
  gi_created_at :: nano_timestamp

datatype group_manage_msg =
    InviteSent username
  | InviteAccepted
  | Ban username
  | Unban username
  | Leave
  | AddAdmin username
  | RemoveAdmin username

definition gd_wf :: "group_descriptor \<Rightarrow> bool" where
  "gd_wf d \<longleftrightarrow> username_wf (gd_init_admin d) \<and> server_name_wf (gd_server d)"

definition ser_group_descriptor ::
  "(hash \<Rightarrow> sval) \<Rightarrow> (aead_key \<Rightarrow> sval) \<Rightarrow> group_descriptor \<Rightarrow> sval" where
  "ser_group_descriptor sh sk d = VTup [sh (gd_nonce d), ser_username (gd_init_admin d),
     VU64 (gd_created_at d), ser_server_name (gd_server d), sk (gd_management_key d)]"

fun de_group_descriptor ::
  "(sval \<Rightarrow> hash option) \<Rightarrow> (sval \<Rightarrow> aead_key option) \<Rightarrow> sval \<Rightarrow> group_descriptor option" where
  "de_group_descriptor dh dk (VTup [n, u, c, s, k]) =
     (case (dh n, de_username u, de_u64 c, de_server_name s, dk k) of
        (Some nonce, Some admin, Some created, Some server, Some mk) \<Rightarrow>
          Some \<lparr> gd_nonce = nonce, gd_init_admin = admin, gd_created_at = created,
                 gd_server = server, gd_management_key = mk \<rparr>
      | _ \<Rightarrow> None)"
| "de_group_descriptor dh dk _ = None"

definition ty_group_descriptor :: "styp \<Rightarrow> styp \<Rightarrow> styp" where
  "ty_group_descriptor th tk = TTup [th, TStr, TU64, TStr, tk]"

definition group_descriptor_id :: "ext \<Rightarrow> group_descriptor \<Rightarrow> group_id" where
  "group_descriptor_id E d = GroupId (digest E (bcs_expect E (ser_group_descriptor ser_hash ser_aead_key d)))"

definition ser_group_invite :: "ext \<Rightarrow> group_invite_msg \<Rightarrow> sval" where
  "ser_group_invite E m = VTup [ser_group_descriptor (serj_hash E) (serj_aead_key E) (gi_descriptor m),
     serj_aead_key E (gi_group_key m), serj_auth_token E (gi_token m), VU64 (gi_created_at m)]"

definition ty_group_invite :: styp where
  "ty_group_invite = TTup [ty_group_descriptor TStr TStr, TStr, TStr, TU64]"

fun de_group_invite :: "ext \<Rightarrow> sval \<Rightarrow> group_invite_msg option" where
  "de_group_invite E (VTup [d, k, t, c]) =
     (case (de_group_descriptor (dej_hash E) (dej_aead_key E) d, dej_aead_key E k, dej_auth_token E t, de_u64 c) of
        (Some desc, Some key, Some token, Some created) \<Rightarrow>
          Some \<lparr> gi_descriptor = desc, gi_group_key = key, gi_token = token, gi_created_at = created \<rparr>
      | _ \<Rightarrow> None)"
| "de_group_invite E _ = None"

definition ser_unit :: sval where "ser_unit = VTup []"

primrec ser_group_manage :: "group_manage_msg \<Rightarrow> sval" where
  "ser_group_manage (InviteSent u) = VVar 0 (VTup [ser_username u])"
| "ser_group_manage InviteAccepted = VVar 1 ser_unit"
| "ser_group_manage (Ban u) = VVar 2 (VTup [ser_username u])"
| "ser_group_manage (Unban u) = VVar 3 (VTup [ser_username u])"
| "ser_group_manage Leave = VVar 4 ser_unit"
| "ser_group_manage (AddAdmin u) = VVar 5 (VTup [ser_username u])"
| "ser_group_manage (RemoveAdmin u) = VVar 6 (VTup [ser_username u])"

definition ty_group_manage :: styp where
  "ty_group_manage = (let u = TTup [TStr]; n = TTup [] in TVar [u, n, u, u, n, u, u])"

fun de_group_manage :: "sval \<Rightarrow> group_manage_msg option" where
  "de_group_manage (VVar i (VTup [])) =
     (if i = 1 then Some InviteAccepted else if i = 4 then Some Leave else None)"
| "de_group_manage (VVar i (VTup [v])) =
     Option.bind (de_username v) (\<lambda>u.
       if i = 0 then Some (InviteSent u) else if i = 2 then Some (Ban u)
       else if i = 3 then Some (Unban u) else if i = 5 then Some (AddAdmin u)
       else if i = 6 then Some (RemoveAdmin u) else None)"
| "de_group_manage _ = None"

primrec manage_wf :: "group_manage_msg \<Rightarrow> bool" where
  "manage_wf (InviteSent u) = username_wf u"
| "manage_wf InviteAccepted = True"
| "manage_wf (Ban u) = username_wf u"
| "manage_wf (Unban u) = username_wf u"
| "manage_wf Leave = True"
| "manage_wf (AddAdmin u) = username_wf u"
| "manage_wf (RemoveAdmin u) = username_wf u"

lemma serde_group_descriptor [simp, serde]:
  assumes "\<And>h. dh (sh h) = Some h" and "\<And>k. dk (sk k) = Some k" and "gd_wf d"
  shows "de_group_descriptor dh dk (ser_group_descriptor sh sk d) = Some d"
  using assms by (simp add: ser_group_descriptor_def gd_wf_def)

lemma has_styp_group_descriptor [simp, serde]:
  assumes "\<And>h. has_styp th (sh h)" and "\<And>k. has_styp tk (sk k)"
  shows "has_styp (ty_group_descriptor th tk) (ser_group_descriptor sh sk d)"
  using assms by (simp add: ser_group_descriptor_def ty_group_descriptor_def)

section \<open>Events\<close>

datatype recipient = RUser username | RGroup group_id

record event =
  ev_recipient :: recipient
  ev_sent_at :: nano_timestamp
  ev_mime :: string
  ev_body :: bytes

datatype event_payload_error = UnexpectedMime string | PayloadDecode

primrec recipient_wf :: "recipient \<Rightarrow> bool" where
  "recipient_wf (RUser u) = username_wf u"
| "recipient_wf (RGroup g) = True"

primrec ser_recipient :: "recipient \<Rightarrow> sval" where
  "ser_recipient (RUser u) = VVar 0 (ser_username u)"
| "ser_recipient (RGroup g) = VVar 1 (ser_hash (group_id_hash g))"

fun de_recipient :: "sval \<Rightarrow> recipient option" where
  "de_recipient (VVar i v) =
     (if i = 0 then map_option RUser (de_username v)
      else if i = 1 then map_option (\<lambda>h. RGroup (GroupId h)) (de_hash v) else None)"
| "de_recipient _ = None"

definition ser_event :: "event \<Rightarrow> sval" where
  "ser_event e = VTup [ser_recipient (ev_recipient e), VU64 (ev_sent_at e), VStr (ev_mime e), VBytes (ev_body e)]"

definition ty_event :: styp where
  "ty_event = TTup [TVar [TStr, TBytes], TU64, TStr, TBytes]"

fun de_event :: "sval \<Rightarrow> event option" where
  "de_event (VTup [r, s, m, b]) =
     (case (de_recipient r, de_u64 s, de_str m, de_bytes b) of
        (Some rc, Some sent, Some mime, Some body) \<Rightarrow>
          Some \<lparr> ev_recipient = rc, ev_sent_at = sent, ev_mime = mime, ev_body = body \<rparr>
      | _ \<Rightarrow> None)"
| "de_event _ = None"

lemma GroupId_hash [simp]: "GroupId (group_id_hash g) = g"
  by (cases g) simp

lemma serde_recipient [simp, serde]:
  "recipient_wf r \<Longrightarrow> de_recipient (ser_recipient r) = Some r"
  "has_styp (TVar [TStr, TBytes]) (ser_recipient r)"
proof -
  show "recipient_wf r \<Longrightarrow> de_recipient (ser_recipient r) = Some r"
    by (cases r) simp_all
  show "has_styp (TVar [TStr, TBytes]) (ser_recipient r)"
    by (cases r) simp_all
qed

lemma serde_event [simp, serde]:
  "recipient_wf (ev_recipient e) \<Longrightarrow> de_event (ser_event e) = Some e"
  "has_styp ty_event (ser_event e)" "map_free ty_event"
  by (simp_all add: ser_event_def ty_event_def)

section \<open>The trait \<open>EventPayload\<close>\<close>

definition decode_json_payload ::
  "ext \<Rightarrow> string \<Rightarrow> styp \<Rightarrow> (sval \<Rightarrow> 'a option) \<Rightarrow> event \<Rightarrow> event_payload_error + 'a" where
  "decode_json_payload E mime ty de e =
     (if ev_mime e \<noteq> mime then Inl (UnexpectedMime (ev_mime e))
      else ok_or PayloadDecode (json_from E ty de (ev_body e)))"

definition from_json_payload ::
  "ext \<Rightarrow> string \<Rightarrow> ('a \<Rightarrow> sval) \<Rightarrow> recipient \<Rightarrow> nano_timestamp \<Rightarrow> 'a \<Rightarrow> event_payload_error + event" where
  "from_json_payload E mime ser recipient sent_at payload =
     (case json_enc E (ser payload) of
        None \<Rightarrow> Inl PayloadDecode
      | Some body \<Rightarrow> Inr \<lparr> ev_recipient = recipient, ev_sent_at = sent_at, ev_mime = mime, ev_body = body \<rparr>)"

text \<open>What a payload type promises: its JSON form has its shape and reads back as the value.\<close>

locale event_payload =
  fixes E :: ext
    and mime :: string
    and ser :: "'a \<Rightarrow> sval"
    and ty :: styp
    and de :: "sval \<Rightarrow> 'a option"
    and wf :: "'a \<Rightarrow> bool"
  assumes de_ser: "wf x \<Longrightarrow> de (ser x) = Some x"
    and ser_ty: "has_styp ty (ser x)"
    and ty_free: "map_free ty"
begin

lemma decode_encode:
  assumes "json_law E" and "wf x" and "from_json_payload E mime ser r t x = Inr e"
  shows "decode_json_payload E mime ty de e = Inr x"
  using assms by (auto simp: from_json_payload_def decode_json_payload_def json_from_enc ser_ty
      ty_free de_ser split: option.splits)

lemma other_mime:
  assumes "from_json_payload E mime ser r t x = Inr e" and "mime' \<noteq> mime"
  shows "decode_json_payload E mime' ty' de' e = Inl (UnexpectedMime mime)"
  using assms by (auto simp: from_json_payload_def decode_json_payload_def split: option.splits)

end

definition attachment_mime :: string where
  "attachment_mime = ''application/vnd.nullspace.v1.attachment''"
definition group_invite_mime :: string where
  "group_invite_mime = ''application/vnd.nullspace.v1.group_invite''"
definition group_manage_mime :: string where
  "group_manage_mime = ''application/vnd.nullspace.v1.group_manage''"

definition serj_attachment :: "ext \<Rightarrow> attachment \<Rightarrow> sval" where
  "serj_attachment E = ser_attachment (serj_hash E) (serj_aead_key E)"

definition dej_attachment :: "ext \<Rightarrow> sval \<Rightarrow> attachment option" where
  "dej_attachment E = de_attachment (dej_hash E) (dej_aead_key E)"

lemma map_free_attachment:
  "map_free th \<Longrightarrow> map_free tk \<Longrightarrow> map_free (ty_attachment th tk)"
  "map_free th \<Longrightarrow> map_free tk \<Longrightarrow> map_free (ty_group_descriptor th tk)"
  by (simp_all add: ty_attachment_def ty_group_descriptor_def)

text \<open>The three payload types keep the contract, wherever hex and base64 read back what they
  write.\<close>

lemma attachment_payload:
  "hex_law E \<Longrightarrow> b64_law E \<Longrightarrow>
     event_payload (serj_attachment E) (ty_attachment TStr TStr) (dej_attachment E) (\<lambda>a. True)"
  by unfold_locales (simp_all add: serj_attachment_def dej_attachment_def map_free_attachment)

lemma group_invite_payload:
  "hex_law E \<Longrightarrow> b64_law E \<Longrightarrow>
     event_payload (ser_group_invite E) ty_group_invite (de_group_invite E) (\<lambda>m. gd_wf (gi_descriptor m))"
  by unfold_locales
    (simp_all add: ser_group_invite_def ty_group_invite_def map_free_attachment)

interpretation manage_payload: event_payload E group_manage_mime ser_group_manage ty_group_manage
  de_group_manage manage_wf for E
proof unfold_locales
  fix m
  show "manage_wf m \<Longrightarrow> de_group_manage (ser_group_manage m) = Some m"
    by (cases m) (simp_all add: ser_unit_def)
  show "has_styp ty_group_manage (ser_group_manage m)"
    by (cases m) (simp_all add: ser_unit_def ty_group_manage_def Let_def)
  show "map_free ty_group_manage"
    by (simp add: ty_group_manage_def Let_def)
qed

end
