(* ===== verification/Directory.thy ===== *)
theory Directory
  imports Structs Demo
begin

text \<open>
  The directory's data (\<open>nullspace-structs/src/directory.rs\<close>): anchors, headers, updates and
  \<open>verify_history\<close>, the check every party runs over the update history of a key. Its
  specification \<open>history_ok\<close> is stated position by position over the owners that the earlier
  updates leave; the fold is proved equal to it, which gives prefix closure and the one-step rule the
  server and the client rest on.
\<close>

section \<open>Data\<close>

datatype directory_err = RetryLater | UpdateRejected string

datatype pow_algo = EquiX u64

record pow_seed =
  ps_algo :: pow_algo
  ps_seed :: hash
  ps_use_before :: timestamp

record pow_solution =
  sol_seed :: hash
  sol_nonce :: u64
  sol_solution :: bytes

record directory_anchor =
  an_directory_id :: string
  an_last_header_height :: u64
  an_last_header_hash :: hash
  an_signature :: signature

record directory_header =
  hd_prev :: hash
  hd_smt_root :: hash
  hd_time_unix :: u64

datatype directory_update_inner =
    AddOwner signing_public
  | DelOwner signing_public
  | Update blob

record directory_update =
  up_prev_update_hash :: hash
  up_update_type :: directory_update_inner
  up_signature :: signature

record directory_chunk =
  ck_header :: directory_header
  ck_updates :: "(string, directory_update list) btree"

record directory_response =
  rs_history :: "directory_update list"
  rs_proof_height :: u64
  rs_proof_merkle_branch :: bytes

datatype directory_history_error = NoOwners | HistInvalidSignature | InvalidPrevHash

primrec history_err_msg :: "directory_history_error \<Rightarrow> string" where
  "history_err_msg NoOwners = ''no owners available to verify update''"
| "history_err_msg HistInvalidSignature = ''invalid update signature''"
| "history_err_msg InvalidPrevHash = ''update hash does not link to previous update''"

section \<open>Serialisation\<close>

definition ser_header :: "directory_header \<Rightarrow> sval" where
  "ser_header h = VTup [ser_hash (hd_prev h), ser_hash (hd_smt_root h), VU64 (hd_time_unix h)]"

definition ty_header :: styp where "ty_header = TTup [TBytes, TBytes, TU64]"

fun de_header :: "sval \<Rightarrow> directory_header option" where
  "de_header (VTup [p, r, t]) =
     (case (de_hash p, de_hash r, de_u64 t) of
        (Some prev, Some root, Some time) \<Rightarrow>
          Some \<lparr> hd_prev = prev, hd_smt_root = root, hd_time_unix = time \<rparr>
      | _ \<Rightarrow> None)"
| "de_header _ = None"

primrec ser_update_inner :: "directory_update_inner \<Rightarrow> sval" where
  "ser_update_inner (AddOwner pk) = VVar 0 (ser_signing_public pk)"
| "ser_update_inner (DelOwner pk) = VVar 1 (ser_signing_public pk)"
| "ser_update_inner (Update b) = VVar 2 (ser_blob b)"

fun de_update_inner :: "ext \<Rightarrow> sval \<Rightarrow> directory_update_inner option" where
  "de_update_inner E (VVar i v) =
     (if i = 0 then map_option AddOwner (de_signing_public E v)
      else if i = 1 then map_option DelOwner (de_signing_public E v)
      else if i = 2 then map_option Update (de_blob v) else None)"
| "de_update_inner E _ = None"

definition ser_update :: "directory_update \<Rightarrow> sval" where
  "ser_update u = VTup [ser_hash (up_prev_update_hash u), ser_update_inner (up_update_type u),
     ser_signature (up_signature u)]"

definition ty_update :: styp where
  "ty_update = TTup [TBytes, TVar [TBytes, TBytes, ty_blob], TBytes]"

fun de_update :: "ext \<Rightarrow> sval \<Rightarrow> directory_update option" where
  "de_update E (VTup [p, t, s]) =
     (case (de_hash p, de_update_inner E t, de_signature s) of
        (Some prev, Some inner, Some sig) \<Rightarrow>
          Some \<lparr> up_prev_update_hash = prev, up_update_type = inner, up_signature = sig \<rparr>
      | _ \<Rightarrow> None)"
| "de_update E _ = None"

definition ser_history :: "directory_update list \<Rightarrow> sval" where
  "ser_history us = VSeq (map ser_update us)"

definition ty_history :: styp where "ty_history = TSeq ty_update"

definition de_history :: "ext \<Rightarrow> sval \<Rightarrow> directory_update list option" where
  "de_history E = de_seq (de_update E)"

definition ser_chunk :: "directory_chunk \<Rightarrow> sval" where
  "ser_chunk c = VTup [ser_header (ck_header c),
     VMap (map (\<lambda>(k, us). (VStr k, ser_history us)) (ck_updates c))]"

text \<open>Owner keys in an update are decoded keys, hence valid.\<close>

primrec inner_wf :: "ext \<Rightarrow> directory_update_inner \<Rightarrow> bool" where
  "inner_wf E (AddOwner pk) = pk_valid E pk"
| "inner_wf E (DelOwner pk) = pk_valid E pk"
| "inner_wf E (Update b) = True"

definition update_wf :: "ext \<Rightarrow> directory_update \<Rightarrow> bool" where
  "update_wf E u = inner_wf E (up_update_type u)"

lemma serde_header [simp, serde]:
  "de_header (ser_header h) = Some h" "has_styp ty_header (ser_header h)" "map_free ty_header"
  by (simp_all add: ser_header_def ty_header_def)

lemma serde_update [simp, serde]:
  "update_wf E u \<Longrightarrow> de_update E (ser_update u) = Some u"
  "has_styp ty_update (ser_update u)" "map_free ty_update"
proof -
  show "update_wf E u \<Longrightarrow> de_update E (ser_update u) = Some u"
    by (cases u, cases "up_update_type u") (simp_all add: ser_update_def update_wf_def)
  show "has_styp ty_update (ser_update u)"
    by (cases "up_update_type u") (simp_all add: ser_update_def ty_update_def)
qed (simp add: ty_update_def)

lemma serde_history [simp, serde]:
  "list_all (update_wf E) us \<Longrightarrow> de_history E (ser_history us) = Some us"
  "has_styp ty_history (ser_history us)" "map_free ty_history"
  by (simp_all add: ser_history_def de_history_def ty_history_def list_all_iff)

section \<open>Signed values and hashes\<close>

definition anchor_signed_value :: "ext \<Rightarrow> directory_anchor \<Rightarrow> bytes" where
  "anchor_signed_value E a = bcs_expect E (VTup [VStr (an_directory_id a),
     VU64 (an_last_header_height a), ser_hash (an_last_header_hash a)])"

definition set_anchor_signature :: "signature \<Rightarrow> directory_anchor \<Rightarrow> directory_anchor" where
  "set_anchor_signature s a = a \<lparr> an_signature := s \<rparr>"

interpretation anchor_signable:
  signable E "anchor_signed_value E" an_signature set_anchor_signature for E
  by unfold_locales (simp_all add: anchor_signed_value_def set_anchor_signature_def)

definition anchor_sign :: "ext \<Rightarrow> directory_anchor \<Rightarrow> signing_secret \<Rightarrow> directory_anchor" where
  "anchor_sign E = sign_with E (anchor_signed_value E) set_anchor_signature"

definition anchor_verify :: "ext \<Rightarrow> directory_anchor \<Rightarrow> signing_public \<Rightarrow> signing_error + unit" where
  "anchor_verify E = verify_with E (anchor_signed_value E) an_signature"

definition update_signed_value :: "ext \<Rightarrow> directory_update \<Rightarrow> bytes" where
  "update_signed_value E u =
     bcs_expect E (VTup [ser_hash (up_prev_update_hash u), ser_update_inner (up_update_type u)])"

definition set_update_signature :: "signature \<Rightarrow> directory_update \<Rightarrow> directory_update" where
  "set_update_signature s u = u \<lparr> up_signature := s \<rparr>"

interpretation update_signable:
  signable E "update_signed_value E" up_signature set_update_signature for E
  by unfold_locales (simp_all add: update_signed_value_def set_update_signature_def)

definition update_sign :: "ext \<Rightarrow> directory_update \<Rightarrow> signing_secret \<Rightarrow> directory_update" where
  "update_sign E = sign_with E (update_signed_value E) set_update_signature"

definition update_verify :: "ext \<Rightarrow> directory_update \<Rightarrow> signing_public \<Rightarrow> signing_error + unit" where
  "update_verify E = verify_with E (update_signed_value E) up_signature"

definition directory_update_hash :: "ext \<Rightarrow> directory_update \<Rightarrow> hash" where
  "directory_update_hash E u = digest E (bcs_expect E (ser_update u))"

section \<open>\<open>verify_history\<close>\<close>

primrec apply_owner :: "directory_update_inner \<Rightarrow> signing_public list \<Rightarrow> signing_public list" where
  "apply_owner (AddOwner pk) owners = (if pk \<in> set owners then owners else owners @ [pk])"
| "apply_owner (DelOwner pk) owners = filter (\<lambda>existing. existing \<noteq> pk) owners"
| "apply_owner (Update b) owners = owners"

definition update_auth :: "ext \<Rightarrow> signing_public list \<Rightarrow> directory_update \<Rightarrow> bool \<times> bool" where
  "update_auth E owners u =
     (if owners = [] then
        (case up_update_type u of
           AddOwner owner_pk \<Rightarrow> (is_ok (update_verify E u owner_pk), True)
         | _ \<Rightarrow> (False, False))
      else (list_ex (\<lambda>owner. is_ok (update_verify E u owner)) owners, True))"

fun verify_from ::
  "ext \<Rightarrow> signing_public list \<Rightarrow> hash option \<Rightarrow> directory_update list \<Rightarrow> directory_history_error + unit" where
  "verify_from E owners prev [] = Inr ()"
| "verify_from E owners prev (u # us) =
     (if up_prev_update_hash u \<noteq> (case prev of Some expected \<Rightarrow> expected | None \<Rightarrow> zero_hash)
      then Inl InvalidPrevHash
      else let (is_valid, can_verify) = update_auth E owners u in
        if \<not> is_valid then Inl (if can_verify then HistInvalidSignature else NoOwners)
        else verify_from E (apply_owner (up_update_type u) owners) (Some (directory_update_hash E u)) us)"

definition verify_history :: "ext \<Rightarrow> directory_update list \<Rightarrow> directory_history_error + unit" where
  "verify_history E us = verify_from E [] None us"

section \<open>What a verified history is\<close>

definition owners_of :: "directory_update list \<Rightarrow> signing_public list" where
  "owners_of us = foldl (\<lambda>ow u. apply_owner (up_update_type u) ow) [] us"

definition head_hash :: "ext \<Rightarrow> directory_update list \<Rightarrow> hash" where
  "head_hash E us = (if us = [] then zero_hash else directory_update_hash E (last us))"

definition update_ok :: "ext \<Rightarrow> directory_update list \<Rightarrow> directory_update \<Rightarrow> bool" where
  "update_ok E us u \<longleftrightarrow> up_prev_update_hash u = head_hash E us \<and>
     (if owners_of us = []
      then \<exists>pk. up_update_type u = AddOwner pk \<and> update_verify E u pk = Inr ()
      else \<exists>pk \<in> set (owners_of us). update_verify E u pk = Inr ())"

definition history_ok :: "ext \<Rightarrow> directory_update list \<Rightarrow> bool" where
  "history_ok E us \<longleftrightarrow> (\<forall>i < length us. update_ok E (take i us) (us ! i))"

lemma owners_of_simps [simp]:
  "owners_of [] = []" "owners_of (us @ [u]) = apply_owner (up_update_type u) (owners_of us)"
  by (simp_all add: owners_of_def)

lemma is_ok_unit [simp]: "is_ok r \<longleftrightarrow> r = Inr ()" for r :: "'e + unit"
  by (cases r) auto

lemma update_auth_ok:
  "fst (update_auth E (owners_of us) u) \<longleftrightarrow>
     (if owners_of us = []
      then \<exists>pk. up_update_type u = AddOwner pk \<and> update_verify E u pk = Inr ()
      else \<exists>pk \<in> set (owners_of us). update_verify E u pk = Inr ())"
  by (auto simp: update_auth_def list_ex_iff split: directory_update_inner.splits)

lemma history_ok_Nil [simp]: "history_ok E []"
  by (simp add: history_ok_def)

lemma history_ok_snoc [simp]: "history_ok E (us @ [u]) \<longleftrightarrow> history_ok E us \<and> update_ok E us u"
  by (auto simp: history_ok_def nth_append less_Suc_eq)

lemma history_ok_append: "history_ok E (us @ vs) \<Longrightarrow> history_ok E us"
  by (induction vs rule: rev_induct) (simp_all flip: append_assoc)

lemma verify_from_spec:
  "history_ok E pre \<Longrightarrow>
     verify_from E (owners_of pre) (if pre = [] then None else Some (head_hash E pre)) us = Inr ()
       \<longleftrightarrow> history_ok E (pre @ us)"
proof (induction us arbitrary: pre)
  case Nil
  then show ?case by simp
next
  case (Cons u us)
  have split: "pre @ u # us = (pre @ [u]) @ us" by simp
  show ?case
  proof (cases "update_ok E pre u")
    case False
    then have "\<not> history_ok E (pre @ u # us)"
      unfolding split using history_ok_append by (metis history_ok_snoc)
    moreover have "verify_from E (owners_of pre) (if pre = [] then None else Some (head_hash E pre)) (u # us)
        \<noteq> Inr ()"
      using False update_auth_ok [of E pre u]
      by (auto simp: update_ok_def head_hash_def split: prod.splits)
    ultimately show ?thesis by simp
  next
    case True
    then have "verify_from E (owners_of pre) (if pre = [] then None else Some (head_hash E pre)) (u # us)
        = verify_from E (owners_of (pre @ [u])) (Some (head_hash E (pre @ [u]))) us"
      using update_auth_ok [of E pre u]
      by (auto simp: update_ok_def head_hash_def split: prod.splits)
    with Cons.IH [of "pre @ [u]"] Cons.prems True show ?thesis by simp
  qed
qed

lemma verify_history_iff: "verify_history E us = Inr () \<longleftrightarrow> history_ok E us"
  using verify_from_spec [of E "[]" us] by (simp add: verify_history_def)

lemma verify_history_snoc:
  "verify_history E (us @ [u]) = Inr () \<longleftrightarrow> verify_history E us = Inr () \<and> update_ok E us u"
  by (simp add: verify_history_iff)

lemma verify_history_prefix: "verify_history E (us @ vs) = Inr () \<Longrightarrow> verify_history E us = Inr ()"
  by (simp add: verify_history_iff history_ok_append)

lemma owners_of_distinct: "distinct (owners_of us)"
proof (induction us rule: rev_induct)
  case (snoc u us)
  then show ?case by (cases "up_update_type u") simp_all
qed simp

section \<open>Properties\<close>

text \<open>C2: \<open>verify_history\<close> accepts a history exactly when every update links to the hash of the one
  before it (the first to the zero hash) and is signed by one of the owners the earlier updates leave, or,
  when they leave none, is a self-signed \<open>AddOwner\<close>.\<close>

theorem verify_history_correct: "verify_history E us = Inr () \<longleftrightarrow> history_ok E us"
  by (rule verify_history_iff)

end
