(* ===== verification/DirClient.thy ===== *)
theory DirClient
  imports Directory
begin

text \<open>
  The verifying directory client (\<open>nullspace-dirclient\<close>): the local header store and its
  sync, the check of a response against the anchored header chain, listings, the update operations and
  the proof-of-work solver. The remote directory is arbitrary: its replies are the functions of the record
  \<open>remote\<close>. The Merkle proofs are the library \<open>novasmt\<close>, a parameter.
\<close>

section \<open>The header store\<close>

record dc_header_row =
  dh_height :: i64
  dh_header :: bytes
  dh_hash :: bytes

type_synonym dc_store = "dc_header_row list"

definition BATCH_LIMIT :: u64 where "BATCH_LIMIT = 1000"

text \<open>\<open>SELECT MAX(height)\<close> compares signed; the result is cast back with \<open>as u64\<close>.\<close>

fun max_height :: "i64 list \<Rightarrow> i64 option" where
  "max_height [] = None"
| "max_height (h # hs) =
     (case max_height hs of None \<Rightarrow> Some h | Some m \<Rightarrow> Some (if sint m < sint h then h else m))"

definition max_stored_height :: "dc_store \<Rightarrow> u64 option" where
  "max_stored_height db = max_height (map dh_height db)"

definition load_header :: "ext \<Rightarrow> dc_store \<Rightarrow> u64 \<Rightarrow> anyhow + directory_header" where
  "load_header E db height =
     (case t_get dh_height height db of
        None \<Rightarrow> Inl ''missing header''
      | Some row \<Rightarrow> ok_or ''decode error'' (bcs_from E ty_header de_header (dh_header row)))"

text \<open>\<open>copy_from_slice\<close> panics on another length; a panic is the error \<open>panic\<close>.\<close>

definition load_header_hash :: "dc_store \<Rightarrow> u64 \<Rightarrow> anyhow + hash option" where
  "load_header_hash db height =
     (case t_get dh_height height db of
        None \<Rightarrow> Inr None
      | Some row \<Rightarrow> (case array_try_from (dh_hash row) of
          None \<Rightarrow> Inl ''panic'' | Some w \<Rightarrow> Inr (Some (Hash w))))"

section \<open>Header synchronisation\<close>

definition header_hash :: "ext \<Rightarrow> directory_header \<Rightarrow> hash" where
  "header_hash E h = digest E (bcs_expect E (ser_header h))"

text \<open>The staging loop over one batch.\<close>

type_synonym staged = "u64 \<times> bytes \<times> hash"

fun stage_batch ::
  "ext \<Rightarrow> u64 \<Rightarrow> hash \<Rightarrow> directory_header list \<Rightarrow> anyhow + staged list" where
  "stage_batch E height expected_prev [] = Inr []"
| "stage_batch E height expected_prev (h # hs) =
     (if hd_prev h \<noteq> expected_prev then Inl ''header chain mismatch''
      else and_then (ok_or ''encode error'' (bcs_enc E (ser_header h))) (\<lambda>data.
        let hash = digest E data
        in and_then (stage_batch E (height + 1) hash hs) (\<lambda>rest. Inr ((height, data, hash) # rest))))"

definition write_row :: "staged \<Rightarrow> dc_store \<Rightarrow> dc_store" where
  "write_row s db = (case s of (height, data, hash) \<Rightarrow>
     t_replace dh_height
       \<lparr> dh_height = height, dh_header = data, dh_hash = be_bytes (hash_to_bytes hash) \<rparr> db)"

definition write_rows :: "staged list \<Rightarrow> dc_store \<Rightarrow> dc_store" where
  "write_rows rows db = foldl (\<lambda>d s. write_row s d) db rows"

text \<open>The loop over batches. \<open>get_headers\<close> is the remote call, \<open>commits\<close> says whether the
  transaction of the batch that starts at a height succeeds (a failure rolls it back). The arithmetic is
  \<open>u64\<close>; the loop is given fuel, and \<open>None\<close> is running out of it.\<close>

fun sync_loop ::
  "ext \<Rightarrow> (u64 \<Rightarrow> u64 \<Rightarrow> anyhow + directory_header list) \<Rightarrow> (u64 \<Rightarrow> bool) \<Rightarrow> u64 \<Rightarrow> nat
    \<Rightarrow> u64 \<Rightarrow> hash \<Rightarrow> dc_store \<Rightarrow> ((anyhow + hash) \<times> dc_store) option" where
  "sync_loop E get_headers commits anchor_height 0 next prev db = None"
| "sync_loop E get_headers commits anchor_height (Suc fuel) next prev db =
     (if \<not> next \<le> anchor_height then Some (Inr prev, db)
      else let last = min (next + BATCH_LIMIT - 1) anchor_height in
        case get_headers next last of
          Inl e \<Rightarrow> Some (Inl e, db)
        | Inr headers \<Rightarrow>
            if length headers \<noteq> unat (last - next + 1) then Some (Inl ''header range incomplete'', db)
            else (case stage_batch E next prev headers of
              Inl e \<Rightarrow> Some (Inl e, db)
            | Inr staged \<Rightarrow>
                if \<not> commits next then Some (Inl ''database error'', db)
                else sync_loop E get_headers commits anchor_height fuel (last + 1)
                  (if staged = [] then prev else snd (snd (List.last staged))) (write_rows staged db)))"

definition sync_headers ::
  "ext \<Rightarrow> (u64 \<Rightarrow> u64 \<Rightarrow> anyhow + directory_header list) \<Rightarrow> (u64 \<Rightarrow> bool) \<Rightarrow> nat
    \<Rightarrow> directory_anchor \<Rightarrow> dc_store \<Rightarrow> ((anyhow + unit) \<times> dc_store) option" where
  "sync_headers E get_headers commits fuel anchor db =
     (let current = max_stored_height db in
      case (case current of
              Some height \<Rightarrow> (case load_header_hash db height of
                  Inl e \<Rightarrow> Inl e | Inr None \<Rightarrow> Inl ''panic: gap'' | Inr (Some h) \<Rightarrow> Inr h)
            | None \<Rightarrow> Inr zero_hash) of
        Inl e \<Rightarrow> Some (Inl e, db)
      | Inr prev_hash \<Rightarrow>
          let next = (case current of Some height \<Rightarrow> height + 1 | None \<Rightarrow> 0) in
          (case sync_loop E get_headers commits (an_last_header_height anchor) fuel next prev_hash db of
             None \<Rightarrow> None
           | Some (Inl e, db') \<Rightarrow> Some (Inl e, db')
           | Some (Inr prev, db') \<Rightarrow>
               if prev \<noteq> an_last_header_hash anchor
               then Some (Inl ''header chain mismatch at anchor'', db')
               else Some (Inr (), db')))"

section \<open>The store is always a hash chain\<close>

definition tip_hash :: "ext \<Rightarrow> directory_header list \<Rightarrow> hash" where
  "tip_hash E hs = (if hs = [] then zero_hash else header_hash E (last hs))"

definition linked :: "ext \<Rightarrow> directory_header list \<Rightarrow> bool" where
  "linked E hs \<longleftrightarrow> (\<forall>i < length hs. hd_prev (hs ! i) = tip_hash E (take i hs)
      \<and> bcs_enc E (ser_header (hs ! i)) \<noteq> None)"

definition row_of :: "ext \<Rightarrow> nat \<Rightarrow> directory_header \<Rightarrow> dc_header_row" where
  "row_of E i h = \<lparr> dh_height = of_nat i, dh_header = bcs_expect E (ser_header h),
     dh_hash = be_bytes (hash_to_bytes (header_hash E h)) \<rparr>"

definition rows_of :: "ext \<Rightarrow> directory_header list \<Rightarrow> dc_store" where
  "rows_of E hs = map2 (row_of E) [0..<length hs] hs"

text \<open>The invariant: the store holds exactly the rows of a linked chain from height 0.\<close>

definition store_ok :: "ext \<Rightarrow> dc_store \<Rightarrow> bool" where
  "store_ok E db \<longleftrightarrow> (\<exists>hs. db = rows_of E hs \<and> linked E hs \<and> length hs \<le> 2 ^ 63)"

lemma linked_snoc [simp]:
  "linked E (hs @ [h]) \<longleftrightarrow> linked E hs \<and> hd_prev h = tip_hash E hs \<and> bcs_enc E (ser_header h) \<noteq> None"
  by (auto simp: linked_def nth_append less_Suc_eq)

lemma linked_Nil [simp]: "linked E []"
  by (simp add: linked_def)

lemma tip_hash_snoc [simp]: "tip_hash E (hs @ [h]) = header_hash E h" "tip_hash E [] = zero_hash"
  by (simp_all add: tip_hash_def)

lemma rows_of_snoc [simp]: "rows_of E (hs @ [h]) = rows_of E hs @ [row_of E (length hs) h]"
  "rows_of E [] = []"
  by (simp_all add: rows_of_def)

lemma rows_of_heights: "map dh_height (rows_of E hs) = map of_nat [0..<length hs]"
  by (induction hs rule: rev_induct) (simp_all add: row_of_def)

lemma of_nat_u64_eq [simp]:
  "i < 2 ^ 64 \<Longrightarrow> j < 2 ^ 64 \<Longrightarrow> (of_nat i :: u64) = of_nat j \<longleftrightarrow> i = j"
  using word_unat_eq_iff [of "of_nat i :: u64" "of_nat j"] by (simp add: unat_of_nat)

lemma t_get_rows_of:
  "length hs \<le> 2 ^ 63 \<Longrightarrow> k < 2 ^ 63 \<Longrightarrow>
     t_get dh_height (of_nat k) (rows_of E hs) = (if k < length hs then Some (row_of E k (hs ! k)) else None)"
proof (induction hs rule: rev_induct)
  case Nil
  then show ?case by (simp add: t_get_simps)
next
  case (snoc h hs)
  then have "t_get dh_height (of_nat k) (rows_of E hs) = (if k < length hs then Some (row_of E k (hs ! k)) else None)"
    by simp
  moreover have "(of_nat (length hs) :: u64) = of_nat k \<longleftrightarrow> length hs = k"
    using snoc.prems by (intro of_nat_u64_eq) simp_all
  ultimately show ?case
    by (auto simp: t_get_append t_get_simps row_of_def nth_append less_Suc_eq split: if_splits)
qed

lemma max_height_append1:
  "max_height (hs @ [h]) = (case max_height hs of None \<Rightarrow> Some h
     | Some m \<Rightarrow> Some (if sint m \<le> sint h \<and> m \<noteq> h then h else m))"
proof (induction hs)
  case (Cons a hs)
  then show ?case by (auto split: option.splits)
qed simp

lemma sint_of_nat_u64: "n < 2 ^ 63 \<Longrightarrow> sint (of_nat n :: u64) = int n"
  by (subst sint_small_unat) (simp_all add: unat_of_nat)

lemma max_height_upt:
  "n \<le> 2 ^ 63 \<Longrightarrow> max_height (map of_nat [0..<n]) = (if n = 0 then None else Some (of_nat (n - 1)))"
proof (induction n)
  case (Suc n)
  show ?case
  proof (cases n)
    case 0
    then show ?thesis by simp
  next
    case (Suc m)
    then have "sint (of_nat m :: u64) < sint (of_nat n :: u64)"
      using Suc.prems by (simp add: sint_of_nat_u64 del: of_nat_Suc)
    moreover have "max_height (map of_nat [0..<n]) = Some (of_nat m)"
      using Suc.IH Suc.prems Suc by (simp del: upt_Suc)
    ultimately show ?thesis by (auto simp: max_height_append1)
  qed
qed simp

lemma max_stored_rows_of:
  "length hs \<le> 2 ^ 63 \<Longrightarrow>
     max_stored_height (rows_of E hs) = (if hs = [] then None else Some (of_nat (length hs - 1)))"
  by (simp add: max_stored_height_def rows_of_heights max_height_upt)

lemma max_stored_height_Nil [simp]: "max_stored_height [] = None"
  by (simp add: max_stored_height_def)

lemma stage_batch_spec:
  assumes "stage_batch E height (tip_hash E pre) hs = Inr staged" and "linked E pre"
    and "height = of_nat (length pre)"
  shows "linked E (pre @ hs) \<and> length staged = length hs \<and>
    (hs \<noteq> [] \<longrightarrow> snd (snd (last staged)) = tip_hash E (pre @ hs)) \<and>
    (length (pre @ hs) \<le> 2 ^ 63 \<longrightarrow> write_rows staged (rows_of E pre) = rows_of E (pre @ hs))"
  using assms
proof (induction hs arbitrary: pre height staged)
  case Nil
  then show ?case by (simp add: write_rows_def)
next
  case (Cons h hs)
  from Cons.prems(1) obtain data rest where prev: "hd_prev h = tip_hash E pre"
    and data: "bcs_enc E (ser_header h) = Some data"
    and rest: "stage_batch E (height + 1) (digest E data) hs = Inr rest"
    and staged: "staged = (height, data, digest E data) # rest"
    by (auto simp: Let_def split: if_splits)
  have hash: "digest E data = header_hash E h"
    using data by (simp add: header_hash_def)
  have lk: "linked E (pre @ [h])"
    using Cons.prems(2) prev data by simp
  have ih: "linked E ((pre @ [h]) @ hs) \<and> length rest = length hs \<and>
    (hs \<noteq> [] \<longrightarrow> snd (snd (last rest)) = tip_hash E ((pre @ [h]) @ hs)) \<and>
    (length ((pre @ [h]) @ hs) \<le> 2 ^ 63 \<longrightarrow> write_rows rest (rows_of E (pre @ [h])) = rows_of E ((pre @ [h]) @ hs))"
    using Cons.IH [OF _ lk, of "height + 1" rest] rest hash Cons.prems(3) by (simp add: ac_simps)
  have "write_row (height, data, digest E data) (rows_of E pre) = rows_of E (pre @ [h])"
    if "length (pre @ h # hs) \<le> 2 ^ 63"
  proof -
    have "height \<notin> dh_height ` set (rows_of E pre)"
    proof -
      have "dh_height ` set (rows_of E pre) = of_nat ` {..<length pre}"
        by (metis atLeast0LessThan list.set_map rows_of_heights set_upt)
      with that Cons.prems(3) show ?thesis by auto
    qed
    then have "filter (\<lambda>x. dh_height x \<noteq> height) (rows_of E pre) = rows_of E pre"
      by (intro filter_True) auto
    then show ?thesis
      using data Cons.prems(3)
      by (simp add: write_row_def t_replace_def row_of_def hash)
  qed
  with ih staged hash show ?case by (auto simp: write_rows_def)
qed

lemma sync_loop_ok:
  assumes "sync_loop E gh cm anch fuel next (tip_hash E hs) (rows_of E hs) = Some (r, db')"
    and "linked E hs" and "next = of_nat (length hs)" and "length hs \<le> 2 ^ 63" and "unat anch < 2 ^ 63"
  shows "\<exists>hs'. db' = rows_of E hs' \<and> linked E hs' \<and> length hs' \<le> 2 ^ 63 \<and> (\<exists>ys. hs' = hs @ ys) \<and>
    (\<forall>prev. r = Inr prev \<longrightarrow> prev = tip_hash E hs' \<and> unat anch < length hs' \<and>
       length hs' = max (length hs) (Suc (unat anch)))"
  using assms
proof (induction fuel arbitrary: "next" hs)
  case 0
  then show ?case by simp
next
  case (Suc fuel)
  have lhs: "unat next = length hs"
    using Suc.prems(3,4) by (simp add: unat_of_nat)
  show ?case
  proof (cases "next \<le> anch")
    case False
    then have "unat anch < length hs" using lhs by (simp add: word_less_nat_alt not_le)
    with False Suc.prems show ?thesis by auto
  next
    case True
    then have le: "length hs \<le> unat anch" using lhs by (simp add: word_le_nat_alt)
    define last where "last = min (next + BATCH_LIMIT - 1) anch"
    have nb: "unat (next + BATCH_LIMIT - 1) = length hs + 999"
    proof -
      have "next + BATCH_LIMIT - 1 = of_nat (length hs + 999)"
        using Suc.prems(3) by (simp add: BATCH_LIMIT_def)
      moreover have "unat (of_nat (length hs + 999) :: u64) = length hs + 999"
        using Suc.prems(4) unat_of_nat [where 'a = 64, of "length hs + 999"] by (simp del: of_nat_add)
      ultimately show ?thesis by (simp only:)
    qed
    have ul: "unat last = min (length hs + 999) (unat anch)"
      using nb by (simp add: last_def min_def word_le_nat_alt)
    have un: "unat (last - next + 1) = unat last - length hs + 1"
    proof -
      have "next \<le> last" using lhs ul le by (simp add: word_le_nat_alt)
      then have "unat (last - next) = unat last - length hs" by (simp add: unat_sub lhs)
      moreover have "unat last - length hs + 1 < 2 ^ 64" using ul Suc.prems(5) by simp
      ultimately show ?thesis by (simp add: unat_word_ariths)
    qed
    show ?thesis
    proof (cases "\<exists>headers staged. gh next last = Inr headers \<and> length headers = unat (last - next + 1)
        \<and> stage_batch E next (tip_hash E hs) headers = Inr staged \<and> cm next")
      case False
      with True Suc.prems(1,2,4) show ?thesis
        by (auto simp: Let_def simp flip: last_def split: sum.splits if_splits)
    next
      case T: True
      then obtain headers staged where g: "gh next last = Inr headers"
        "length headers = unat (last - next + 1)" "stage_batch E next (tip_hash E hs) headers = Inr staged"
        "cm next" by blast
      note st = stage_batch_spec [OF g(3) Suc.prems(2,3)]
      have ne: "headers \<noteq> []" "staged \<noteq> []" using g(2) un st by auto
      have len: "length (hs @ headers) = Suc (unat last)" using g(2) un ul le by simp
      have le63: "length (hs @ headers) \<le> 2 ^ 63" using len ul Suc.prems(5) by simp
      have nxt: "last + 1 = of_nat (length (hs @ headers))"
        unfolding len by (simp add: ac_simps)
      have "sync_loop E gh cm anch fuel (last + 1) (tip_hash E (hs @ headers)) (rows_of E (hs @ headers)) = Some (r, db')"
        using Suc.prems(1) True g st ne le63
        by (simp add: Let_def flip: last_def)
      from Suc.IH [OF this _ nxt le63 Suc.prems(5)] st obtain hs' where
        "db' = rows_of E hs'" "linked E hs'" "length hs' \<le> 2 ^ 63" "\<exists>ys. hs' = (hs @ headers) @ ys"
        "\<forall>prev. r = Inr prev \<longrightarrow> prev = tip_hash E hs' \<and> unat anch < length hs' \<and>
           length hs' = max (length (hs @ headers)) (Suc (unat anch))"
        by blast
      then show ?thesis using len ul le by (intro exI [of _ hs']) auto
    qed
  qed
qed

text \<open>Enough fuel: one unit per batch of 1000 heights, and one to leave the loop.\<close>

lemma sync_loop_returns:
  assumes "unat anch < 2 ^ 63" and "unat next \<le> Suc (unat anch)"
    and "Suc (unat anch) - unat next < fuel"
  shows "sync_loop E gh cm anch fuel next prev db \<noteq> None"
  using assms
proof (induction fuel arbitrary: "next" prev db)
  case 0
  then show ?case by simp
next
  case (Suc fuel)
  show ?case
  proof (cases "next \<le> anch")
    case False
    then show ?thesis by simp
  next
    case True
    then have le: "unat next \<le> unat anch" by (simp add: word_le_nat_alt)
    define last where "last = min (next + BATCH_LIMIT - 1) anch"
    have "unat (next + BATCH_LIMIT - 1) = unat next + 999"
    proof -
      have "next + BATCH_LIMIT - 1 = next + 999" by (simp add: BATCH_LIMIT_def)
      moreover have "unat (next + 999) = unat next + 999"
        using le Suc.prems(1) by (simp add: unat_word_ariths)
      ultimately show ?thesis by (simp only:)
    qed
    then have ul: "unat last = min (unat next + 999) (unat anch)"
      by (simp add: last_def min_def word_le_nat_alt)
    have n1: "unat (last + 1) = Suc (unat last)"
      using ul Suc.prems(1) by (simp add: unat_word_ariths)
    have "sync_loop E gh cm anch fuel (last + 1) prev' db' \<noteq> None" for prev' db'
      using Suc.prems ul n1 le by (intro Suc.IH) auto
    then show ?thesis
      using True by (auto simp: Let_def simp flip: last_def split: sum.splits)
  qed
qed

lemma load_tip:
  "length hs \<le> 2 ^ 63 \<Longrightarrow> hs \<noteq> [] \<Longrightarrow>
     load_header_hash (rows_of E hs) (of_nat (length hs - 1)) = Inr (Some (tip_hash E hs))"
proof -
  assume h: "length hs \<le> 2 ^ 63" "hs \<noteq> []"
  then have "length hs - 1 < 2 ^ 63" "length hs - 1 < length hs" by (cases hs; simp)+
  from t_get_rows_of [OF h(1) this(1)] this(2)
  have "t_get dh_height (of_nat (length hs - 1)) (rows_of E hs)
      = Some (row_of E (length hs - 1) (hs ! (length hs - 1)))"
    by (simp only: if_True)
  then show ?thesis
    using h(2) by (cases "header_hash E (last hs)")
      (simp add: load_header_hash_def row_of_def tip_hash_def last_conv_nth)
qed

lemma sync_headers_ok:
  assumes "store_ok E db" and "unat (an_last_header_height anchor) < 2 ^ 63"
    and "sync_headers E gh cm fuel anchor db = Some (r, db')"
  shows "store_ok E db' \<and> (r = Inr () \<longrightarrow>
    (\<exists>hs. db' = rows_of E hs \<and> linked E hs \<and> length hs \<le> 2 ^ 63 \<and> unat (an_last_header_height anchor) < length hs
       \<and> tip_hash E hs = an_last_header_hash anchor))"
proof -
  from assms(1) obtain hs where hs: "db = rows_of E hs" "linked E hs" "length hs \<le> 2 ^ 63"
    by (auto simp: store_ok_def)
  define nxt where "nxt = (of_nat (length hs) :: u64)"
  have nxt: "(case max_stored_height db of Some height \<Rightarrow> height + 1 | None \<Rightarrow> 0) = nxt"
    using hs(1,3) by (cases hs) (simp_all add: max_stored_rows_of nxt_def ac_simps)
  have tip: "(case max_stored_height db of
              Some height \<Rightarrow> (case load_header_hash db height of
                  Inl e \<Rightarrow> Inl e | Inr None \<Rightarrow> Inl ''panic: gap'' | Inr (Some h) \<Rightarrow> Inr h)
            | None \<Rightarrow> Inr zero_hash) = Inr (tip_hash E hs)"
    using load_tip [OF hs(3)] hs(1,3) by (cases "hs = []") (simp_all add: max_stored_rows_of)
  have run: "(case sync_loop E gh cm (an_last_header_height anchor) fuel nxt (tip_hash E hs) db of
             None \<Rightarrow> None
           | Some (Inl e, db') \<Rightarrow> Some (Inl e, db')
           | Some (Inr prev, db') \<Rightarrow>
               if prev \<noteq> an_last_header_hash anchor
               then Some (Inl ''header chain mismatch at anchor'', db')
               else Some (Inr (), db')) = Some (r, db')"
    using assms(3) unfolding sync_headers_def Let_def tip nxt by simp
  then obtain r1 db1 where loop: "sync_loop E gh cm (an_last_header_height anchor) fuel nxt (tip_hash E hs) (rows_of E hs)
      = Some (r1, db1)"
    using hs(1) by (auto split: option.splits)
  from sync_loop_ok [OF loop hs(2) nxt_def hs(3) assms(2)] obtain hs' where hs':
    "db1 = rows_of E hs'" "linked E hs'" "length hs' \<le> 2 ^ 63"
    "\<forall>prev. r1 = Inr prev \<longrightarrow> prev = tip_hash E hs' \<and> unat (an_last_header_height anchor) < length hs'"
    by blast
  have "db' = db1" and r1: "r = Inr () \<longrightarrow> r1 = Inr (an_last_header_hash anchor)"
    using run unfolding hs(1) loop by (cases r1; auto split: if_splits)+
  with hs' have "store_ok E db'" by (auto simp: store_ok_def)
  moreover have "tip_hash E hs' = an_last_header_hash anchor \<and> unat (an_last_header_height anchor) < length hs'"
    if "r = Inr ()"
    using r1 that hs'(4) by simp
  ultimately show ?thesis using hs'(1,2,3) \<open>db' = db1\<close> by auto
qed

section \<open>Checking a response\<close>

text \<open>\<open>novasmt\<close>: decompressing a proof and checking it against a root, a key and a value.\<close>

record 'p smt_proofs =
  sp_decompress :: "bytes \<Rightarrow> 'p option"
  sp_verify :: "'p \<Rightarrow> 256 word \<Rightarrow> 256 word \<Rightarrow> bytes \<Rightarrow> bool"

definition history_value :: "ext \<Rightarrow> directory_update list \<Rightarrow> bytes option" where
  "history_value E us = (if us = [] then Some [] else bcs_enc E (ser_history us))"

definition verify_response ::
  "ext \<Rightarrow> 'p smt_proofs \<Rightarrow> dc_store \<Rightarrow> string \<Rightarrow> directory_anchor \<Rightarrow> directory_response \<Rightarrow> anyhow + unit" where
  "verify_response E S db key anchor response =
     (if rs_proof_height response > an_last_header_height anchor then Inl ''header chain mismatch''
      else and_then (load_header E db (rs_proof_height response)) (\<lambda>header.
        and_then (ok_or ''failed to decompress proof'' (sp_decompress S (rs_proof_merkle_branch response))) (\<lambda>proof.
        and_then (ok_or ''encode error'' (history_value E (rs_history response))) (\<lambda>val.
          if \<not> sp_verify S proof (hash_to_bytes (hd_smt_root header))
               (hash_to_bytes (digest E (str_bytes key))) val
          then Inl ''invalid proof'' else Inr ()))))"

section \<open>Listings\<close>

record directory_listing =
  dl_latest :: "blob option"
  dl_owners :: "signing_public list"

fun list_step :: "directory_listing \<Rightarrow> directory_update \<Rightarrow> directory_listing" where
  "list_step l u =
     (case up_update_type u of
        AddOwner owner \<Rightarrow>
          (if owner \<in> set (dl_owners l) then l else l \<lparr> dl_owners := dl_owners l @ [owner] \<rparr>)
      | DelOwner owner \<Rightarrow> l \<lparr> dl_owners := filter (\<lambda>existing. existing \<noteq> owner) (dl_owners l) \<rparr>
      | Update message \<Rightarrow> l \<lparr> dl_latest := Some message \<rparr>)"

definition build_listing :: "ext \<Rightarrow> directory_response \<Rightarrow> anyhow + directory_listing" where
  "build_listing E response =
     and_then (map_err history_err_msg (verify_history E (rs_history response))) (\<lambda>_.
       Inr (foldl list_step \<lparr> dl_latest = None, dl_owners = [] \<rparr> (rs_history response)))"

definition client_update_hash :: "ext \<Rightarrow> directory_update \<Rightarrow> anyhow + hash" where
  "client_update_hash E u = and_then (ok_or ''encode error'' (bcs_enc E (ser_update u))) (\<lambda>b. Inr (digest E b))"

definition prev_update_hash :: "ext \<Rightarrow> directory_update list \<Rightarrow> anyhow + hash" where
  "prev_update_hash E history =
     (if history = [] then Inr zero_hash else client_update_hash E (last history))"

definition signed_update :: "ext \<Rightarrow> hash \<Rightarrow> directory_update_inner \<Rightarrow> signing_secret \<Rightarrow> directory_update" where
  "signed_update E prev update_type signer =
     update_sign E \<lparr> up_prev_update_hash = prev, up_update_type = update_type,
       up_signature = zero_signature \<rparr> signer"

text \<open>The last \<open>Update\<close> of a history.\<close>

fun last_content :: "directory_update list \<Rightarrow> blob option" where
  "last_content [] = None"
| "last_content (u # us) =
     (case last_content us of
        Some b \<Rightarrow> Some b
      | None \<Rightarrow> (case up_update_type u of Update b \<Rightarrow> Some b | _ \<Rightarrow> None))"

lemma last_content_snoc:
  "last_content (us @ [u]) = (case up_update_type u of Update b \<Rightarrow> Some b | _ \<Rightarrow> last_content us)"
  by (induction us) (auto split: directory_update_inner.splits option.splits)

lemma foldl_list_step:
  "foldl list_step \<lparr> dl_latest = None, dl_owners = [] \<rparr> us = \<lparr> dl_latest = last_content us, dl_owners = owners_of us \<rparr>"
  by (induction us rule: rev_induct) (auto simp: last_content_snoc split: directory_update_inner.splits)

lemma signed_update_fields [simp]:
  "up_prev_update_hash (signed_update E p t sk) = p" "up_update_type (signed_update E p t sk) = t"
  by (simp_all add: signed_update_def update_sign_def sign_with_def set_update_signature_def)

lemma signed_update_verifies:
  "sig_law E \<Longrightarrow> update_verify E (signed_update E p t sk) (signing_public_key E sk) = Inr ()"
  using update_signable.verify_sign by (simp add: update_verify_def signed_update_def update_sign_def)

lemma prev_update_hash_head: "prev_update_hash E us = Inr p \<Longrightarrow> p = head_hash E us"
  by (auto simp: prev_update_hash_def head_hash_def client_update_hash_def directory_update_hash_def
      split: if_splits)

section \<open>Queries\<close>

text \<open>The remote directory, arbitrary and possibly hostile. The n-th \<open>v1_get_anchor\<close> of a call is
  \<open>rm_anchor n\<close>; transport errors and error replies are \<open>Inl\<close>.\<close>

record remote =
  rm_item :: "string \<Rightarrow> anyhow + directory_response"
  rm_anchor :: "nat \<Rightarrow> anyhow + directory_anchor"
  rm_headers :: "u64 \<Rightarrow> u64 \<Rightarrow> anyhow + directory_header list"
  rm_pow_seed :: "anyhow + pow_seed"
  rm_insert :: "string \<Rightarrow> directory_update \<Rightarrow> pow_solution \<Rightarrow> anyhow + unit"

record dir_client =
  dc_anchor_pk :: signing_public
  dc_db :: dc_store
  dc_anchor_cache :: "u64 \<Rightarrow> directory_anchor option"

text \<open>The anchor of a cache miss: fetch, verify, and poll until it is high enough.\<close>

fun poll_anchor :: "ext \<Rightarrow> remote \<Rightarrow> signing_public \<Rightarrow> u64 \<Rightarrow> nat \<Rightarrow> nat \<Rightarrow> (anyhow + directory_anchor) option" where
  "poll_anchor E R pk height n 0 = None"
| "poll_anchor E R pk height n (Suc fuel) =
     (case rm_anchor R n of
        Inl e \<Rightarrow> Some (Inl e)
      | Inr anchor \<Rightarrow>
          (case anchor_verify E anchor pk of
             Inl _ \<Rightarrow> Some (Inl ''signature verification failed'')
           | Inr _ \<Rightarrow> if an_last_header_height anchor < height
               then poll_anchor E R pk height (Suc n) fuel
               else Some (Inr anchor)))"

definition fetch_anchor ::
  "ext \<Rightarrow> remote \<Rightarrow> nat \<Rightarrow> u64 \<Rightarrow> dir_client \<Rightarrow> ((anyhow + directory_anchor) \<times> dir_client) option" where
  "fetch_anchor E R fuel height c =
     (case dc_anchor_cache c height of
        Some anchor \<Rightarrow> Some (Inr anchor, c)
      | None \<Rightarrow> (case poll_anchor E R (dc_anchor_pk c) height 0 fuel of
          None \<Rightarrow> None
        | Some (Inl e) \<Rightarrow> Some (Inl e, c)
        | Some (Inr anchor) \<Rightarrow>
            Some (Inr anchor, c \<lparr> dc_anchor_cache := (dc_anchor_cache c)(height \<mapsto> anchor) \<rparr>)))"

definition fetch_verified_response ::
  "ext \<Rightarrow> 'p smt_proofs \<Rightarrow> remote \<Rightarrow> (u64 \<Rightarrow> bool) \<Rightarrow> nat \<Rightarrow> string \<Rightarrow> dir_client
    \<Rightarrow> ((anyhow + directory_response) \<times> dir_client) option" where
  "fetch_verified_response E S R commits fuel key c =
     (case rm_item R key of
        Inl e \<Rightarrow> Some (Inl e, c)
      | Inr response \<Rightarrow>
     (case fetch_anchor E R fuel (rs_proof_height response) c of
        None \<Rightarrow> None
      | Some (Inl e, c) \<Rightarrow> Some (Inl e, c)
      | Some (Inr anchor, c) \<Rightarrow>
     (case sync_headers E (rm_headers R) commits fuel anchor (dc_db c) of
        None \<Rightarrow> None
      | Some (Inl e, db) \<Rightarrow> Some (Inl e, c \<lparr> dc_db := db \<rparr>)
      | Some (Inr _, db) \<Rightarrow>
          Some (and_then (verify_response E S db key anchor response) (\<lambda>_. Inr response),
            c \<lparr> dc_db := db \<rparr>))))"

definition query_raw ::
  "ext \<Rightarrow> 'p smt_proofs \<Rightarrow> remote \<Rightarrow> (u64 \<Rightarrow> bool) \<Rightarrow> nat \<Rightarrow> string \<Rightarrow> dir_client
    \<Rightarrow> ((anyhow + directory_listing) \<times> dir_client) option" where
  "query_raw E S R commits fuel key c =
     map_option (\<lambda>(r, c'). (and_then r (build_listing E), c'))
       (fetch_verified_response E S R commits fuel key c)"

text \<open>\<open>get_user_descriptor\<close>, from the listing on; \<open>get_server_descriptor\<close> is the same with
  the other kind and type (a server descriptor holds URLs, the library type \<open>Url\<close>, decoded by the
  parameter \<open>de\<close>).\<close>

definition user_descriptor_of :: "ext \<Rightarrow> directory_listing \<Rightarrow> anyhow + user_descriptor option" where
  "user_descriptor_of E listing =
     (case dl_latest listing of
        None \<Rightarrow> Inr None
      | Some latest \<Rightarrow>
          if blob_kind latest \<noteq> V1_USER_DESCRIPTOR then Inl ''unexpected message kind''
          else and_then (ok_or ''decode error''
                 (bcs_from E ty_user_descriptor de_user_descriptor (blob_inner latest)))
                 (\<lambda>d. Inr (Some d)))"

definition server_descriptor_of ::
  "(bytes \<Rightarrow> 'd option) \<Rightarrow> directory_listing \<Rightarrow> anyhow + 'd option" where
  "server_descriptor_of de listing =
     (case dl_latest listing of
        None \<Rightarrow> Inr None
      | Some latest \<Rightarrow>
          if blob_kind latest \<noteq> V1_SERVER_DESCRIPTOR then Inl ''unexpected message kind''
          else and_then (ok_or ''decode error'' (de (blob_inner latest))) (\<lambda>d. Inr (Some d)))"

definition get_user_descriptor ::
  "ext \<Rightarrow> 'p smt_proofs \<Rightarrow> remote \<Rightarrow> (u64 \<Rightarrow> bool) \<Rightarrow> nat \<Rightarrow> username \<Rightarrow> dir_client
    \<Rightarrow> ((anyhow + user_descriptor option) \<times> dir_client) option" where
  "get_user_descriptor E S R commits fuel u c =
     map_option (\<lambda>(r, c'). (and_then r (user_descriptor_of E), c'))
       (query_raw E S R commits fuel (username_as_str u) c)"

definition get_server_descriptor ::
  "ext \<Rightarrow> 'p smt_proofs \<Rightarrow> remote \<Rightarrow> (u64 \<Rightarrow> bool) \<Rightarrow> nat \<Rightarrow> (bytes \<Rightarrow> 'd option) \<Rightarrow> server_name \<Rightarrow> dir_client
    \<Rightarrow> ((anyhow + 'd option) \<times> dir_client) option" where
  "get_server_descriptor E S R commits fuel de n c =
     map_option (\<lambda>(r, c'). (and_then r (server_descriptor_of de), c'))
       (query_raw E S R commits fuel (server_name_as_str n) c)"

section \<open>Proof of work\<close>

definition pow_challenge :: "ext \<Rightarrow> hash \<Rightarrow> u64 \<Rightarrow> hash" where
  "pow_challenge E seed nonce = keyed_digest E (be_bytes (hash_to_bytes seed)) (be_bytes nonce)"

text \<open>The first eight bytes of the solution's hash, big-endian.\<close>

definition solution_value :: "ext \<Rightarrow> bytes \<Rightarrow> u64" where
  "solution_value E sol = be_word (take 8 (be_bytes (hash_to_bytes (digest E sol))))"

definition good_solution :: "ext \<Rightarrow> u64 \<Rightarrow> bytes \<Rightarrow> bool" where
  "good_solution E effort sol \<longleftrightarrow> checked_mul64 (solution_value E sol) effort \<noteq> None"

fun solve_equix_pow :: "ext \<Rightarrow> hash \<Rightarrow> u64 \<Rightarrow> u64 \<Rightarrow> nat \<Rightarrow> pow_solution option" where
  "solve_equix_pow E seed effort nonce 0 = None"
| "solve_equix_pow E seed effort nonce (Suc fuel) =
     (case equix_solve E (hash_to_bytes (pow_challenge E seed nonce)) of
        None \<Rightarrow> solve_equix_pow E seed effort (nonce + 1) fuel
      | Some solutions \<Rightarrow>
          (case find (good_solution E effort) solutions of
             Some sol \<Rightarrow> Some \<lparr> sol_seed = seed, sol_nonce = nonce, sol_solution = sol \<rparr>
           | None \<Rightarrow> solve_equix_pow E seed effort (nonce + 1) fuel))"

fun solve_pow :: "ext \<Rightarrow> pow_seed \<Rightarrow> u64 \<Rightarrow> nat \<Rightarrow> pow_solution option" where
  "solve_pow E s nonce fuel = (case ps_algo s of EquiX effort \<Rightarrow> solve_equix_pow E (ps_seed s) effort nonce fuel)"

lemma solve_equix_pow_sound:
  "equix_law E \<Longrightarrow> solve_equix_pow E seed effort nonce fuel = Some sol \<Longrightarrow>
     sol_seed sol = seed \<and> good_solution E effort (sol_solution sol) \<and> length (sol_solution sol) = equix_bytes \<and>
     equix_ok E (hash_to_bytes (pow_challenge E seed (sol_nonce sol))) (sol_solution sol)"
proof (induction fuel arbitrary: nonce)
  case 0
  then show ?case by simp
next
  case (Suc fuel)
  then show ?case
    by (auto simp: equix_law_def find_Some_iff split: option.splits)
qed

section \<open>Updates\<close>

definition insert_raw ::
  "ext \<Rightarrow> remote \<Rightarrow> u64 \<Rightarrow> nat \<Rightarrow> string \<Rightarrow> directory_update \<Rightarrow> (anyhow + hash) option" where
  "insert_raw E R nonce fuel key u =
     (case client_update_hash E u of
        Inl e \<Rightarrow> Some (Inl e)
      | Inr uh \<Rightarrow>
     (case rm_pow_seed R of
        Inl e \<Rightarrow> Some (Inl e)
      | Inr seed \<Rightarrow>
     (case solve_pow E seed nonce fuel of
        None \<Rightarrow> None
      | Some pow \<Rightarrow> Some (and_then (rm_insert R key u pow) (\<lambda>_. Inr uh)))))"

text \<open>\<open>wait_for_update\<close>: the histories fetched one poll after another (\<open>None\<close>: the poll
  after which 90 seconds have passed); the update has landed when its hash is in a verified history.\<close>

fun wait_for_update ::
  "ext \<Rightarrow> hash \<Rightarrow> (anyhow + directory_response) list \<Rightarrow> anyhow + unit" where
  "wait_for_update E expected [] = Inl ''update did not land before timeout''"
| "wait_for_update E expected (Inl e # polls) = Inl e"
| "wait_for_update E expected (Inr response # polls) =
     (case find (\<lambda>u. case client_update_hash E u of Inl e \<Rightarrow> True | Inr h \<Rightarrow> h = expected) (rs_history response) of
        None \<Rightarrow> wait_for_update E expected polls
      | Some u \<Rightarrow> and_then (client_update_hash E u) (\<lambda>_. Inr ()))"

text \<open>The body that \<open>insert_user_descriptor\<close>, \<open>insert_server_descriptor\<close>,
  \<open>add_owner\<close>, \<open>del_owner\<close> and their server variants share: the update that extends a fetched
  history.\<close>

definition next_update ::
  "ext \<Rightarrow> directory_response \<Rightarrow> directory_update_inner \<Rightarrow> signing_secret \<Rightarrow> anyhow + directory_update" where
  "next_update E response update_type signer =
     and_then (map_err history_err_msg (verify_history E (rs_history response))) (\<lambda>_.
       and_then (prev_update_hash E (rs_history response)) (\<lambda>prev.
         Inr (signed_update E prev update_type signer)))"

definition insert_user_descriptor ::
  "ext \<Rightarrow> directory_response \<Rightarrow> user_descriptor \<Rightarrow> signing_secret \<Rightarrow> anyhow + directory_update" where
  "insert_user_descriptor E response d signer =
     and_then (map_err history_err_msg (verify_history E (rs_history response))) (\<lambda>_.
       and_then (prev_update_hash E (rs_history response)) (\<lambda>prev.
         and_then (ok_or ''encode error'' (bcs_enc E (ser_user_descriptor d))) (\<lambda>b.
           Inr (signed_update E prev
             (Update \<lparr> blob_kind = V1_USER_DESCRIPTOR, blob_inner = b \<rparr>) signer))))"

definition add_owner ::
  "ext \<Rightarrow> directory_response \<Rightarrow> signing_public \<Rightarrow> signing_secret \<Rightarrow> anyhow + directory_update" where
  "add_owner E response owner signer = next_update E response (AddOwner owner) signer"

definition del_owner ::
  "ext \<Rightarrow> directory_response \<Rightarrow> signing_public \<Rightarrow> signing_secret \<Rightarrow> anyhow + directory_update" where
  "del_owner E response owner signer = next_update E response (DelOwner owner) signer"

lemma next_update_extends:
  assumes "sig_law E" and "next_update E response t sk = Inr u"
    and "signing_public_key E sk \<in> set (owners_of (rs_history response))
      \<or> owners_of (rs_history response) = [] \<and> t = AddOwner (signing_public_key E sk)"
  shows "verify_history E (rs_history response @ [u]) = Inr ()"
proof -
  from assms(2) obtain p where h: "verify_history E (rs_history response) = Inr ()"
    and p: "prev_update_hash E (rs_history response) = Inr p" and u: "u = signed_update E p t sk"
    by (auto simp: next_update_def)
  have "update_ok E (rs_history response) u"
    using assms(3) signed_update_verifies [OF assms(1), of p t sk] prev_update_hash_head [OF p]
    by (auto simp: update_ok_def u)
  with h show ?thesis by (simp add: verify_history_snoc)
qed

section \<open>What a query establishes\<close>

definition cache_ok :: "ext \<Rightarrow> dir_client \<Rightarrow> bool" where
  "cache_ok E c \<longleftrightarrow> (\<forall>k a. dc_anchor_cache c k = Some a \<longrightarrow>
     anchor_verify E a (dc_anchor_pk c) = Inr () \<and> unat (an_last_header_height a) < 2 ^ 63)"

text \<open>The holder of the anchor key signs heights of its own database only, which are \<open>i64\<close>.\<close>

definition anchors_ok :: "ext \<Rightarrow> remote \<Rightarrow> signing_public \<Rightarrow> bool" where
  "anchors_ok E R pk \<longleftrightarrow> (\<forall>n a. rm_anchor R n = Inr a \<longrightarrow> anchor_verify E a pk = Inr () \<longrightarrow>
     unat (an_last_header_height a) < 2 ^ 63)"

text \<open>What makes a response authentic: an anchor verified under the configured key, a store that is a hash
  chain ending in the anchor's hash, and a Merkle proof of the history against the root that this chain has
  at the proof height.\<close>

definition authentic ::
  "ext \<Rightarrow> 'p smt_proofs \<Rightarrow> signing_public \<Rightarrow> string \<Rightarrow> dc_store \<Rightarrow> directory_response \<Rightarrow> bool" where
  "authentic E S pk key db response \<longleftrightarrow>
     (\<exists>anchor hs pf val. anchor_verify E anchor pk = Inr () \<and>
        db = rows_of E hs \<and> linked E hs \<and> tip_hash E hs = an_last_header_hash anchor \<and>
        unat (rs_proof_height response) < length hs \<and>
        history_value E (rs_history response) = Some val \<and>
        sp_verify S pf (hash_to_bytes (hd_smt_root (hs ! unat (rs_proof_height response))))
          (hash_to_bytes (digest E (str_bytes key))) val)"

lemma poll_anchor_ok:
  "anchors_ok E R pk \<Longrightarrow> poll_anchor E R pk height n fuel = Some (Inr a) \<Longrightarrow>
     anchor_verify E a pk = Inr () \<and> unat (an_last_header_height a) < 2 ^ 63"
  by (induction E R pk height n fuel rule: poll_anchor.induct) (auto simp: anchors_ok_def split: sum.splits if_splits)

lemma fetch_anchor_ok:
  assumes "cache_ok E c" and "anchors_ok E R (dc_anchor_pk c)" and "fetch_anchor E R fuel height c = Some (r, c')"
  shows "cache_ok E c' \<and> dc_db c' = dc_db c \<and> dc_anchor_pk c' = dc_anchor_pk c \<and>
    (\<forall>a. r = Inr a \<longrightarrow> anchor_verify E a (dc_anchor_pk c) = Inr () \<and> unat (an_last_header_height a) < 2 ^ 63)"
  using assms poll_anchor_ok [OF assms(2), of height 0 fuel]
  by (auto simp: fetch_anchor_def cache_ok_def split: option.splits sum.splits if_splits)

lemma load_header_rows_of:
  assumes "bcs_law E" and "linked E hs" and "length hs \<le> 2 ^ 63" and "load_header E (rows_of E hs) height = Inr h"
    and "unat height < 2 ^ 63"
  shows "unat height < length hs \<and> h = hs ! unat height"
proof -
  let ?k = "unat height"
  have "t_get dh_height height (rows_of E hs) = (if ?k < length hs then Some (row_of E ?k (hs ! ?k)) else None)"
    using t_get_rows_of [OF assms(3,5), of E] by simp
  moreover have "\<exists>b. bcs_enc E (ser_header (hs ! ?k)) = Some b" if "?k < length hs"
    using assms(2) that by (auto simp: linked_def)
  ultimately show ?thesis
    using assms(1,4) by (auto simp: load_header_def row_of_def bcs_from_enc split: if_splits)
qed

lemma fetch_verified_ok:
  assumes laws: "bcs_law E" and inv: "store_ok E (dc_db c)" "cache_ok E c"
    and heights: "anchors_ok E R (dc_anchor_pk c)"
    and run: "fetch_verified_response E S R commits fuel key c = Some (r, c')"
  shows "store_ok E (dc_db c') \<and> cache_ok E c' \<and>
    (\<forall>response. r = Inr response \<longrightarrow> rm_item R key = Inr response \<and>
      authentic E S (dc_anchor_pk c) key (dc_db c') response)"
proof (cases "rm_item R key")
  case (Inl e)
  with run inv show ?thesis by (auto simp: fetch_verified_response_def)
next
  case (Inr response)
  with run obtain ra c1 where fa: "fetch_anchor E R fuel (rs_proof_height response) c = Some (ra, c1)"
    by (auto simp: fetch_verified_response_def split: option.splits)
  note fo = fetch_anchor_ok [OF inv(2) heights fa]
  show ?thesis
  proof (cases ra)
    case (Inl e)
    with run Inr fa fo inv show ?thesis by (auto simp: fetch_verified_response_def)
  next
    case (Inr anchor)
    with fo have av: "anchor_verify E anchor (dc_anchor_pk c) = Inr ()"
      and ah: "unat (an_last_header_height anchor) < 2 ^ 63" by blast+
    from run Inr fa \<open>rm_item R key = Inr response\<close> obtain rs db where
      sh: "sync_headers E (rm_headers R) commits fuel anchor (dc_db c1) = Some (rs, db)"
      by (auto simp: fetch_verified_response_def split: option.splits)
    have so: "store_ok E (dc_db c1)" using fo inv by simp
    note sok = sync_headers_ok [OF so ah sh]
    have c': "c' = c1 \<lparr> dc_db := db \<rparr>"
      and r: "\<forall>x. r = Inr x \<longrightarrow> rs = Inr () \<and> x = response \<and> verify_response E S db key anchor response = Inr ()"
      using run Inr fa \<open>rm_item R key = Inr response\<close> sh
      by (auto simp: fetch_verified_response_def split: sum.splits)
    have inv': "store_ok E (dc_db c')" "cache_ok E c'"
      using sok fo c' by (auto simp: cache_ok_def)
    have "\<exists>hs pf val. dc_db c' = rows_of E hs \<and> linked E hs \<and> tip_hash E hs = an_last_header_hash anchor \<and>
        unat (rs_proof_height response) < length hs \<and> history_value E (rs_history response) = Some val \<and>
        sp_verify S pf (hash_to_bytes (hd_smt_root (hs ! unat (rs_proof_height response))))
          (hash_to_bytes (digest E (str_bytes key))) val"
      if "\<exists>x. r = Inr x"
    proof -
      from that r sok obtain hs where hs: "db = rows_of E hs" "linked E hs" "length hs \<le> 2 ^ 63"
        "tip_hash E hs = an_last_header_hash anchor" by blast
      from that r obtain h pf val where
        v: "load_header E db (rs_proof_height response) = Inr h" "\<not> an_last_header_height anchor < rs_proof_height response"
          "history_value E (rs_history response) = Some val"
          "sp_verify S pf (hash_to_bytes (hd_smt_root h)) (hash_to_bytes (digest E (str_bytes key))) val"
        by (auto simp: verify_response_def split: if_splits)
      have "unat (rs_proof_height response) < 2 ^ 63"
        using v(2) ah by (simp add: word_less_nat_alt)
      with load_header_rows_of [OF laws hs(2,3)] v(1) hs(1)
      have "unat (rs_proof_height response) < length hs \<and> h = hs ! unat (rs_proof_height response)" by blast
      with hs v c' show ?thesis by auto
    qed
    then have "authentic E S (dc_anchor_pk c) key (dc_db c') response" if "\<exists>x. r = Inr x"
      using that av unfolding authentic_def by blast
    with inv' r \<open>rm_item R key = Inr response\<close> show ?thesis by auto
  qed
qed

section \<open>Properties\<close>

text \<open>C11: header synchronisation keeps the local store a hash chain from the zero hash, whatever the remote
  sends and wherever it fails, and returns \<open>Ok\<close> only when the chain reaches the anchor's height and ends
  in the anchor's hash.\<close>

theorem sync_headers_correct:
  assumes "store_ok E db" and "unat (an_last_header_height anchor) < 2 ^ 63"
    and "sync_headers E gh cm fuel anchor db = Some (r, db')"
  shows "store_ok E db' \<and> (r = Inr () \<longrightarrow>
    (\<exists>hs. db' = rows_of E hs \<and> linked E hs \<and> unat (an_last_header_height anchor) < length hs
       \<and> tip_hash E hs = an_last_header_hash anchor))"
  using sync_headers_ok [OF assms] by blast

definition demo_header :: directory_header where
  "demo_header = \<lparr> hd_prev = zero_hash, hd_smt_root = Hash 7, hd_time_unix = 30 \<rparr>"

definition demo_anchor :: directory_anchor where
  "demo_anchor = anchor_sign demo_ext \<lparr> an_directory_id = ''dir'', an_last_header_height = 0,
     an_last_header_hash = header_hash demo_ext demo_header, an_signature = zero_signature \<rparr> (SigningSecret 9)"

lemma demo_store_ok [simp]: "store_ok demo_ext []"
  by (auto simp: store_ok_def intro: exI [of _ "[]"])

lemma demo_anchor_height [simp]: "an_last_header_height demo_anchor = 0"
  by (simp add: demo_anchor_def anchor_sign_def sign_with_def set_anchor_signature_def)

theorem sync_headers_correct_witness:
  "\<exists>hs. rows_of demo_ext [demo_header] = rows_of demo_ext hs \<and> linked demo_ext hs
     \<and> unat (an_last_header_height demo_anchor) < length hs
     \<and> tip_hash demo_ext hs = an_last_header_hash demo_anchor"
proof -
  have "sync_headers demo_ext (\<lambda>a b. Inr [demo_header]) (\<lambda>n. True) 2 demo_anchor []
      = Some (Inr (), rows_of demo_ext [demo_header])"
    by code_simp
  from sync_headers_correct [OF demo_store_ok _ this] show ?thesis by simp
qed

text \<open>C28: header synchronisation terminates: with one unit of fuel for every missing height and one more,
  it returns, for every remote.\<close>

theorem sync_headers_terminates:
  assumes "store_ok E db" and "unat (an_last_header_height anchor) < 2 ^ 63"
    and "Suc (unat (an_last_header_height anchor)) < fuel"
  shows "sync_headers E gh cm fuel anchor db \<noteq> None"
proof -
  have "sync_loop E gh cm (an_last_header_height anchor) fuel n p db \<noteq> None" for n p
  proof (cases "unat n \<le> Suc (unat (an_last_header_height anchor))")
    case True
    with assms show ?thesis by (intro sync_loop_returns) auto
  next
    case False
    then have "\<not> n \<le> an_last_header_height anchor" by (simp add: word_le_nat_alt)
    with assms(3) show ?thesis by (cases fuel) auto
  qed
  then have "\<exists>x y. sync_loop E gh cm (an_last_header_height anchor) fuel n p db = Some (x, y)" for n p
    by fastforce
  note run = this
  show ?thesis
    unfolding sync_headers_def Let_def
    using run by (auto split: option.split sum.split) (metis option.distinct(1))+
qed

theorem sync_headers_terminates_witness:
  "sync_headers demo_ext (\<lambda>a b. Inl ''down'') (\<lambda>n. True) 2 demo_anchor [] \<noteq> None"
  by (rule sync_headers_terminates) simp_all

text \<open>C3: a listing that a query returns is authentic: the anchor verifies under the configured key, the header
  store is a hash chain that ends in the anchor's hash, the Merkle proof of the returned history verifies
  against the root in that chain's header at the proof height, the history itself verifies, and the listing
  is its owners and its last content.\<close>

theorem query_authenticated:
  assumes "bcs_law E" and "store_ok E (dc_db c)" and "cache_ok E c"
    and "anchors_ok E R (dc_anchor_pk c)"
    and "query_raw E S R commits fuel key c = Some (Inr listing, c')"
  shows "\<exists>response. authentic E S (dc_anchor_pk c) key (dc_db c') response \<and>
    history_ok E (rs_history response) \<and>
    listing = \<lparr> dl_latest = last_content (rs_history response), dl_owners = owners_of (rs_history response) \<rparr>"
proof -
  from assms(5) obtain response where
    f: "fetch_verified_response E S R commits fuel key c = Some (Inr response, c')"
    and l: "build_listing E response = Inr listing"
    by (auto simp: query_raw_def)
  from l have "history_ok E (rs_history response)"
    "listing = \<lparr> dl_latest = last_content (rs_history response), dl_owners = owners_of (rs_history response) \<rparr>"
    by (auto simp: build_listing_def foldl_list_step verify_history_iff)
  with fetch_verified_ok [OF assms(1-4) f] show ?thesis by blast
qed

definition demo_remote :: remote where
  "demo_remote = \<lparr> rm_item = (\<lambda>k. Inr \<lparr> rs_history = [], rs_proof_height = 0, rs_proof_merkle_branch = [] \<rparr>),
     rm_anchor = (\<lambda>n. Inr demo_anchor), rm_headers = (\<lambda>a b. Inr [demo_header]),
     rm_pow_seed = Inl ''no'', rm_insert = (\<lambda>k u p. Inl ''no'') \<rparr>"

definition demo_proofs :: "unit smt_proofs" where
  "demo_proofs = \<lparr> sp_decompress = (\<lambda>b. Some ()), sp_verify = (\<lambda>p root key val. root = 7 \<and> val = []) \<rparr>"

definition demo_client :: dir_client where
  "demo_client = \<lparr> dc_anchor_pk = SigningPublic 9, dc_db = [], dc_anchor_cache = (\<lambda>k. None) \<rparr>"

theorem query_authenticated_witness:
  "\<exists>c' response. query_raw demo_ext demo_proofs demo_remote (\<lambda>n. True) 3 ''@alice'' demo_client
      = Some (Inr \<lparr> dl_latest = None, dl_owners = [] \<rparr>, c') \<and>
    authentic demo_ext demo_proofs (SigningPublic 9) ''@alice'' (dc_db c') response"
proof -
  have "map_option fst (query_raw demo_ext demo_proofs demo_remote (\<lambda>n. True) 3 ''@alice'' demo_client)
      = Some (Inr \<lparr> dl_latest = None, dl_owners = [] \<rparr>)"
    by code_simp
  then obtain c' where run: "query_raw demo_ext demo_proofs demo_remote (\<lambda>n. True) 3 ''@alice'' demo_client
      = Some (Inr \<lparr> dl_latest = None, dl_owners = [] \<rparr>, c')"
    by auto
  have "store_ok demo_ext (dc_db demo_client)" "cache_ok demo_ext demo_client"
    "anchors_ok demo_ext demo_remote (dc_anchor_pk demo_client)"
    by (simp_all add: demo_client_def cache_ok_def anchors_ok_def demo_remote_def)
  from query_authenticated [OF _ this run] run show ?thesis
    by (auto simp: demo_client_def)
qed

text \<open>the updates the client builds extend the verified history: signed by a current owner, or claiming
  an ownerless name with a self-signed \<open>AddOwner\<close>, the new history verifies.\<close>

theorem client_update_accepted:
  assumes "sig_law E" and "next_update E response t sk = Inr u"
    and "signing_public_key E sk \<in> set (owners_of (rs_history response))
      \<or> owners_of (rs_history response) = [] \<and> t = AddOwner (signing_public_key E sk)"
  shows "verify_history E (rs_history response @ [u]) = Inr ()"
  by (rule next_update_extends [OF assms])

theorem client_update_accepted_witness:
  "\<exists>u. next_update demo_ext \<lparr> rs_history = [], rs_proof_height = 0, rs_proof_merkle_branch = [] \<rparr>
       (AddOwner (SigningPublic 4)) (SigningSecret 4) = Inr u \<and> verify_history demo_ext ([] @ [u]) = Inr ()"
proof -
  let ?r = "\<lparr> rs_history = [], rs_proof_height = 0, rs_proof_merkle_branch = [] \<rparr>"
  have pk: "signing_public_key demo_ext (SigningSecret 4) = SigningPublic 4"
    by (simp add: demo_ext_def demo_ed_pk_def)
  obtain u where u: "next_update demo_ext ?r (AddOwner (SigningPublic 4)) (SigningSecret 4) = Inr u"
    by (simp add: next_update_def verify_history_def prev_update_hash_def)
  from client_update_accepted [OF _ u] pk u show ?thesis by simp
qed

end
