(* ===== verification/DirServer.thy ===== *)
theory DirServer
  imports DirClient
begin

text \<open>
  The directory server (\<open>binaries/nullspace-directory\<close>): its database, the proof-of-work seeds,
  the RPC handlers, the chunk committer and the mirror. The sparse Merkle tree is the library \<open>novasmt\<close>
  over a content-addressed store, the record \<open>smt_lib\<close>; \<open>smt_law\<close> is what it documents. A database
  call may fail: \<open>io n\<close> says whether the n-th call of a handler succeeds, and a failed call changes
  nothing. \<open>v1_insert_update\<close> awaits between loading the committed history and locking the staging
  map, so it is two steps and other steps may come in between; \<open>dir_step\<close> is the step relation, and the
  invariant is proved over all its runs.
\<close>

section \<open>The Merkle tree\<close>

record ('m, 't) smt_lib =
  smt_open :: "'m \<Rightarrow> 256 word \<Rightarrow> 't"
  smt_empty :: "'m \<Rightarrow> 't"
  smt_get :: "'t \<Rightarrow> 256 word \<Rightarrow> bytes option"
  smt_prove :: "'t \<Rightarrow> 256 word \<Rightarrow> (bytes \<times> bytes) option"
  smt_with :: "'t \<Rightarrow> 256 word \<Rightarrow> bytes \<Rightarrow> 't option"
  smt_commit :: "'m \<Rightarrow> 't \<Rightarrow> (256 word \<times> 'm) option"

text \<open>\<open>view t\<close> is the map a tree holds (absent keys read as the empty string), \<open>roots m\<close> the roots
  committed to a store: reads agree with the map, \<open>with\<close> updates one key, \<open>commit\<close> makes the tree
  readable under its root and leaves every earlier root as it was.\<close>

definition smt_law ::
  "('m, 't) smt_lib \<Rightarrow> ('t \<Rightarrow> 256 word \<Rightarrow> bytes) \<Rightarrow> ('m \<Rightarrow> 256 word set) \<Rightarrow> bool" where
  "smt_law T view roots \<longleftrightarrow>
     (\<forall>m k. view (smt_empty T m) k = []) \<and>
     (\<forall>t k b. smt_get T t k = Some b \<longrightarrow> b = view t k) \<and>
     (\<forall>t k b p. smt_prove T t k = Some (b, p) \<longrightarrow> b = view t k) \<and>
     (\<forall>t k v t'. smt_with T t k v = Some t' \<longrightarrow> view t' = (view t)(k := v)) \<and>
     (\<forall>m t r m'. smt_commit T m t = Some (r, m') \<longrightarrow>
        r \<in> roots m' \<and> view (smt_open T m' r) = view t \<and> roots m \<subseteq> roots m' \<and>
        (\<forall>r0 \<in> roots m. view (smt_open T m' r0) = view (smt_open T m r0)))"

section \<open>State\<close>

record pow_seed_row =
  pr_seed :: bytes
  pr_use_before :: i64
  pr_effort :: i64

record chunk_row =
  cr_height :: i64
  cr_blob :: bytes

record 'm dir_state =
  d_pow_seeds :: "pow_seed_row list"
  d_headers :: "dc_header_row list"
  d_chunks :: "chunk_row list"
  d_merkle :: 'm
  d_staging :: "(string, directory_update list) btree"
  d_secret_key :: "signing_secret option"
  d_directory_id :: string
  d_mirror_anchor :: "directory_anchor option option" \<comment> \<open>\<open>None\<close>: not a mirror\<close>

type_synonym io = "nat \<Rightarrow> bool"

definition map_db_err :: "anyhow \<Rightarrow> directory_err" where
  "map_db_err err = RetryLater"

definition dir_err_msg :: "directory_err \<Rightarrow> anyhow" where
  "dir_err_msg e = (case e of RetryLater \<Rightarrow> ''retry later'' | UpdateRejected r \<Rightarrow> ''update rejected (reason: '' @ r @ '')'')"

section \<open>The database\<close>

definition insert_pow_seed :: "pow_seed \<Rightarrow> u64 \<Rightarrow> 'm dir_state \<Rightarrow> 'm dir_state" where
  "insert_pow_seed seed effort st = st \<lparr> d_pow_seeds := t_replace pr_seed
     \<lparr> pr_seed = be_bytes (hash_to_bytes (ps_seed seed)), pr_use_before = ps_use_before seed,
       pr_effort = effort \<rparr> (d_pow_seeds st) \<rparr>"

definition fetch_pow_seed :: "hash \<Rightarrow> 'm dir_state \<Rightarrow> (u64 \<times> u64) option" where
  "fetch_pow_seed seed st =
     map_option (\<lambda>r. (pr_use_before r, pr_effort r))
       (t_get pr_seed (be_bytes (hash_to_bytes seed)) (d_pow_seeds st))"

definition purge_pow_seeds :: "u64 \<Rightarrow> 'm dir_state \<Rightarrow> 'm dir_state" where
  "purge_pow_seeds now st =
     st \<lparr> d_pow_seeds := t_delete (\<lambda>r. sint (pr_use_before r) < sint now) (d_pow_seeds st) \<rparr>"

text \<open>\<open>ORDER BY height DESC LIMIT 1\<close>.\<close>

definition load_last_header :: "ext \<Rightarrow> 'm dir_state \<Rightarrow> anyhow + (u64 \<times> directory_header) option" where
  "load_last_header E st =
     (case max_height (map dh_height (d_headers st)) of
        None \<Rightarrow> Inr None
      | Some height \<Rightarrow>
          (case t_get dh_height height (d_headers st) of
             None \<Rightarrow> Inr None
           | Some row \<Rightarrow> and_then (ok_or ''decode error'' (bcs_from E ty_header de_header (dh_header row)))
               (\<lambda>header. Inr (Some (height, header)))))"

text \<open>One transaction: both rows or none; \<open>height\<close> is the primary key of both tables.\<close>

definition insert_chunk ::
  "ext \<Rightarrow> u64 \<Rightarrow> directory_header \<Rightarrow> hash \<Rightarrow> directory_chunk \<Rightarrow> 'm dir_state \<Rightarrow> anyhow + 'm dir_state" where
  "insert_chunk E height header hash chunk st =
     and_then (ok_or ''encode error'' (bcs_enc E (ser_header header))) (\<lambda>header_bytes.
     and_then (ok_or ''encode error'' (bcs_enc E (ser_chunk chunk))) (\<lambda>chunk_bytes.
     and_then (ok_or ''constraint'' (t_insert dh_height \<lparr> dh_height = height, dh_header = header_bytes,
         dh_hash = be_bytes (hash_to_bytes hash) \<rparr> (d_headers st))) (\<lambda>headers.
     and_then (ok_or ''constraint'' (t_insert cr_height \<lparr> cr_height = height, cr_blob = chunk_bytes \<rparr>
         (d_chunks st))) (\<lambda>chunks.
       Inr (st \<lparr> d_headers := headers, d_chunks := chunks \<rparr>)))))"

fun decode_headers :: "ext \<Rightarrow> dc_header_row list \<Rightarrow> anyhow + directory_header list" where
  "decode_headers E [] = Inr []"
| "decode_headers E (r # rs) =
     and_then (ok_or ''decode error'' (bcs_from E ty_header de_header (dh_header r))) (\<lambda>h.
       and_then (decode_headers E rs) (\<lambda>hs. Inr (h # hs)))"

definition load_headers :: "ext \<Rightarrow> u64 \<Rightarrow> u64 \<Rightarrow> 'm dir_state \<Rightarrow> anyhow + directory_header list" where
  "load_headers E lo hi st =
     decode_headers E (sort_key (\<lambda>r. sint (dh_height r))
       (filter (\<lambda>r. sint lo \<le> sint (dh_height r) \<and> sint (dh_height r) \<le> sint hi) (d_headers st)))"

definition load_chunk_row :: "u64 \<Rightarrow> 'm dir_state \<Rightarrow> bytes option" where
  "load_chunk_row height st = map_option cr_blob (t_get cr_height height (d_chunks st))"

section \<open>Proof of work\<close>

definition POW_EFFORT :: u64 where "POW_EFFORT = 1000"
definition SEED_TTL_SECS :: u64 where "SEED_TTL_SECS = 120"

definition new_seed :: "256 word \<Rightarrow> u64 \<Rightarrow> pow_seed" where
  "new_seed random now =
     \<lparr> ps_algo = EquiX POW_EFFORT, ps_seed = Hash random, ps_use_before = now + SEED_TTL_SECS \<rparr>"

definition parse_solution_bytes :: "bytes \<Rightarrow> directory_err + bytes" where
  "parse_solution_bytes s =
     (if length s \<noteq> equix_bytes then Inl (UpdateRejected ''invalid solution length'') else Inr s)"

definition validate_solution :: "ext \<Rightarrow> pow_seed \<Rightarrow> u64 \<Rightarrow> pow_solution \<Rightarrow> directory_err + unit" where
  "validate_solution E seed effort sol =
     (if ps_seed seed \<noteq> sol_seed sol then Inl (UpdateRejected ''seed mismatch'')
      else let challenge = keyed_digest E (be_bytes (hash_to_bytes (sol_seed sol))) (be_bytes (sol_nonce sol)) in
        and_then (parse_solution_bytes (sol_solution sol)) (\<lambda>bs.
          if \<not> equix_ok E (hash_to_bytes challenge) bs
          then Inl (UpdateRejected ''invalid equix solution'')
          else let first = take 8 (be_bytes (hash_to_bytes (digest E (sol_solution sol))));
                   val = (be_word first :: u64)
               in (case checked_mul64 val effort of
                     None \<Rightarrow> Inl (UpdateRejected ''insufficient effort'')
                   | Some _ \<Rightarrow> Inr ())))"

section \<open>Handlers\<close>

definition key_bits :: "ext \<Rightarrow> string \<Rightarrow> 256 word" where
  "key_bits E key = hash_to_bytes (digest E (str_bytes key))"

definition decode_history :: "ext \<Rightarrow> bytes \<Rightarrow> directory_err + directory_update list" where
  "decode_history E val =
     (if val = [] then Inr [] else ok_or RetryLater (bcs_from E ty_history (de_history E) val))"

definition load_history_from_smt ::
  "ext \<Rightarrow> ('m, 't) smt_lib \<Rightarrow> 'm \<Rightarrow> hash \<Rightarrow> string \<Rightarrow> directory_err + directory_update list" where
  "load_history_from_smt E T m root key =
     and_then (ok_or RetryLater (smt_get T (smt_open T m (hash_to_bytes root)) (key_bits E key)))
       (decode_history E)"

definition build_history_and_proof ::
  "ext \<Rightarrow> ('m, 't) smt_lib \<Rightarrow> 'm \<Rightarrow> hash \<Rightarrow> string \<Rightarrow> directory_err + (directory_update list \<times> bytes)" where
  "build_history_and_proof E T m root key =
     and_then (ok_or RetryLater (smt_prove T (smt_open T m (hash_to_bytes root)) (key_bits E key)))
       (\<lambda>(val, proof). and_then (decode_history E val) (\<lambda>history. Inr (history, proof)))"

definition v1_get_pow_seed ::
  "256 word \<Rightarrow> u64 \<Rightarrow> io \<Rightarrow> 'm dir_state \<Rightarrow> pow_seed \<times> 'm dir_state" where
  "v1_get_pow_seed random now io st =
     (let seed = new_seed random now;
          st = (if io 0 then insert_pow_seed seed POW_EFFORT st else st);
          st = (if io 1 then purge_pow_seeds now st else st)
      in (seed, st))"

definition last_header :: "ext \<Rightarrow> bool \<Rightarrow> 'm dir_state \<Rightarrow> directory_err + (u64 \<times> directory_header)" where
  "last_header E ok st =
     (if \<not> ok then Inl (map_db_err ''database'')
      else and_then (map_err map_db_err (load_last_header E st)) (ok_or RetryLater))"

definition v1_get_anchor :: "ext \<Rightarrow> io \<Rightarrow> 'm dir_state \<Rightarrow> directory_err + directory_anchor" where
  "v1_get_anchor E io st =
     (case d_mirror_anchor st of
        Some anchor \<Rightarrow> ok_or RetryLater anchor
      | None \<Rightarrow>
          and_then (ok_or RetryLater (d_secret_key st)) (\<lambda>secret_key.
          and_then (last_header E (io 0) st) (\<lambda>(height, header).
          and_then (ok_or (map_db_err ''encode'') (bcs_enc E (ser_header header))) (\<lambda>header_bytes.
            Inr (anchor_sign E \<lparr> an_directory_id = d_directory_id st, an_last_header_height = height,
              an_last_header_hash = digest E header_bytes, an_signature = zero_signature \<rparr> secret_key)))))"

definition v1_get_chunk :: "io \<Rightarrow> (bytes \<Rightarrow> directory_chunk option) \<Rightarrow> u64 \<Rightarrow> 'm dir_state \<Rightarrow> directory_err + directory_chunk" where
  "v1_get_chunk io decode height st =
     (if \<not> io 0 then Inl (map_db_err ''database'')
      else case load_chunk_row height st of
        None \<Rightarrow> Inl (UpdateRejected ''chunk not found'')
      | Some blob \<Rightarrow> ok_or (map_db_err ''decode'') (decode blob))"

definition v1_get_headers :: "ext \<Rightarrow> io \<Rightarrow> u64 \<Rightarrow> u64 \<Rightarrow> 'm dir_state \<Rightarrow> directory_err + directory_header list" where
  "v1_get_headers E io lo hi st =
     (if \<not> io 0 then Inl (map_db_err ''database'') else map_err map_db_err (load_headers E lo hi st))"

definition v1_get_item ::
  "ext \<Rightarrow> ('m, 't) smt_lib \<Rightarrow> io \<Rightarrow> string \<Rightarrow> 'm dir_state \<Rightarrow> directory_err + directory_response" where
  "v1_get_item E T io key st =
     and_then (last_header E (io 0) st) (\<lambda>(height, header).
     and_then (build_history_and_proof E T (d_merkle st) (hd_smt_root header) key) (\<lambda>(history, proof).
       Inr \<lparr> rs_history = history, rs_proof_height = height, rs_proof_merkle_branch = proof \<rparr>))"

text \<open>\<open>v1_insert_update\<close> up to the lock: seed, proof of work, committed history. A purge that fails
  ends the call.\<close>

definition insert_load ::
  "ext \<Rightarrow> ('m, 't) smt_lib \<Rightarrow> u64 \<Rightarrow> io \<Rightarrow> string \<Rightarrow> pow_solution \<Rightarrow> 'm dir_state
    \<Rightarrow> (directory_err + directory_update list) \<times> 'm dir_state" where
  "insert_load E T now io key sol st =
     (if \<not> io 0 then (Inl (map_db_err ''database''), st)
      else let st = purge_pow_seeds now st in
        (if \<not> io 1 then Inl (map_db_err ''database'')
         else (case fetch_pow_seed (sol_seed sol) st of
           None \<Rightarrow> Inl (UpdateRejected ''unknown pow seed'')
         | Some (use_before, effort) \<Rightarrow>
             if use_before \<le> now then Inl (UpdateRejected ''pow seed expired'')
             else let seed = \<lparr> ps_algo = EquiX effort, ps_seed = sol_seed sol, ps_use_before = use_before \<rparr> in
               and_then (validate_solution E seed effort sol) (\<lambda>_.
               and_then (last_header E (io 2) st) (\<lambda>(height, header).
                 load_history_from_smt E T (d_merkle st) (hd_smt_root header) key))), st))"

text \<open>From the lock on: the pending updates of the key and the new one must extend the history loaded
  before.\<close>

definition insert_stage ::
  "ext \<Rightarrow> string \<Rightarrow> directory_update \<Rightarrow> directory_update list \<Rightarrow> 'm dir_state
    \<Rightarrow> (directory_err + unit) \<times> 'm dir_state" where
  "insert_stage E key update history st =
     (let pending = (case map_of (d_staging st) key of None \<Rightarrow> [] | Some us \<Rightarrow> us) in
      case verify_history E (history @ pending @ [update]) of
        Inl err \<Rightarrow> (Inl (UpdateRejected (history_err_msg err)), st)
      | Inr _ \<Rightarrow> (Inr (), st \<lparr> d_staging := bt_insert key (pending @ [update]) (d_staging st) \<rparr>))"

definition v1_insert_update ::
  "ext \<Rightarrow> ('m, 't) smt_lib \<Rightarrow> (string \<Rightarrow> directory_update \<Rightarrow> pow_solution \<Rightarrow> anyhow + (directory_err + unit))
    \<Rightarrow> u64 \<Rightarrow> io \<Rightarrow> string \<Rightarrow> directory_update \<Rightarrow> pow_solution \<Rightarrow> 'm dir_state
    \<Rightarrow> (directory_err + unit) \<times> 'm dir_state" where
  "v1_insert_update E T upstream now io key update sol st =
     (case d_mirror_anchor st of
        Some _ \<Rightarrow> ((case upstream key update sol of Inr res \<Rightarrow> res | Inl _ \<Rightarrow> Inl RetryLater), st)
      | None \<Rightarrow> (case insert_load E T now io key sol st of
          (Inl e, st) \<Rightarrow> (Inl e, st)
        | (Inr history, st) \<Rightarrow> insert_stage E key update history st))"

section \<open>Chunks\<close>

text \<open>The two loops over a chunk's updates, the same in \<open>commit_chunk\<close> and in the mirror's
  \<open>apply_chunk\<close>: verify every extended history, then write them into the tree. \<open>load\<close> is
  \<open>load_history_from_smt\<close> under the previous root, or the empty history when there is none.\<close>

fun verify_updates ::
  "ext \<Rightarrow> (string \<Rightarrow> anyhow + directory_update list) \<Rightarrow> (string \<times> directory_update list) list \<Rightarrow> anyhow + unit" where
  "verify_updates E load [] = Inr ()"
| "verify_updates E load ((key, us) # rest) =
     and_then (load key) (\<lambda>history.
     and_then (map_err history_err_msg (verify_history E (history @ us))) (\<lambda>_. verify_updates E load rest))"

fun write_updates ::
  "ext \<Rightarrow> ('m, 't) smt_lib \<Rightarrow> (string \<Rightarrow> anyhow + directory_update list)
    \<Rightarrow> (string \<times> directory_update list) list \<Rightarrow> 't \<Rightarrow> anyhow + 't" where
  "write_updates E T load [] tree = Inr tree"
| "write_updates E T load ((key, us) # rest) tree =
     and_then (load key) (\<lambda>history.
     and_then (ok_or ''encode error'' (bcs_enc E (ser_history (history @ us)))) (\<lambda>val.
     and_then (ok_or ''smt error'' (smt_with T tree (key_bits E key) val)) (\<lambda>tree.
       write_updates E T load rest tree)))"

text \<open>The last header as \<open>commit_chunk\<close> and \<open>apply_chunk\<close> use it: the next height, the hash the
  next header links to, and the previous root.\<close>

definition chunk_base :: "ext \<Rightarrow> bool \<Rightarrow> 'm dir_state \<Rightarrow> anyhow + (u64 \<times> hash \<times> hash option)" where
  "chunk_base E ok st =
     (if \<not> ok then Inl ''database error''
      else and_then (load_last_header E st) (\<lambda>lh.
        case lh of
          None \<Rightarrow> Inr (0, zero_hash, None)
        | Some (height, header) \<Rightarrow>
            and_then (ok_or ''encode error'' (bcs_enc E (ser_header header))) (\<lambda>b.
              Inr (height + 1, digest E b, Some (hd_smt_root header)))))"

definition base_load ::
  "ext \<Rightarrow> ('m, 't) smt_lib \<Rightarrow> 'm \<Rightarrow> hash option \<Rightarrow> string \<Rightarrow> anyhow + directory_update list" where
  "base_load E T m root key =
     (case root of None \<Rightarrow> Inr []
      | Some r \<Rightarrow> map_err dir_err_msg (load_history_from_smt E T m r key))"

definition base_tree :: "('m, 't) smt_lib \<Rightarrow> 'm \<Rightarrow> hash option \<Rightarrow> 't" where
  "base_tree T m root = (case root of None \<Rightarrow> smt_empty T m | Some r \<Rightarrow> smt_open T m (hash_to_bytes r))"

text \<open>\<open>commit_chunk\<close>: the staging map is taken before anything that can fail. Nodes written by a
  commit of the tree stay in the store when a later step fails.\<close>

definition commit_chunk ::
  "ext \<Rightarrow> ('m, 't) smt_lib \<Rightarrow> u64 \<Rightarrow> io \<Rightarrow> 'm dir_state \<Rightarrow> (anyhow + unit) \<times> 'm dir_state" where
  "commit_chunk E T now io st =
     (let updates = d_staging st; st = st \<lparr> d_staging := [] \<rparr> in
      case chunk_base E (io 0) st of
        Inl e \<Rightarrow> (Inl e, st)
      | Inr (height, prev_hash, root) \<Rightarrow>
      (let load = base_load E T (d_merkle st) root in
      case and_then (verify_updates E load updates) (\<lambda>_.
             and_then (write_updates E T load updates (base_tree T (d_merkle st) root))
               (\<lambda>tree. ok_or ''smt error'' (smt_commit T (d_merkle st) tree))) of
        Inl e \<Rightarrow> (Inl e, st)
      | Inr (smt_root, merkle) \<Rightarrow>
      (let st = st \<lparr> d_merkle := merkle \<rparr>;
           header = \<lparr> hd_prev = prev_hash, hd_smt_root = Hash smt_root, hd_time_unix = now \<rparr> in
      case and_then (ok_or ''encode error'' (bcs_enc E (ser_header header))) (\<lambda>b.
             if \<not> io 1 then Inl ''database error''
             else insert_chunk E height header (digest E b) \<lparr> ck_header = header, ck_updates = updates \<rparr> st) of
        Inl e \<Rightarrow> (Inl e, st)
      | Inr st \<Rightarrow> (Inr (), st))))"

section \<open>The mirror\<close>

definition apply_chunk ::
  "ext \<Rightarrow> ('m, 't) smt_lib \<Rightarrow> io \<Rightarrow> u64 \<Rightarrow> directory_chunk \<Rightarrow> 'm dir_state \<Rightarrow> (anyhow + unit) \<times> 'm dir_state" where
  "apply_chunk E T io height chunk st =
     (case chunk_base E (io 0) st of
        Inl e \<Rightarrow> (Inl e, st)
      | Inr (expected_height, expected_prev, root) \<Rightarrow>
      (if height \<noteq> expected_height then (Inl ''unexpected chunk height'', st)
       else if hd_prev (ck_header chunk) \<noteq> expected_prev then (Inl ''chunk prev hash mismatch'', st)
       else let load = base_load E T (d_merkle st) root in
      case and_then (verify_updates E load (ck_updates chunk)) (\<lambda>_.
             and_then (write_updates E T load (ck_updates chunk) (base_tree T (d_merkle st) root))
               (\<lambda>tree. ok_or ''smt error'' (smt_commit T (d_merkle st) tree))) of
        Inl e \<Rightarrow> (Inl e, st)
      | Inr (smt_root, merkle) \<Rightarrow>
      (let st = st \<lparr> d_merkle := merkle \<rparr> in
       if Hash smt_root \<noteq> hd_smt_root (ck_header chunk) then (Inl ''chunk smt root mismatch'', st)
       else case and_then (ok_or ''encode error'' (bcs_enc E (ser_header (ck_header chunk)))) (\<lambda>b.
             if \<not> io 1 then Inl ''database error''
             else insert_chunk E height (ck_header chunk) (digest E b) chunk st) of
        Inl e \<Rightarrow> (Inl e, st)
      | Inr st \<Rightarrow> (Inr (), st))))"

definition load_local_head :: "ext \<Rightarrow> bool \<Rightarrow> 'm dir_state \<Rightarrow> anyhow + (u64 option \<times> hash)" where
  "load_local_head E ok st =
     (if \<not> ok then Inl ''database error''
      else and_then (load_last_header E st) (\<lambda>lh.
        case lh of
          None \<Rightarrow> Inr (None, zero_hash)
        | Some (height, header) \<Rightarrow>
            and_then (ok_or ''encode error'' (bcs_enc E (ser_header header))) (\<lambda>b. Inr (Some height, digest E b))))"

text \<open>The loop of \<open>sync_once\<close> over the missing heights; \<open>get_chunk\<close> is the upstream call,
  \<open>io h\<close> the database calls of the chunk at height \<open>h\<close>. It ends because \<open>next\<close> counts up to
  the anchor's height; fuel stands for that count.\<close>

fun apply_chunks ::
  "ext \<Rightarrow> ('m, 't) smt_lib \<Rightarrow> (u64 \<Rightarrow> anyhow + directory_chunk) \<Rightarrow> (u64 \<Rightarrow> io) \<Rightarrow> u64 \<Rightarrow> nat \<Rightarrow> u64
    \<Rightarrow> u64 option \<times> hash \<Rightarrow> 'm dir_state \<Rightarrow> (anyhow + (u64 option \<times> hash)) \<times> 'm dir_state" where
  "apply_chunks E T get_chunk io anchor_height 0 next lst st = (Inr lst, st)"
| "apply_chunks E T get_chunk io anchor_height (Suc fuel) next lst st =
     (if \<not> next \<le> anchor_height then (Inr lst, st)
      else case get_chunk next of
        Inl e \<Rightarrow> (Inl e, st)
      | Inr chunk \<Rightarrow>
          (case apply_chunk E T (io next) next chunk st of
             (Inl e, st) \<Rightarrow> (Inl e, st)
           | (Inr _, st) \<Rightarrow>
               (case bcs_enc E (ser_header (ck_header chunk)) of
                  None \<Rightarrow> (Inl ''encode error'', st)
                | Some b \<Rightarrow> apply_chunks E T get_chunk io anchor_height fuel (next + 1) (Some next, digest E b) st)))"

definition sync_once ::
  "ext \<Rightarrow> ('m, 't) smt_lib \<Rightarrow> (anyhow + directory_anchor) \<Rightarrow> (u64 \<Rightarrow> anyhow + directory_chunk) \<Rightarrow> bool \<Rightarrow> (u64 \<Rightarrow> io)
    \<Rightarrow> 'm dir_state \<Rightarrow> (anyhow + unit) \<times> 'm dir_state" where
  "sync_once E T get_anchor get_chunk ok io st =
     (case get_anchor of
        Inl e \<Rightarrow> (Inl e, st)
      | Inr anchor \<Rightarrow>
      (case load_local_head E ok st of
        Inl e \<Rightarrow> (Inl e, st)
      | Inr (last_height, last_hash) \<Rightarrow>
      (let set_anchor = (\<lambda>st. st \<lparr> d_mirror_anchor := Some (Some anchor) \<rparr>);
           ah = an_last_header_height anchor in
       if (case last_height of Some h \<Rightarrow> h > ah | None \<Rightarrow> False) then (Inr (), st)
       else if last_height = Some ah then
         (if last_hash \<noteq> an_last_header_hash anchor then (Inl ''local header hash mismatch at anchor height'', st)
          else (Inr (), set_anchor st))
       else let next = (case last_height of Some h \<Rightarrow> h + 1 | None \<Rightarrow> 0) in
         (case apply_chunks E T get_chunk io ah (Suc (unat ah - unat next) + 1) next (last_height, last_hash) st of
            (Inl e, st) \<Rightarrow> (Inl e, st)
          | (Inr (h, hash), st) \<Rightarrow>
              (if h = Some ah \<and> hash = an_last_header_hash anchor then (Inr (), set_anchor st) else (Inr (), st))))))"

section \<open>The invariant\<close>

definition tree_ok :: "ext \<Rightarrow> (256 word \<Rightarrow> bytes) \<Rightarrow> bool" where
  "tree_ok E f \<longleftrightarrow> (\<forall>k. f k \<noteq> [] \<longrightarrow>
     (\<exists>us. bcs_from E ty_history (de_history E) (f k) = Some us \<and> history_ok E us))"

definition headers_ok ::
  "ext \<Rightarrow> ('m, 't) smt_lib \<Rightarrow> ('t \<Rightarrow> 256 word \<Rightarrow> bytes) \<Rightarrow> ('m \<Rightarrow> 256 word set) \<Rightarrow> 'm
    \<Rightarrow> directory_header list \<Rightarrow> bool" where
  "headers_ok E T view roots m hs \<longleftrightarrow> (\<forall>h \<in> set hs. hash_to_bytes (hd_smt_root h) \<in> roots m \<and>
     tree_ok E (view (smt_open T m (hash_to_bytes (hd_smt_root h)))))"

text \<open>The header table is a hash chain, every tree it commits to holds verified histories only, and staged
  updates are decoded ones.\<close>

definition dir_inv ::
  "ext \<Rightarrow> ('m, 't) smt_lib \<Rightarrow> ('t \<Rightarrow> 256 word \<Rightarrow> bytes) \<Rightarrow> ('m \<Rightarrow> 256 word set) \<Rightarrow> nat \<Rightarrow> 'm dir_state \<Rightarrow> bool" where
  "dir_inv E T view roots n st \<longleftrightarrow>
     (\<exists>hs. d_headers st = rows_of E hs \<and> linked E hs \<and> length hs \<le> n \<and> headers_ok E T view roots (d_merkle st) hs) \<and>
     (\<forall>(k, us) \<in> set (d_staging st). list_all (update_wf E) us)"

lemma de_inner_wf: "de_update_inner E t = Some i \<Longrightarrow> inner_wf E i"
  by (cases t) (auto dest: pk_valid_de split: if_splits)

lemma de_update_wf: "de_update E v = Some u \<Longrightarrow> update_wf E u"
  by (induction E v rule: de_update.induct) (auto simp: update_wf_def dest: de_inner_wf split: option.splits)

lemma de_history_wf: "de_history E v = Some us \<Longrightarrow> list_all (update_wf E) us"
  by (cases v) (auto simp: de_history_def intro: de_list_all de_update_wf)

lemma decode_history_ok:
  assumes "tree_ok E f" and "decode_history E (f k) = Inr us"
  shows "history_ok E us \<and> list_all (update_wf E) us"
proof (cases "f k = []")
  case True
  with assms(2) show ?thesis by (simp add: decode_history_def)
next
  case False
  with assms obtain us' where "bcs_from E ty_history (de_history E) (f k) = Some us'" "history_ok E us'"
    by (auto simp: tree_ok_def)
  with assms(2) False show ?thesis
    by (auto simp: decode_history_def bcs_from_def Option.bind_eq_Some_conv intro: de_history_wf)
qed

lemma base_load_ok:
  assumes "smt_law T view roots" and "case root of None \<Rightarrow> True | Some r \<Rightarrow> tree_ok E (view (smt_open T m (hash_to_bytes r)))"
    and "base_load E T m root key = Inr us"
  shows "history_ok E us \<and> list_all (update_wf E) us \<and>
    (case root of None \<Rightarrow> us = []
     | Some r \<Rightarrow> decode_history E (view (smt_open T m (hash_to_bytes r)) (key_bits E key)) = Inr us)"
proof (cases root)
  case None
  with assms(3) show ?thesis by (simp add: base_load_def)
next
  case (Some r)
  with assms(3) obtain b where "smt_get T (smt_open T m (hash_to_bytes r)) (key_bits E key) = Some b"
    and d: "decode_history E b = Inr us"
    by (auto simp: base_load_def load_history_from_smt_def)
  then have "b = view (smt_open T m (hash_to_bytes r)) (key_bits E key)"
    using assms(1) unfolding smt_law_def by blast
  with d assms(2) Some show ?thesis
    using decode_history_ok [of E "view (smt_open T m (hash_to_bytes r))" "key_bits E key" us] by simp
qed

lemma write_updates_ok:
  assumes "bcs_law E" and "smt_law T view roots"
    and "\<And>k us. load k = Inr us \<Longrightarrow> list_all (update_wf E) us"
    and "\<forall>(k, us) \<in> set ups. list_all (update_wf E) us"
    and "verify_updates E load ups = Inr ()" and "write_updates E T load ups tree = Inr tree'"
    and "tree_ok E (view tree)"
  shows "tree_ok E (view tree')"
  using assms(4-)
proof (induction ups arbitrary: tree)
  case Nil
  then show ?case by simp
next
  case (Cons p ups)
  obtain key us where p: "p = (key, us)" by (cases p)
  from Cons.prems(3) p obtain old val t1 where old: "load key = Inr old"
    and val: "bcs_enc E (ser_history (old @ us)) = Some val"
    and t1: "smt_with T tree (key_bits E key) val = Some t1"
    and rest: "write_updates E T load ups t1 = Inr tree'"
    by auto
  have wf: "list_all (update_wf E) (old @ us)"
    using assms(3) [OF old] Cons.prems(1) p by simp
  have hist: "history_ok E (old @ us)" and ver: "verify_updates E load ups = Inr ()"
    using Cons.prems(2) p old by (auto simp: verify_history_iff)
  have "view t1 = (view tree)(key_bits E key := val)"
    using assms(2) t1 unfolding smt_law_def by blast
  moreover have "bcs_from E ty_history (de_history E) val = Some (old @ us)"
    by (simp add: bcs_from_enc [OF assms(1) val serde_history(3,2)] serde_history(1) [OF wf])
  ultimately have "tree_ok E (view t1)"
    using Cons.prems(4) hist by (auto simp: tree_ok_def)
  with Cons.IH [OF _ ver rest] Cons.prems(1) p show ?case by simp
qed

lemma load_last_rows_of:
  assumes "bcs_law E" and "linked E hs" and "length hs \<le> 2 ^ 63" and "d_headers st = rows_of E hs"
  shows "load_last_header E st = Inr (if hs = [] then None else Some (of_nat (length hs - 1), last hs))"
proof (cases "hs = []")
  case True
  with assms(4) show ?thesis by (simp add: load_last_header_def)
next
  case False
  then obtain m where m: "length hs = Suc m" by (cases hs) auto
  then have "m < 2 ^ 63" using assms(3) by linarith
  from t_get_rows_of [OF assms(3) this, of E] m
  have "t_get dh_height (of_nat m) (rows_of E hs) = Some (row_of E m (last hs))"
    using False by (simp add: last_conv_nth)
  moreover have "\<exists>b. bcs_enc E (ser_header (last hs)) = Some b"
    using assms(2) m False by (auto simp: linked_def last_conv_nth)
  moreover have "max_height (map dh_height (d_headers st)) = Some (of_nat m)"
    using m assms(3) max_height_upt [of "Suc m"] by (simp add: assms(4) rows_of_heights)
  ultimately show ?thesis
    using False m assms(1,4) by (auto simp: load_last_header_def row_of_def bcs_from_enc)
qed

lemma chunk_base_rows_of:
  assumes "bcs_law E" and "linked E hs" and "length hs \<le> 2 ^ 63" and "d_headers st = rows_of E hs"
    and "chunk_base E ok st = Inr (height, prev, root)"
  shows "height = of_nat (length hs) \<and> prev = tip_hash E hs \<and>
    root = (if hs = [] then None else Some (hd_smt_root (last hs)))"
proof (cases "hs = []")
  case True
  then show ?thesis
    using assms(5) load_last_rows_of [OF assms(1-4)]
    by (simp add: chunk_base_def tip_hash_def split: if_splits)
next
  case False
  then obtain m where m: "length hs = Suc m" by (cases hs) auto
  have "\<exists>b. bcs_enc E (ser_header (last hs)) = Some b"
    using assms(2) False by (auto simp: linked_def last_conv_nth)
  with False m show ?thesis
    using assms(5) load_last_rows_of [OF assms(1-4)]
    by (auto simp: chunk_base_def tip_hash_def header_hash_def ac_simps split: if_splits)
qed

text \<open>Both writers of chunks end the same way: the store after the tree's commit, and then, when the
  database accepts them, the new rows.\<close>

lemma committed_store_ok:
  assumes "smt_law T view roots" and "headers_ok E T view roots m hs" and "smt_commit T m t = Some (r, m')"
    and "tree_ok E (view t)"
  shows "headers_ok E T view roots m' hs \<and> r \<in> roots m' \<and> tree_ok E (view (smt_open T m' r))"
proof -
  from assms(1,3) have "r \<in> roots m'" "view (smt_open T m' r) = view t" "roots m \<subseteq> roots m'"
    "\<forall>r0 \<in> roots m. view (smt_open T m' r0) = view (smt_open T m r0)"
    unfolding smt_law_def by blast+
  with assms(2,4) show ?thesis by (auto simp: headers_ok_def)
qed

lemma insert_chunk_rows_of:
  assumes "insert_chunk E height h (digest E b) chunk st = Inr st'" and "bcs_enc E (ser_header h) = Some b"
    and "height = of_nat (length hs)" and "d_headers st = rows_of E hs"
  shows "d_headers st' = rows_of E (hs @ [h]) \<and> d_merkle st' = d_merkle st \<and> d_staging st' = d_staging st"
  using assms by (auto simp: insert_chunk_def t_insert_def row_of_def header_hash_def split: if_splits)

lemma base_tree_ok:
  assumes "smt_law T view roots" and "headers_ok E T view roots m hs"
    and "root = (if hs = [] then None else Some (hd_smt_root (last hs)))"
  shows "tree_ok E (view (base_tree T m root))"
    and "case root of None \<Rightarrow> True | Some r \<Rightarrow> tree_ok E (view (smt_open T m (hash_to_bytes r)))"
proof -
  have "view (smt_empty T m) k = []" for k
    using assms(1) unfolding smt_law_def by blast
  with assms(2,3) show "tree_ok E (view (base_tree T m root))"
    and "case root of None \<Rightarrow> True | Some r \<Rightarrow> tree_ok E (view (smt_open T m (hash_to_bytes r)))"
    by (auto simp: base_tree_def headers_ok_def tree_ok_def)
qed

text \<open>What a successful verify, write and commit of a list of updates establishes.\<close>

lemma updates_committed:
  assumes laws: "bcs_law E" "smt_law T view roots" and hok: "headers_ok E T view roots m hs"
    and root: "root = (if hs = [] then None else Some (hd_smt_root (last hs)))"
    and wf: "\<forall>(k, us) \<in> set ups. list_all (update_wf E) us"
    and run: "and_then (verify_updates E (base_load E T m root) ups) (\<lambda>_.
       and_then (write_updates E T (base_load E T m root) ups (base_tree T m root))
         (\<lambda>tree. ok_or err (smt_commit T m tree))) = Inr (r, m')"
  shows "headers_ok E T view roots m' hs \<and> r \<in> roots m' \<and> tree_ok E (view (smt_open T m' r))"
proof -
  from run obtain tree where ver: "verify_updates E (base_load E T m root) ups = Inr ()"
    and wr: "write_updates E T (base_load E T m root) ups (base_tree T m root) = Inr tree"
    and cm: "smt_commit T m tree = Some (r, m')"
    by auto
  have "tree_ok E (view tree)"
    using write_updates_ok [OF laws _ wf ver wr base_tree_ok(1) [OF laws(2) hok root]]
      base_load_ok [OF laws(2) base_tree_ok(2) [OF laws(2) hok root]] by blast
  from committed_store_ok [OF laws(2) hok cm this] show ?thesis .
qed

lemma dir_inv_rows:
  assumes "d_headers st' = rows_of E hs" "linked E hs" "length hs \<le> n" "headers_ok E T view roots (d_merkle st') hs"
    "\<forall>(k, us) \<in> set (d_staging st'). list_all (update_wf E) us"
  shows "dir_inv E T view roots n st'"
  using assms by (auto simp: dir_inv_def)

lemma commit_chunk_inv:
  assumes laws: "bcs_law E" "smt_law T view roots" and inv: "dir_inv E T view roots n st" and "n < 2 ^ 63"
  shows "dir_inv E T view roots (Suc n) (snd (commit_chunk E T now io st))"
proof -
  from inv obtain hs where hs: "d_headers st = rows_of E hs" "linked E hs" "length hs \<le> n"
    "headers_ok E T view roots (d_merkle st) hs" and wf: "\<forall>(k, us) \<in> set (d_staging st). list_all (update_wf E) us"
    by (auto simp: dir_inv_def)
  let ?st = "st \<lparr> d_staging := [] \<rparr>"
  have fail: "dir_inv E T view roots (Suc n) ?st"
    by (rule dir_inv_rows [where hs = hs]) (use hs in auto)
  show ?thesis
  proof (cases "chunk_base E (io 0) ?st")
    case (Inl e)
    with fail show ?thesis by (simp add: commit_chunk_def Let_def del: and_then_Inr)
  next
    case (Inr b)
    obtain height prev root where b: "b = (height, prev, root)" by (cases b)
    have base: "height = of_nat (length hs)" "prev = tip_hash E hs"
      "root = (if hs = [] then None else Some (hd_smt_root (last hs)))"
      using chunk_base_rows_of [OF laws(1) hs(2), of ?st] Inr b hs assms(4) by auto
    let ?load = "base_load E T (d_merkle st) root"
    let ?run = "and_then (verify_updates E ?load (d_staging st)) (\<lambda>_.
       and_then (write_updates E T ?load (d_staging st) (base_tree T (d_merkle st) root))
         (\<lambda>tree. ok_or ''smt error'' (smt_commit T (d_merkle st) tree)))"
    show ?thesis
    proof (cases ?run)
      case (Inl e)
      with fail Inr b show ?thesis by (simp add: commit_chunk_def Let_def del: and_then_Inr)
    next
      case r: (Inr q)
      obtain root' m' where q: "q = (root', m')" by (cases q)
      note ok = updates_committed [OF laws hs(4) base(3) wf r [unfolded q]]
      let ?st1 = "st \<lparr> d_staging := [], d_merkle := m' \<rparr>"
      let ?h = "\<lparr> hd_prev = prev, hd_smt_root = Hash root', hd_time_unix = now \<rparr>"
      have fail1: "dir_inv E T view roots (Suc n) ?st1"
        by (rule dir_inv_rows [where hs = hs]) (use hs ok in auto)
      show ?thesis
      proof (cases "and_then (ok_or ''encode error'' (bcs_enc E (ser_header ?h))) (\<lambda>b.
             if \<not> io 1 then Inl ''database error''
             else insert_chunk E height ?h (digest E b) \<lparr> ck_header = ?h, ck_updates = d_staging st \<rparr> ?st1)")
        case (Inl e)
        with fail1 Inr b r q show ?thesis by (simp add: commit_chunk_def Let_def del: and_then_Inr)
      next
        case i: (Inr st2)
        then obtain bs where bs: "bcs_enc E (ser_header ?h) = Some bs"
          and ins: "insert_chunk E height ?h (digest E bs) \<lparr> ck_header = ?h, ck_updates = d_staging st \<rparr> ?st1 = Inr st2"
          by (auto split: if_splits)
        note rows = insert_chunk_rows_of [OF ins bs base(1)]
        have "dir_inv E T view roots (Suc n) st2"
          by (rule dir_inv_rows [where hs = "hs @ [?h]"])
            (use rows hs ok bs base(2) in \<open>auto simp: headers_ok_def\<close>)
        with Inr b r q i show ?thesis by (simp add: commit_chunk_def Let_def del: and_then_Inr)
      qed
    qed
  qed
qed

lemma apply_chunk_inv:
  assumes laws: "bcs_law E" "smt_law T view roots" and inv: "dir_inv E T view roots n st" and "n < 2 ^ 63"
    and chunk: "\<forall>(k, us) \<in> set (ck_updates chunk). list_all (update_wf E) us"
  shows "dir_inv E T view roots (Suc n) (snd (apply_chunk E T io height chunk st))"
proof -
  from inv obtain hs where hs: "d_headers st = rows_of E hs" "linked E hs" "length hs \<le> n"
    "headers_ok E T view roots (d_merkle st) hs" and wf: "\<forall>(k, us) \<in> set (d_staging st). list_all (update_wf E) us"
    by (auto simp: dir_inv_def)
  have fail: "dir_inv E T view roots (Suc n) st"
    by (rule dir_inv_rows [where hs = hs]) (use hs wf in auto)
  let ?h = "ck_header chunk"
  show ?thesis
  proof (cases "\<exists>root. chunk_base E (io 0) st = Inr (height, hd_prev ?h, root)")
    case False
    with fail show ?thesis by (auto simp: apply_chunk_def split: sum.splits)
  next
    case True
    then obtain root where cb: "chunk_base E (io 0) st = Inr (height, hd_prev ?h, root)" by blast
    have base: "height = of_nat (length hs)" "hd_prev ?h = tip_hash E hs"
      "root = (if hs = [] then None else Some (hd_smt_root (last hs)))"
      using chunk_base_rows_of [OF laws(1) hs(2) _ hs(1) cb] hs(3) assms(4) by auto
    let ?load = "base_load E T (d_merkle st) root"
    let ?run = "and_then (verify_updates E ?load (ck_updates chunk)) (\<lambda>_.
       and_then (write_updates E T ?load (ck_updates chunk) (base_tree T (d_merkle st) root))
         (\<lambda>tree. ok_or ''smt error'' (smt_commit T (d_merkle st) tree)))"
    show ?thesis
    proof (cases ?run)
      case (Inl e)
      with fail cb show ?thesis by (simp add: apply_chunk_def Let_def del: and_then_Inr)
    next
      case r: (Inr q)
      obtain root' m' where q: "q = (root', m')" by (cases q)
      note ok = updates_committed [OF laws hs(4) base(3) chunk r [unfolded q]]
      let ?st1 = "st \<lparr> d_merkle := m' \<rparr>"
      have fail1: "dir_inv E T view roots (Suc n) ?st1"
        by (rule dir_inv_rows [where hs = hs]) (use hs ok wf in auto)
      show ?thesis
      proof (cases "Hash root' = hd_smt_root ?h \<and> (\<exists>st2. and_then (ok_or ''encode error'' (bcs_enc E (ser_header ?h))) (\<lambda>b.
             if \<not> io 1 then Inl ''database error'' else insert_chunk E height ?h (digest E b) chunk ?st1) = Inr st2)")
        case False
        with fail1 cb r q show ?thesis
          by (simp add: apply_chunk_def Let_def del: and_then_Inr split: sum.split) blast
      next
        case i: True
        then obtain bs st2 where bs: "bcs_enc E (ser_header ?h) = Some bs" "io 1"
          and ins: "insert_chunk E height ?h (digest E bs) chunk ?st1 = Inr st2" and root': "hd_smt_root ?h = Hash root'"
          by (auto split: if_splits)
        note rows = insert_chunk_rows_of [OF ins bs(1) base(1)]
        have "dir_inv E T view roots (Suc n) st2"
          by (rule dir_inv_rows [where hs = "hs @ [?h]"])
            (use rows hs ok bs base(2) root' wf in \<open>auto simp: headers_ok_def\<close>)
        from cb r q root' bs ins \<open>dir_inv E T view roots (Suc n) st2\<close> show ?thesis
          by (simp add: apply_chunk_def Let_def del: and_then_Inr)
      qed
    qed
  qed
qed

section \<open>All runs of the server\<close>

text \<open>The state and the inserts that have loaded their history and wait for the lock. Requests are decoded
  by serde, so their updates are well-formed; everything else about them is arbitrary. \<open>dir_run n s\<close>:
  \<open>s\<close> is reachable in \<open>n\<close> steps from an empty database.\<close>

type_synonym flight = "(string \<times> directory_update \<times> directory_update list) list"

inductive dir_run ::
  "ext \<Rightarrow> ('m, 't) smt_lib \<Rightarrow> 'm dir_state \<Rightarrow> nat \<Rightarrow> 'm dir_state \<times> flight \<Rightarrow> bool"
  for E :: ext and T :: "('m, 't) smt_lib" and st0 :: "'m dir_state" where
  start: "d_headers st0 = [] \<Longrightarrow> d_staging st0 = [] \<Longrightarrow> dir_run E T st0 0 (st0, [])"
| pow_seed: "dir_run E T st0 n (st, fl) \<Longrightarrow>
    dir_run E T st0 (Suc n) (snd (v1_get_pow_seed random now io st), fl)"
| insert_loaded: "dir_run E T st0 n (st, fl) \<Longrightarrow> update_wf E u \<Longrightarrow>
    insert_load E T now io key sol st = (Inr history, st') \<Longrightarrow>
    dir_run E T st0 (Suc n) (st', (key, u, history) # fl)"
| insert_rejected: "dir_run E T st0 n (st, fl) \<Longrightarrow> insert_load E T now io key sol st = (Inl e, st') \<Longrightarrow>
    dir_run E T st0 (Suc n) (st', fl)"
| insert_locked: "dir_run E T st0 n (st, fl) \<Longrightarrow> (key, u, history) \<in> set fl \<Longrightarrow>
    dir_run E T st0 (Suc n) (snd (insert_stage E key u history st), remove1 (key, u, history) fl)"
| committed: "dir_run E T st0 n (st, fl) \<Longrightarrow>
    dir_run E T st0 (Suc n) (snd (commit_chunk E T now io st), fl)"
| mirrored: "dir_run E T st0 n (st, fl) \<Longrightarrow> \<forall>(k, us) \<in> set (ck_updates chunk). list_all (update_wf E) us \<Longrightarrow>
    dir_run E T st0 (Suc n) (snd (apply_chunk E T io height chunk st), fl)"
| anchored: "dir_run E T st0 n (st, fl) \<Longrightarrow>
    dir_run E T st0 (Suc n) (st \<lparr> d_mirror_anchor := Some (Some anchor) \<rparr>, fl)"

inductive_cases dir_run_zero: "dir_run E T st0 0 s"

lemma dir_inv_same:
  "dir_inv E T view roots n st \<Longrightarrow> n \<le> n' \<Longrightarrow> d_headers st' = d_headers st \<Longrightarrow> d_merkle st' = d_merkle st
    \<Longrightarrow> d_staging st' = d_staging st \<Longrightarrow> dir_inv E T view roots n' st'"
  unfolding dir_inv_def by (metis order_trans)

lemma insert_load_state:
  "insert_load E T now io key sol st = (r, st') \<Longrightarrow>
     d_headers st' = d_headers st \<and> d_merkle st' = d_merkle st \<and> d_staging st' = d_staging st"
  by (auto simp: insert_load_def purge_pow_seeds_def Let_def split: if_splits)

lemma pow_seed_state:
  "d_headers (snd (v1_get_pow_seed random now io st)) = d_headers st"
  "d_merkle (snd (v1_get_pow_seed random now io st)) = d_merkle st"
  "d_staging (snd (v1_get_pow_seed random now io st)) = d_staging st"
  by (simp_all add: v1_get_pow_seed_def Let_def insert_pow_seed_def purge_pow_seeds_def)

lemma set_bt_insert: "set (bt_insert k v m) \<subseteq> insert (k, v) (set m)"
  by (induction k v m rule: bt_insert.induct) auto

lemma insert_stage_state:
  assumes "update_wf E u" and "\<forall>(k, us) \<in> set (d_staging st). list_all (update_wf E) us"
  shows "d_headers (snd (insert_stage E key u history st)) = d_headers st"
    and "d_merkle (snd (insert_stage E key u history st)) = d_merkle st"
    and "\<forall>(k, us) \<in> set (d_staging (snd (insert_stage E key u history st))). list_all (update_wf E) us"
proof -
  let ?p = "case map_of (d_staging st) key of None \<Rightarrow> [] | Some us \<Rightarrow> us"
  have p: "list_all (update_wf E) ?p"
    using assms(2) by (auto split: option.split dest!: map_of_SomeD)
  show "d_headers (snd (insert_stage E key u history st)) = d_headers st"
    "d_merkle (snd (insert_stage E key u history st)) = d_merkle st"
    by (simp_all add: insert_stage_def Let_def split: sum.split)
  show "\<forall>(k, us) \<in> set (d_staging (snd (insert_stage E key u history st))). list_all (update_wf E) us"
    using assms p set_bt_insert [of key "?p @ [u]" "d_staging st"]
    by (auto simp: insert_stage_def Let_def split: sum.split)
qed

lemma dir_run_inv:
  assumes "bcs_law E" and "smt_law T view roots" and "dir_run E T st0 n s" and "n \<le> 2 ^ 63"
  shows "dir_inv E T view roots n (fst s) \<and> (\<forall>(k, u, h) \<in> set (snd s). update_wf E u)"
  using assms(3,4)
proof (induction rule: dir_run.induct)
  case start
  then show ?case by (auto simp: dir_inv_def headers_ok_def intro: exI [of _ "[]"])
next
  case (pow_seed n st fl random now io)
  then show ?case by (auto simp: pow_seed_state intro: dir_inv_same)
next
  case (insert_loaded n st fl u now io key sol history st')
  then show ?case using insert_load_state [OF insert_loaded.hyps(3)] by (auto intro: dir_inv_same)
next
  case (insert_rejected n st fl now io key sol e st')
  then show ?case using insert_load_state [OF insert_rejected.hyps(2)] by (auto intro: dir_inv_same)
next
  case (insert_locked n st fl key u history)
  then have inv: "dir_inv E T view roots n st" and u: "update_wf E u"
    and fl: "\<forall>(k, u, h) \<in> set fl. update_wf E u" by auto
  then have wf: "\<forall>(k, us) \<in> set (d_staging st). list_all (update_wf E) us" by (simp add: dir_inv_def)
  from inv obtain hs where hs: "d_headers st = rows_of E hs" "linked E hs" "length hs \<le> n"
    "headers_ok E T view roots (d_merkle st) hs" by (auto simp: dir_inv_def)
  have "dir_inv E T view roots (Suc n) (snd (insert_stage E key u history st))"
    by (rule dir_inv_rows [where hs = hs])
      (use hs insert_stage_state [OF u wf, of key history] in simp_all)
  with fl show ?case using set_remove1_subset [of "(key, u, history)" fl] by auto
next
  case (committed n st fl now io)
  then show ?case using commit_chunk_inv [OF assms(1,2)] by simp
next
  case (mirrored n st fl chunk io height)
  then show ?case using apply_chunk_inv [OF assms(1,2)] by simp
next
  case (anchored n st fl anchor)
  then show ?case by (auto intro: dir_inv_same)
qed

lemma history_from_tree:
  assumes "smt_law T view roots" and "headers_ok E T view roots m hs" and "h \<in> set hs"
    and "build_history_and_proof E T m (hd_smt_root h) key = Inr (us, p)"
  shows "history_ok E us \<and>
    decode_history E (view (smt_open T m (hash_to_bytes (hd_smt_root h))) (key_bits E key)) = Inr us"
proof -
  from assms(4) obtain v where "smt_prove T (smt_open T m (hash_to_bytes (hd_smt_root h))) (key_bits E key) = Some (v, p)"
    and d: "decode_history E v = Inr us"
    by (auto simp: build_history_and_proof_def)
  then have "v = view (smt_open T m (hash_to_bytes (hd_smt_root h))) (key_bits E key)"
    using assms(1) unfolding smt_law_def by blast
  moreover have "tree_ok E (view (smt_open T m (hash_to_bytes (hd_smt_root h))))"
    using assms(2,3) by (simp add: headers_ok_def)
  ultimately show ?thesis using d decode_history_ok by blast
qed

section \<open>A tree library\<close>

text \<open>The witnesses run on a store that is the list of committed maps; a root is a position in it.\<close>

type_synonym demo_tree = "(256 word \<times> bytes) list"

definition demo_view :: "demo_tree \<Rightarrow> 256 word \<Rightarrow> bytes" where
  "demo_view t k = (case map_of t k of None \<Rightarrow> [] | Some v \<Rightarrow> v)"

definition demo_open_root :: "demo_tree list \<Rightarrow> 256 word \<Rightarrow> demo_tree" where
  "demo_open_root m r = (if unat r < length m then m ! unat r else [])"

definition demo_empty :: "demo_tree list \<Rightarrow> demo_tree" where "demo_empty m = []"
definition demo_get :: "demo_tree \<Rightarrow> 256 word \<Rightarrow> bytes option" where "demo_get t k = Some (demo_view t k)"
definition demo_prove :: "demo_tree \<Rightarrow> 256 word \<Rightarrow> (bytes \<times> bytes) option" where
  "demo_prove t k = Some (demo_view t k, [])"
definition demo_with :: "demo_tree \<Rightarrow> 256 word \<Rightarrow> bytes \<Rightarrow> demo_tree option" where
  "demo_with t k v = Some ((k, v) # t)"
definition demo_commit :: "demo_tree list \<Rightarrow> demo_tree \<Rightarrow> (256 word \<times> demo_tree list) option" where
  "demo_commit m t = (if int (length m) < 1000 then Some (of_nat (length m), m @ [t]) else None)"

definition demo_smt :: "(demo_tree list, demo_tree) smt_lib" where
  "demo_smt = \<lparr> smt_open = demo_open_root, smt_empty = demo_empty, smt_get = demo_get,
     smt_prove = demo_prove, smt_with = demo_with, smt_commit = demo_commit \<rparr>"

definition demo_roots :: "demo_tree list \<Rightarrow> 256 word set" where
  "demo_roots m = {r. unat r < length m}"

lemma demo_smt_law [simp]: "smt_law demo_smt demo_view demo_roots"
proof -
  have "unat (of_nat n :: 256 word) = n" if "n < 1000" for n
    using that by (simp add: unat_of_nat)
  then show ?thesis
    by (auto simp: smt_law_def demo_smt_def demo_empty_def demo_get_def demo_prove_def demo_with_def
        demo_commit_def demo_view_def demo_roots_def demo_open_root_def fun_eq_iff
        nth_append split: if_splits)
qed

definition demo_dir :: "demo_tree list dir_state" where
  "demo_dir = \<lparr> d_pow_seeds = [], d_headers = [], d_chunks = [], d_merkle = [], d_staging = [],
     d_secret_key = Some (SigningSecret 9), d_directory_id = ''dir'', d_mirror_anchor = None \<rparr>"

definition all_ok :: io where "all_ok n = True"

definition demo_dir1 :: "demo_tree list dir_state" where
  "demo_dir1 = snd (commit_chunk demo_ext demo_smt 30 all_ok demo_dir)"

lemma demo_run1: "dir_run demo_ext demo_smt demo_dir 1 (demo_dir1, [])"
  using committed [OF start, of demo_dir demo_ext demo_smt 30 all_ok]
  by (simp add: demo_dir1_def demo_dir_def)

lemma demo_dir1_rows:
  "d_headers demo_dir1 = rows_of demo_ext [\<lparr> hd_prev = zero_hash, hd_smt_root = Hash 0, hd_time_unix = 30 \<rparr>]
    \<and> d_merkle demo_dir1 = [[]] \<and> d_secret_key demo_dir1 = Some (SigningSecret 9) \<and> d_mirror_anchor demo_dir1 = None"
proof -
  let ?h = "\<lparr> hd_prev = zero_hash, hd_smt_root = Hash 0, hd_time_unix = 30 \<rparr>"
  obtain hb where hb: "bcs_enc demo_ext (ser_header ?h) = Some hb"
    by (simp add: demo_ext_def ser_header_def zero_hash_def ser_bytes_arr_def demo_len_def)
  obtain cb where cb: "bcs_enc demo_ext (ser_chunk \<lparr> ck_header = ?h, ck_updates = [] \<rparr>) = Some cb"
    by (simp add: demo_ext_def ser_chunk_def ser_header_def zero_hash_def ser_bytes_arr_def
        demo_len_def demo_seq_def)
  show ?thesis
    by (simp add: demo_dir1_def commit_chunk_def chunk_base_def demo_dir_def load_last_header_def
        base_tree_def demo_smt_def demo_empty_def demo_commit_def all_ok_def insert_chunk_def t_insert_def
        hb cb rows_of_def row_of_def header_hash_def)
qed

section \<open>Properties\<close>

text \<open>C10: in every run of the server, with every interleaving of inserts, chunks and mirrored chunks and every
  database failure, what \<open>v1_get_item\<close> answers is the last committed state of the key: a history that
  verifies, read from the tree of the last header of a linked header chain, with that header's height.\<close>

theorem served_histories_verify:
  assumes "bcs_law E" and "smt_law T view roots" and "dir_run E T st0 n (st, fl)" and "n \<le> 2 ^ 63"
    and "v1_get_item E T io key st = Inr response"
  shows "\<exists>hs. d_headers st = rows_of E hs \<and> linked E hs \<and> hs \<noteq> [] \<and>
    rs_proof_height response = of_nat (length hs - 1) \<and> history_ok E (rs_history response) \<and>
    decode_history E (view (smt_open T (d_merkle st) (hash_to_bytes (hd_smt_root (last hs)))) (key_bits E key))
      = Inr (rs_history response)"
proof -
  from dir_run_inv [OF assms(1-4)] obtain hs where
    hs: "d_headers st = rows_of E hs" "linked E hs" "length hs \<le> n" "headers_ok E T view roots (d_merkle st) hs"
    by (auto simp: dir_inv_def)
  from assms(5) obtain height header p where
    lh: "last_header E (io 0) st = Inr (height, header)"
    and b: "build_history_and_proof E T (d_merkle st) (hd_smt_root header) key = Inr (rs_history response, p)"
    and h: "rs_proof_height response = height"
    by (auto simp: v1_get_item_def)
  have ne: "hs \<noteq> []" and hh: "height = of_nat (length hs - 1)" "header = last hs"
    using lh load_last_rows_of [OF assms(1) hs(2) _ hs(1)] hs(3) assms(4)
    by (auto simp: last_header_def split: if_splits)
  from history_from_tree [OF assms(2) hs(4) _ b [unfolded hh(2)]] ne
  show ?thesis using hs(1,2) h hh by auto
qed

theorem served_histories_verify_witness:
  "\<exists>hs response. d_headers demo_dir1 = rows_of demo_ext hs \<and> linked demo_ext hs \<and> hs \<noteq> [] \<and>
    v1_get_item demo_ext demo_smt all_ok ''@alice'' demo_dir1 = Inr response \<and>
    rs_proof_height response = of_nat (length hs - 1) \<and> history_ok demo_ext (rs_history response)"
proof -
  let ?h = "\<lparr> hd_prev = zero_hash, hd_smt_root = Hash 0, hd_time_unix = 30 \<rparr>"
  have lk: "linked demo_ext [?h]"
    by (simp add: linked_def tip_hash_def demo_ext_def ser_header_def zero_hash_def ser_bytes_arr_def demo_len_def)
  have "last_header demo_ext (all_ok 0) demo_dir1 = Inr (0, ?h)"
    using load_last_rows_of [OF demo_laws(1) lk _ conjunct1 [OF demo_dir1_rows]]
    by (simp add: last_header_def all_ok_def)
  then have "v1_get_item demo_ext demo_smt all_ok ''@alice'' demo_dir1
      = Inr \<lparr> rs_history = [], rs_proof_height = 0, rs_proof_merkle_branch = [] \<rparr>"
    using demo_dir1_rows
    by (simp add: v1_get_item_def build_history_and_proof_def demo_smt_def demo_prove_def demo_view_def
        demo_open_root_def decode_history_def)
  from served_histories_verify [OF demo_laws(1) demo_smt_law demo_run1 _ this] this show ?thesis
    by auto
qed

text \<open>the anchor a directory server signs is the tip of its header chain, and it verifies under the
  server's key.\<close>

theorem anchor_is_tip:
  assumes "bcs_law E" and "sig_law E" and "smt_law T view roots" and "dir_run E T st0 n (st, fl)"
    and "n \<le> 2 ^ 63" and "d_mirror_anchor st = None" and "d_secret_key st = Some sk"
    and "v1_get_anchor E io st = Inr anchor"
  shows "\<exists>hs. d_headers st = rows_of E hs \<and> linked E hs \<and> hs \<noteq> [] \<and>
    an_last_header_height anchor = of_nat (length hs - 1) \<and> an_last_header_hash anchor = tip_hash E hs \<and>
    anchor_verify E anchor (signing_public_key E sk) = Inr ()"
proof -
  from dir_run_inv [OF assms(1,3-5)] obtain hs where
    hs: "d_headers st = rows_of E hs" "linked E hs" "length hs \<le> n"
    by (auto simp: dir_inv_def)
  from assms(6-8) obtain height header b where
    lh: "last_header E (io 0) st = Inr (height, header)" and b: "bcs_enc E (ser_header header) = Some b"
    and a: "anchor = anchor_sign E \<lparr> an_directory_id = d_directory_id st, an_last_header_height = height,
              an_last_header_hash = digest E b, an_signature = zero_signature \<rparr> sk"
    by (auto simp: v1_get_anchor_def)
  have tip: "hs \<noteq> []" "height = of_nat (length hs - 1)" "header = last hs"
    using lh load_last_rows_of [OF assms(1) hs(2) _ hs(1)] hs(3) assms(5)
    by (auto simp: last_header_def split: if_splits)
  have "an_last_header_height anchor = height" "an_last_header_hash anchor = digest E b"
    by (simp_all add: a anchor_sign_def sign_with_def set_anchor_signature_def)
  moreover have "digest E b = tip_hash E hs"
    using b tip by (simp add: tip_hash_def header_hash_def)
  moreover have "anchor_verify E anchor (signing_public_key E sk) = Inr ()"
    using anchor_signable.verify_sign [OF assms(2)] by (simp add: a anchor_verify_def anchor_sign_def)
  ultimately show ?thesis
    using hs tip by (intro exI [of _ hs]) simp
qed

theorem anchor_is_tip_witness:
  "\<exists>hs anchor. v1_get_anchor demo_ext all_ok demo_dir1 = Inr anchor \<and> d_headers demo_dir1 = rows_of demo_ext hs \<and>
    an_last_header_hash anchor = tip_hash demo_ext hs \<and>
    anchor_verify demo_ext anchor (signing_public_key demo_ext (SigningSecret 9)) = Inr ()"
proof -
  let ?h = "\<lparr> hd_prev = zero_hash, hd_smt_root = Hash 0, hd_time_unix = 30 \<rparr>"
  have lk: "linked demo_ext [?h]"
    by (simp add: linked_def tip_hash_def demo_ext_def ser_header_def zero_hash_def ser_bytes_arr_def demo_len_def)
  have "last_header demo_ext (all_ok 0) demo_dir1 = Inr (0, ?h)"
    using load_last_rows_of [OF demo_laws(1) lk _ conjunct1 [OF demo_dir1_rows]]
    by (simp add: last_header_def all_ok_def)
  moreover obtain b where "bcs_enc demo_ext (ser_header ?h) = Some b"
    by (simp add: demo_ext_def ser_header_def zero_hash_def ser_bytes_arr_def demo_len_def)
  ultimately obtain anchor where a: "v1_get_anchor demo_ext all_ok demo_dir1 = Inr anchor"
    using demo_dir1_rows by (simp add: v1_get_anchor_def)
  from anchor_is_tip [OF demo_laws(1,5) demo_smt_law demo_run1 _ _ _ a] demo_dir1_rows a show ?thesis
    by auto
qed


text \<open>the proof of work the client finds is accepted by the server: same challenge, same solution length,
  same effort rule, for every nonce the search starts from.\<close>

theorem solved_pow_validates:
  assumes "equix_law E" and "solve_pow E \<lparr> ps_algo = EquiX effort, ps_seed = seed, ps_use_before = t \<rparr> nonce fuel = Some sol"
  shows "validate_solution E \<lparr> ps_algo = EquiX effort, ps_seed = seed, ps_use_before = t' \<rparr> effort sol = Inr ()"
  using solve_equix_pow_sound [OF assms(1)] assms(2)
  by (fastforce simp: validate_solution_def Let_def parse_solution_bytes_def pow_challenge_def
      good_solution_def solution_value_def)

theorem solved_pow_validates_witness:
  "\<exists>sol. validate_solution demo_ext (new_seed 11 25) POW_EFFORT sol = Inr ()"
proof -
  have "\<exists>sol. solve_pow demo_ext \<lparr> ps_algo = EquiX POW_EFFORT, ps_seed = Hash 11, ps_use_before = 145 \<rparr> 0 1 = Some sol"
  proof -
    have "solve_pow demo_ext \<lparr> ps_algo = EquiX POW_EFFORT, ps_seed = Hash 11, ps_use_before = 145 \<rparr> 0 1 \<noteq> None"
      by code_simp
    then show ?thesis by auto
  qed
  then obtain sol where sol: "solve_pow demo_ext \<lparr> ps_algo = EquiX POW_EFFORT, ps_seed = Hash 11, ps_use_before = 145 \<rparr> 0 1 = Some sol"
    by blast
  show ?thesis
    using solved_pow_validates [OF demo_laws(9) sol, of "25 + SEED_TTL_SECS"] by (auto simp: new_seed_def)
qed

end
