(* ===== verification/E2ee.thy ===== *)
theory E2ee
  imports Certificate Events
begin

text \<open>
  End-to-end payloads (\<open>nullspace-structs/src/e2ee.rs\<close> and the \<open>GroupMessage\<close> part of
  \<open>group.rs\<close>): a payload signed by a device under its certificate chain, a payload encrypted once
  and wrapped for each recipient's medium-term key in a header, and the group message that seals a
  signed event under the group key. Random keys and nonces are arguments. The lemmas are the round
  trips a sender and a receiver rely on and what a successful verification shows.
\<close>

section \<open>Device-signed payloads\<close>

record device_signed =
  ds_sender :: username
  ds_cert_chain :: certificate_chain
  ds_body :: bytes
  ds_signature :: signature

datatype device_signed_error = DsEncode | DsDecode | DsVerify

definition ds_signed_value :: "ext \<Rightarrow> device_signed \<Rightarrow> bytes" where
  "ds_signed_value E d =
     bcs_expect E (VTup [ser_username (ds_sender d), ser_chain (ds_cert_chain d), VBytes (ds_body d)])"

definition set_ds_signature :: "signature \<Rightarrow> device_signed \<Rightarrow> device_signed" where
  "set_ds_signature s d = d \<lparr> ds_signature := s \<rparr>"

interpretation ds_signable: signable E "ds_signed_value E" ds_signature set_ds_signature for E
  by unfold_locales (simp_all add: ds_signed_value_def set_ds_signature_def)

definition device_sign_bytes ::
  "ext \<Rightarrow> bytes \<Rightarrow> username \<Rightarrow> certificate_chain \<Rightarrow> device_secret \<Rightarrow> device_signed" where
  "device_sign_bytes E body sender cert_chain sender_device =
     sign_with E (ds_signed_value E) set_ds_signature
       \<lparr> ds_sender = sender, ds_cert_chain = cert_chain, ds_body = body, ds_signature = zero_signature \<rparr>
       sender_device"

definition device_sign_blob ::
  "ext \<Rightarrow> blob \<Rightarrow> username \<Rightarrow> certificate_chain \<Rightarrow> device_secret \<Rightarrow> device_signed_error + device_signed" where
  "device_sign_blob E message sender cert_chain sender_device =
     and_then (ok_or DsEncode (bcs_enc E (ser_blob message))) (\<lambda>body.
       Inr (device_sign_bytes E body sender cert_chain sender_device))"

definition device_verify_bytes ::
  "ext \<Rightarrow> timestamp \<Rightarrow> device_signed \<Rightarrow> hash \<Rightarrow> device_signed_error + bytes" where
  "device_verify_bytes E now d sender_root_hash =
     and_then (map_err (\<lambda>_. DsVerify) (chain_verify E now (ds_cert_chain d) sender_root_hash)) (\<lambda>_.
     let device = last_device (ds_cert_chain d) in
     and_then (map_err (\<lambda>_. DsVerify) (verify_with E (ds_signed_value E) ds_signature d (cert_pk device))) (\<lambda>_.
       Inr (ds_body d)))"

definition device_verify_blob ::
  "ext \<Rightarrow> timestamp \<Rightarrow> device_signed \<Rightarrow> hash \<Rightarrow> device_signed_error + blob" where
  "device_verify_blob E now d sender_root_hash =
     and_then (device_verify_bytes E now d sender_root_hash) (\<lambda>body.
       ok_or DsDecode (bcs_from E ty_blob de_blob body))"

definition ser_device_signed :: "device_signed \<Rightarrow> sval" where
  "ser_device_signed d = VTup [ser_username (ds_sender d), ser_chain (ds_cert_chain d), VBytes (ds_body d),
     ser_signature (ds_signature d)]"

definition ty_device_signed :: styp where
  "ty_device_signed = TTup [TStr, ty_chain, TBytes, TBytes]"

fun de_device_signed :: "ext \<Rightarrow> sval \<Rightarrow> device_signed option" where
  "de_device_signed E (VTup [u, c, b, s]) =
     (case (de_username u, de_chain E c, de_bytes b, de_signature s) of
        (Some sender, Some chain, Some body, Some sig) \<Rightarrow>
          Some \<lparr> ds_sender = sender, ds_cert_chain = chain, ds_body = body, ds_signature = sig \<rparr>
      | _ \<Rightarrow> None)"
| "de_device_signed E _ = None"

definition ds_wf :: "ext \<Rightarrow> device_signed \<Rightarrow> bool" where
  "ds_wf E d \<longleftrightarrow> username_wf (ds_sender d) \<and> chain_wf E (ds_cert_chain d)"

lemma serde_device_signed [simp, serde]:
  "ds_wf E d \<Longrightarrow> de_device_signed E (ser_device_signed d) = Some d"
  "has_styp ty_device_signed (ser_device_signed d)" "map_free ty_device_signed"
  by (simp_all add: ser_device_signed_def ty_device_signed_def ds_wf_def)

lemma device_sign_bytes_sel [simp]:
  "ds_sender (device_sign_bytes E b u ch sk) = u"
  "ds_cert_chain (device_sign_bytes E b u ch sk) = ch"
  "ds_body (device_sign_bytes E b u ch sk) = b"
  by (simp_all add: device_sign_bytes_def sign_with_def set_ds_signature_def)

text \<open>What a successful verification shows, exactly: the chain is good under the root, and the leaf
  device signed the sender, the chain and the body.\<close>

lemma device_verify_bytes_Inr:
  "device_verify_bytes E now d root = Inr b \<longleftrightarrow>
     chain_ok E now (ds_cert_chain d) root \<and>
     verify_sig E (cert_pk (chain_this (ds_cert_chain d))) (ds_signature d) (ds_signed_value E d) = Inr () \<and>
     b = ds_body d"
  by (auto simp: device_verify_bytes_def Let_def verify_with_def last_device_def chain_verify_iff)

lemma device_verify_bytes_error: "device_verify_bytes E now d root = Inl e \<Longrightarrow> e = DsVerify"
  by (auto simp: device_verify_bytes_def and_then_def map_err_def Let_def split: sum.splits)

lemma device_sign_verify_bytes:
  assumes "sig_law E" and "chain_ok E now ch root"
    and "cert_pk (last_device ch) = signing_public_key E sk"
  shows "device_verify_bytes E now (device_sign_bytes E b u ch sk) root = Inr b"
proof -
  have "verify_with E (ds_signed_value E) ds_signature (device_sign_bytes E b u ch sk)
      (signing_public_key E sk) = Inr ()"
    unfolding device_sign_bytes_def by (rule ds_signable.verify_sign [OF assms(1)])
  with assms(2,3) show ?thesis
    by (simp add: device_verify_bytes_Inr verify_with_def last_device_def)
qed

lemma device_sign_verify_blob:
  assumes "sig_law E" and "bcs_law E" and "chain_ok E now ch root"
    and "cert_pk (last_device ch) = signing_public_key E sk"
    and "device_sign_blob E m u ch sk = Inr d"
  shows "device_verify_blob E now d root = Inr m"
proof -
  from assms(5) obtain body where body: "bcs_enc E (ser_blob m) = Some body"
    and d: "d = device_sign_bytes E body u ch sk"
    by (auto simp: device_sign_blob_def)
  show ?thesis
    by (simp add: d device_verify_blob_def device_sign_verify_bytes [OF assms(1,3,4)]
        bcs_from_enc [OF assms(2) body])
qed

text \<open>Any change of the signed fields is a change of the signed bytes.\<close>

lemma ds_signed_value_binds:
  assumes "bcs_law E" and "ds_wf E d" and "ds_wf E d'"
    and "bcs_enc E (VTup [ser_username (ds_sender d), ser_chain (ds_cert_chain d), VBytes (ds_body d)]) \<noteq> None"
    and "bcs_enc E (VTup [ser_username (ds_sender d'), ser_chain (ds_cert_chain d'), VBytes (ds_body d')]) \<noteq> None"
    and "ds_signed_value E d = ds_signed_value E d'"
  shows "ds_sender d = ds_sender d' \<and> ds_cert_chain d = ds_cert_chain d' \<and> ds_body d = ds_body d'"
proof -
  let ?v = "\<lambda>d. VTup [ser_username (ds_sender d), ser_chain (ds_cert_chain d), VBytes (ds_body d)]"
  let ?t = "TTup [TStr, ty_chain, TBytes]"
  from assms(4,5) obtain x y where x: "bcs_enc E (?v d) = Some x" and y: "bcs_enc E (?v d') = Some y"
    by auto
  with assms(6) have "x = y"
    by (simp add: ds_signed_value_def)
  moreover have "bcs_dec E ?t x = Some (?v d)" "bcs_dec E ?t y = Some (?v d')"
    by (rule bcs_lawD [OF assms(1)]; simp add: x y)+
  ultimately have "?v d = ?v d'"
    by simp
  then have eq: "ser_username (ds_sender d) = ser_username (ds_sender d')"
    "ser_chain (ds_cert_chain d) = ser_chain (ds_cert_chain d')" "ds_body d = ds_body d'"
    by simp_all
  have "Some (ds_sender d) = Some (ds_sender d')" "Some (ds_cert_chain d) = Some (ds_cert_chain d')"
    using eq(1,2) assms(2,3) by (metis ds_wf_def serde_username(1), metis ds_wf_def serde_chain(1))
  with eq(3) show ?thesis by simp
qed

section \<open>Header encryption\<close>

record encryption_header =
  receiver_mpk_short :: "16 word"
  receiver_key :: bytes

record header_encrypted =
  he_sender_epk :: dh_public
  he_headers :: "encryption_header list"
  he_body :: bytes

datatype header_encryption_error = HeEncode | HeEncrypt | HeDecrypt | HeDh | HeNoRecipients

definition mpk_short :: "ext \<Rightarrow> dh_public \<Rightarrow> 16 word" where
  "mpk_short E mpk = be_word (take 2 (be_bytes (hash_to_bytes (bcs_hash E (ser_dh_public mpk)))))"

definition ser_encryption_header :: "encryption_header \<Rightarrow> sval" where
  "ser_encryption_header h = VTup [ser_arr_u8 (receiver_mpk_short h), VBytes (receiver_key h)]"

definition ty_encryption_header :: styp where
  "ty_encryption_header = TTup [TTup (replicate 2 TU8), TBytes]"

fun de_encryption_header :: "sval \<Rightarrow> encryption_header option" where
  "de_encryption_header (VTup [s, k]) =
     (case (de_arr_u8 s, de_bytes k) of
        (Some short, Some key) \<Rightarrow> Some \<lparr> receiver_mpk_short = short, receiver_key = key \<rparr>
      | _ \<Rightarrow> None)"
| "de_encryption_header _ = None"

definition ser_header_encrypted :: "header_encrypted \<Rightarrow> sval" where
  "ser_header_encrypted h = VTup [ser_dh_public (he_sender_epk h),
     VSeq (map ser_encryption_header (he_headers h)), VBytes (he_body h)]"

definition ty_header_encrypted :: styp where
  "ty_header_encrypted = TTup [TBytes, TSeq ty_encryption_header, TBytes]"

fun de_header_encrypted :: "sval \<Rightarrow> header_encrypted option" where
  "de_header_encrypted (VTup [p, hs, b]) =
     (case (de_dh_public p, de_seq de_encryption_header hs, de_bytes b) of
        (Some epk, Some headers, Some body) \<Rightarrow>
          Some \<lparr> he_sender_epk = epk, he_headers = headers, he_body = body \<rparr>
      | _ \<Rightarrow> None)"
| "de_header_encrypted _ = None"

lemma serde_encryption_header [simp, serde]:
  "de_encryption_header (ser_encryption_header h) = Some h"
  "has_styp ty_encryption_header (ser_encryption_header h)" "map_free ty_encryption_header"
  using has_styp_bytes(2) [of "receiver_mpk_short h"]
  by (simp_all add: ser_encryption_header_def ty_encryption_header_def)

lemma serde_header_encrypted [simp, serde]:
  "de_header_encrypted (ser_header_encrypted h) = Some h"
  "has_styp ty_header_encrypted (ser_header_encrypted h)" "map_free ty_header_encrypted"
  by (simp_all add: ser_header_encrypted_def ty_header_encrypted_def list_all_iff)

definition header_aad :: "ext \<Rightarrow> dh_public \<Rightarrow> encryption_header list \<Rightarrow> header_encryption_error + bytes" where
  "header_aad E sender_epk headers =
     ok_or HeEncode (bcs_enc E (VTup [ser_dh_public sender_epk, VSeq (map ser_encryption_header headers)]))"

text \<open>The loop over the recipients; \<open>sender_esk\<close> and \<open>key\<close> are the two random keys.\<close>

fun encrypt_headers ::
  "ext \<Rightarrow> dh_secret \<Rightarrow> aead_key \<Rightarrow> dh_public list \<Rightarrow> header_encryption_error + encryption_header list" where
  "encrypt_headers E sender_esk key [] = Inr []"
| "encrypt_headers E sender_esk key (recipient_mpk # recipients) =
     (let receiver_mpk_short = mpk_short E recipient_mpk in
      and_then (map_err (\<lambda>_. HeDh) (diffie_hellman E sender_esk recipient_mpk)) (\<lambda>ss.
      let sealed = stream_encrypt E (StreamKey ss) 0 (be_bytes (aead_key_to_bytes key)) in
      and_then (encrypt_headers E sender_esk key recipients) (\<lambda>headers.
        Inr (\<lparr> receiver_mpk_short = receiver_mpk_short, receiver_key = sealed \<rparr> # headers))))"

definition he_encrypt_bytes ::
  "ext \<Rightarrow> dh_secret \<Rightarrow> aead_key \<Rightarrow> bytes \<Rightarrow> dh_public list \<Rightarrow> header_encryption_error + header_encrypted" where
  "he_encrypt_bytes E sender_esk key plaintext recipients =
     (let sender_epk = dh_public_key E sender_esk in
      and_then (encrypt_headers E sender_esk key recipients) (\<lambda>headers.
      if headers = [] then Inl HeNoRecipients
      else
        and_then (header_aad E sender_epk headers) (\<lambda>aad.
        and_then (map_err (\<lambda>_. HeEncrypt) (aead_encrypt E key 0 plaintext aad)) (\<lambda>ciphertext.
          Inr \<lparr> he_sender_epk = sender_epk, he_headers = headers, he_body = ciphertext \<rparr>))))"

text \<open>The loop over the matching headers: a header whose key is not 32 bytes or does not open the
  body is skipped.\<close>

fun decrypt_headers ::
  "ext \<Rightarrow> stream_key \<Rightarrow> bytes \<Rightarrow> bytes \<Rightarrow> encryption_header list \<Rightarrow> header_encryption_error + bytes" where
  "decrypt_headers E stream_key body aad [] = Inl HeDecrypt"
| "decrypt_headers E stream_key body aad (header # headers) =
     (let key_bytes = stream_decrypt E stream_key 0 (receiver_key header) in
      if length key_bytes \<noteq> 32 then decrypt_headers E stream_key body aad headers
      else
        (case aead_decrypt E (AeadKey (be_word key_bytes)) 0 body aad of
           Inr plaintext \<Rightarrow> Inr plaintext
         | Inl _ \<Rightarrow> decrypt_headers E stream_key body aad headers))"

definition he_decrypt_bytes ::
  "ext \<Rightarrow> header_encrypted \<Rightarrow> dh_secret \<Rightarrow> header_encryption_error + bytes" where
  "he_decrypt_bytes E h recipient_medium =
     (let short = mpk_short E (dh_public_key E recipient_medium) in
      and_then (header_aad E (he_sender_epk h) (he_headers h)) (\<lambda>aad.
      and_then (map_err (\<lambda>_. HeDh) (diffie_hellman E recipient_medium (he_sender_epk h))) (\<lambda>ss.
        decrypt_headers E (StreamKey ss) (he_body h) aad
          (filter (\<lambda>header. receiver_mpk_short header = short) (he_headers h)))))"

lemma encrypt_headers_nth:
  "encrypt_headers E esk key rs = Inr hs \<Longrightarrow> r \<in> set rs \<Longrightarrow>
     \<exists>ss. diffie_hellman E esk r = Inr ss \<and>
       \<lparr> receiver_mpk_short = mpk_short E r,
         receiver_key = stream_encrypt E (StreamKey ss) 0 (be_bytes (aead_key_to_bytes key)) \<rparr> \<in> set hs"
  by (induction rs arbitrary: hs) (auto simp: Let_def)

lemma encrypt_headers_length: "encrypt_headers E esk key rs = Inr hs \<Longrightarrow> length hs = length rs"
  by (induction rs arbitrary: hs) (auto simp: Let_def)

text \<open>The scan finds the plaintext as soon as one header holds the key, provided the body opens under
  no other key.\<close>

definition opens_only_under :: "ext \<Rightarrow> aead_key \<Rightarrow> bytes \<Rightarrow> bytes \<Rightarrow> bool" where
  "opens_only_under E key body aad \<longleftrightarrow>
     (\<forall>k p. aead_open E k 0 body aad = Some p \<longrightarrow> k = aead_key_to_bytes key)"

lemma decrypt_headers_finds:
  assumes "h \<in> set hs" and "stream_decrypt E sk 0 (receiver_key h) = be_bytes (aead_key_to_bytes key)"
    and "aead_decrypt E key 0 body aad = Inr m" and "opens_only_under E key body aad"
  shows "decrypt_headers E sk body aad hs = Inr m"
  using assms(1)
proof (induction hs)
  case Nil
  then show ?case by simp
next
  case (Cons g hs)
  have right: "aead_decrypt E (AeadKey k) 0 body aad = Inr p \<Longrightarrow> p = m" for k p
    using assms(3,4) by (cases key) (auto simp: opens_only_under_def split: option.splits)
  show ?case
  proof (cases "h = g")
    case True
    have "AeadKey (aead_key_to_bytes key) = key" by (cases key) simp
    with True assms(2,3) show ?thesis by simp
  next
    case False
    with Cons have "decrypt_headers E sk body aad hs = Inr m" by simp
    then show ?thesis by (auto simp: Let_def right split: sum.split)
  qed
qed

lemma header_roundtrip_aux:
  assumes laws: "dh_law E" "stream_law E" "aead_law E"
    and enc: "he_encrypt_bytes E esk key m recipients = Inr h"
    and mine: "dh_public_key E sk \<in> set recipients"
    and only: "\<And>aad. header_aad E (he_sender_epk h) (he_headers h) = Inr aad \<Longrightarrow>
      opens_only_under E key (he_body h) aad"
  shows "he_decrypt_bytes E h sk = Inr m"
proof -
  from enc obtain headers aad c where hs: "encrypt_headers E esk key recipients = Inr headers"
    and aad: "header_aad E (dh_public_key E esk) headers = Inr aad"
    and c: "aead_encrypt E key 0 m aad = Inr c"
    and h: "h = \<lparr> he_sender_epk = dh_public_key E esk, he_headers = headers, he_body = c \<rparr>"
    by (auto simp: he_encrypt_bytes_def Let_def split: if_splits)
  let ?kb = "be_bytes (aead_key_to_bytes key)"
  obtain ss where ss: "diffie_hellman E esk (dh_public_key E sk) = Inr ss"
    and hd: "\<lparr> receiver_mpk_short = mpk_short E (dh_public_key E sk),
      receiver_key = stream_encrypt E (StreamKey ss) 0 ?kb \<rparr> \<in> set headers" (is "?h \<in> _")
    using encrypt_headers_nth [OF hs mine] by blast
  have "decrypt_headers E (StreamKey ss) c aad
      (filter (\<lambda>g. receiver_mpk_short g = mpk_short E (dh_public_key E sk)) headers) = Inr m"
  proof (rule decrypt_headers_finds)
    show "?h \<in> set (filter (\<lambda>g. receiver_mpk_short g = mpk_short E (dh_public_key E sk)) headers)"
      using hd by simp
    show "stream_decrypt E (StreamKey ss) 0 (receiver_key ?h) = ?kb"
      using laws(2) by (simp del: stream_decrypt.simps stream_encrypt.simps)
    show "aead_decrypt E key 0 c aad = Inr m"
      using laws(3) c by (rule aead_decrypt_encrypt)
    show "opens_only_under E key c aad"
      using only aad by (simp add: h)
  qed
  then show ?thesis
    using ss aad diffie_hellman_agree [OF laws(1), of esk sk]
    by (simp add: he_decrypt_bytes_def h)
qed

text \<open>Errors of the receiving side.\<close>

lemma he_decrypt_no_header:
  assumes "\<And>g. g \<in> set (he_headers h) \<Longrightarrow> receiver_mpk_short g \<noteq> mpk_short E (dh_public_key E sk)"
    and "header_aad E (he_sender_epk h) (he_headers h) = Inr aad"
  shows "he_decrypt_bytes E h sk = Inl HeDecrypt \<or> he_decrypt_bytes E h sk = Inl HeDh"
proof -
  have "filter (\<lambda>header. receiver_mpk_short header = mpk_short E (dh_public_key E sk)) (he_headers h) = []"
    using assms(1) by (simp add: filter_empty_conv)
  with assms(2) show ?thesis
    by (cases "diffie_hellman E sk (he_sender_epk h)") (simp_all add: he_decrypt_bytes_def)
qed

section \<open>Group messages\<close>

record group_message =
  gm_nonce :: "192 word"
  gm_ciphertext :: bytes

datatype group_message_error = GmEncode | GmDecode | GmEncrypt | GmDecrypt | GmVerify

definition ser_group_message :: "group_message \<Rightarrow> sval" where
  "ser_group_message g = VTup [ser_arr_u8 (gm_nonce g), VBytes (gm_ciphertext g)]"

definition ty_group_message :: styp where
  "ty_group_message = TTup [TTup (replicate 24 TU8), TBytes]"

fun de_group_message :: "sval \<Rightarrow> group_message option" where
  "de_group_message (VTup [n, c]) =
     (case (de_arr_u8 n, de_bytes c) of
        (Some nonce, Some ciphertext) \<Rightarrow> Some \<lparr> gm_nonce = nonce, gm_ciphertext = ciphertext \<rparr>
      | _ \<Rightarrow> None)"
| "de_group_message _ = None"

lemma serde_group_message [simp, serde]:
  "de_group_message (ser_group_message g) = Some g"
  "has_styp ty_group_message (ser_group_message g)" "map_free ty_group_message"
  using has_styp_bytes(2) [of "gm_nonce g"]
  by (simp_all add: ser_group_message_def ty_group_message_def)

definition encrypt_message ::
  "ext \<Rightarrow> 192 word \<Rightarrow> event \<Rightarrow> username \<Rightarrow> certificate_chain \<Rightarrow> device_secret \<Rightarrow> aead_key
    \<Rightarrow> group_message_error + group_message" where
  "encrypt_message E nonce message sender_username sender_chain sender_device key =
     and_then (ok_or GmEncode (bcs_enc E (ser_event message))) (\<lambda>message_bytes.
     let message_blob = \<lparr> blob_kind = V1_MESSAGE_CONTENT, blob_inner = message_bytes \<rparr> in
     and_then (map_err (\<lambda>_. GmEncode)
       (device_sign_blob E message_blob sender_username sender_chain sender_device)) (\<lambda>signed.
     and_then (ok_or GmEncode (bcs_enc E (ser_device_signed signed))) (\<lambda>plaintext_bytes.
     and_then (map_err (\<lambda>_. GmEncrypt) (aead_encrypt E key nonce plaintext_bytes [])) (\<lambda>ciphertext.
       Inr \<lparr> gm_nonce = nonce, gm_ciphertext = ciphertext \<rparr>))))"

definition decrypt_message :: "ext \<Rightarrow> group_message \<Rightarrow> aead_key \<Rightarrow> group_message_error + device_signed" where
  "decrypt_message E g key =
     and_then (map_err (\<lambda>_. GmDecrypt) (aead_decrypt E key (gm_nonce g) (gm_ciphertext g) [])) (\<lambda>plaintext.
       ok_or GmDecode (bcs_from E ty_device_signed (de_device_signed E) plaintext))"

lemma decrypt_encrypt_message:
  assumes laws: "bcs_law E" "aead_law E" "sig_law E"
    and enc: "encrypt_message E nonce e u ch sk key = Inr g"
    and wf: "username_wf u" "chain_wf E ch"
    and chain: "chain_ok E now ch root" "cert_pk (last_device ch) = signing_public_key E sk"
  shows "\<exists>d b. decrypt_message E g key = Inr d \<and> ds_sender d = u \<and>
    device_verify_blob E now d root = Inr \<lparr> blob_kind = V1_MESSAGE_CONTENT, blob_inner = b \<rparr> \<and>
    bcs_enc E (ser_event e) = Some b"
proof -
  from enc obtain b d p c where b: "bcs_enc E (ser_event e) = Some b"
    and d: "device_sign_blob E \<lparr> blob_kind = V1_MESSAGE_CONTENT, blob_inner = b \<rparr> u ch sk = Inr d"
    and p: "bcs_enc E (ser_device_signed d) = Some p"
    and c: "aead_encrypt E key nonce p [] = Inr c"
    and g: "g = \<lparr> gm_nonce = nonce, gm_ciphertext = c \<rparr>"
    by (auto simp: encrypt_message_def Let_def)
  from d have sel: "ds_sender d = u" "ds_cert_chain d = ch"
    by (auto simp: device_sign_blob_def)
  then have "ds_wf E d" using wf by (simp add: ds_wf_def)
  then have "decrypt_message E g key = Inr d"
    by (simp add: decrypt_message_def g aead_decrypt_encrypt [OF laws(2) c] bcs_from_enc [OF laws(1) p])
  with sel b device_sign_verify_blob [OF laws(3,1) chain d] show ?thesis by blast
qed

section \<open>Properties\<close>

text \<open>A concrete chain and a concrete ciphertext for the witnesses.\<close>

definition demo_chain :: certificate_chain where
  "demo_chain = \<lparr> chain_ancestors = [self_signed demo_ext (SigningSecret 5) 200 True],
     chain_this = issue_certificate demo_ext (SigningSecret 5) (signing_public_key demo_ext (SigningSecret 6)) 150 False \<rparr>"

definition demo_root :: hash where
  "demo_root = bcs_hash demo_ext (ser_signing_public (signing_public_key demo_ext (SigningSecret 5)))"

lemma demo_chain_ok: "chain_ok demo_ext 100 demo_chain demo_root"
  unfolding chain_verify_iff [symmetric] by code_simp

lemma demo_opens_only_under:
  "aead_encrypt demo_ext key n m aad = Inr c \<Longrightarrow> opens_only_under demo_ext key c aad'"
  by (cases key) (auto simp: opens_only_under_def demo_ext_def demo_seal_def demo_open_def demo_tag_def
      split: if_splits)




text \<open>a group message decrypted under the group key gives back the device-signed payload of its
  sender, and that payload verifies under the sender's root hash to the encoded event.\<close>

theorem group_message_roundtrip:
  assumes "bcs_law E" and "aead_law E" and "sig_law E"
    and "encrypt_message E nonce e sender chain device key = Inr g"
    and "username_wf sender" and "chain_wf E chain" and "recipient_wf (ev_recipient e)"
    and "chain_ok E now chain root" and "cert_pk (last_device chain) = signing_public_key E device"
  shows "\<exists>d b. decrypt_message E g key = Inr d \<and> ds_sender d = sender \<and>
    device_verify_blob E now d root = Inr \<lparr> blob_kind = V1_MESSAGE_CONTENT, blob_inner = b \<rparr> \<and>
    bcs_from E ty_event de_event b = Some e"
proof -
  obtain d b where "decrypt_message E g key = Inr d" "ds_sender d = sender"
    "device_verify_blob E now d root = Inr \<lparr> blob_kind = V1_MESSAGE_CONTENT, blob_inner = b \<rparr>"
    and b: "bcs_enc E (ser_event e) = Some b"
    using decrypt_encrypt_message [OF assms(1-6,8,9)] by blast
  moreover have "bcs_from E ty_event de_event b = Some e"
    by (simp add: bcs_from_enc [OF assms(1) b] assms(7))
  ultimately show ?thesis by blast
qed

definition demo_event :: event where
  "demo_event = \<lparr> ev_recipient = RGroup (GroupId (Hash 9)), ev_sent_at = 7, ev_mime = ''text/plain'', ev_body = [1, 2] \<rparr>"

theorem group_message_roundtrip_witness:
  "\<exists>g. encrypt_message demo_ext 4 demo_event (UserName ''@alice'') demo_chain (SigningSecret 6) (AeadKey 8) = Inr g \<and>
     (\<exists>d b. decrypt_message demo_ext g (AeadKey 8) = Inr d \<and> ds_sender d = UserName ''@alice'' \<and>
        device_verify_blob demo_ext 100 d demo_root = Inr \<lparr> blob_kind = V1_MESSAGE_CONTENT, blob_inner = b \<rparr> \<and>
        bcs_from demo_ext ty_event de_event b = Some demo_event)"
proof -
  let ?enc = "encrypt_message demo_ext 4 demo_event (UserName ''@alice'') demo_chain (SigningSecret 6) (AeadKey 8)"
  have "is_ok ?enc" by code_simp
  then obtain g where g: "?enc = Inr g" by (auto simp: is_ok_iff)
  have wf: "username_wf (UserName ''@alice'')" "chain_wf demo_ext demo_chain"
    by code_simp+
  have "recipient_wf (ev_recipient demo_event)" "cert_pk (last_device demo_chain) = signing_public_key demo_ext (SigningSecret 6)"
    by (simp_all add: demo_event_def demo_chain_def last_device_def)
  then show ?thesis
    using group_message_roundtrip [OF demo_laws(1) demo_laws(7) demo_laws(5) g wf _ demo_chain_ok] g by blast
qed

end
