(* ===== verification/ServerDb.thy ===== *)
theory ServerDb
  imports E2ee
begin

text \<open>
  The chat server's data: the message types of \<open>nullspace-structs/src/server.rs\<close> and
  \<open>profile.rs\<close>, the tables of its SQLite database (\<open>nullspace-server/migrations\<close>), and the
  conversions between column values and types (\<open>device.rs\<close>). A handler runs in one SQLite
  transaction: its result is an error, and the transaction rolls back, or a value with the database
  it commits. Of the failures of SQLite, the violated constraints are modelled; a busy or broken
  database answers \<open>RetryLater\<close> without a change, like any other error.
\<close>

section \<open>Messages of the server protocol\<close>

datatype server_rpc_error = AccessDenied | RetryLater

datatype proxy_error = NotSupported | Upstream string

text \<open>The messages of \<open>thiserror\<close>.\<close>

primrec rpc_error_display :: "server_rpc_error \<Rightarrow> string" where
  "rpc_error_display AccessDenied = ''access denied''"
| "rpc_error_display RetryLater = ''rate limited, retry later''"

record mailbox_acl =
  acl_token_hash :: hash
  can_edit_acl :: bool
  can_send :: bool
  can_recv :: bool

record mailbox_recv_args =
  mra_auth :: auth_token
  mra_mailbox :: mailbox_id
  mra_after :: nano_timestamp

record mailbox_entry =
  mbe_message :: blob
  mbe_received_at :: nano_timestamp
  mbe_sender_auth_token_hash :: "hash option"

record server_descriptor =
  sd_public_urls :: "string list"
  sd_server_pk :: signing_public

record signed_medium_pk =
  smp_medium_pk :: dh_public
  smp_created :: timestamp
  smp_signature :: signature

definition smp_signed_value :: "ext \<Rightarrow> signed_medium_pk \<Rightarrow> bytes" where
  "smp_signed_value E k = bcs_expect E (VTup [ser_dh_public (smp_medium_pk k), VU64 (smp_created k)])"

definition set_smp_signature :: "signature \<Rightarrow> signed_medium_pk \<Rightarrow> signed_medium_pk" where
  "set_smp_signature s k = k \<lparr> smp_signature := s \<rparr>"

interpretation smp_signable: signable E "smp_signed_value E" smp_signature set_smp_signature for E
  by unfold_locales (simp_all add: smp_signed_value_def set_smp_signature_def)

definition smp_sign :: "ext \<Rightarrow> signed_medium_pk \<Rightarrow> signing_secret \<Rightarrow> signed_medium_pk" where
  "smp_sign E = sign_with E (smp_signed_value E) set_smp_signature"

definition smp_verify :: "ext \<Rightarrow> signed_medium_pk \<Rightarrow> signing_public \<Rightarrow> signing_error + unit" where
  "smp_verify E = verify_with E (smp_signed_value E) smp_signature"

record user_profile =
  up_display_name :: "string option"
  up_avatar :: "attachment option"
  up_created :: timestamp
  up_signature :: signature

definition up_signed_value :: "ext \<Rightarrow> user_profile \<Rightarrow> bytes" where
  "up_signed_value E p = be_bytes (hash_to_bytes (bcs_keyed_hash E ''user_profile''
     (VTup [ser_opt VStr (up_display_name p), ser_opt (ser_attachment ser_hash ser_aead_key) (up_avatar p),
        VU64 (up_created p)])))"

definition set_up_signature :: "signature \<Rightarrow> user_profile \<Rightarrow> user_profile" where
  "set_up_signature s p = p \<lparr> up_signature := s \<rparr>"

interpretation up_signable: signable E "up_signed_value E" up_signature set_up_signature for E
  by unfold_locales (simp_all add: up_signed_value_def set_up_signature_def)

definition up_sign :: "ext \<Rightarrow> user_profile \<Rightarrow> signing_secret \<Rightarrow> user_profile" where
  "up_sign E = sign_with E (up_signed_value E) set_up_signature"

definition up_verify :: "ext \<Rightarrow> user_profile \<Rightarrow> signing_public \<Rightarrow> signing_error + unit" where
  "up_verify E = verify_with E (up_signed_value E) up_signature"

definition ser_user_profile :: "user_profile \<Rightarrow> sval" where
  "ser_user_profile p = VTup [ser_opt VStr (up_display_name p),
     ser_opt (ser_attachment ser_hash ser_aead_key) (up_avatar p), VU64 (up_created p), ser_signature (up_signature p)]"

definition ty_user_profile :: styp where
  "ty_user_profile = TTup [TOpt TStr, TOpt (ty_attachment TBytes TBytes), TU64, TBytes]"

fun de_user_profile :: "sval \<Rightarrow> user_profile option" where
  "de_user_profile (VTup [n, a, c, s]) =
     (case (de_opt de_str n, de_opt (de_attachment de_hash de_aead_key) a, de_u64 c, de_signature s) of
        (Some name, Some avatar, Some created, Some sig) \<Rightarrow>
          Some \<lparr> up_display_name = name, up_avatar = avatar, up_created = created, up_signature = sig \<rparr>
      | _ \<Rightarrow> None)"
| "de_user_profile _ = None"

lemma serde_user_profile [simp, serde]:
  "de_user_profile (ser_user_profile p) = Some p"
  "has_styp ty_user_profile (ser_user_profile p)" "map_free ty_user_profile"
  by (simp_all add: ser_user_profile_def ty_user_profile_def map_free_attachment)

section \<open>Tables\<close>

record entry_row =
  er_mailbox :: mailbox_id
  er_entry_id :: nat
  er_received_at :: i64
  er_kind :: string
  er_body :: bytes
  er_sender :: "bytes option"
  er_expires_at :: "i64 option"

record token_row =
  tk_username :: string
  tk_device_hash :: bytes
  tk_auth_token :: bytes

record cert_row =
  cr_device_hash :: bytes
  cr_username :: string
  cr_cert_chain :: bytes

record medium_row =
  mr_device_hash :: bytes
  mr_medium_pk :: bytes
  mr_created :: i64
  mr_signature :: bytes

record frag_row =
  fr_hash :: bytes
  fr_created_at :: i64
  fr_expires_at :: "i64 option"
  fr_size :: i64

record profile_row =
  pr_username :: string
  pr_profile :: bytes
  pr_created :: i64

record server_db =
  db_mailboxes :: "(mailbox_id \<times> i64) list"
  db_entries :: "entry_row list"
  db_next_entry :: nat
  db_acl :: "(mailbox_id \<times> mailbox_acl) list"
  db_tokens :: "token_row list"
  db_certs :: "cert_row list"
  db_mediums :: "medium_row list"
  db_frags :: "frag_row list"
  db_profiles :: "profile_row list"

definition empty_db :: server_db where
  "empty_db = \<lparr> db_mailboxes = [], db_entries = [], db_next_entry = 1, db_acl = [], db_tokens = [],
     db_certs = [], db_mediums = [], db_frags = [], db_profiles = [] \<rparr>"

text \<open>The primary keys and unique indexes.\<close>

definition acl_key :: "mailbox_id \<times> mailbox_acl \<Rightarrow> mailbox_id \<times> hash" where
  "acl_key r = (fst r, acl_token_hash (snd r))"

definition entry_key :: "entry_row \<Rightarrow> mailbox_id \<times> i64" where
  "entry_key r = (er_mailbox r, er_received_at r)"

definition token_key :: "token_row \<Rightarrow> string \<times> bytes" where
  "token_key r = (tk_username r, tk_device_hash r)"

definition db_unique :: "server_db \<Rightarrow> bool" where
  "db_unique db \<longleftrightarrow> t_unique fst (db_mailboxes db) \<and> t_unique entry_key (db_entries db) \<and>
     t_unique acl_key (db_acl db) \<and> t_unique token_key (db_tokens db) \<and> t_unique tk_auth_token (db_tokens db) \<and>
     t_unique cr_device_hash (db_certs db) \<and> t_unique mr_device_hash (db_mediums db) \<and>
     t_unique fr_hash (db_frags db) \<and> t_unique pr_username (db_profiles db)"

lemma db_unique_empty [simp]: "db_unique empty_db"
  by (simp add: db_unique_def empty_db_def t_unique_def)

text \<open>\<open>mailbox_id\<close> as a foreign key: a row that refers to an unknown mailbox is refused.\<close>

definition mailbox_known :: "server_db \<Rightarrow> mailbox_id \<Rightarrow> bool" where
  "mailbox_known db m \<longleftrightarrow> m \<in> fst ` set (db_mailboxes db)"

section \<open>Column values\<close>

definition bytes_to_hash :: "bytes \<Rightarrow> server_rpc_error + hash" where
  "bytes_to_hash bs = and_then (ok_or RetryLater (array_try_from bs)) (\<lambda>buf. Inr (Hash buf))"

definition bytes_to_pk :: "bytes \<Rightarrow> server_rpc_error + dh_public" where
  "bytes_to_pk bs = and_then (ok_or RetryLater (array_try_from bs)) (\<lambda>buf. Inr (DhPublic buf))"

definition bytes_to_signature :: "bytes \<Rightarrow> server_rpc_error + signature" where
  "bytes_to_signature bs = and_then (ok_or RetryLater (array_try_from bs)) (\<lambda>buf. Inr (Signature buf))"

text \<open>\<open>u64::try_from(i64)\<close>: negative values are refused.\<close>

definition created_to_timestamp :: "i64 \<Rightarrow> server_rpc_error + timestamp" where
  "created_to_timestamp created = (if sint created < 0 then Inl RetryLater else Inr created)"

lemma column_roundtrips [simp]:
  "bytes_to_hash (be_bytes (hash_to_bytes h)) = Inr h"
  "bytes_to_pk (be_bytes (dh_public_to_bytes p)) = Inr p"
  "bytes_to_signature (be_bytes (signature_to_bytes s)) = Inr s"
  by (cases h, cases p, cases s,
      simp add: bytes_to_hash_def bytes_to_pk_def bytes_to_signature_def)+

lemma created_roundtrip: "i64_try_from x = Some y \<Longrightarrow> created_to_timestamp y = Inr x"
  by (simp add: i64_try_from_Some created_to_timestamp_def sint_small_unat)

end
