(* ===== verification/Mailbox.thy ===== *)
theory Mailbox
  imports ServerDb "HOL-Library.Product_Lexorder"
begin

text \<open>
  Mailboxes of the chat server (\<open>nullspace-server/src/mailbox.rs\<close>): access-control entries per
  token hash with the anonymous fallback, sending, the query of one receive pass, ACL edits, the
  direct-message mailbox of a user and the registration of group mailboxes. The lemmas give each
  operation's effect on the rights of every token and on the stored entries; the properties are that
  callers without \<open>can_edit_acl\<close> cannot raise anyone's rights beyond their own, and that an accepted message is
  delivered, in order and until it expires.
\<close>

section \<open>Access control\<close>

definition token_hash :: "ext \<Rightarrow> auth_token \<Rightarrow> hash" where
  "token_hash E t = bcs_hash E (ser_auth_token t)"

definition load_acl_hash :: "server_db \<Rightarrow> mailbox_id \<Rightarrow> hash \<Rightarrow> mailbox_acl option" where
  "load_acl_hash db m h = map_option snd (t_get acl_key (m, h) (db_acl db))"

definition load_acl :: "ext \<Rightarrow> server_db \<Rightarrow> mailbox_id \<Rightarrow> auth_token \<Rightarrow> mailbox_acl option" where
  "load_acl E db m t = load_acl_hash db m (token_hash E t)"

definition empty_acl :: "ext \<Rightarrow> auth_token \<Rightarrow> mailbox_acl" where
  "empty_acl E t = \<lparr> acl_token_hash = token_hash E t, can_edit_acl = False, can_send = False, can_recv = False \<rparr>"

definition acl_is_subset :: "mailbox_acl \<Rightarrow> mailbox_acl \<Rightarrow> bool" where
  "acl_is_subset candidate holder \<longleftrightarrow>
     (\<not> can_edit_acl candidate \<or> can_edit_acl holder) \<and>
     (\<not> can_send candidate \<or> can_send holder) \<and>
     (\<not> can_recv candidate \<or> can_recv holder)"

definition acl_is_empty :: "mailbox_acl \<Rightarrow> bool" where
  "acl_is_empty candidate \<longleftrightarrow> \<not> can_edit_acl candidate \<and> \<not> can_send candidate \<and> \<not> can_recv candidate"

definition acl_for_token :: "ext \<Rightarrow> server_db \<Rightarrow> mailbox_id \<Rightarrow> auth_token \<Rightarrow> mailbox_acl" where
  "acl_for_token E db m t =
     (case load_acl E db m t of
        Some acl \<Rightarrow> acl
      | None \<Rightarrow>
          (case load_acl E db m anonymous of
             Some acl \<Rightarrow> acl
           | None \<Rightarrow> empty_acl E t))"

definition insert_acl :: "server_db \<Rightarrow> mailbox_id \<Rightarrow> mailbox_acl \<Rightarrow> server_rpc_error + server_db" where
  "insert_acl db m acl =
     (if \<not> mailbox_known db m then Inl RetryLater
      else Inr (db \<lparr> db_acl := t_replace acl_key (m, acl) (db_acl db) \<rparr>))"

definition delete_acl :: "server_db \<Rightarrow> mailbox_id \<Rightarrow> hash \<Rightarrow> server_db" where
  "delete_acl db m h = db \<lparr> db_acl := t_delete (\<lambda>r. acl_key r = (m, h)) (db_acl db) \<rparr>"

definition insert_mailbox :: "server_db \<Rightarrow> mailbox_id \<Rightarrow> i64 \<Rightarrow> server_db" where
  "insert_mailbox db m created_at = db \<lparr> db_mailboxes := t_ignore fst (m, created_at) (db_mailboxes db) \<rparr>"

definition mb_auth_token_exists :: "ext \<Rightarrow> server_db \<Rightarrow> auth_token \<Rightarrow> server_rpc_error + bool" where
  "mb_auth_token_exists E db auth =
     and_then (ok_or RetryLater (bcs_enc E (ser_auth_token auth))) (\<lambda>auth_bytes.
       Inr (t_get tk_auth_token auth_bytes (db_tokens db) \<noteq> None))"

definition mailbox_acl_edit ::
  "ext \<Rightarrow> server_db \<Rightarrow> auth_token \<Rightarrow> mailbox_id \<Rightarrow> mailbox_acl \<Rightarrow> server_rpc_error + server_db" where
  "mailbox_acl_edit E db auth m arg =
     (if acl_token_hash arg = token_hash E auth \<and> acl_is_empty arg
      then Inr (delete_acl db m (acl_token_hash arg))
      else
        (let existing = load_acl_hash db m (acl_token_hash arg) in
         if (case existing of
               Some e \<Rightarrow> can_edit_acl e = can_edit_acl arg \<and> can_send e = can_send arg \<and> can_recv e = can_recv arg
             | None \<Rightarrow> False)
         then Inr db
         else
           (let acl = acl_for_token E db m auth;
                can_add_subset = existing = None \<and> acl_is_subset arg acl
            in if \<not> can_edit_acl acl \<and> \<not> can_add_subset then Inl AccessDenied
               else insert_acl db m arg)))"

definition update_dm_mailbox ::
  "ext \<Rightarrow> nano_timestamp \<Rightarrow> server_db \<Rightarrow> username \<Rightarrow> auth_token option \<Rightarrow> server_rpc_error + server_db" where
  "update_dm_mailbox E now db user new_token =
     (let m = mailbox_direct E user;
          db = insert_mailbox db m now
      in and_then (insert_acl db m \<lparr> acl_token_hash = token_hash E anonymous,
             can_edit_acl = False, can_send = True, can_recv = False \<rparr>) (\<lambda>db.
           case new_token of
             None \<Rightarrow> Inr db
           | Some token \<Rightarrow> insert_acl db m \<lparr> acl_token_hash = token_hash E token,
               can_edit_acl = False, can_send = True, can_recv = True \<rparr>))"

text \<open>The loop over a group's two mailboxes.\<close>

fun register_mailboxes ::
  "ext \<Rightarrow> nano_timestamp \<Rightarrow> auth_token \<Rightarrow> mailbox_id list \<Rightarrow> server_db \<Rightarrow> server_rpc_error + server_db" where
  "register_mailboxes E now auth [] db = Inr db"
| "register_mailboxes E now auth (m # ms) db =
     and_then (insert_acl (insert_mailbox db m now) m \<lparr> acl_token_hash = token_hash E auth,
         can_edit_acl = True, can_send = True, can_recv = True \<rparr>)
       (register_mailboxes E now auth ms)"

definition register_group ::
  "ext \<Rightarrow> nano_timestamp \<Rightarrow> server_db \<Rightarrow> auth_token \<Rightarrow> group_id \<Rightarrow> server_rpc_error + server_db" where
  "register_group E now db auth g =
     and_then (mb_auth_token_exists E db auth) (\<lambda>known.
       if \<not> known then Inl AccessDenied
       else register_mailboxes E now auth [mailbox_group_messages E g, mailbox_group_management E g] db)"

text \<open>The effective rights of a token hash, the form in which the properties speak of them.\<close>

datatype right = EditAcl | Send | Recv

primrec has_right :: "right \<Rightarrow> mailbox_acl \<Rightarrow> bool" where
  "has_right EditAcl = can_edit_acl"
| "has_right Send = can_send"
| "has_right Recv = can_recv"

definition entry_right :: "server_db \<Rightarrow> mailbox_id \<Rightarrow> hash \<Rightarrow> right \<Rightarrow> bool" where
  "entry_right db m h x \<longleftrightarrow> (\<exists>a. load_acl_hash db m h = Some a \<and> has_right x a)"

definition right_of :: "ext \<Rightarrow> server_db \<Rightarrow> mailbox_id \<Rightarrow> hash \<Rightarrow> right \<Rightarrow> bool" where
  "right_of E db m h x \<longleftrightarrow>
     (if load_acl_hash db m h = None then entry_right db m (token_hash E anonymous) x
      else entry_right db m h x)"

lemma acl_for_token_right: "has_right x (acl_for_token E db m t) \<longleftrightarrow> right_of E db m (token_hash E t) x"
  by (cases x) (auto simp: acl_for_token_def load_acl_def right_of_def entry_right_def empty_acl_def
      split: option.splits)

lemma acl_for_token_rights [simp]:
  "can_edit_acl (acl_for_token E db m t) \<longleftrightarrow> right_of E db m (token_hash E t) EditAcl"
  "can_send (acl_for_token E db m t) \<longleftrightarrow> right_of E db m (token_hash E t) Send"
  "can_recv (acl_for_token E db m t) \<longleftrightarrow> right_of E db m (token_hash E t) Recv"
  using acl_for_token_right [of EditAcl] acl_for_token_right [of Send] acl_for_token_right [of Recv]
  by simp_all

lemma all_rights: "(\<forall>x. P x) \<longleftrightarrow> P EditAcl \<and> P Send \<and> P Recv"
  by (metis right.exhaust)

lemma acl_is_subset_right: "acl_is_subset a b \<longleftrightarrow> (\<forall>x. has_right x a \<longrightarrow> has_right x b)"
  by (auto simp: acl_is_subset_def all_rights)

text \<open>The ACL table is a keyed store: an insert is read back and touches no other key.\<close>

definition acl_put :: "mailbox_id \<times> hash \<Rightarrow> (right \<Rightarrow> bool) \<Rightarrow> (mailbox_id \<times> mailbox_acl) list
    \<Rightarrow> (mailbox_id \<times> mailbox_acl) list" where
  "acl_put k f t = t_replace acl_key (fst k, \<lparr> acl_token_hash = snd k, can_edit_acl = f EditAcl,
     can_send = f Send, can_recv = f Recv \<rparr>) t"

definition acl_look :: "(mailbox_id \<times> mailbox_acl) list \<Rightarrow> mailbox_id \<times> hash \<Rightarrow> (right \<Rightarrow> bool) option" where
  "acl_look t k = map_option (\<lambda>r x. has_right x (snd r)) (t_get acl_key k t)"

interpretation acl_store: keyed_store acl_look acl_put "t_unique acl_key"
proof unfold_locales
  fix k k' f t
  have "(\<lambda>x. has_right x \<lparr> acl_token_hash = h, can_edit_acl = f EditAcl, can_send = f Send, can_recv = f Recv \<rparr>) = f"
    for h
  proof
    fix x
    show "has_right x \<lparr> acl_token_hash = h, can_edit_acl = f EditAcl, can_send = f Send, can_recv = f Recv \<rparr> = f x"
      by (cases x) simp_all
  qed
  then show "acl_look (acl_put k f t) k' = (if k = k' then Some f else acl_look t k')"
    by (cases k; cases k') (simp add: acl_look_def acl_put_def t_get_replace acl_key_def)
qed (simp add: acl_put_def)

lemma insert_acl_store:
  "insert_acl db m acl = Inr db' \<Longrightarrow> mailbox_known db m \<and>
     db' = db \<lparr> db_acl := acl_put (m, acl_token_hash acl) (\<lambda>x. has_right x acl) (db_acl db) \<rparr>"
  by (cases acl) (auto simp: insert_acl_def acl_put_def split: if_splits)

lemma load_acl_look: "load_acl_hash db m h = None \<longleftrightarrow> acl_look (db_acl db) (m, h) = None"
  "entry_right db m h x \<longleftrightarrow> (\<exists>f. acl_look (db_acl db) (m, h) = Some f \<and> f x)"
  by (auto simp: load_acl_hash_def acl_look_def entry_right_def)

lemma insert_acl_rights:
  assumes "insert_acl db m acl = Inr db'"
  shows "load_acl_hash db' m' h = None \<longleftrightarrow> (m', h) \<noteq> (m, acl_token_hash acl) \<and> load_acl_hash db m' h = None"
    and "entry_right db' m' h x \<longleftrightarrow>
      (if (m', h) = (m, acl_token_hash acl) then has_right x acl else entry_right db m' h x)"
  using insert_acl_store [OF assms] by (auto simp: load_acl_look acl_store.look_put)

lemma delete_acl_rights:
  "load_acl_hash (delete_acl db m h) m' h' = (if (m', h') = (m, h) then None else load_acl_hash db m' h')"
proof -
  have "t_get acl_key k (t_delete (\<lambda>r. acl_key r = k') t) = (if k = k' then None else t_get acl_key k t)"
    for k k' and t :: "(mailbox_id \<times> mailbox_acl) list"
    by (induction t) (auto simp: t_delete_def t_get_simps)
  then show ?thesis
    by (auto simp: load_acl_hash_def delete_acl_def)
qed

lemma insert_mailbox_rights [simp]:
  "load_acl_hash (insert_mailbox db m c) = load_acl_hash db"
  "entry_right (insert_mailbox db m c) = entry_right db"
  "right_of E (insert_mailbox db m c) = right_of E db"
  "mailbox_known (insert_mailbox db m c) m"
  by (auto simp: fun_eq_iff load_acl_hash_def insert_mailbox_def entry_right_def right_of_def
      mailbox_known_def t_ignore_def split: if_splits)

lemma insert_acl_other:
  "insert_acl db m acl = Inr db' \<Longrightarrow> db_entries db' = db_entries db \<and> db_mailboxes db' = db_mailboxes db \<and>
     db_tokens db' = db_tokens db \<and> db_certs db' = db_certs db"
  by (auto simp: insert_acl_def split: if_splits)

lemma insert_acl_known: "mailbox_known db m \<Longrightarrow> \<exists>db'. insert_acl db m acl = Inr db'"
  by (simp add: insert_acl_def)

text \<open>What an accepted edit did: the caller gave up its own entry, nothing, or the entry was
  written, by a caller who may edit or who adds a new entry within its own rights.\<close>

lemma mailbox_acl_edit_cases:
  assumes "mailbox_acl_edit E db auth m arg = Inr db'"
  obtains (remove) "db' = delete_acl db m (token_hash E auth)"
  | (same) "db' = db"
  | (put) "insert_acl db m arg = Inr db'"
      "right_of E db m (token_hash E auth) EditAcl \<or>
        load_acl_hash db m (acl_token_hash arg) = None \<and>
        (\<forall>x. has_right x arg \<longrightarrow> right_of E db m (token_hash E auth) x)"
proof (cases "acl_token_hash arg = token_hash E auth \<and> acl_is_empty arg")
  case True
  with assms show ?thesis by (simp add: mailbox_acl_edit_def remove)
next
  case False
  let ?same = "case load_acl_hash db m (acl_token_hash arg) of
      Some e \<Rightarrow> can_edit_acl e = can_edit_acl arg \<and> can_send e = can_send arg \<and> can_recv e = can_recv arg
    | None \<Rightarrow> False"
  show ?thesis
  proof (cases ?same)
    case True
    with False assms same show ?thesis by (simp only: mailbox_acl_edit_def Let_def if_True if_False) simp
  next
    case other: False
    let ?sub = "load_acl_hash db m (acl_token_hash arg) = None \<and> acl_is_subset arg (acl_for_token E db m auth)"
    from False other assms have "insert_acl db m arg = Inr db' \<and> (right_of E db m (token_hash E auth) EditAcl \<or> ?sub)"
      by (simp only: mailbox_acl_edit_def Let_def if_False) (auto split: if_splits)
    then show ?thesis
      by (intro put) (auto simp: acl_is_subset_right acl_for_token_right)
  qed
qed

lemma right_of_insert_acl:
  assumes "insert_acl db m acl = Inr db'"
  shows "right_of E db' m' h x \<Longrightarrow> right_of E db m' h x \<or> m' = m \<and> has_right x acl"
  using insert_acl_rights [OF assms] by (auto simp: right_of_def split: if_splits)

lemma right_of_delete_acl:
  "right_of E (delete_acl db m h') m h x \<Longrightarrow> right_of E db m h x \<or> entry_right db m (token_hash E anonymous) x"
  by (auto simp: right_of_def entry_right_def delete_acl_rights split: if_splits)

section \<open>Sending and receiving\<close>

definition expires_at_from_ttl :: "nano_timestamp \<Rightarrow> u32 \<Rightarrow> i64 option" where
  "expires_at_from_ttl received_at ttl =
     (if ttl = 0 then None
      else let ttl_ns = sat_mul64 (ucast ttl) 1000000000 in Some (sat_add64 received_at ttl_ns))"

definition alive :: "nano_timestamp \<Rightarrow> i64 option \<Rightarrow> bool" where
  "alive now e \<longleftrightarrow> (case e of None \<Rightarrow> True | Some x \<Rightarrow> sint now < sint x)"

definition purge_expired_entries :: "server_db \<Rightarrow> nano_timestamp \<Rightarrow> server_db" where
  "purge_expired_entries db now =
     db \<lparr> db_entries := t_delete (\<lambda>r. \<not> alive now (er_expires_at r)) (db_entries db) \<rparr>"

definition mailbox_send ::
  "ext \<Rightarrow> nano_timestamp \<Rightarrow> server_db \<Rightarrow> auth_token \<Rightarrow> mailbox_id \<Rightarrow> blob \<Rightarrow> u32
    \<Rightarrow> server_rpc_error + (nano_timestamp \<times> server_db)" where
  "mailbox_send E now db auth m message ttl =
     (let db = purge_expired_entries db now;
          acl = acl_for_token E db m auth
      in if \<not> can_send acl then Inl AccessDenied
         else if \<not> mailbox_known db m then Inl RetryLater
         else
           (let row = \<lparr> er_mailbox = m, er_entry_id = db_next_entry db, er_received_at = now,
                  er_kind = blob_kind message, er_body = blob_inner message,
                  er_sender = Some (be_bytes (hash_to_bytes (token_hash E auth))),
                  er_expires_at = expires_at_from_ttl now ttl \<rparr>
            in and_then (ok_or RetryLater (t_insert entry_key row (db_entries db))) (\<lambda>rows.
              Inr (now, db \<lparr> db_entries := rows, db_next_entry := db_next_entry db + 1 \<rparr>))))"

definition unread :: "mailbox_id \<Rightarrow> nano_timestamp \<Rightarrow> nano_timestamp \<Rightarrow> entry_row \<Rightarrow> bool" where
  "unread m after now r \<longleftrightarrow> er_mailbox r = m \<and> sint after < sint (er_received_at r) \<and> alive now (er_expires_at r)"

definition recv_rows :: "server_db \<Rightarrow> mailbox_id \<Rightarrow> nano_timestamp \<Rightarrow> nano_timestamp \<Rightarrow> entry_row list" where
  "recv_rows db m after now =
     take 100 (sort_key (\<lambda>r. (sint (er_received_at r), er_entry_id r))
       (filter (unread m after now) (db_entries db)))"

fun rows_to_entries :: "entry_row list \<Rightarrow> server_rpc_error + mailbox_entry list" where
  "rows_to_entries [] = Inr []"
| "rows_to_entries (r # rows) =
     and_then (case er_sender r of
         Some b \<Rightarrow> and_then (ok_or RetryLater (array_try_from b)) (\<lambda>buf. Inr (Some (Hash buf)))
       | None \<Rightarrow> Inr None) (\<lambda>sender.
     and_then (rows_to_entries rows) (\<lambda>entries.
       Inr (\<lparr> mbe_message = \<lparr> blob_kind = er_kind r, blob_inner = er_body r \<rparr>,
              mbe_received_at = er_received_at r, mbe_sender_auth_token_hash = sender \<rparr> # entries)))"

text \<open>One turn of the receive loop, from \<open>begin\<close> to \<open>commit\<close>.\<close>

definition recv_pass ::
  "ext \<Rightarrow> nano_timestamp \<Rightarrow> server_db \<Rightarrow> mailbox_recv_args \<Rightarrow> server_rpc_error + (mailbox_entry list \<times> server_db)" where
  "recv_pass E now db arg =
     (let db = purge_expired_entries db now;
          acl = acl_for_token E db (mra_mailbox arg) (mra_auth arg)
      in if \<not> can_recv acl then Inl AccessDenied
         else and_then (rows_to_entries (recv_rows db (mra_mailbox arg) (mra_after arg) now)) (\<lambda>entries.
           Inr (entries, db)))"

text \<open>What the RPC answers once the race of the tasks has a first result, or timed out.\<close>

definition multirecv_reply ::
  "(server_rpc_error + (mailbox_id \<times> mailbox_entry list)) option
    \<Rightarrow> server_rpc_error + (mailbox_id, mailbox_entry list) btree" where
  "multirecv_reply r =
     (case r of
        None \<Rightarrow> Inr []
      | Some first \<Rightarrow> and_then first (\<lambda>(first_box, first_entries). Inr (bt_insert first_box first_entries [])))"

lemma purge_sel [simp]:
  "db_acl (purge_expired_entries db now) = db_acl db"
  "db_mailboxes (purge_expired_entries db now) = db_mailboxes db"
  "db_tokens (purge_expired_entries db now) = db_tokens db"
  "db_certs (purge_expired_entries db now) = db_certs db"
  "mailbox_known (purge_expired_entries db now) m = mailbox_known db m"
  "load_acl_hash (purge_expired_entries db now) = load_acl_hash db"
  by (simp_all add: purge_expired_entries_def mailbox_known_def load_acl_hash_def fun_eq_iff)

lemma purge_rights [simp]: "right_of E (purge_expired_entries db now) = right_of E db"
  by (intro ext) (simp only: right_of_def entry_right_def purge_sel)

lemma set_purged: "set (db_entries (purge_expired_entries db now)) = {r \<in> set (db_entries db). alive now (er_expires_at r)}"
  by (auto simp: purge_expired_entries_def)

lemma mailbox_send_Inr:
  assumes "mailbox_send E now db auth m msg ttl = Inr (t, db')"
  shows "t = now" and "right_of E db m (token_hash E auth) Send" and "mailbox_known db m"
    and "db_acl db' = db_acl db" "db_mailboxes db' = db_mailboxes db" "db_tokens db' = db_tokens db"
    and "db_certs db' = db_certs db"
    and "\<exists>r. set (db_entries db') = insert r {r \<in> set (db_entries db). alive now (er_expires_at r)} \<and>
      er_mailbox r = m \<and> er_received_at r = now \<and> er_kind r = blob_kind msg \<and> er_body r = blob_inner msg \<and>
      er_sender r = Some (be_bytes (hash_to_bytes (token_hash E auth))) \<and>
      er_expires_at r = expires_at_from_ttl now ttl"
  using assms by (auto simp: mailbox_send_def Let_def t_insert_def set_purged split: if_splits)

text \<open>The expiry is the arrival time plus the time to live, as long as the clock is before the year
  2126; no cast then changes the sign.\<close>

lemma expires_at_exact:
  assumes "unat now < 2 ^ 62" and "ttl \<noteq> 0"
  shows "\<exists>x. expires_at_from_ttl now ttl = Some x \<and> sint x = int (unat now) + int (unat ttl) * 1000000000"
proof -
  have ttl: "unat ttl < 2 ^ 32"
    using unsigned_less [of ttl, where 'a = nat] by simp
  have "unat (ucast ttl :: u64) = unat ttl"
    using unsigned_less [of ttl, where 'a = nat] by (simp add: unsigned_ucast_eq take_bit_nat_eq_self)
  then have mul: "unat (sat_mul64 (ucast ttl) 1000000000) = unat ttl * 1000000000"
    using ttl by (simp add: unat_sat_mul64)
  let ?x = "sat_add64 now (sat_mul64 (ucast ttl) 1000000000)"
  have x: "unat ?x = unat now + unat ttl * 1000000000"
    using assms(1) ttl by (simp add: unat_sat_add64 mul)
  with assms(1) ttl have "unat ?x < 2 ^ 63" by simp
  then have "sint ?x = int (unat ?x)" by (rule sint_small_unat)
  with x assms(2) show ?thesis
    by (simp add: expires_at_from_ttl_def)
qed

lemma rows_to_entries_map:
  "rows_to_entries rs = Inr es \<Longrightarrow>
     map (\<lambda>e. (mbe_received_at e, mbe_message e)) es
       = map (\<lambda>r. (er_received_at r, \<lparr> blob_kind = er_kind r, blob_inner = er_body r \<rparr>)) rs"
  by (induction rs arbitrary: es) (auto split: option.splits)

lemma rows_to_entries_props:
  assumes "rows_to_entries rs = Inr es"
  shows "length es = length rs"
    and "map (\<lambda>e. sint (mbe_received_at e)) es = map (\<lambda>r. sint (er_received_at r)) rs"
    and "r \<in> set rs \<Longrightarrow> \<exists>e \<in> set es. mbe_received_at e = er_received_at r \<and>
      mbe_message e = \<lparr> blob_kind = er_kind r, blob_inner = er_body r \<rparr>"
    and "e \<in> set es \<Longrightarrow> \<exists>r \<in> set rs. mbe_received_at e = er_received_at r"
proof -
  note eq = rows_to_entries_map [OF assms]
  from arg_cong [OF eq, of length] show "length es = length rs" by simp
  from arg_cong [OF eq, of "map (\<lambda>p. sint (fst p))"]
  show "map (\<lambda>e. sint (mbe_received_at e)) es = map (\<lambda>r. sint (er_received_at r)) rs"
    by (simp add: o_def)
  from arg_cong [OF eq, of set]
  have img: "(\<lambda>e. (mbe_received_at e, mbe_message e)) ` set es =
    (\<lambda>r. (er_received_at r, \<lparr> blob_kind = er_kind r, blob_inner = er_body r \<rparr>)) ` set rs"
    by simp
  show "\<exists>e \<in> set es. mbe_received_at e = er_received_at r \<and>
      mbe_message e = \<lparr> blob_kind = er_kind r, blob_inner = er_body r \<rparr>" if "r \<in> set rs"
  proof -
    have "(er_received_at r, \<lparr> blob_kind = er_kind r, blob_inner = er_body r \<rparr>)
        \<in> (\<lambda>e. (mbe_received_at e, mbe_message e)) ` set es"
      unfolding img using that by (rule imageI)
    then show ?thesis by (elim imageE) auto
  qed
  show "\<exists>r \<in> set rs. mbe_received_at e = er_received_at r" if "e \<in> set es"
  proof -
    have "(mbe_received_at e, mbe_message e)
        \<in> (\<lambda>r. (er_received_at r, \<lparr> blob_kind = er_kind r, blob_inner = er_body r \<rparr>)) ` set rs"
      unfolding img [symmetric] using that by (rule imageI)
    then show ?thesis by (elim imageE) auto
  qed
qed

lemma recv_rows_subset: "r \<in> set (recv_rows db m after now) \<Longrightarrow> r \<in> set (db_entries db) \<and> unread m after now r"
  unfolding recv_rows_def by (auto dest: in_set_takeD)

text \<open>A page is a prefix of the unread rows in order: what is left out comes after everything in it,
  and only when the page is full.\<close>

lemma sorted_take_complete:
  assumes "sorted (map k l)" and "r \<in> set l" and "r \<notin> set (take n l)"
  shows "length (take n l) = n \<and> (\<forall>q \<in> set (take n l). k q \<le> k r)"
proof -
  have l: "take n l @ drop n l = l" by simp
  then have "r \<in> set (drop n l)"
    using assms(2,3) by (metis Un_iff set_append)
  moreover have "sorted (map k (take n l) @ map k (drop n l))"
    using assms(1) l by (metis map_append)
  moreover have "n \<le> length l"
    using assms(2,3) by (metis nle_le take_all)
  ultimately show ?thesis by (simp add: sorted_append)
qed

lemma prod_le_fst: "(a, b) \<le> (c, d) \<Longrightarrow> a \<le> c" for a c :: "'x::order" and b d :: "'y::ord"
  by (auto simp: less_eq_prod_def)

lemma recv_rows_complete:
  assumes "r \<in> set (db_entries db)" and "unread m after now r"
    and "r \<notin> set (recv_rows db m after now)"
  shows "length (recv_rows db m after now) = 100 \<and>
    (\<forall>q \<in> set (recv_rows db m after now). sint (er_received_at q) \<le> sint (er_received_at r))"
proof -
  let ?k = "\<lambda>r. (sint (er_received_at r), er_entry_id r)"
  define l where "l = sort_key ?k (filter (unread m after now) (db_entries db))"
  have rr: "recv_rows db m after now = take 100 l" by (simp only: recv_rows_def l_def)
  have "r \<in> set l" using assms(1,2) by (simp add: l_def)
  moreover have "sorted (map ?k l)" unfolding l_def by (rule sorted_sort_key)
  ultimately have len: "length (take 100 l) = 100" and le: "\<And>q. q \<in> set (take 100 l) \<Longrightarrow> ?k q \<le> ?k r"
    using sorted_take_complete [of ?k l r 100] assms(3) unfolding rr by blast+
  show ?thesis
    unfolding rr using len prod_le_fst [OF le] by blast
qed

lemma sorted_recv_rows: "sorted (map (\<lambda>r. sint (er_received_at r)) (recv_rows db m after now))"
proof -
  let ?k = "\<lambda>r. (sint (er_received_at r), er_entry_id r)"
  have "sorted (map ?k (recv_rows db m after now))"
    unfolding recv_rows_def take_map [symmetric] by (rule sorted_wrt_take) simp
  then show ?thesis
    by (simp add: sorted_map) (rule sorted_wrt_mono_rel, auto simp: less_eq_prod_def)
qed

section \<open>Runs of ACL edits\<close>

text \<open>A sequence of edit requests on one mailbox; a refused request changes nothing.\<close>

fun acl_run ::
  "ext \<Rightarrow> mailbox_id \<Rightarrow> (auth_token \<times> mailbox_acl) list \<Rightarrow> server_db \<Rightarrow> server_db" where
  "acl_run E m [] db = db"
| "acl_run E m ((auth, arg) # edits) db =
     (case mailbox_acl_edit E db auth m arg of
        Inl _ \<Rightarrow> acl_run E m edits db
      | Inr db' \<Rightarrow> acl_run E m edits db')"

text \<open>One edit by a caller that may not edit keeps every right within the bound \<open>B\<close> that
  covers the callers' rights and the anonymous entry, and leaves the entries of other tokens alone.\<close>

lemma acl_edit_bounded:
  assumes edit: "mailbox_acl_edit E db auth m arg = Inr db'"
    and no_edit: "\<not> right_of E db m (token_hash E auth) EditAcl"
    and caller: "\<And>x. right_of E db m (token_hash E auth) x \<Longrightarrow> B x"
    and anon: "\<And>x. entry_right db m (token_hash E anonymous) x \<Longrightarrow> B x"
  shows "right_of E db' m h x \<Longrightarrow> right_of E db m h x \<or> B x"
    and "entry_right db' m (token_hash E anonymous) x \<Longrightarrow> B x"
    and "h \<noteq> token_hash E auth \<Longrightarrow> load_acl_hash db m h = Some a \<Longrightarrow> load_acl_hash db' m h = Some a"
proof -
  from edit have "(right_of E db' m h x \<longrightarrow> right_of E db m h x \<or> B x) \<and>
    (entry_right db' m (token_hash E anonymous) x \<longrightarrow> B x) \<and>
    (h \<noteq> token_hash E auth \<longrightarrow> load_acl_hash db m h = Some a \<longrightarrow> load_acl_hash db' m h = Some a)"
  proof (cases rule: mailbox_acl_edit_cases)
    case remove
    have "right_of E db' m h x \<longrightarrow> right_of E db m h x \<or> B x"
      unfolding remove using right_of_delete_acl anon by blast
    moreover have "entry_right db' m (token_hash E anonymous) x \<longrightarrow> B x"
      using anon by (auto simp: remove entry_right_def delete_acl_rights split: if_splits)
    ultimately show ?thesis
      by (simp add: remove delete_acl_rights)
  next
    case same
    with anon show ?thesis by blast
  next
    case put
    from put(2) no_edit have fresh: "load_acl_hash db m (acl_token_hash arg) = None"
      and B: "\<And>x. has_right x arg \<Longrightarrow> B x"
      using caller by blast+
    have rights: "right_of E db' m h x \<longrightarrow> right_of E db m h x \<or> B x"
      using right_of_insert_acl [OF put(1)] B by blast
    have anons: "entry_right db' m (token_hash E anonymous) x \<longrightarrow> B x"
      using insert_acl_rights(2) [OF put(1)] B anon by (auto split: if_splits)
    have "h \<noteq> acl_token_hash arg \<longrightarrow> load_acl_hash db' m h = load_acl_hash db m h"
      using put(1) by (auto simp: insert_acl_def load_acl_hash_def t_get_replace acl_key_def split: if_splits)
    then have keep: "load_acl_hash db m h = Some a \<longrightarrow> load_acl_hash db' m h = Some a"
      using fresh by (cases "h = acl_token_hash arg") simp_all
    show ?thesis using rights anons keep by blast
  qed
  then show "right_of E db' m h x \<Longrightarrow> right_of E db m h x \<or> B x"
    and "entry_right db' m (token_hash E anonymous) x \<Longrightarrow> B x"
    and "h \<noteq> token_hash E auth \<Longrightarrow> load_acl_hash db m h = Some a \<Longrightarrow> load_acl_hash db' m h = Some a"
    by blast+
qed

lemma acl_run_bounded:
  assumes "\<And>t. t \<in> fst ` set edits \<Longrightarrow> \<not> B EditAcl \<and> \<not> right_of E db m (token_hash E t) EditAcl"
    and "\<And>t x. t \<in> fst ` set edits \<Longrightarrow> right_of E db m (token_hash E t) x \<Longrightarrow> B x"
    and "\<And>x. entry_right db m (token_hash E anonymous) x \<Longrightarrow> B x"
  shows "(right_of E (acl_run E m edits db) m h x \<longrightarrow> right_of E db m h x \<or> B x) \<and>
    (h \<notin> token_hash E ` fst ` set edits \<longrightarrow> load_acl_hash db m h = Some a \<longrightarrow>
      load_acl_hash (acl_run E m edits db) m h = Some a)"
  using assms
proof (induction E m edits db rule: acl_run.induct)
  case (1 E m db)
  then show ?case by simp
next
  case (2 E m auth arg edits db)
  show ?case
  proof (cases "mailbox_acl_edit E db auth m arg")
    case (Inl e)
    have "(right_of E (acl_run E m edits db) m h x \<longrightarrow> right_of E db m h x \<or> B x) \<and>
      (h \<notin> token_hash E ` fst ` set edits \<longrightarrow> load_acl_hash db m h = Some a \<longrightarrow>
        load_acl_hash (acl_run E m edits db) m h = Some a)"
      by (rule "2.IH"(1) [OF Inl]) (use "2.prems" in auto)
    with Inl show ?thesis by simp
  next
    case (Inr db')
    have auth: "\<not> right_of E db m (token_hash E auth) EditAcl" "\<not> B EditAcl"
      using "2.prems"(1) [of auth] by simp_all
    have caller: "\<And>x. right_of E db m (token_hash E auth) x \<Longrightarrow> B x"
      using "2.prems"(2) [of auth] by simp
    note bounded = acl_edit_bounded [OF Inr auth(1), of B, OF caller "2.prems"(3)]
    have "(right_of E (acl_run E m edits db') m h x \<longrightarrow> right_of E db' m h x \<or> B x) \<and>
      (h \<notin> token_hash E ` fst ` set edits \<longrightarrow> load_acl_hash db' m h = Some a \<longrightarrow>
        load_acl_hash (acl_run E m edits db') m h = Some a)"
    proof (rule "2.IH"(2) [OF Inr])
      fix t y
      assume t: "t \<in> fst ` set edits"
      show "\<not> B EditAcl \<and> \<not> right_of E db' m (token_hash E t) EditAcl"
        using bounded(1) [of "token_hash E t" EditAcl] auth(2) "2.prems"(1) [of t] t by auto
      show "right_of E db' m (token_hash E t) y \<Longrightarrow> B y"
        using bounded(1) [of "token_hash E t" y] "2.prems"(2) [of t y] t by auto
    next
      show "\<And>x. entry_right db' m (token_hash E anonymous) x \<Longrightarrow> B x"
        by (rule bounded(2))
    qed
    with bounded(1) [of h x] bounded(3) [of h a] Inr show ?thesis by auto
  qed
qed

section \<open>Properties\<close>

text \<open>C13: callers that may not edit a mailbox's ACL cannot escalate, however many of them collude and
  in whatever order they edit: afterwards every token's right is one it had before, or one that a
  colluder or the anonymous entry had, and the entries of tokens outside the group are as they were.\<close>

theorem acl_no_escalation:
  assumes "\<forall>t \<in> fst ` set edits. \<not> right_of E db m (token_hash E t) EditAcl"
    and "\<not> entry_right db m (token_hash E anonymous) EditAcl"
  shows "(\<forall>h x. right_of E (acl_run E m edits db) m h x \<longrightarrow>
      right_of E db m h x \<or> entry_right db m (token_hash E anonymous) x \<or>
      (\<exists>t \<in> fst ` set edits. right_of E db m (token_hash E t) x)) \<and>
    (\<forall>h a. h \<notin> token_hash E ` fst ` set edits \<longrightarrow> load_acl_hash db m h = Some a \<longrightarrow>
      load_acl_hash (acl_run E m edits db) m h = Some a)"
proof -
  let ?B = "\<lambda>x. entry_right db m (token_hash E anonymous) x \<or> (\<exists>t \<in> fst ` set edits. right_of E db m (token_hash E t) x)"
  have "\<not> ?B EditAcl" using assms by blast
  then have "(right_of E (acl_run E m edits db) m h x \<longrightarrow> right_of E db m h x \<or> ?B x) \<and>
    (h \<notin> token_hash E ` fst ` set edits \<longrightarrow> load_acl_hash db m h = Some a \<longrightarrow>
      load_acl_hash (acl_run E m edits db) m h = Some a)" for h x a
    by (intro acl_run_bounded) blast+
  then show ?thesis by blast
qed

definition demo_mailbox :: mailbox_id where "demo_mailbox = MailboxId (Hash 1)"

definition demo_mail_db :: server_db where
  "demo_mail_db = empty_db \<lparr> db_mailboxes := [(demo_mailbox, 0)],
     db_acl := [(demo_mailbox, \<lparr> acl_token_hash = token_hash demo_ext (AuthToken 5),
       can_edit_acl = False, can_send = True, can_recv = True \<rparr>)] \<rparr>"

theorem acl_no_escalation_witness:
  "\<not> right_of demo_ext (acl_run demo_ext demo_mailbox
     [(AuthToken 5, \<lparr> acl_token_hash = token_hash demo_ext (AuthToken 6), can_edit_acl = False,
        can_send = True, can_recv = False \<rparr>)] demo_mail_db) demo_mailbox (token_hash demo_ext (AuthToken 6)) EditAcl"
proof -
  have r: "\<not> right_of demo_ext demo_mail_db demo_mailbox h EditAcl"
    "\<not> entry_right demo_mail_db demo_mailbox h EditAcl" for h
    by (auto simp: right_of_def entry_right_def load_acl_hash_def demo_mail_db_def t_get_simps split: if_splits)
  let ?edits = "[(AuthToken 5, \<lparr> acl_token_hash = token_hash demo_ext (AuthToken 6),
      can_edit_acl = False, can_send = True, can_recv = False \<rparr>)]"
  have "\<forall>t \<in> fst ` set ?edits. \<not> right_of demo_ext demo_mail_db demo_mailbox (token_hash demo_ext t) EditAcl"
    using r(1) by blast
  from conjunct1 [OF acl_no_escalation [OF this r(2)]] r show ?thesis by blast
qed

lemma recv_page:
  assumes "recv_pass E now db arg = Inr (entries, db')"
  shows "right_of E db (mra_mailbox arg) (token_hash E (mra_auth arg)) Recv \<and> length entries \<le> 100 \<and>
    sorted (map (\<lambda>e. sint (mbe_received_at e)) entries) \<and>
    (\<forall>e \<in> set entries. sint (mra_after arg) < sint (mbe_received_at e)) \<and>
    (\<forall>e \<in> set entries. \<exists>r \<in> set (db_entries db). er_mailbox r = mra_mailbox arg \<and>
      mbe_received_at e = er_received_at r) \<and>
    (\<forall>r \<in> set (db_entries db). unread (mra_mailbox arg) (mra_after arg) now r \<longrightarrow>
      (\<exists>e \<in> set entries. mbe_received_at e = er_received_at r \<and> blob_inner (mbe_message e) = er_body r) \<or>
      length entries = 100 \<and> (\<forall>e \<in> set entries. sint (mbe_received_at e) \<le> sint (er_received_at r)))"
proof -
  let ?rows = "recv_rows db' (mra_mailbox arg) (mra_after arg) now"
  from assms have db': "db' = purge_expired_entries db now"
    and right: "right_of E db (mra_mailbox arg) (token_hash E (mra_auth arg)) Recv"
    and rows: "rows_to_entries ?rows = Inr entries"
    by (auto simp: recv_pass_def Let_def split: if_splits)
  note props = rows_to_entries_props [OF rows]
  have after: "sint (mra_after arg) < sint (mbe_received_at e)" if "e \<in> set entries" for e
  proof -
    from props(4) [OF that] obtain r where "r \<in> set ?rows" "mbe_received_at e = er_received_at r" by blast
    with recv_rows_subset [OF this(1)] show ?thesis by (simp add: unread_def)
  qed
  have stored: "\<exists>r \<in> set (db_entries db). er_mailbox r = mra_mailbox arg \<and> mbe_received_at e = er_received_at r"
    if "e \<in> set entries" for e
  proof -
    from props(4) [OF that] obtain r where r: "r \<in> set ?rows" "mbe_received_at e = er_received_at r" by blast
    from recv_rows_subset [OF r(1)] r(2) show ?thesis by (auto simp: unread_def db' set_purged)
  qed
  have misses: "(\<exists>e \<in> set entries. mbe_received_at e = er_received_at r \<and> blob_inner (mbe_message e) = er_body r) \<or>
      length entries = 100 \<and> (\<forall>e \<in> set entries. sint (mbe_received_at e) \<le> sint (er_received_at r))"
    if r: "r \<in> set (db_entries db)" "unread (mra_mailbox arg) (mra_after arg) now r" for r
  proof (cases "r \<in> set ?rows")
    case True
    from props(3) [OF this] show ?thesis by force
  next
    case False
    have "r \<in> set (db_entries db')" using r by (simp add: db' set_purged unread_def)
    note full = recv_rows_complete [OF this r(2) False]
    have "sint (mbe_received_at e) \<le> sint (er_received_at r)" if "e \<in> set entries" for e
      using props(4) [OF that] full by auto
    with full props(1) show ?thesis by simp
  qed
  have "length ?rows \<le> 100" by (simp add: recv_rows_def)
  moreover have "sorted (map (\<lambda>e. sint (mbe_received_at e)) entries)"
    unfolding props(2) by (rule sorted_recv_rows)
  ultimately show ?thesis using right after stored misses props(1) by simp
qed

text \<open>a page of \<open>v1_mailbox_multirecv\<close> is read with the right to receive, holds unread unexpired
  messages in the order of arrival, at most 100, and leaves out an unread message only when it is full
  and the message is not older than any in the page: polling on from the last entry misses nothing.\<close>

theorem recv_page_correct:
  assumes "recv_pass E now db arg = Inr (entries, db')"
  shows "right_of E db (mra_mailbox arg) (token_hash E (mra_auth arg)) Recv \<and> length entries \<le> 100 \<and>
    sorted (map (\<lambda>e. sint (mbe_received_at e)) entries) \<and>
    (\<forall>e \<in> set entries. sint (mra_after arg) < sint (mbe_received_at e)) \<and>
    (\<forall>r \<in> set (db_entries db). unread (mra_mailbox arg) (mra_after arg) now r \<longrightarrow>
      (\<exists>e \<in> set entries. mbe_received_at e = er_received_at r \<and> blob_inner (mbe_message e) = er_body r) \<or>
      length entries = 100 \<and> (\<forall>e \<in> set entries. sint (mbe_received_at e) \<le> sint (er_received_at r)))"
  using recv_page [OF assms] by blast

theorem recv_page_correct_witness:
  "\<exists>entries db'. recv_pass demo_ext 10 (demo_mail_db \<lparr> db_entries := [\<lparr> er_mailbox = demo_mailbox,
       er_entry_id = 1, er_received_at = 3, er_kind = ''k'', er_body = [7], er_sender = None,
       er_expires_at = Some 20 \<rparr>] \<rparr>) \<lparr> mra_auth = AuthToken 5, mra_mailbox = demo_mailbox, mra_after = 2 \<rparr>
     = Inr (entries, db') \<and> length entries \<le> 100 \<and> (\<exists>e \<in> set entries. blob_inner (mbe_message e) = [7])"
proof -
  let ?r = "\<lparr> er_mailbox = demo_mailbox, er_entry_id = 1, er_received_at = 3, er_kind = ''k'', er_body = [7],
    er_sender = None, er_expires_at = Some 20 \<rparr>"
  let ?db = "demo_mail_db \<lparr> db_entries := [?r] \<rparr>"
  let ?arg = "\<lparr> mra_auth = AuthToken 5, mra_mailbox = demo_mailbox, mra_after = 2 \<rparr>"
  have right: "right_of demo_ext ?db demo_mailbox (token_hash demo_ext (AuthToken 5)) Recv"
    by (simp add: right_of_def entry_right_def load_acl_hash_def demo_mail_db_def t_get_simps acl_key_def)
  have "unread demo_mailbox 2 10 ?r" "alive 10 (Some 20)"
    by (simp_all add: unread_def alive_def)
  then have "recv_pass demo_ext 10 ?db ?arg =
      Inr ([\<lparr> mbe_message = \<lparr> blob_kind = ''k'', blob_inner = [7] \<rparr>, mbe_received_at = 3,
        mbe_sender_auth_token_hash = None \<rparr>], purge_expired_entries ?db 10)" (is "_ = Inr (?es, ?db')")
    using right by (simp add: recv_pass_def Let_def recv_rows_def purge_expired_entries_def t_delete_def)
  from this recv_page_correct [OF this] show ?thesis by auto
qed

text \<open>registering a group succeeds for every known token and gives it every right on both of the
  group's mailboxes, whatever their ACL was: nothing ties the caller to the group's creation, so a
  member without the right to edit, or any authenticated device that knows the identifier, becomes an
  editor of an existing group's mailboxes.\<close>

theorem register_group_grants_all:
  assumes "mb_auth_token_exists E db auth = Inr True"
  shows "\<exists>db'. register_group E now db auth g = Inr db' \<and>
    (\<forall>x. right_of E db' (mailbox_group_messages E g) (token_hash E auth) x \<and>
         right_of E db' (mailbox_group_management E g) (token_hash E auth) x)"
proof -
  let ?acl = "\<lparr> acl_token_hash = token_hash E auth, can_edit_acl = True, can_send = True, can_recv = True \<rparr>"
  let ?m1 = "mailbox_group_messages E g" and ?m2 = "mailbox_group_management E g"
  have all: "has_right x ?acl" for x by (cases x) simp_all
  obtain db1 where db1: "insert_acl (insert_mailbox db ?m1 now) ?m1 ?acl = Inr db1"
    using insert_acl_known insert_mailbox_rights(4) by blast
  obtain db2 where db2: "insert_acl (insert_mailbox db1 ?m2 now) ?m2 ?acl = Inr db2"
    using insert_acl_known insert_mailbox_rights(4) by blast
  have own: "entry_right db1 ?m1 (token_hash E auth) x" "entry_right db2 ?m2 (token_hash E auth) x" for x
    using insert_acl_rights(2) [OF db1] insert_acl_rights(2) [OF db2] all by simp_all
  then have "entry_right db2 ?m1 (token_hash E auth) x" for x
    using insert_acl_rights(2) [OF db2, of ?m1 "token_hash E auth" x] all by (simp split: if_splits)
  with own have "right_of E db2 ?m1 (token_hash E auth) x \<and> right_of E db2 ?m2 (token_hash E auth) x" for x
    by (auto simp: right_of_def entry_right_def)
  moreover have "register_group E now db auth g = Inr db2"
    using assms db1 db2 by (simp add: register_group_def)
  ultimately show ?thesis by blast
qed

theorem register_group_grants_all_witness:
  "\<exists>db'. register_group demo_ext 9 (demo_mail_db \<lparr> db_tokens :=
       [\<lparr> tk_username = ''@alice'', tk_device_hash = [1], tk_auth_token = bcs_expect demo_ext (ser_auth_token (AuthToken 5)) \<rparr>] \<rparr>)
     (AuthToken 5) (GroupId (Hash 3)) = Inr db' \<and>
     right_of demo_ext db' (mailbox_group_messages demo_ext (GroupId (Hash 3))) (token_hash demo_ext (AuthToken 5)) EditAcl"
proof -
  let ?db = "demo_mail_db \<lparr> db_tokens := [\<lparr> tk_username = ''@alice'', tk_device_hash = [1],
    tk_auth_token = bcs_expect demo_ext (ser_auth_token (AuthToken 5)) \<rparr>] \<rparr>"
  have "bcs_enc demo_ext (ser_auth_token (AuthToken 5)) \<noteq> None" by code_simp
  then have "mb_auth_token_exists demo_ext ?db (AuthToken 5) = Inr True"
    by (auto simp: mb_auth_token_exists_def bcs_expect_def t_get_simps)
  from register_group_grants_all [OF this, of 9 "GroupId (Hash 3)"] show ?thesis by blast
qed

end
