(* ===== verification/Device.thy ===== *)
theory Device
  imports Mailbox
begin

text \<open>
  Devices and profiles at the chat server (\<open>nullspace-server/src/device.rs\<close> and
  \<open>profile.rs\<close>): authenticating a device by its certificate chain against the directory, the
  listing of a user's devices, medium-term keys and the user profile. The directory lookup is an
  argument (the directory client is modelled in \<open>DirClient\<close>), as are the clocks, the configured
  server name and the random token. Statements outside a transaction are taken as one step.
\<close>

section \<open>Devices\<close>

definition pk_hash :: "ext \<Rightarrow> signing_public \<Rightarrow> hash" where
  "pk_hash E pk = bcs_hash E (ser_signing_public pk)"

definition hash_column :: "hash \<Rightarrow> bytes" where
  "hash_column h = be_bytes (hash_to_bytes h)"

lemma hash_column_inject [simp]: "hash_column a = hash_column b \<longleftrightarrow> a = b"
  by (cases a; cases b) (simp add: hash_column_def)

lemma bytes_to_hash_column [simp]: "bytes_to_hash (hash_column h) = Inr h"
  by (simp add: hash_column_def)

text \<open>\<open>INSERT OR REPLACE\<close> into a table with two unique keys deletes the rows in conflict on either.\<close>

definition insert_token :: "token_row \<Rightarrow> token_row list \<Rightarrow> token_row list" where
  "insert_token r t = t_replace token_key r (t_delete (\<lambda>x. tk_auth_token x = tk_auth_token r) t)"

definition device_auth_checks ::
  "ext \<Rightarrow> server_name \<Rightarrow> (username \<Rightarrow> anyhow + user_descriptor option) \<Rightarrow> timestamp
    \<Rightarrow> username \<Rightarrow> certificate_chain \<Rightarrow> server_rpc_error + unit" where
  "device_auth_checks E own_name get_user_descriptor now user cert =
     and_then (map_err (\<lambda>_. RetryLater) (get_user_descriptor user)) (\<lambda>descriptor.
       case descriptor of
         None \<Rightarrow> Inl AccessDenied
       | Some d \<Rightarrow>
           if ud_server_name d \<noteq> own_name then Inl AccessDenied
           else if \<not> is_ok (chain_verify E now cert (ud_root_cert_hash d)) then Inl AccessDenied
           else Inr ())"

definition device_auth ::
  "ext \<Rightarrow> server_name \<Rightarrow> (username \<Rightarrow> anyhow + user_descriptor option) \<Rightarrow> timestamp \<Rightarrow> nano_timestamp
    \<Rightarrow> auth_token \<Rightarrow> server_db \<Rightarrow> username \<Rightarrow> certificate_chain \<Rightarrow> server_rpc_error + (auth_token \<times> server_db)" where
  "device_auth E own_name get_user_descriptor now_s now_ns new_token db user cert =
     (let device_hash = pk_hash E (cert_pk (last_device cert)) in
      and_then (device_auth_checks E own_name get_user_descriptor now_s user cert) (\<lambda>_.
      and_then (case t_get token_key (username_as_str user, hash_column device_hash) (db_tokens db) of
          Some row \<Rightarrow> and_then (ok_or RetryLater (bcs_from E TBytes de_auth_token (tk_auth_token row)))
            (\<lambda>t. Inr (Some t))
        | None \<Rightarrow> Inr None) (\<lambda>existing.
      and_then (ok_or RetryLater (bcs_enc E (ser_chain cert))) (\<lambda>data.
      let db = db \<lparr> db_certs := t_replace cr_device_hash \<lparr> cr_device_hash = hash_column device_hash,
                 cr_username = username_as_str user, cr_cert_chain = data \<rparr> (db_certs db) \<rparr> in
      (case existing of
         Some t \<Rightarrow>
           and_then (update_dm_mailbox E now_ns db user None) (\<lambda>db. Inr (t, db))
       | None \<Rightarrow>
           and_then (ok_or RetryLater (bcs_enc E (ser_auth_token new_token))) (\<lambda>token_data.
           let db = db \<lparr> db_tokens := insert_token \<lparr> tk_username = username_as_str user,
                 tk_device_hash = hash_column device_hash, tk_auth_token = token_data \<rparr> (db_tokens db) \<rparr> in
           and_then (update_dm_mailbox E now_ns db user (Some new_token)) (\<lambda>db. Inr (new_token, db))))))))"

fun decode_chains ::
  "ext \<Rightarrow> cert_row list \<Rightarrow> (hash, certificate_chain) btree \<Rightarrow> server_rpc_error + (hash, certificate_chain) btree" where
  "decode_chains E [] out = Inr out"
| "decode_chains E (r # rows) out =
     and_then (bytes_to_hash (cr_device_hash r)) (\<lambda>h.
     and_then (ok_or RetryLater (bcs_from E ty_chain (de_chain E) (cr_cert_chain r))) (\<lambda>chain.
       decode_chains E rows (bt_insert h chain out)))"

definition device_list ::
  "ext \<Rightarrow> server_db \<Rightarrow> username \<Rightarrow> server_rpc_error + (hash, certificate_chain) btree option" where
  "device_list E db user =
     (let rows = filter (\<lambda>r. cr_username r = username_as_str user) (db_certs db)
      in if rows = [] then Inr None
         else and_then (decode_chains E rows []) (\<lambda>out. Inr (Some out)))"

definition auth_token_exists :: "ext \<Rightarrow> server_db \<Rightarrow> auth_token \<Rightarrow> server_rpc_error + bool" where
  "auth_token_exists E db auth =
     and_then (ok_or RetryLater (bcs_enc E (ser_auth_token auth))) (\<lambda>auth_bytes.
       Inr (t_get tk_auth_token auth_bytes (db_tokens db) \<noteq> None))"

definition device_add_medium_pk ::
  "ext \<Rightarrow> server_db \<Rightarrow> auth_token \<Rightarrow> signed_medium_pk \<Rightarrow> server_rpc_error + server_db" where
  "device_add_medium_pk E db auth medium_pk =
     and_then (ok_or RetryLater (bcs_enc E (ser_auth_token auth))) (\<lambda>auth_bytes.
     and_then (ok_or AccessDenied (t_get tk_auth_token auth_bytes (db_tokens db))) (\<lambda>token.
     and_then (ok_or AccessDenied (find (\<lambda>r. cr_device_hash r = tk_device_hash token \<and>
         cr_username r = tk_username token) (db_certs db))) (\<lambda>row.
     and_then (ok_or RetryLater (bcs_from E ty_chain (de_chain E) (cr_cert_chain row))) (\<lambda>chain.
     let device = last_device chain in
     and_then (bytes_to_hash (tk_device_hash token)) (\<lambda>device_hash_obj.
     if pk_hash E (cert_pk device) \<noteq> device_hash_obj then Inl AccessDenied
     else
       and_then (map_err (\<lambda>_. AccessDenied) (smp_verify E medium_pk (cert_pk device))) (\<lambda>_.
       and_then (ok_or RetryLater (i64_try_from (smp_created medium_pk))) (\<lambda>created.
         Inr (db \<lparr> db_mediums := t_replace mr_device_hash
           \<lparr> mr_device_hash = tk_device_hash token,
             mr_medium_pk = be_bytes (dh_public_to_bytes (smp_medium_pk medium_pk)),
             mr_created = created,
             mr_signature = be_bytes (signature_to_bytes (smp_signature medium_pk)) \<rparr> (db_mediums db) \<rparr>))))))))"

fun decode_mediums ::
  "medium_row list \<Rightarrow> (hash, signed_medium_pk) btree \<Rightarrow> server_rpc_error + (hash, signed_medium_pk) btree" where
  "decode_mediums [] out = Inr out"
| "decode_mediums (r # rows) out =
     and_then (bytes_to_hash (mr_device_hash r)) (\<lambda>h.
     and_then (bytes_to_pk (mr_medium_pk r)) (\<lambda>pk.
     and_then (created_to_timestamp (mr_created r)) (\<lambda>created.
     and_then (bytes_to_signature (mr_signature r)) (\<lambda>sig.
       decode_mediums rows (bt_insert h \<lparr> smp_medium_pk = pk, smp_created = created, smp_signature = sig \<rparr> out)))))"

text \<open>\<open>device_medium_pks t JOIN device_auth_tokens d ON t.device_hash = d.device_hash\<close>.\<close>

definition device_medium_pks ::
  "server_db \<Rightarrow> username \<Rightarrow> server_rpc_error + (hash, signed_medium_pk) btree" where
  "device_medium_pks db user =
     (let rows = concat (map (\<lambda>t. map (\<lambda>_. t)
        (filter (\<lambda>d. mr_device_hash t = tk_device_hash d \<and> tk_username d = username_as_str user) (db_tokens db)))
        (db_mediums db))
      in decode_mediums rows [])"

section \<open>Profiles\<close>

definition profile_get :: "ext \<Rightarrow> server_db \<Rightarrow> username \<Rightarrow> server_rpc_error + user_profile option" where
  "profile_get E db user =
     (case t_get pr_username (username_as_str user) (db_profiles db) of
        None \<Rightarrow> Inr None
      | Some row \<Rightarrow>
          and_then (ok_or RetryLater (bcs_from E ty_user_profile de_user_profile (pr_profile row))) (\<lambda>p. Inr (Some p)))"

text \<open>The loop over the user's device chains: a chain that does not decode is an error, the first
  device whose key verifies the profile ends the loop.\<close>

fun profile_verified :: "ext \<Rightarrow> user_profile \<Rightarrow> cert_row list \<Rightarrow> server_rpc_error + bool" where
  "profile_verified E p [] = Inr False"
| "profile_verified E p (r # rows) =
     and_then (ok_or RetryLater (bcs_from E ty_chain (de_chain E) (cr_cert_chain r))) (\<lambda>chain.
       if is_ok (up_verify E p (cert_pk (last_device chain))) then Inr True
       else profile_verified E p rows)"

definition profile_set ::
  "ext \<Rightarrow> server_db \<Rightarrow> username \<Rightarrow> user_profile \<Rightarrow> server_rpc_error + server_db" where
  "profile_set E db user profile =
     (let device_rows = filter (\<lambda>r. cr_username r = username_as_str user) (db_certs db)
      in if device_rows = [] then Inl AccessDenied
         else
           and_then (profile_verified E profile device_rows) (\<lambda>verified.
           if \<not> verified then Inl AccessDenied
           else
             and_then (ok_or RetryLater (i64_try_from (up_created profile))) (\<lambda>created.
             and_then (ok_or RetryLater (bcs_enc E (ser_user_profile profile))) (\<lambda>profile_bytes.
             if (case t_get pr_username (username_as_str user) (db_profiles db) of
                   Some previous \<Rightarrow> sint created \<le> sint (pr_created previous)
                 | None \<Rightarrow> False)
             then Inl AccessDenied
             else Inr (db \<lparr> db_profiles := t_replace pr_username
               \<lparr> pr_username = username_as_str user, pr_profile = profile_bytes, pr_created = created \<rparr>
               (db_profiles db) \<rparr>)))))"

section \<open>What the operations do\<close>

lemma device_auth_checks_Inr:
  "device_auth_checks E own dir now user cert = Inr u \<longleftrightarrow>
     (\<exists>d. dir user = Inr (Some d) \<and> ud_server_name d = own \<and> chain_ok E now cert (ud_root_cert_hash d))"
proof -
  have "is_ok (chain_verify E now cert h) \<longleftrightarrow> chain_ok E now cert h" for h
    by (simp add: is_ok_iff chain_verify_iff)
  then show ?thesis
    by (cases "dir user") (auto simp: device_auth_checks_def split: option.splits if_splits)
qed

lemma device_auth_checks_error:
  "device_auth_checks E own dir now user cert = Inl e \<Longrightarrow>
     device_auth E own dir now now_ns tok db user cert = Inl e"
  by (simp add: device_auth_def Let_def)

lemma update_dm_mailbox_ok: "\<exists>db'. update_dm_mailbox E now db user tok = Inr db'"
proof -
  let ?m = "mailbox_direct E user"
  obtain db1 where db1: "insert_acl (insert_mailbox db ?m now) ?m \<lparr> acl_token_hash = token_hash E anonymous,
      can_edit_acl = False, can_send = True, can_recv = False \<rparr> = Inr db1"
    using insert_acl_known insert_mailbox_rights(4) by blast
  have "mailbox_known db1 ?m"
    using insert_acl_other [OF db1] insert_mailbox_rights(4) by (simp add: mailbox_known_def)
  from insert_acl_known [OF this] db1 show ?thesis
    by (cases tok) (simp_all add: update_dm_mailbox_def Let_def)
qed

lemma update_dm_mailbox_other:
  assumes "update_dm_mailbox E now db user tok = Inr db'"
  shows "db_tokens db' = db_tokens db \<and> db_certs db' = db_certs db \<and> db_entries db' = db_entries db"
  using assms by (cases tok) (auto simp: update_dm_mailbox_def Let_def insert_acl_def insert_mailbox_def split: if_splits)

lemma update_dm_mailbox_rights:
  assumes "update_dm_mailbox E now db user tok = Inr db'"
  shows "right_of E db' m h x \<Longrightarrow> right_of E db m h x \<or> m = mailbox_direct E user \<and> x \<noteq> EditAcl \<and>
      (x = Recv \<longrightarrow> tok \<noteq> None)"
    and "tok = Some t \<Longrightarrow> x \<noteq> EditAcl \<Longrightarrow> right_of E db' (mailbox_direct E user) (token_hash E t) x"
    and "entry_right db' (mailbox_direct E user) (token_hash E anonymous) Recv \<Longrightarrow>
      \<exists>t. tok = Some t \<and> token_hash E t = token_hash E anonymous"
proof -
  let ?m = "mailbox_direct E user"
  let ?anon = "\<lparr> acl_token_hash = token_hash E anonymous, can_edit_acl = False, can_send = True, can_recv = False \<rparr>"
  let ?dev = "\<lambda>t. \<lparr> acl_token_hash = token_hash E t, can_edit_acl = False, can_send = True, can_recv = True \<rparr>"
  from assms obtain db1 where db1: "insert_acl (insert_mailbox db ?m now) ?m ?anon = Inr db1"
    and rest: "tok = None \<and> db' = db1 \<or> (\<exists>t. tok = Some t \<and> insert_acl db1 ?m (?dev t) = Inr db')"
    by (cases tok) (simp_all add: update_dm_mailbox_def Let_def, blast)
  have has: "has_right x ?anon \<longleftrightarrow> x = Send" "has_right x (?dev t) \<longleftrightarrow> x \<noteq> EditAcl" for x t
    by (cases x; simp)+
  note one = right_of_insert_acl [OF db1, unfolded has]
  show "right_of E db m h x \<or> m = ?m \<and> x \<noteq> EditAcl \<and> (x = Recv \<longrightarrow> tok \<noteq> None)" if "right_of E db' m h x"
    using rest that one [of E m h x] right_of_insert_acl [of db1 ?m "?dev t" db' E m h x for t, unfolded has]
    by auto
  show "right_of E db' ?m (token_hash E t) x" if "tok = Some t" "x \<noteq> EditAcl"
  proof -
    from rest that(1) have put: "insert_acl db1 ?m (?dev t) = Inr db'" by simp
    have "entry_right db' ?m (token_hash E t) x"
      using insert_acl_rights(2) [OF put] has that(2) by simp
    then show ?thesis by (auto simp: right_of_def entry_right_def)
  qed
  show "\<exists>t. tok = Some t \<and> token_hash E t = token_hash E anonymous"
    if "entry_right db' ?m (token_hash E anonymous) Recv"
  proof -
    have no: "\<not> entry_right db1 ?m (token_hash E anonymous) Recv"
      using insert_acl_rights(2) [OF db1] has by simp
    with rest that obtain t where put: "tok = Some t" "insert_acl db1 ?m (?dev t) = Inr db'" by blast
    with insert_acl_rights(2) [OF put(2)] no that show ?thesis by (auto split: if_splits)
  qed
qed

text \<open>An accepted authentication, in full.\<close>

definition auth_cert_row :: "ext \<Rightarrow> username \<Rightarrow> certificate_chain \<Rightarrow> bytes \<Rightarrow> cert_row" where
  "auth_cert_row E user cert dat = \<lparr> cr_device_hash = hash_column (pk_hash E (cert_pk (last_device cert))),
     cr_username = username_as_str user, cr_cert_chain = dat \<rparr>"

definition auth_token_row :: "ext \<Rightarrow> username \<Rightarrow> certificate_chain \<Rightarrow> bytes \<Rightarrow> token_row" where
  "auth_token_row E user cert dat = \<lparr> tk_username = username_as_str user,
     tk_device_hash = hash_column (pk_hash E (cert_pk (last_device cert))), tk_auth_token = dat \<rparr>"

lemma device_auth_Inr:
  assumes "device_auth E own dir now_s now_ns new_token db user cert = Inr (t, db')"
  obtains dat db1 where "device_auth_checks E own dir now_s user cert = Inr ()"
    and "bcs_enc E (ser_chain cert) = Some dat"
    and "db_certs db' = t_replace cr_device_hash (auth_cert_row E user cert dat) (db_certs db)"
    and "db_entries db' = db_entries db"
    and "db1 = db \<lparr> db_certs := db_certs db', db_tokens := db_tokens db' \<rparr>"
    and "(\<exists>row. t_get token_key (username_as_str user, hash_column (pk_hash E (cert_pk (last_device cert)))) (db_tokens db)
            = Some row \<and> bcs_from E TBytes de_auth_token (tk_auth_token row) = Some t \<and>
          db_tokens db' = db_tokens db \<and> update_dm_mailbox E now_ns db1 user None = Inr db') \<or>
        (t_get token_key (username_as_str user, hash_column (pk_hash E (cert_pk (last_device cert)))) (db_tokens db) = None \<and>
          t = new_token \<and> (\<exists>tdat. bcs_enc E (ser_auth_token new_token) = Some tdat \<and>
            db_tokens db' = insert_token (auth_token_row E user cert tdat) (db_tokens db)) \<and>
          update_dm_mailbox E now_ns db1 user (Some new_token) = Inr db')"
proof -
  let ?key = "(username_as_str user, hash_column (pk_hash E (cert_pk (last_device cert))))"
  have checks: "device_auth_checks E own dir now_s user cert = Inr ()"
    using assms by (auto simp: device_auth_def Let_def)
  obtain dat where dat: "bcs_enc E (ser_chain cert) = Some dat"
    using assms by (auto simp: device_auth_def Let_def)
  show ?thesis
  proof (cases "t_get token_key ?key (db_tokens db)")
    case None
    with assms checks dat obtain tdat where "t = new_token" and tdat: "bcs_enc E (ser_auth_token new_token) = Some tdat"
      and up: "update_dm_mailbox E now_ns (db \<lparr> db_certs := t_replace cr_device_hash (auth_cert_row E user cert dat) (db_certs db),
        db_tokens := insert_token (auth_token_row E user cert tdat) (db_tokens db) \<rparr>) user (Some new_token) = Inr db'"
      by (auto simp: device_auth_def Let_def auth_cert_row_def auth_token_row_def)
    with update_dm_mailbox_other [OF up] None checks dat show ?thesis
      by (intro that [OF checks dat]) simp_all
  next
    case (Some row)
    with assms checks dat have tok: "bcs_from E TBytes de_auth_token (tk_auth_token row) = Some t"
      and up: "update_dm_mailbox E now_ns
        (db \<lparr> db_certs := t_replace cr_device_hash (auth_cert_row E user cert dat) (db_certs db) \<rparr>) user None = Inr db'"
      by (auto simp: device_auth_def Let_def auth_cert_row_def)
    with update_dm_mailbox_other [OF up] Some checks dat show ?thesis
      by (intro that [OF checks dat]) simp_all
  qed
qed

text \<open>Once a device has its token, every later authentication of the same device, with whatever
  chain and random token, gives the same token.\<close>

lemma token_read_back:
  assumes "bcs_law E" and "bcs_enc E (ser_auth_token t) = Some dat"
  shows "bcs_from E TBytes de_auth_token dat = Some t"
  by (simp add: bcs_from_enc [OF assms])

lemma device_auth_token_row:
  assumes "bcs_law E" and "device_auth E own dir now_s now_ns tok db user cert = Inr (t, db')"
  shows "\<exists>row. t_get token_key (username_as_str user, hash_column (pk_hash E (cert_pk (last_device cert)))) (db_tokens db')
    = Some row \<and> bcs_from E TBytes de_auth_token (tk_auth_token row) = Some t"
  using assms(2)
proof (rule device_auth_Inr)
  fix dat db1
  let ?key = "(username_as_str user, hash_column (pk_hash E (cert_pk (last_device cert))))"
  assume "(\<exists>row. t_get token_key ?key (db_tokens db) = Some row \<and>
          bcs_from E TBytes de_auth_token (tk_auth_token row) = Some t \<and>
          db_tokens db' = db_tokens db \<and> update_dm_mailbox E now_ns db1 user None = Inr db') \<or>
        (t_get token_key ?key (db_tokens db) = None \<and> t = tok \<and>
          (\<exists>tdat. bcs_enc E (ser_auth_token tok) = Some tdat \<and>
            db_tokens db' = insert_token (auth_token_row E user cert tdat) (db_tokens db)) \<and>
          update_dm_mailbox E now_ns db1 user (Some tok) = Inr db')"
  then show ?thesis
  proof (elim disjE conjE exE)
    fix tdat
    assume "bcs_enc E (ser_auth_token tok) = Some tdat" "t = tok"
      "db_tokens db' = insert_token (auth_token_row E user cert tdat) (db_tokens db)"
    then show ?thesis
      using token_read_back [OF assms(1)]
      by (simp add: insert_token_def t_get_replace auth_token_row_def token_key_def)
  qed auto
qed

lemma device_auth_reuses:
  assumes "t_get token_key (username_as_str user, hash_column (pk_hash E (cert_pk (last_device cert)))) (db_tokens db) = Some row"
    and "bcs_from E TBytes de_auth_token (tk_auth_token row) = Some t"
    and "device_auth E own dir now_s now_ns tok db user cert = Inr (t', db')"
  shows "t' = t \<and> db_tokens db' = db_tokens db"
  using assms(3) by (rule device_auth_Inr) (use assms(1,2) in auto)

lemma device_auth_accepts:
  assumes "t_get token_key (username_as_str user, hash_column (pk_hash E (cert_pk (last_device cert)))) (db_tokens db) = Some row"
    and "bcs_from E TBytes de_auth_token (tk_auth_token row) = Some t"
    and "device_auth_checks E own dir now_s user cert = Inr ()" and "bcs_enc E (ser_chain cert) = Some dat"
  shows "\<exists>db'. device_auth E own dir now_s now_ns tok db user cert = Inr (t, db')"
  using assms update_dm_mailbox_ok by (simp add: device_auth_def Let_def)

text \<open>Listing a user's devices.\<close>

lemma decode_chains_map_of:
  assumes "decode_chains E rows out = Inr m" and "t_unique cr_device_hash rows"
    and "r \<in> set rows" and "cr_device_hash r = hash_column h"
    and "bcs_from E ty_chain (de_chain E) (cr_cert_chain r) = Some chain"
  shows "map_of m h = Some chain"
  using assms
proof (induction rows arbitrary: out)
  case Nil
  then show ?case by simp
next
  case (Cons q rows)
  from Cons.prems(1) obtain h' chain' where q: "bytes_to_hash (cr_device_hash q) = Inr h'"
    "bcs_from E ty_chain (de_chain E) (cr_cert_chain q) = Some chain'"
    and rest: "decode_chains E rows (bt_insert h' chain' out) = Inr m"
    by auto
  have keep: "map_of m h = map_of out' h" if "decode_chains E rs out' = Inr m"
    "hash_column h \<notin> cr_device_hash ` set rs" for rs out'
    using that
  proof (induction rs arbitrary: out')
    case (Cons x rs)
    then obtain hx cx where x: "bytes_to_hash (cr_device_hash x) = Inr hx"
      and rest: "decode_chains E rs (bt_insert hx cx out') = Inr m"
      by auto
    from x have "cr_device_hash x = hash_column hx"
      by (auto simp: bytes_to_hash_def array_try_from_Some hash_column_def)
    with Cons.prems(2) have "h \<noteq> hx" by auto
    with Cons.IH [OF rest] Cons.prems(2) show ?case by simp
  qed simp
  show ?case
  proof (cases "r = q")
    case True
    with q Cons.prems(4,5) have "h' = h" "chain' = chain" by auto
    moreover have "hash_column h \<notin> cr_device_hash ` set rows"
      using Cons.prems(2,4) True by (auto simp: t_unique_def)
    ultimately show ?thesis using keep [OF rest] by simp
  next
    case False
    with Cons.IH [OF rest] Cons.prems show ?thesis by (simp add: t_unique_def)
  qed
qed

lemma decode_chains_keys:
  "decode_chains E rows out = Inr m \<Longrightarrow> map_of m h = Some chain \<Longrightarrow>
     map_of out h = Some chain \<or> (\<exists>r \<in> set rows. cr_device_hash r = hash_column h \<and>
       bcs_from E ty_chain (de_chain E) (cr_cert_chain r) = Some chain)"
proof (induction rows arbitrary: out)
  case Nil
  then show ?case by simp
next
  case (Cons q rows)
  then obtain h' chain' where q: "bytes_to_hash (cr_device_hash q) = Inr h'"
    "bcs_from E ty_chain (de_chain E) (cr_cert_chain q) = Some chain'"
    and rest: "decode_chains E rows (bt_insert h' chain' out) = Inr m"
    by auto
  from q(1) have h': "cr_device_hash q = hash_column h'"
    by (auto simp: bytes_to_hash_def array_try_from_Some hash_column_def)
  from Cons.IH [OF rest Cons.prems(2)] q h' show ?case
    by (auto split: if_splits)
qed

lemma device_list_entry:
  assumes "device_list E db user = Inr (Some m)" and "map_of m h = Some chain"
  shows "\<exists>r \<in> set (db_certs db). cr_username r = username_as_str user \<and> cr_device_hash r = hash_column h \<and>
    bcs_from E ty_chain (de_chain E) (cr_cert_chain r) = Some chain"
proof -
  from assms(1) have "decode_chains E (filter (\<lambda>r. cr_username r = username_as_str user) (db_certs db)) [] = Inr m"
    by (auto simp: device_list_def Let_def split: if_splits)
  from decode_chains_keys [OF this assms(2)] show ?thesis by auto
qed

text \<open>What an accepted medium-term key shows, and what the listing gives back.\<close>

definition medium_ok :: "ext \<Rightarrow> medium_row \<Rightarrow> bool" where
  "medium_ok E r \<longleftrightarrow> (\<exists>pk k. mr_device_hash r = hash_column (pk_hash E pk) \<and> smp_verify E k pk = Inr () \<and>
     mr_medium_pk r = be_bytes (dh_public_to_bytes (smp_medium_pk k)) \<and>
     i64_try_from (smp_created k) = Some (mr_created r) \<and>
     mr_signature r = be_bytes (signature_to_bytes (smp_signature k)))"

lemma bytes_to_hash_Inr: "bytes_to_hash b = Inr h \<longleftrightarrow> b = hash_column h"
  by (cases h) (auto simp: bytes_to_hash_def array_try_from_Some hash_column_def)

lemma medium_okI:
  assumes "bytes_to_hash h = Inr (pk_hash E pk)" and "smp_verify E k pk = Inr ()"
    and "i64_try_from (smp_created k) = Some c"
  shows "medium_ok E \<lparr> mr_device_hash = h, mr_medium_pk = be_bytes (dh_public_to_bytes (smp_medium_pk k)),
    mr_created = c, mr_signature = be_bytes (signature_to_bytes (smp_signature k)) \<rparr>"
  using assms unfolding medium_ok_def bytes_to_hash_Inr by (intro exI [of _ pk] exI [of _ k]) simp

lemma device_add_medium_pk_Inr:
  assumes "device_add_medium_pk E db auth k = Inr db'"
  shows "\<exists>r. db' = db \<lparr> db_mediums := t_replace mr_device_hash r (db_mediums db) \<rparr> \<and> medium_ok E r"
  using assms unfolding device_add_medium_pk_def Let_def
  by (clarsimp split: if_splits) (blast intro: medium_okI)

lemma medium_ok_decodes:
  assumes "medium_ok E r"
  shows "\<exists>pk k. bytes_to_hash (mr_device_hash r) = Inr (pk_hash E pk) \<and> smp_verify E k pk = Inr () \<and>
    bytes_to_pk (mr_medium_pk r) = Inr (smp_medium_pk k) \<and> created_to_timestamp (mr_created r) = Inr (smp_created k) \<and>
    bytes_to_signature (mr_signature r) = Inr (smp_signature k)"
proof -
  from assms obtain pk k where h: "mr_device_hash r = hash_column (pk_hash E pk)" and v: "smp_verify E k pk = Inr ()"
    and m: "mr_medium_pk r = be_bytes (dh_public_to_bytes (smp_medium_pk k))"
    and c: "i64_try_from (smp_created k) = Some (mr_created r)"
    and s: "mr_signature r = be_bytes (signature_to_bytes (smp_signature k))"
    by (auto simp: medium_ok_def)
  show ?thesis
    by (rule exI [of _ pk], rule exI [of _ k]) (simp add: h v m s created_roundtrip [OF c])
qed

lemma decode_mediums_ok:
  assumes "\<forall>r \<in> set rows. medium_ok E r"
    and "\<forall>(h, k) \<in> set out. \<exists>pk. pk_hash E pk = h \<and> smp_verify E k pk = Inr ()"
  shows "\<exists>m. decode_mediums rows out = Inr m \<and> (\<forall>(h, k) \<in> set m. \<exists>pk. pk_hash E pk = h \<and> smp_verify E k pk = Inr ())"
  using assms
proof (induction rows arbitrary: out)
  case Nil
  then show ?case by simp
next
  case (Cons r rows)
  from medium_ok_decodes [of E r] Cons.prems(1) obtain pk k where
    r: "bytes_to_hash (mr_device_hash r) = Inr (pk_hash E pk)" "bytes_to_pk (mr_medium_pk r) = Inr (smp_medium_pk k)"
      "created_to_timestamp (mr_created r) = Inr (smp_created k)"
      "bytes_to_signature (mr_signature r) = Inr (smp_signature k)" and v: "smp_verify E k pk = Inr ()"
    by auto
  have k: "\<lparr> smp_medium_pk = smp_medium_pk k, smp_created = smp_created k, smp_signature = smp_signature k \<rparr> = k"
    by simp
  have "(h, j) \<in> set (bt_insert (pk_hash E pk) k out) \<Longrightarrow> (h, j) = (pk_hash E pk, k) \<or> (h, j) \<in> set out" for h j
    by (induction "pk_hash E pk" k out rule: bt_insert.induct) (auto split: if_splits)
  with v Cons.prems(2)
  have out: "\<forall>(h, j) \<in> set (bt_insert (pk_hash E pk) k out). \<exists>pk. pk_hash E pk = h \<and> smp_verify E j pk = Inr ()"
    by fastforce
  have "\<forall>r \<in> set rows. medium_ok E r" using Cons.prems(1) by simp
  from Cons.IH [OF this out] show ?case by (simp add: r k)
qed

lemma device_medium_pks_ok:
  assumes "\<forall>r \<in> set (db_mediums db). medium_ok E r"
  shows "\<exists>m. device_medium_pks db user = Inr m \<and>
    (\<forall>(h, k) \<in> set m. \<exists>pk. pk_hash E pk = h \<and> smp_verify E k pk = Inr ())"
  unfolding device_medium_pks_def Let_def
  by (rule decode_mediums_ok) (use assms in auto)

text \<open>What an accepted profile shows.\<close>

lemma profile_verified_True:
  "profile_verified E p rows = Inr True \<Longrightarrow>
     \<exists>r \<in> set rows. \<exists>chain. bcs_from E ty_chain (de_chain E) (cr_cert_chain r) = Some chain \<and>
       up_verify E p (cert_pk (last_device chain)) = Inr ()"
  by (induction rows) (auto simp: is_ok_iff split: if_splits)

lemma profile_set_Inr:
  assumes "profile_set E db user p = Inr db'"
  obtains dat created where "i64_try_from (up_created p) = Some created"
    and "bcs_enc E (ser_user_profile p) = Some dat"
    and "db' = db \<lparr> db_profiles := t_replace pr_username
        \<lparr> pr_username = username_as_str user, pr_profile = dat, pr_created = created \<rparr> (db_profiles db) \<rparr>"
    and "\<exists>r \<in> set (db_certs db). cr_username r = username_as_str user \<and> (\<exists>chain.
        bcs_from E ty_chain (de_chain E) (cr_cert_chain r) = Some chain \<and>
        up_verify E p (cert_pk (last_device chain)) = Inr ())"
    and "\<And>q. t_get pr_username (username_as_str user) (db_profiles db) = Some q \<Longrightarrow> sint (pr_created q) < sint created"
proof -
  let ?rows = "filter (\<lambda>r. cr_username r = username_as_str user) (db_certs db)"
  from assms obtain dat created where v: "profile_verified E p ?rows = Inr True"
    and c: "i64_try_from (up_created p) = Some created" and d: "bcs_enc E (ser_user_profile p) = Some dat"
    and old: "\<not> (case t_get pr_username (username_as_str user) (db_profiles db) of
                   Some previous \<Rightarrow> sint created \<le> sint (pr_created previous) | None \<Rightarrow> False)"
    and db': "db' = db \<lparr> db_profiles := t_replace pr_username
        \<lparr> pr_username = username_as_str user, pr_profile = dat, pr_created = created \<rparr> (db_profiles db) \<rparr>"
    by (auto simp: profile_set_def Let_def simp del: sint_0 split: if_splits)
  have "\<exists>r \<in> set (db_certs db). cr_username r = username_as_str user \<and> (\<exists>chain.
        bcs_from E ty_chain (de_chain E) (cr_cert_chain r) = Some chain \<and>
        up_verify E p (cert_pk (last_device chain)) = Inr ())"
    using profile_verified_True [OF v] by auto
  moreover have "\<And>q. t_get pr_username (username_as_str user) (db_profiles db) = Some q \<Longrightarrow> sint (pr_created q) < sint created"
    using old by auto
  ultimately show ?thesis using that c d db' by blast
qed

section \<open>Properties\<close>

text \<open>Device authentication is idempotent: after a device got its token, every later accepted
  authentication of that device, with any valid chain for its key, gives the same token and creates
  none.\<close>

theorem device_auth_idempotent:
  assumes "bcs_law E"
    and "device_auth E own dir now_s now_ns tok db user cert = Inr (t, db1)"
    and "cert_pk (last_device cert') = cert_pk (last_device cert)"
    and "device_auth E own dir' now_s' now_ns' tok' db1 user cert' = Inr (t', db2)"
  shows "t' = t \<and> db_tokens db2 = db_tokens db1"
proof -
  obtain row where "t_get token_key (username_as_str user, hash_column (pk_hash E (cert_pk (last_device cert')))) (db_tokens db1)
    = Some row" and "bcs_from E TBytes de_auth_token (tk_auth_token row) = Some t"
    using device_auth_token_row [OF assms(1,2)] assms(3) by auto
  with assms(4) show ?thesis by (rule device_auth_reuses [rotated 2])
qed

definition demo_dir_lookup :: "username \<Rightarrow> anyhow + user_descriptor option" where
  "demo_dir_lookup u = Inr (Some \<lparr> ud_server_name = ServerName ''~serv_01'', ud_root_cert_hash = demo_root \<rparr>)"

lemma demo_auth_checks:
  "device_auth_checks demo_ext (ServerName ''~serv_01'') demo_dir_lookup 100 u demo_chain = Inr ()"
  by (simp add: device_auth_checks_Inr demo_dir_lookup_def demo_chain_ok)

lemma demo_encodes:
  "\<exists>d. bcs_enc demo_ext (ser_chain demo_chain) = Some d" "\<exists>d. bcs_enc demo_ext (ser_auth_token (AuthToken 77)) = Some d"
proof -
  have "bcs_enc demo_ext (ser_chain demo_chain) \<noteq> None" "bcs_enc demo_ext (ser_auth_token (AuthToken 77)) \<noteq> None"
    by code_simp+
  then show "\<exists>d. bcs_enc demo_ext (ser_chain demo_chain) = Some d" "\<exists>d. bcs_enc demo_ext (ser_auth_token (AuthToken 77)) = Some d"
    by blast+
qed

lemma demo_device_auth:
  "\<exists>db'. device_auth demo_ext (ServerName ''~serv_01'') demo_dir_lookup 100 1000 (AuthToken 77) empty_db
     (UserName ''@alice'') demo_chain = Inr (AuthToken 77, db')"
proof -
  obtain d e where "bcs_enc demo_ext (ser_chain demo_chain) = Some d" "bcs_enc demo_ext (ser_auth_token (AuthToken 77)) = Some e"
    using demo_encodes by blast
  then show ?thesis
    using update_dm_mailbox_ok demo_auth_checks by (simp add: device_auth_def Let_def empty_db_def t_get_simps)
qed

theorem device_auth_idempotent_witness:
  "\<exists>db1 db2. device_auth demo_ext (ServerName ''~serv_01'') demo_dir_lookup 100 1000 (AuthToken 77) empty_db
       (UserName ''@alice'') demo_chain = Inr (AuthToken 77, db1) \<and>
     device_auth demo_ext (ServerName ''~serv_01'') demo_dir_lookup 100 2000 (AuthToken 78) db1
       (UserName ''@alice'') demo_chain = Inr (AuthToken 77, db2)"
proof -
  obtain db1 where first: "device_auth demo_ext (ServerName ''~serv_01'') demo_dir_lookup 100 1000 (AuthToken 77) empty_db
       (UserName ''@alice'') demo_chain = Inr (AuthToken 77, db1)"
    using demo_device_auth by blast
  from device_auth_token_row [OF demo_laws(1) first] demo_encodes(1) demo_auth_checks
  obtain t db2 where second: "device_auth demo_ext (ServerName ''~serv_01'') demo_dir_lookup 100 2000 (AuthToken 78) db1
       (UserName ''@alice'') demo_chain = Inr (t, db2)"
    using device_auth_accepts [where ?E = demo_ext and own = "ServerName ''~serv_01''" and dir = demo_dir_lookup
        and now_s = 100 and now_ns = 2000 and tok = "AuthToken 78"] by metis
  have "t = AuthToken 77"
    using device_auth_idempotent [OF demo_laws(1) first refl second] by blast
  with first second show ?thesis by blast
qed

text \<open>the chain that \<open>v1_device_certs\<close> publishes is all that \<open>v1_device_auth\<close> asks
  for: while it is valid, presenting it yields the token of the device it belongs to, so whoever lists a user's
  devices can act as each of them.\<close>

theorem listed_chain_yields_token:
  assumes "bcs_law E" and "db_unique db" and "chain_wf E cert"
    and "device_auth E own dir now_s now_ns tok db user cert = Inr (t, db1)"
    and "device_list E db1 user = Inr (Some listed)"
  shows "\<exists>chain. map_of listed (pk_hash E (cert_pk (last_device cert))) = Some chain \<and>
    (\<exists>db2. device_auth E own dir now_s now_ns' tok' db1 user chain = Inr (t, db2))"
proof -
  let ?h = "pk_hash E (cert_pk (last_device cert))"
  obtain dat where checks: "device_auth_checks E own dir now_s user cert = Inr ()"
    and dat: "bcs_enc E (ser_chain cert) = Some dat"
    and certs: "db_certs db1 = t_replace cr_device_hash (auth_cert_row E user cert dat) (db_certs db)"
    using assms(4) by (rule device_auth_Inr)
  have chain: "bcs_from E ty_chain (de_chain E) dat = Some cert"
    by (simp add: bcs_from_enc [OF assms(1) dat] assms(3))
  let ?rows = "filter (\<lambda>r. cr_username r = username_as_str user) (db_certs db1)"
  have "t_unique cr_device_hash (db_certs db1)"
    using assms(2) by (simp add: certs db_unique_def)
  then have "t_unique cr_device_hash ?rows"
    by (simp add: t_unique_def distinct_map_filter)
  moreover have "auth_cert_row E user cert dat \<in> set ?rows"
    by (simp add: certs set_t_replace auth_cert_row_def)
  moreover have "decode_chains E ?rows [] = Inr listed"
    using assms(5) by (auto simp: device_list_def Let_def split: if_splits)
  ultimately have "map_of listed ?h = Some cert"
    using decode_chains_map_of [of E ?rows "[]" listed "auth_cert_row E user cert dat" ?h cert] chain
    by (simp add: auth_cert_row_def)
  moreover obtain row where "t_get token_key (username_as_str user, hash_column ?h) (db_tokens db1) = Some row"
    "bcs_from E TBytes de_auth_token (tk_auth_token row) = Some t"
    using device_auth_token_row [OF assms(1,4)] by blast
  then have "\<exists>db2. device_auth E own dir now_s now_ns' tok' db1 user cert = Inr (t, db2)"
    using checks dat by (rule device_auth_accepts)
  ultimately show ?thesis by blast
qed

theorem listed_chain_yields_token_witness:
  "\<exists>db1 listed chain db2. device_auth demo_ext (ServerName ''~serv_01'') demo_dir_lookup 100 1000 (AuthToken 77) empty_db
       (UserName ''@alice'') demo_chain = Inr (AuthToken 77, db1) \<and>
     device_list demo_ext db1 (UserName ''@alice'') = Inr (Some listed) \<and>
     map_of listed (pk_hash demo_ext (cert_pk (last_device demo_chain))) = Some chain \<and>
     device_auth demo_ext (ServerName ''~serv_01'') demo_dir_lookup 100 2000 (AuthToken 78) db1 (UserName ''@alice'') chain
       = Inr (AuthToken 77, db2)"
proof -
  obtain db1 where first: "device_auth demo_ext (ServerName ''~serv_01'') demo_dir_lookup 100 1000 (AuthToken 77) empty_db
       (UserName ''@alice'') demo_chain = Inr (AuthToken 77, db1)"
    using demo_device_auth by blast
  have wf: "chain_wf demo_ext demo_chain" by code_simp
  obtain dat where "bcs_enc demo_ext (ser_chain demo_chain) = Some dat"
    and certs: "db_certs db1 = t_replace cr_device_hash (auth_cert_row demo_ext (UserName ''@alice'') demo_chain dat) (db_certs empty_db)"
    using first by (rule device_auth_Inr)
  then have "bcs_from demo_ext ty_chain (de_chain demo_ext) dat = Some demo_chain"
    using wf by (simp add: bcs_from_enc [OF demo_laws(1)])
  then obtain listed where listed: "device_list demo_ext db1 (UserName ''@alice'') = Inr (Some listed)"
    by (simp add: device_list_def Let_def certs t_replace_def empty_db_def auth_cert_row_def)
  from listed_chain_yields_token [OF demo_laws(1) db_unique_empty wf first listed, of 2000 "AuthToken 78"] first listed
  show ?thesis by blast
qed

text \<open>a stored profile is signed by a device listed for its user and is newer than the profile it
  replaces; the profile read back is the one set.\<close>

theorem profile_set_correct:
  assumes "bcs_law E" and "profile_set E db user p = Inr db'"
  shows "profile_get E db' user = Inr (Some p) \<and>
    (\<exists>r \<in> set (db_certs db). cr_username r = username_as_str user \<and> (\<exists>chain.
       bcs_from E ty_chain (de_chain E) (cr_cert_chain r) = Some chain \<and>
       up_verify E p (cert_pk (last_device chain)) = Inr ())) \<and>
    (\<forall>q. t_get pr_username (username_as_str user) (db_profiles db) = Some q \<longrightarrow> sint (pr_created q) < sint (up_created p))"
  using assms(2)
proof (rule profile_set_Inr)
  fix dat created
  assume c: "i64_try_from (up_created p) = Some created" and d: "bcs_enc E (ser_user_profile p) = Some dat"
    and db': "db' = db \<lparr> db_profiles := t_replace pr_username
        \<lparr> pr_username = username_as_str user, pr_profile = dat, pr_created = created \<rparr> (db_profiles db) \<rparr>"
    and signed: "\<exists>r \<in> set (db_certs db). cr_username r = username_as_str user \<and> (\<exists>chain.
       bcs_from E ty_chain (de_chain E) (cr_cert_chain r) = Some chain \<and>
       up_verify E p (cert_pk (last_device chain)) = Inr ())"
    and newer: "\<And>q. t_get pr_username (username_as_str user) (db_profiles db) = Some q \<Longrightarrow> sint (pr_created q) < sint created"
  have "profile_get E db' user = Inr (Some p)"
    by (simp add: profile_get_def db' t_get_replace bcs_from_enc [OF assms(1) d])
  moreover have "created = up_created p" using c by (simp add: i64_try_from_Some)
  ultimately show ?thesis using signed newer by blast
qed

definition demo_profile :: user_profile where
  "demo_profile = up_sign demo_ext \<lparr> up_display_name = Some ''Al'', up_avatar = None, up_created = 9,
     up_signature = zero_signature \<rparr> (SigningSecret 6)"

theorem profile_set_correct_witness:
  "\<exists>dat db'. profile_set demo_ext (empty_db \<lparr> db_certs := [auth_cert_row demo_ext (UserName ''@alice'') demo_chain dat] \<rparr>)
      (UserName ''@alice'') demo_profile = Inr db' \<and>
     profile_get demo_ext db' (UserName ''@alice'') = Inr (Some demo_profile)"
proof -
  obtain dat where dat: "bcs_enc demo_ext (ser_chain demo_chain) = Some dat"
    using demo_encodes(1) by blast
  have "chain_wf demo_ext demo_chain" by code_simp
  then have chain: "bcs_from demo_ext ty_chain (de_chain demo_ext) dat = Some demo_chain"
    by (simp add: bcs_from_enc [OF demo_laws(1) dat])
  have "cert_pk (last_device demo_chain) = signing_public_key demo_ext (SigningSecret 6)"
    by (simp add: demo_chain_def last_device_def)
  then have signed: "up_verify demo_ext demo_profile (cert_pk (last_device demo_chain)) = Inr ()"
    unfolding up_verify_def demo_profile_def up_sign_def
    by (simp only: up_signable.verify_sign [OF demo_laws(5)])
  have "bcs_enc demo_ext (ser_user_profile demo_profile) \<noteq> None" by code_simp
  then obtain pdat where pdat: "bcs_enc demo_ext (ser_user_profile demo_profile) = Some pdat" by blast
  have "up_created demo_profile = 9"
    by (simp add: demo_profile_def up_sign_def sign_with_def set_up_signature_def)
  then have "\<exists>db'. profile_set demo_ext (empty_db \<lparr> db_certs := [auth_cert_row demo_ext (UserName ''@alice'') demo_chain dat] \<rparr>)
      (UserName ''@alice'') demo_profile = Inr db'"
    using chain signed pdat
    by (simp add: profile_set_def auth_cert_row_def empty_db_def t_get_simps i64_try_from_def)
  then obtain db' where "profile_set demo_ext (empty_db \<lparr> db_certs := [auth_cert_row demo_ext (UserName ''@alice'') demo_chain dat] \<rparr>)
      (UserName ''@alice'') demo_profile = Inr db'" by blast
  with profile_set_correct [OF demo_laws(1) this] show ?thesis by blast
qed

end
