(* ===== verification/FragStore.thy ===== *)
theory FragStore
  imports Device
begin

text \<open>
  The fragment store of the chat server (\<open>nullspace-server/src/fragment.rs\<close>): a fragment is a
  file named by its hash and a row with its expiry; the janitor removes expired ones in batches. An
  upload writes the file and then, in a transaction of its own, the row, so the model has the two as
  steps. The file system is a map from paths to contents; a removal that fails is only logged, which
  an argument decides. The properties: a download gives content of the asked hash, an upload is read
  back and a second upload never shortens its life, the janitor ends and leaves nothing expired; and
  the two steps of an upload can enclose a janitor pass that deletes the file just written.
\<close>

section \<open>Files\<close>

type_synonym file_path = "string list"

record frag_store =
  fs_files :: "file_path \<Rightarrow> bytes option"
  fs_rows :: "frag_row list"

definition path_for_hash :: "ext \<Rightarrow> file_path \<Rightarrow> hash \<Rightarrow> file_path" where
  "path_for_hash E root h =
     (let hex = hash_display E h;
          xx = take 2 hex;
          yy = take 2 (drop 2 hex)
      in root @ [xx, yy, hex @ ''.frag''])"

definition store_bcs_bytes :: "ext \<Rightarrow> file_path \<Rightarrow> hash \<Rightarrow> bytes \<Rightarrow> frag_store \<Rightarrow> frag_store" where
  "store_bcs_bytes E root h bs s = s \<lparr> fs_files := (fs_files s)(path_for_hash E root h \<mapsto> bs) \<rparr>"

definition load_frag :: "ext \<Rightarrow> file_path \<Rightarrow> frag_store \<Rightarrow> hash \<Rightarrow> server_rpc_error + fragment option" where
  "load_frag E root s h =
     (case fs_files s (path_for_hash E root h) of
        None \<Rightarrow> Inr None
      | Some bs \<Rightarrow> and_then (ok_or RetryLater (bcs_from E ty_fragment de_fragment bs)) (\<lambda>f. Inr (Some f)))"

definition download_frag :: "ext \<Rightarrow> file_path \<Rightarrow> frag_store \<Rightarrow> hash \<Rightarrow> server_rpc_error + fragment option" where
  "download_frag = load_frag"

section \<open>Uploads\<close>

definition frag_expires_at :: "nano_timestamp \<Rightarrow> u32 \<Rightarrow> i64 option" where
  "frag_expires_at now ttl =
     (if ttl = 0 then None
      else let ttl_ns = sat_mul64 (ucast ttl) 1000000000 in Some (sat_add64 now ttl_ns))"

text \<open>The \<open>CASE\<close> of the upsert: a row that never expires stays so, else the later expiry wins.\<close>

definition merge_expiry :: "i64 option \<Rightarrow> i64 option \<Rightarrow> i64 option" where
  "merge_expiry old new =
     (case (old, new) of
        (Some a, Some b) \<Rightarrow> if sint a > sint b then Some a else Some b
      | _ \<Rightarrow> None)"

definition upsert_fragment_row ::
  "hash \<Rightarrow> nano_timestamp \<Rightarrow> i64 option \<Rightarrow> i64 \<Rightarrow> frag_store \<Rightarrow> frag_store" where
  "upsert_fragment_row h created_at expires_at len s =
     (let k = hash_column h in
      if k \<in> fr_hash ` set (fs_rows s)
      then s \<lparr> fs_rows := t_update (\<lambda>r. fr_hash r = k)
             (\<lambda>r. r \<lparr> fr_expires_at := merge_expiry (fr_expires_at r) expires_at, fr_size := len \<rparr>) (fs_rows s) \<rparr>
      else s \<lparr> fs_rows := fs_rows s @ [\<lparr> fr_hash = k, fr_created_at = created_at,
             fr_expires_at = expires_at, fr_size = len \<rparr>] \<rparr>)"

definition frag_hash :: "ext \<Rightarrow> fragment \<Rightarrow> hash" where
  "frag_hash E f = bcs_hash E (ser_fragment f)"

text \<open>\<open>upload_frag\<close> up to the file write, and its transaction; \<open>i64::try_from(len)\<close> cannot
  fail for a length that fits in memory, and is kept as the guard it is.\<close>

definition upload_begin ::
  "ext \<Rightarrow> file_path \<Rightarrow> server_db \<Rightarrow> auth_token \<Rightarrow> fragment \<Rightarrow> frag_store \<Rightarrow> server_rpc_error + (i64 \<times> frag_store)" where
  "upload_begin E root db auth frag s =
     and_then (auth_token_exists E db auth) (\<lambda>known.
     if \<not> known then Inl AccessDenied
     else
       (let h = frag_hash E frag in
        and_then (ok_or RetryLater (bcs_enc E (ser_fragment frag))) (\<lambda>bs.
        if int (length bs) > i64_max then Inl RetryLater
        else Inr (of_nat (length bs), store_bcs_bytes E root h bs s))))"

definition upload_commit ::
  "ext \<Rightarrow> nano_timestamp \<Rightarrow> u32 \<Rightarrow> fragment \<Rightarrow> i64 \<Rightarrow> frag_store \<Rightarrow> frag_store" where
  "upload_commit E now ttl frag len s =
     upsert_fragment_row (frag_hash E frag) now (frag_expires_at now ttl) len s"

definition upload_frag ::
  "ext \<Rightarrow> file_path \<Rightarrow> nano_timestamp \<Rightarrow> server_db \<Rightarrow> auth_token \<Rightarrow> fragment \<Rightarrow> u32 \<Rightarrow> frag_store
    \<Rightarrow> server_rpc_error + frag_store" where
  "upload_frag E root now db auth frag ttl s =
     and_then (upload_begin E root db auth frag s) (\<lambda>(len, s').
       Inr (upload_commit E now ttl frag len s'))"

section \<open>The janitor\<close>

definition frag_expired :: "nano_timestamp \<Rightarrow> frag_row \<Rightarrow> bool" where
  "frag_expired now r \<longleftrightarrow> (case fr_expires_at r of None \<Rightarrow> False | Some x \<Rightarrow> sint x \<le> sint now)"

text \<open>One row of a batch: its row, then its file; \<open>rm_ok\<close> says which removals succeed. A hash of the
  wrong length fails the batch, whose transaction rolls the rows back while the files stay removed.\<close>

fun janitor_rows ::
  "ext \<Rightarrow> file_path \<Rightarrow> (file_path \<Rightarrow> bool) \<Rightarrow> frag_row list \<Rightarrow> frag_store \<Rightarrow> (server_rpc_error option \<times> frag_store)" where
  "janitor_rows E root rm_ok [] s = (None, s)"
| "janitor_rows E root rm_ok (r # rs) s =
     (case bytes_to_hash (fr_hash r) of
        Inl e \<Rightarrow> (Some e, s)
      | Inr h \<Rightarrow>
          (let p = path_for_hash E root h in
           janitor_rows E root rm_ok rs
             (s \<lparr> fs_rows := t_delete (\<lambda>x. fr_hash x = hash_column h) (fs_rows s),
                fs_files := (if rm_ok p then (fs_files s)(p := None) else fs_files s) \<rparr>)))"

definition janitor_batch :: "nano_timestamp \<Rightarrow> frag_store \<Rightarrow> frag_row list" where
  "janitor_batch now s = take 500 (filter (frag_expired now) (fs_rows s))"

lemma janitor_rows_files_rows:
  "janitor_rows E root rm_ok rs s = (None, s') \<Longrightarrow>
     fs_rows s' = filter (\<lambda>x. fr_hash x \<notin> fr_hash ` set rs) (fs_rows s)"
proof (induction rs arbitrary: s)
  case Nil
  then show ?case by simp
next
  case (Cons r rs)
  then obtain h where h: "bytes_to_hash (fr_hash r) = Inr h"
    by (auto split: sum.splits)
  with Cons.IH [of "s \<lparr> fs_rows := t_delete (\<lambda>x. fr_hash x = hash_column h) (fs_rows s),
      fs_files := (if rm_ok (path_for_hash E root h) then (fs_files s)(path_for_hash E root h := None) else fs_files s) \<rparr>"]
    Cons.prems
  show ?case
    by (auto simp: bytes_to_hash_Inr t_delete_def Let_def intro!: filter_cong)
qed

lemma janitor_rows_shrink:
  assumes "janitor_batch now s \<noteq> []" and "janitor_rows E root rm_ok (janitor_batch now s) s = (None, s')"
  shows "length (fs_rows s') < length (fs_rows s)"
proof -
  from assms(1) obtain q where q: "q \<in> set (janitor_batch now s)" by (cases "janitor_batch now s") auto
  then have "q \<in> set (fs_rows s)"
    unfolding janitor_batch_def by (auto dest: in_set_takeD)
  with q show ?thesis
    unfolding janitor_rows_files_rows [OF assms(2)] by (intro length_filter_less) auto
qed

function janitor_once ::
  "ext \<Rightarrow> file_path \<Rightarrow> (file_path \<Rightarrow> bool) \<Rightarrow> nano_timestamp \<Rightarrow> frag_store \<Rightarrow> (server_rpc_error option \<times> frag_store)" where
  "janitor_once E root rm_ok now s =
     (let rows = janitor_batch now s in
      if rows = [] then (None, s)
      else
        (case janitor_rows E root rm_ok rows s of
           (Some e, s') \<Rightarrow> (Some e, s' \<lparr> fs_rows := fs_rows s \<rparr>)
         | (None, s') \<Rightarrow> janitor_once E root rm_ok now s'))"
  by pat_completeness auto
termination
  by (relation "measure (\<lambda>(E, root, rm_ok, now, s). length (fs_rows s))") (auto intro: janitor_rows_shrink)

declare janitor_once.simps [simp del]

section \<open>Lemmas\<close>

lemma hash_display_inject: "hex_law E \<Longrightarrow> hash_display E a = hash_display E b \<longleftrightarrow> a = b"
  by (metis hash_from_display sum.inject(2))

lemma path_for_hash_inject: "hex_law E \<Longrightarrow> path_for_hash E root a = path_for_hash E root b \<longleftrightarrow> a = b"
  by (auto simp: path_for_hash_def Let_def hash_display_inject)

lemma frag_read_back:
  "bcs_law E \<Longrightarrow> bcs_enc E (ser_fragment f) = Some bs \<Longrightarrow> bcs_from E ty_fragment de_fragment bs = Some f"
  by (simp add: bcs_from_enc)

text \<open>Every file holds the encoding of a fragment whose hash names it.\<close>

definition files_ok :: "ext \<Rightarrow> file_path \<Rightarrow> frag_store \<Rightarrow> bool" where
  "files_ok E root s \<longleftrightarrow> (\<forall>p bs. fs_files s p = Some bs \<longrightarrow>
     (\<exists>f. p = path_for_hash E root (frag_hash E f) \<and> bcs_enc E (ser_fragment f) = Some bs))"

lemma upload_begin_Inr:
  assumes "upload_begin E root db auth frag s = Inr (len, s')"
  shows "auth_token_exists E db auth = Inr True \<and> (\<exists>bs. bcs_enc E (ser_fragment frag) = Some bs \<and>
    s' = store_bcs_bytes E root (frag_hash E frag) bs s)"
  using assms by (auto simp: upload_begin_def Let_def split: if_splits)

lemma files_ok_begin:
  "files_ok E root s \<Longrightarrow> upload_begin E root db auth frag s = Inr (len, s') \<Longrightarrow> files_ok E root s'"
  using upload_begin_Inr [of E root db auth frag s len s']
  by (auto simp: files_ok_def store_bcs_bytes_def split: if_splits)

lemma upload_commit_files [simp]: "fs_files (upload_commit E now ttl frag len s) = fs_files s"
  by (simp add: upload_commit_def upsert_fragment_row_def Let_def)

lemma janitor_rows_files:
  "janitor_rows E root rm_ok rs s = (e, s') \<Longrightarrow> fs_files s' p = Some bs \<Longrightarrow> fs_files s p = Some bs"
proof (induction rs arbitrary: s)
  case Nil
  then show ?case by simp
next
  case (Cons r rs)
  then show ?case
    by (cases "bytes_to_hash (fr_hash r)") (fastforce simp: Let_def split: if_splits)+
qed

lemma janitor_once_files:
  "janitor_once E root rm_ok now s = (e, s') \<Longrightarrow> fs_files s' p = Some bs \<Longrightarrow> fs_files s p = Some bs"
proof (induction E root rm_ok now s rule: janitor_once.induct)
  case (1 E root rm_ok now s)
  obtain e1 s1 where rows: "janitor_rows E root rm_ok (janitor_batch now s) s = (e1, s1)" by fastforce
  show ?case
  proof (cases "janitor_batch now s = []")
    case True
    with 1 show ?thesis by (simp add: janitor_once.simps [of E root rm_ok now s] Let_def)
  next
    case False
    show ?thesis
    proof (cases e1)
      case None
      with False rows "1.prems" have "janitor_once E root rm_ok now s1 = (e, s')"
        by (simp add: janitor_once.simps [of E root rm_ok now s] Let_def)
      from "1.IH" [OF refl False _ refl this "1.prems"(2)] rows None
        have "fs_files s1 p = Some bs" by simp
      with janitor_rows_files [OF rows] show ?thesis by blast
    next
      case (Some x)
      with False rows "1.prems" have "fs_files s1 p = Some bs"
        by (auto simp: janitor_once.simps [of E root rm_ok now s] Let_def)
      with janitor_rows_files [OF rows] show ?thesis by blast
    qed
  qed
qed

text \<open>When every row's hash has the right length the janitor does not fail.\<close>

definition rows_ok :: "frag_store \<Rightarrow> bool" where
  "rows_ok s \<longleftrightarrow> (\<forall>r \<in> set (fs_rows s). \<exists>h. fr_hash r = hash_column h)"

lemma janitor_rows_ok:
  "\<forall>r \<in> set rs. \<exists>h. fr_hash r = hash_column h \<Longrightarrow> \<exists>s'. janitor_rows E root rm_ok rs s = (None, s')"
  by (induction rs arbitrary: s) (auto simp: Let_def)

definition expired_path :: "ext \<Rightarrow> file_path \<Rightarrow> frag_row list \<Rightarrow> file_path \<Rightarrow> bool" where
  "expired_path E root rs p \<longleftrightarrow> (\<exists>r \<in> set rs. \<exists>h. fr_hash r = hash_column h \<and> p = path_for_hash E root h)"

lemma janitor_rows_files_eq:
  "janitor_rows E root rm_ok rs s = (None, s') \<Longrightarrow>
     fs_files s' p = (if rm_ok p \<and> expired_path E root rs p then None else fs_files s p)"
proof (induction rs arbitrary: s)
  case Nil
  then show ?case by (simp add: expired_path_def)
next
  case (Cons r rs)
  then obtain h where h: "bytes_to_hash (fr_hash r) = Inr h"
    by (auto split: sum.splits)
  have path: "expired_path E root (r # rs) p \<longleftrightarrow> p = path_for_hash E root h \<or> expired_path E root rs p"
    using h by (auto simp: expired_path_def bytes_to_hash_Inr)
  from Cons.IH [of "s \<lparr> fs_rows := t_delete (\<lambda>x. fr_hash x = hash_column h) (fs_rows s),
      fs_files := (if rm_ok (path_for_hash E root h) then (fs_files s)(path_for_hash E root h := None) else fs_files s) \<rparr>"]
    Cons.prems h
  show ?case unfolding path by (auto simp: Let_def)
qed

lemma janitor_once_rows:
  "rows_ok s \<Longrightarrow> t_unique fr_hash (fs_rows s) \<Longrightarrow> \<exists>s'. janitor_once E root rm_ok now s = (None, s') \<and>
     fs_rows s' = filter (\<lambda>r. \<not> frag_expired now r) (fs_rows s) \<and>
     (\<forall>p. fs_files s' p = (if rm_ok p \<and> expired_path E root (filter (frag_expired now) (fs_rows s)) p
        then None else fs_files s p))"
proof (induction E root rm_ok now s rule: janitor_once.induct)
  case (1 E root rm_ok now s)
  let ?rows = "janitor_batch now s"
  show ?case
  proof (cases "?rows = []")
    case True
    then have none: "filter (frag_expired now) (fs_rows s) = []"
      by (simp add: janitor_batch_def)
    then have "filter (\<lambda>r. \<not> frag_expired now r) (fs_rows s) = fs_rows s"
      by (simp add: filter_empty_conv filter_id_conv)
    with True none show ?thesis
      by (simp add: janitor_once.simps [of E root rm_ok now s] Let_def expired_path_def)
  next
    case False
    have sub: "set ?rows \<subseteq> {r \<in> set (fs_rows s). frag_expired now r}"
      unfolding janitor_batch_def by (auto dest: in_set_takeD)
    then obtain s1 where s1: "janitor_rows E root rm_ok ?rows s = (None, s1)"
      using janitor_rows_ok [of ?rows E root rm_ok s] "1.prems"(1) by (auto simp: rows_ok_def)
    have rows1: "fs_rows s1 = filter (\<lambda>x. fr_hash x \<notin> fr_hash ` set ?rows) (fs_rows s)"
      by (rule janitor_rows_files_rows [OF s1])
    have same: "r \<in> set ?rows" if "r \<in> set (fs_rows s)" "q \<in> set ?rows" "fr_hash r = fr_hash q" for r q
    proof -
      have "q \<in> set (fs_rows s)" using that(2) sub by blast
      with that(1,3) "1.prems"(2) have "r = q"
        by (auto simp: t_unique_def distinct_map inj_on_def)
      with that(2) show ?thesis by simp
    qed
    have "rows_ok s1" "t_unique fr_hash (fs_rows s1)"
      using "1.prems" by (auto simp: rows1 rows_ok_def t_unique_def distinct_map_filter)
    with "1.IH" [OF refl False s1 [symmetric] refl] obtain s2 where
      s2: "janitor_once E root rm_ok now s1 = (None, s2)"
        "fs_rows s2 = filter (\<lambda>r. \<not> frag_expired now r) (fs_rows s1)"
      and f2: "\<And>p. fs_files s2 p = (if rm_ok p \<and> expired_path E root (filter (frag_expired now) (fs_rows s1)) p
        then None else fs_files s1 p)"
      by blast
    have "filter (\<lambda>r. \<not> frag_expired now r) (fs_rows s1) = filter (\<lambda>r. \<not> frag_expired now r) (fs_rows s)"
      unfolding rows1 filter_filter using sub same by (intro filter_cong) auto
    moreover have "set (filter (frag_expired now) (fs_rows s)) = set ?rows \<union> set (filter (frag_expired now) (fs_rows s1))"
      unfolding rows1 using sub same by auto
    then have "expired_path E root (filter (frag_expired now) (fs_rows s)) p \<longleftrightarrow>
        expired_path E root ?rows p \<or> expired_path E root (filter (frag_expired now) (fs_rows s1)) p" for p
      by (simp add: expired_path_def bex_Un)
    then have "fs_files s2 p = (if rm_ok p \<and> expired_path E root (filter (frag_expired now) (fs_rows s)) p
        then None else fs_files s p)" for p
      using f2 [of p] janitor_rows_files_eq [OF s1, of p] by auto
    ultimately show ?thesis using s1 s2 False
      by (simp add: janitor_once.simps [of E root rm_ok now s] Let_def)
  qed
qed

section \<open>Interleavings\<close>

text \<open>Any number of uploads, each in its two steps, and janitor passes, in any order.\<close>

inductive frag_step :: "ext \<Rightarrow> file_path \<Rightarrow> frag_store \<Rightarrow> frag_store \<Rightarrow> bool" for E :: ext and root :: file_path where
  begins: "upload_begin E root db auth frag s = Inr (len, s') \<Longrightarrow> frag_step E root s s'"
| commits: "frag_step E root s (upload_commit E now ttl frag len s)"
| cleans: "janitor_once E root rm_ok now s = (e, s') \<Longrightarrow> frag_step E root s s'"

inductive_cases frag_step_cases: "frag_step E root s s'"

lemma files_ok_step: "frag_step E root s s' \<Longrightarrow> files_ok E root s \<Longrightarrow> files_ok E root s'"
proof (induction rule: frag_step.induct)
  case (begins db auth frag s len s')
  then show ?case by (rule files_ok_begin [rotated])
next
  case (commits s now ttl frag len)
  then show ?case by (simp add: files_ok_def)
next
  case (cleans rm_ok now s e s')
  then show ?case
    using janitor_once_files [OF cleans.hyps] by (simp add: files_ok_def)
qed

lemma files_ok_reachable:
  "(frag_step E root)\<^sup>*\<^sup>* s0 s \<Longrightarrow> files_ok E root s0 \<Longrightarrow> files_ok E root s"
  by (induction rule: rtranclp_induct) (auto intro: files_ok_step)

text \<open>\<open>later a b\<close>: expiry \<open>b\<close> is not before \<open>a\<close>; \<open>None\<close> is never.\<close>

definition later :: "i64 option \<Rightarrow> i64 option \<Rightarrow> bool" where
  "later a b \<longleftrightarrow> (case b of None \<Rightarrow> True | Some y \<Rightarrow> (case a of None \<Rightarrow> False | Some x \<Rightarrow> sint x \<le> sint y))"

lemma later_merge: "later a (merge_expiry a b)" "later b (merge_expiry a b)"
  by (auto simp: later_def merge_expiry_def split: option.splits)

lemma later_refl [simp]: "later a a"
  by (simp add: later_def split: option.splits)

text \<open>The row an upsert leaves: the old one with the merged expiry, or a new one.\<close>

lemma upsert_updates:
  assumes "r \<in> set (fs_rows s)" and "fr_hash r = hash_column h"
  shows "r \<lparr> fr_expires_at := merge_expiry (fr_expires_at r) e, fr_size := len \<rparr>
    \<in> set (fs_rows (upsert_fragment_row h now e len s))"
proof -
  let ?f = "\<lambda>r. if fr_hash r = hash_column h
    then r \<lparr> fr_expires_at := merge_expiry (fr_expires_at r) e, fr_size := len \<rparr> else r"
  have "hash_column h \<in> fr_hash ` set (fs_rows s)" using assms by (metis image_eqI)
  then have rows: "fs_rows (upsert_fragment_row h now e len s) = map ?f (fs_rows s)"
    by (simp add: upsert_fragment_row_def Let_def t_update_def)
  have "?f r \<in> set (map ?f (fs_rows s))" unfolding set_map using assms(1) by (rule imageI)
  then show ?thesis using assms(2) by (simp only: rows if_True simp_thms)
qed

lemma upsert_row:
  "\<exists>r \<in> set (fs_rows (upsert_fragment_row h now e len s)). fr_hash r = hash_column h \<and> later e (fr_expires_at r)"
proof (cases "\<exists>r \<in> set (fs_rows s). fr_hash r = hash_column h")
  case True
  then obtain r where r: "r \<in> set (fs_rows s)" "fr_hash r = hash_column h" by blast
  from upsert_updates [OF r] show ?thesis
    by (rule bexI [rotated]) (simp add: r(2) later_merge)
next
  case False
  then have "hash_column h \<notin> fr_hash ` set (fs_rows s)" by auto
  then show ?thesis by (simp add: upsert_fragment_row_def Let_def)
qed

lemma upsert_keeps:
  assumes "r \<in> set (fs_rows s)"
  shows "\<exists>r' \<in> set (fs_rows (upsert_fragment_row h now e len s)). fr_hash r' = fr_hash r \<and>
    later (fr_expires_at r) (fr_expires_at r')"
proof (cases "fr_hash r = hash_column h")
  case True
  from upsert_updates [OF assms True] show ?thesis
    by (rule bexI [rotated]) (simp add: later_merge)
next
  case False
  with assms have "r \<in> set (fs_rows (upsert_fragment_row h now e len s))"
    by (auto simp: upsert_fragment_row_def Let_def t_update_def image_iff intro!: bexI [of _ r])
  then show ?thesis by (rule bexI [rotated]) simp
qed

section \<open>Properties\<close>


definition demo_frag :: fragment where
  "demo_frag = Leaf \<lparr> leaf_nonce = 3, leaf_data = [1, 2, 3] \<rparr>"

definition empty_store :: frag_store where "empty_store = \<lparr> fs_files = (\<lambda>_. None), fs_rows = [] \<rparr>"

definition demo_token_db :: server_db where
  "demo_token_db = empty_db \<lparr> db_tokens := [\<lparr> tk_username = ''@alice'', tk_device_hash = [1],
     tk_auth_token = bcs_expect demo_ext (ser_auth_token (AuthToken 77)) \<rparr>] \<rparr>"

lemma demo_upload_begin:
  "\<exists>len bs. upload_begin demo_ext [''r''] demo_token_db (AuthToken 77) demo_frag s =
     Inr (len, store_bcs_bytes demo_ext [''r''] (frag_hash demo_ext demo_frag) bs s)"
proof -
  obtain d where "bcs_enc demo_ext (ser_auth_token (AuthToken 77)) = Some d" using demo_encodes(2) by blast
  then have auth: "auth_token_exists demo_ext demo_token_db (AuthToken 77) = Inr True"
    by (simp add: auth_token_exists_def demo_token_db_def t_get_simps)
  have "case bcs_enc demo_ext (ser_fragment demo_frag) of None \<Rightarrow> False | Some bs \<Rightarrow> int (length bs) < 1000"
    by code_simp
  then obtain bs where "bcs_enc demo_ext (ser_fragment demo_frag) = Some bs" "int (length bs) < 1000"
    by (auto split: option.splits)
  with auth show ?thesis by (simp add: upload_begin_def Let_def) blast
qed


text \<open>an accepted upload is read back by its hash, leaves a row that lives at least as long as
  asked, and never shortens the life of any fragment already stored.\<close>

theorem upload_reads_back:
  assumes "bcs_law E" and "upload_frag E root now db auth frag ttl s = Inr s'"
  shows "download_frag E root s' (frag_hash E frag) = Inr (Some frag) \<and>
    (\<exists>r \<in> set (fs_rows s'). fr_hash r = hash_column (frag_hash E frag) \<and>
       later (frag_expires_at now ttl) (fr_expires_at r)) \<and>
    (\<forall>r \<in> set (fs_rows s). \<exists>r' \<in> set (fs_rows s'). fr_hash r' = fr_hash r \<and>
       later (fr_expires_at r) (fr_expires_at r'))"
proof -
  obtain len s1 where up: "upload_begin E root db auth frag s = Inr (len, s1)"
    and s': "s' = upload_commit E now ttl frag len s1"
    using assms(2) by (auto simp: upload_frag_def)
  from upload_begin_Inr [OF up] obtain bs where bs: "bcs_enc E (ser_fragment frag) = Some bs"
    and s1: "s1 = store_bcs_bytes E root (frag_hash E frag) bs s" by blast
  have "download_frag E root s' (frag_hash E frag) = Inr (Some frag)"
    by (simp add: s' s1 download_frag_def load_frag_def store_bcs_bytes_def frag_read_back [OF assms(1) bs])
  moreover have "fs_rows s1 = fs_rows s" by (simp add: s1 store_bcs_bytes_def)
  ultimately show ?thesis
    unfolding s' upload_commit_def using upsert_row upsert_keeps by metis
qed

theorem upload_reads_back_witness:
  "\<exists>s'. upload_frag demo_ext [''r''] 9 demo_token_db (AuthToken 77) demo_frag 60 empty_store = Inr s' \<and>
     download_frag demo_ext [''r''] s' (frag_hash demo_ext demo_frag) = Inr (Some demo_frag)"
proof -
  obtain s' where up: "upload_frag demo_ext [''r''] 9 demo_token_db (AuthToken 77) demo_frag 60 empty_store = Inr s'"
    using demo_upload_begin [of empty_store] by (auto simp: upload_frag_def)
  from up upload_reads_back [OF demo_laws(1) up] show ?thesis by blast
qed

text \<open>the janitor ends without an error, whatever the number of batches: exactly the unexpired rows
  remain, and the files of exactly the expired ones are gone, those whose removal failed apart.\<close>

theorem janitor_removes_expired:
  assumes "rows_ok s" and "t_unique fr_hash (fs_rows s)"
  shows "\<exists>s'. janitor_once E root rm_ok now s = (None, s') \<and>
    fs_rows s' = filter (\<lambda>r. \<not> frag_expired now r) (fs_rows s) \<and>
    (\<forall>p. fs_files s' p = (if rm_ok p \<and> expired_path E root (filter (frag_expired now) (fs_rows s)) p
       then None else fs_files s p))"
  using assms by (rule janitor_once_rows)

definition demo_rows :: frag_store where
  "demo_rows = \<lparr> fs_files = (\<lambda>_. None), fs_rows = [\<lparr> fr_hash = hash_column (frag_hash demo_ext demo_frag),
     fr_created_at = 1, fr_expires_at = Some 5, fr_size = 3 \<rparr>] \<rparr>"

lemma demo_rows_ok: "rows_ok demo_rows" "t_unique fr_hash (fs_rows demo_rows)"
  by (auto simp: demo_rows_def rows_ok_def t_unique_def)

theorem janitor_removes_expired_witness:
  "\<exists>s'. janitor_once demo_ext [''r''] (\<lambda>_. True) 9 demo_rows = (None, s') \<and> fs_rows s' = []"
proof -
  have "filter (\<lambda>r. \<not> frag_expired 9 r) (fs_rows demo_rows) = []"
    by (simp add: demo_rows_def frag_expired_def)
  with janitor_removes_expired [OF demo_rows_ok, of demo_ext "[''r'']" "\<lambda>_. True" 9] show ?thesis by auto
qed

text \<open>an upload is not atomic against the janitor: when an expired row of the same fragment is
  still there and a janitor pass runs between the upload's file write and its row, the upload is answered
  with success and its row never expires (time to live 0), but the file is gone and downloads find
  nothing.\<close>

theorem upload_janitor_race:
  assumes "rows_ok s" and "t_unique fr_hash (fs_rows s)"
    and "\<exists>r \<in> set (fs_rows s). fr_hash r = hash_column (frag_hash E frag) \<and> frag_expired now r"
    and "upload_begin E root db auth frag s = Inr (len, s1)"
  shows "\<exists>s2. janitor_once E root (\<lambda>_. True) now s1 = (None, s2) \<and>
    download_frag E root (upload_commit E now' 0 frag len s2) (frag_hash E frag) = Inr None \<and>
    (\<exists>r \<in> set (fs_rows (upload_commit E now' 0 frag len s2)).
       fr_hash r = hash_column (frag_hash E frag) \<and> fr_expires_at r = None)"
proof -
  have rows: "fs_rows s1 = fs_rows s"
    using upload_begin_Inr [OF assms(4)] by (auto simp: store_bcs_bytes_def)
  then have ok: "rows_ok s1" "t_unique fr_hash (fs_rows s1)"
    using assms(1,2) by (simp_all add: rows_ok_def)
  obtain s2 where s2: "janitor_once E root (\<lambda>_. True) now s1 = (None, s2)"
    and files: "\<And>p. fs_files s2 p = (if expired_path E root (filter (frag_expired now) (fs_rows s1)) p
      then None else fs_files s1 p)"
    using janitor_once_rows [OF ok, of E root "\<lambda>_. True" now] by auto
  have "expired_path E root (filter (frag_expired now) (fs_rows s1)) (path_for_hash E root (frag_hash E frag))"
    using assms(3) by (auto simp: expired_path_def rows)
  then have "download_frag E root (upload_commit E now' 0 frag len s2) (frag_hash E frag) = Inr None"
    by (simp add: download_frag_def load_frag_def files)
  moreover have "\<exists>r \<in> set (fs_rows (upload_commit E now' 0 frag len s2)).
       fr_hash r = hash_column (frag_hash E frag) \<and> later (frag_expires_at now' 0) (fr_expires_at r)"
    unfolding upload_commit_def by (rule upsert_row)
  then have "\<exists>r \<in> set (fs_rows (upload_commit E now' 0 frag len s2)).
       fr_hash r = hash_column (frag_hash E frag) \<and> fr_expires_at r = None"
    by (auto simp: later_def frag_expires_at_def split: option.splits)
  ultimately show ?thesis using s2 by blast
qed

theorem upload_janitor_race_witness:
  "\<exists>len s1 s2. upload_begin demo_ext [''r''] demo_token_db (AuthToken 77) demo_frag demo_rows = Inr (len, s1) \<and>
     janitor_once demo_ext [''r''] (\<lambda>_. True) 9 s1 = (None, s2) \<and>
     download_frag demo_ext [''r''] (upload_commit demo_ext 10 0 demo_frag len s2) (frag_hash demo_ext demo_frag) = Inr None"
proof -
  obtain len s1 where up: "upload_begin demo_ext [''r''] demo_token_db (AuthToken 77) demo_frag demo_rows = Inr (len, s1)"
    using demo_upload_begin by blast
  have "\<exists>r \<in> set (fs_rows demo_rows). fr_hash r = hash_column (frag_hash demo_ext demo_frag) \<and> frag_expired 9 r"
    by (simp add: demo_rows_def frag_expired_def)
  from upload_janitor_race [OF demo_rows_ok this up, of 10] up show ?thesis by blast
qed

end
