(* ===== verification/ServerRun.thy ===== *)
theory ServerRun
  imports FragStore
begin

text \<open>
  The chat server as a whole: the dispatch of its requests (\<open>nullspace-server/src/rpc.rs\<close>),
  the proxy, and the receive loop of \<open>mailbox_multirecv\<close> running concurrently with the other
  requests and with the notification counters of \<open>mailbox/pubsub.rs\<close>. A handler's transaction is
  one step; a receive task reads its counter, queries, and waits for the counter to grow, each
  a step of its own, and a send's notification is a step after its commit. The clock is part of the
  state. The counters are created on demand and never evicted: the cache drops one after an hour
  without access, longer than a long poll lasts.
\<close>

section \<open>Requests\<close>

datatype request =
    DeviceAuth username certificate_chain auth_token
  | AddMediumPk auth_token signed_medium_pk
  | ProfileSet username user_profile
  | MailboxSend auth_token mailbox_id blob u32
  | AclEdit auth_token mailbox_id mailbox_acl
  | RegisterGroup auth_token group_id

record server_env =
  env_server_name :: server_name
  env_dir :: "username \<Rightarrow> anyhow + user_descriptor option"
  env_now_s :: timestamp

text \<open>The database a request leaves; the token of \<open>DeviceAuth\<close> is the random one.\<close>

fun serve :: "ext \<Rightarrow> server_env \<Rightarrow> nano_timestamp \<Rightarrow> server_db \<Rightarrow> request \<Rightarrow> server_rpc_error + server_db" where
  "serve E env now db (DeviceAuth u cert tok) =
     and_then (device_auth E (env_server_name env) (env_dir env) (env_now_s env) now tok db u cert) (\<lambda>(_, db'). Inr db')"
| "serve E env now db (AddMediumPk auth k) = device_add_medium_pk E db auth k"
| "serve E env now db (ProfileSet u p) = profile_set E db u p"
| "serve E env now db (MailboxSend auth m msg ttl) =
     and_then (mailbox_send E now db auth m msg ttl) (\<lambda>(_, db'). Inr db')"
| "serve E env now db (AclEdit auth m arg) = mailbox_acl_edit E db auth m arg"
| "serve E env now db (RegisterGroup auth g) = register_group E now db auth g"

text \<open>A certificate chain that arrives has been deserialised, so its keys are valid.\<close>

fun request_wf :: "ext \<Rightarrow> request \<Rightarrow> bool" where
  "request_wf E (DeviceAuth u cert tok) = chain_wf E cert"
| "request_wf E _ = True"

text \<open>The mailbox a request notifies once it has committed.\<close>

fun notifies :: "request \<Rightarrow> mailbox_id list" where
  "notifies (MailboxSend auth m msg ttl) = [m]"
| "notifies _ = []"

section \<open>The proxy\<close>

definition proxy_auth :: "ext \<Rightarrow> server_db \<Rightarrow> auth_token \<Rightarrow> proxy_error + unit" where
  "proxy_auth E db auth =
     (case auth_token_exists E db auth of
        Inr True \<Rightarrow> Inr ()
      | Inr False \<Rightarrow> Inl NotSupported
      | Inl err \<Rightarrow> Inl (Upstream (rpc_error_display err)))"

definition proxy_transport ::
  "(server_name \<Rightarrow> anyhow + server_descriptor option) \<Rightarrow> (server_name \<Rightarrow> string option) \<Rightarrow> server_name
    \<Rightarrow> proxy_error + (string \<times> (server_name \<Rightarrow> string option))" where
  "proxy_transport get_server_descriptor cache server =
     (case cache server of
        Some endpoint \<Rightarrow> Inr (endpoint, cache)
      | None \<Rightarrow>
          map_err Upstream
            (and_then (get_server_descriptor server) (\<lambda>found.
             and_then (ok_or ''server not in directory'' found) (\<lambda>descriptor.
             and_then (ok_or ''server has no public URLs''
               (case sd_public_urls descriptor of [] \<Rightarrow> None | url # _ \<Rightarrow> Some url)) (\<lambda>endpoint.
               Inr (endpoint, cache(server \<mapsto> endpoint)))))))"

definition v1_proxy_server ::
  "ext \<Rightarrow> bool \<Rightarrow> (server_name \<Rightarrow> anyhow + server_descriptor option) \<Rightarrow> (string \<Rightarrow> 'req \<Rightarrow> anyhow + 'resp)
    \<Rightarrow> server_db \<Rightarrow> (server_name \<Rightarrow> string option) \<Rightarrow> auth_token \<Rightarrow> server_name \<Rightarrow> 'req
    \<Rightarrow> (proxy_error + 'resp) \<times> (server_name \<Rightarrow> string option)" where
  "v1_proxy_server E proxy_enabled get_server_descriptor call_raw db cache auth server req =
     (if \<not> proxy_enabled then (Inl NotSupported, cache)
      else
        (case proxy_auth E db auth of
           Inl e \<Rightarrow> (Inl e, cache)
         | Inr _ \<Rightarrow>
             (case proxy_transport get_server_descriptor cache server of
                Inl e \<Rightarrow> (Inl e, cache)
              | Inr (endpoint, cache') \<Rightarrow> (map_err Upstream (call_raw endpoint req), cache'))))"

definition v1_proxy_directory ::
  "ext \<Rightarrow> ('req \<Rightarrow> anyhow + 'resp) \<Rightarrow> server_db \<Rightarrow> auth_token \<Rightarrow> 'req \<Rightarrow> proxy_error + 'resp" where
  "v1_proxy_directory E call_directory db auth req =
     and_then (proxy_auth E db auth) (\<lambda>_. map_err Upstream (call_directory req))"

text \<open>Nobody without a known token gets a request through.\<close>

lemma proxy_needs_token:
  assumes "auth_token_exists E db auth \<noteq> Inr True"
  shows "\<exists>e. fst (v1_proxy_server E en get call_raw db cache auth server req) = Inl e"
    and "\<exists>e. v1_proxy_directory E call_dir db auth req = Inl e"
  using assms by (auto simp: v1_proxy_server_def v1_proxy_directory_def proxy_auth_def split: sum.splits bool.splits)

section \<open>The invariant of the database\<close>

definition cert_ok :: "ext \<Rightarrow> cert_row \<Rightarrow> bool" where
  "cert_ok E r \<longleftrightarrow> (\<exists>chain. bcs_from E ty_chain (de_chain E) (cr_cert_chain r) = Some chain \<and>
     cr_device_hash r = hash_column (pk_hash E (cert_pk (last_device chain))))"

definition entry_ok :: "entry_row \<Rightarrow> bool" where
  "entry_ok r \<longleftrightarrow> (\<forall>b. er_sender r = Some b \<longrightarrow> (\<exists>h. b = hash_column h))"

definition db_ok :: "ext \<Rightarrow> server_db \<Rightarrow> bool" where
  "db_ok E db \<longleftrightarrow> t_unique cr_device_hash (db_certs db) \<and> t_unique token_key (db_tokens db) \<and>
     t_unique tk_auth_token (db_tokens db) \<and>
     (\<forall>r \<in> set (db_certs db). cert_ok E r) \<and> (\<forall>r \<in> set (db_mediums db). medium_ok E r) \<and>
     (\<forall>r \<in> set (db_entries db). entry_ok r)"

lemma db_ok_empty [simp]: "db_ok E empty_db"
  by (simp add: db_ok_def empty_db_def t_unique_def)

lemma insert_token_unique:
  assumes "t_unique token_key t" and "t_unique tk_auth_token t"
  shows "t_unique token_key (insert_token r t)" and "t_unique tk_auth_token (insert_token r t)"
proof -
  show "t_unique token_key (insert_token r t)"
    using assms(1) by (simp add: insert_token_def)
  show "t_unique tk_auth_token (insert_token r t)"
    using assms(2) by (auto simp: insert_token_def t_replace_def t_delete_def t_unique_def distinct_map_filter)
qed

lemma update_dm_mailbox_frame:
  assumes "update_dm_mailbox E now db u tok = Inr db'"
  shows "db_mediums db' = db_mediums db \<and> db_profiles db' = db_profiles db \<and> db_tokens db' = db_tokens db \<and>
    db_certs db' = db_certs db \<and> db_entries db' = db_entries db"
  using assms by (cases tok) (auto simp: update_dm_mailbox_def Let_def insert_acl_def insert_mailbox_def split: if_splits)

lemma insert_acl_frame:
  "insert_acl db m acl = Inr db' \<Longrightarrow> db_mediums db' = db_mediums db \<and> db_profiles db' = db_profiles db \<and>
     db_tokens db' = db_tokens db \<and> db_certs db' = db_certs db \<and> db_entries db' = db_entries db"
  by (auto simp: insert_acl_def split: if_splits)

lemma register_group_frame:
  assumes "register_group E now db auth g = Inr db'"
  shows "db_mediums db' = db_mediums db \<and> db_tokens db' = db_tokens db \<and>
    db_certs db' = db_certs db \<and> db_entries db' = db_entries db"
  using assms by (auto simp: register_group_def insert_mailbox_def dest!: insert_acl_frame split: if_splits)

lemma acl_edit_frame:
  assumes "mailbox_acl_edit E db auth m arg = Inr db'"
  shows "db_mediums db' = db_mediums db \<and> db_tokens db' = db_tokens db \<and>
    db_certs db' = db_certs db \<and> db_entries db' = db_entries db"
  using assms by (cases rule: mailbox_acl_edit_cases) (auto simp: delete_acl_def dest: insert_acl_frame)

lemma mailbox_send_frame:
  assumes "mailbox_send E now db auth m msg ttl = Inr (t, db')"
  shows "db_mediums db' = db_mediums db \<and> db_tokens db' = db_tokens db \<and> db_certs db' = db_certs db \<and>
    (\<forall>r \<in> set (db_entries db'). r \<in> set (db_entries db) \<or> er_mailbox r = m \<and> entry_ok r)"
  using assms by (auto simp: mailbox_send_def Let_def t_insert_def purge_expired_entries_def entry_ok_def hash_column_def
      split: if_splits)

lemma device_auth_frame:
  assumes "device_auth E own dir now_s now_ns tok db u cert = Inr (t, db')"
  shows "db_mediums db' = db_mediums db \<and> db_entries db' = db_entries db"
proof -
  from assms have "\<exists>db1 nt. db_mediums db1 = db_mediums db \<and> update_dm_mailbox E now_ns db1 u nt = Inr db'"
    by (rule device_auth_Inr, elim disjE conjE exE) ((rule exI)+, rule conjI [rotated], assumption, simp)+
  moreover have "db_entries db' = db_entries db" using assms by (rule device_auth_Inr)
  ultimately show ?thesis using update_dm_mailbox_frame by metis
qed

lemma serve_db_ok:
  assumes "bcs_law E" and "serve E env now db req = Inr db'" and "request_wf E req" and "db_ok E db"
  shows "db_ok E db'"
proof (cases req)
  case (DeviceAuth u cert tok)
  then obtain t where auth: "device_auth E (env_server_name env) (env_dir env) (env_now_s env) now tok db u cert = Inr (t, db')"
    using assms(2) by auto
  note frame = device_auth_frame [OF auth]
  from auth show ?thesis
  proof (rule device_auth_Inr)
    fix dat db1
    assume dat: "bcs_enc E (ser_chain cert) = Some dat"
      and certs: "db_certs db' = t_replace cr_device_hash (auth_cert_row E u cert dat) (db_certs db)"
      and toks: "(\<exists>row. t_get token_key (username_as_str u, hash_column (pk_hash E (cert_pk (last_device cert)))) (db_tokens db)
            = Some row \<and> bcs_from E TBytes de_auth_token (tk_auth_token row) = Some t \<and>
          db_tokens db' = db_tokens db \<and> update_dm_mailbox E now db1 u None = Inr db') \<or>
        (t_get token_key (username_as_str u, hash_column (pk_hash E (cert_pk (last_device cert)))) (db_tokens db) = None \<and>
          t = tok \<and> (\<exists>tdat. bcs_enc E (ser_auth_token tok) = Some tdat \<and>
            db_tokens db' = insert_token (auth_token_row E u cert tdat) (db_tokens db)) \<and>
          update_dm_mailbox E now db1 u (Some tok) = Inr db')"
    have "bcs_from E ty_chain (de_chain E) dat = Some cert"
      using assms(3) DeviceAuth by (simp add: bcs_from_enc [OF assms(1) dat])
    then have "cert_ok E (auth_cert_row E u cert dat)"
      by (simp add: cert_ok_def auth_cert_row_def)
    moreover have "t_unique token_key (db_tokens db') \<and> t_unique tk_auth_token (db_tokens db')"
      using toks assms(4) insert_token_unique by (auto simp: db_ok_def)
    ultimately show ?thesis
      using assms(4) frame by (auto simp: db_ok_def certs set_t_replace)
  qed
next
  case (AddMediumPk auth k)
  with device_add_medium_pk_Inr [of E db auth k db'] assms(2) obtain r where
    "db' = db \<lparr> db_mediums := t_replace mr_device_hash r (db_mediums db) \<rparr>" "medium_ok E r"
    by auto
  with assms(4) show ?thesis by (auto simp: db_ok_def set_t_replace)
next
  case (ProfileSet u p)
  with assms(2) have "profile_set E db u p = Inr db'" by simp
  then show ?thesis
    by (rule profile_set_Inr) (use assms(4) in \<open>simp add: db_ok_def\<close>)
next
  case (MailboxSend auth m msg ttl)
  then obtain t where "mailbox_send E now db auth m msg ttl = Inr (t, db')" using assms(2) by auto
  from mailbox_send_frame [OF this] assms(4) show ?thesis by (auto simp: db_ok_def)
next
  case (AclEdit auth m arg)
  with assms(2) acl_edit_frame [of E db auth m arg db'] assms(4) show ?thesis by (simp add: db_ok_def)
next
  case (RegisterGroup auth g)
  with assms(2) register_group_frame [of E now db auth g db'] assms(4) show ?thesis by (simp add: db_ok_def)
qed

lemma serve_entries:
  assumes "serve E env now db req = Inr db'"
  shows "\<forall>r \<in> set (db_entries db'). r \<in> set (db_entries db) \<or> er_mailbox r \<in> set (notifies req)"
proof (cases req)
  case (DeviceAuth u cert tok)
  then obtain t where "device_auth E (env_server_name env) (env_dir env) (env_now_s env) now tok db u cert = Inr (t, db')"
    using assms by auto
  from device_auth_frame [OF this] show ?thesis by simp
next
  case (AddMediumPk auth k)
  with device_add_medium_pk_Inr [of E db auth k db'] assms show ?thesis by auto
next
  case (ProfileSet u p)
  with assms have "profile_set E db u p = Inr db'" by simp
  then show ?thesis by (rule profile_set_Inr) simp
next
  case (MailboxSend auth m msg ttl)
  then obtain t where "mailbox_send E now db auth m msg ttl = Inr (t, db')" using assms by auto
  from mailbox_send_frame [OF this] MailboxSend show ?thesis by auto
next
  case (AclEdit auth m arg)
  with assms acl_edit_frame [of E db auth m arg db'] show ?thesis by simp
next
  case (RegisterGroup auth g)
  with assms register_group_frame [of E now db auth g db'] show ?thesis by simp
qed

section \<open>Where rights come from\<close>

lemma register_mailboxes_rights:
  assumes "register_mailboxes E now auth ms db = Inr db'" and "right_of E db' m h x"
  shows "right_of E db m h x \<or> m \<in> set ms"
  using assms
proof (induction ms arbitrary: db)
  case Nil
  then show ?case by simp
next
  case (Cons m1 ms)
  then obtain db1 where one: "insert_acl (insert_mailbox db m1 now) m1 \<lparr> acl_token_hash = token_hash E auth,
      can_edit_acl = True, can_send = True, can_recv = True \<rparr> = Inr db1"
    and rest: "register_mailboxes E now auth ms db1 = Inr db'"
    by auto
  from Cons.IH [OF rest Cons.prems(2)] right_of_insert_acl [OF one] show ?case by auto
qed

lemma right_of_acl_eq: "db_acl db' = db_acl db \<Longrightarrow> right_of E db' = right_of E db"
  by (intro ext) (simp add: right_of_def entry_right_def load_acl_hash_def)

section \<open>The receive loop and its notifications\<close>

datatype recv_phase =
    Counting
  | Querying u64
  | Waiting u64
  | Answered "server_rpc_error + mailbox_entry list"

record mail_sys =
  ms_db :: server_db
  ms_now :: nano_timestamp
  ms_counter :: "mailbox_id \<Rightarrow> u64"
  ms_notify :: "mailbox_id list"
  ms_tasks :: "nat \<Rightarrow> (mailbox_recv_args \<times> recv_phase) option"

definition pubsub_counter :: "mail_sys \<Rightarrow> mailbox_id \<Rightarrow> u64" where
  "pubsub_counter s m = ms_counter s m"

definition pubsub_incr :: "mail_sys \<Rightarrow> mailbox_id \<Rightarrow> mail_sys" where
  "pubsub_incr s m = s \<lparr> ms_counter := (ms_counter s)(m := ms_counter s m + 1) \<rparr>"

definition pubsub_ready :: "mail_sys \<Rightarrow> mailbox_id \<Rightarrow> u64 \<Rightarrow> bool" where
  "pubsub_ready s m seen \<longleftrightarrow> ms_counter s m > seen"

definition set_task :: "nat \<Rightarrow> mailbox_recv_args \<Rightarrow> recv_phase \<Rightarrow> mail_sys \<Rightarrow> mail_sys" where
  "set_task i arg ph s = s \<lparr> ms_tasks := (ms_tasks s)(i \<mapsto> (arg, ph)) \<rparr>"

text \<open>What one pass of the loop makes of a task that read \<open>c\<close>.\<close>

definition after_pass :: "u64 \<Rightarrow> server_rpc_error + (mailbox_entry list \<times> server_db) \<Rightarrow> recv_phase" where
  "after_pass c r =
     (case r of
        Inl e \<Rightarrow> Answered (Inl e)
      | Inr (entries, _) \<Rightarrow> if entries \<noteq> [] then Answered (Inr entries) else Waiting c)"

definition db_after_pass :: "server_db \<Rightarrow> server_rpc_error + (mailbox_entry list \<times> server_db) \<Rightarrow> server_db" where
  "db_after_pass db r = (case r of Inl _ \<Rightarrow> db | Inr (_, db') \<Rightarrow> db')"

inductive mail_step :: "ext \<Rightarrow> mail_sys \<Rightarrow> mail_sys \<Rightarrow> bool" for E :: ext where
  tick: "ms_now s \<le> t \<Longrightarrow> unat t < 2 ^ 63 \<Longrightarrow> mail_step E s (s \<lparr> ms_now := t \<rparr>)"
| request: "serve E env (ms_now s) (ms_db s) req = Inr db' \<Longrightarrow> request_wf E req \<Longrightarrow>
    mail_step E s (s \<lparr> ms_db := db', ms_notify := notifies req @ ms_notify s \<rparr>)"
| notify: "m \<in> set (ms_notify s) \<Longrightarrow> unat (pubsub_counter s m) < 2 ^ 64 - 1 \<Longrightarrow>
    mail_step E s (pubsub_incr (s \<lparr> ms_notify := remove1 m (ms_notify s) \<rparr>) m)"
| start: "ms_tasks s i = None \<Longrightarrow> mail_step E s (set_task i arg Counting s)"
| count: "ms_tasks s i = Some (arg, Counting) \<Longrightarrow>
    mail_step E s (set_task i arg (Querying (pubsub_counter s (mra_mailbox arg))) s)"
| query: "ms_tasks s i = Some (arg, Querying c) \<Longrightarrow> recv_pass E (ms_now s) (ms_db s) arg = r \<Longrightarrow>
    mail_step E s (set_task i arg (after_pass c r) (s \<lparr> ms_db := db_after_pass (ms_db s) r \<rparr>))"
| wake: "ms_tasks s i = Some (arg, Waiting c) \<Longrightarrow> pubsub_ready s (mra_mailbox arg) c \<Longrightarrow>
    mail_step E s (set_task i arg Counting s)"
| drop: "mail_step E s (s \<lparr> ms_tasks := (ms_tasks s)(i := None) \<rparr>)"

definition mail_init :: "server_db \<Rightarrow> nano_timestamp \<Rightarrow> mail_sys" where
  "mail_init db now = \<lparr> ms_db = db, ms_now = now, ms_counter = (\<lambda>_. 0), ms_notify = [], ms_tasks = (\<lambda>_. None) \<rparr>"

text \<open>The invariant: a task's number never exceeds the counter, and a task that waits at the current
  count, with no notification outstanding, has nothing to read.\<close>

definition quiet :: "mail_sys \<Rightarrow> mailbox_recv_args \<Rightarrow> bool" where
  "quiet s arg \<longleftrightarrow> (\<forall>r \<in> set (db_entries (ms_db s)). \<not> unread (mra_mailbox arg) (mra_after arg) (ms_now s) r)"

definition task_ok :: "mail_sys \<Rightarrow> mailbox_recv_args \<times> recv_phase \<Rightarrow> bool" where
  "task_ok s t \<longleftrightarrow> (let m = mra_mailbox (fst t) in
     case snd t of
       Querying c \<Rightarrow> c \<le> ms_counter s m
     | Waiting c \<Rightarrow> c \<le> ms_counter s m \<and> (c = ms_counter s m \<longrightarrow> m \<notin> set (ms_notify s) \<longrightarrow> quiet s (fst t))
     | _ \<Rightarrow> True)"

definition mail_inv :: "ext \<Rightarrow> mail_sys \<Rightarrow> bool" where
  "mail_inv E s \<longleftrightarrow> db_ok E (ms_db s) \<and> unat (ms_now s) < 2 ^ 63 \<and> (\<forall>i t. ms_tasks s i = Some t \<longrightarrow> task_ok s t)"

lemma mail_inv_init: "db_ok E db \<Longrightarrow> unat now < 2 ^ 63 \<Longrightarrow> mail_inv E (mail_init db now)"
  by (simp add: mail_inv_def mail_init_def)

lemma unread_later:
  assumes "now \<le> t" and "unat t < 2 ^ 63" and "unread m a t r"
  shows "unread m a now r"
proof -
  have "unat now \<le> unat t" using assms(1) by (simp add: word_le_nat_alt)
  moreover from this assms(2) have "unat now < 2 ^ 63" by (rule le_less_trans)
  ultimately have "sint now \<le> sint t"
    unfolding sint_small_unat [OF \<open>unat now < 2 ^ 63\<close>] sint_small_unat [OF assms(2)] by (intro of_nat_mono)
  with assms(3) show ?thesis
    by (auto simp: unread_def alive_def split: option.splits)
qed

lemma task_ok_mono:
  assumes "task_ok s t"
    and "\<And>m. ms_counter s m \<le> ms_counter s' m"
    and "\<And>m. ms_counter s m = ms_counter s' m \<Longrightarrow> m \<notin> set (ms_notify s') \<Longrightarrow> m \<notin> set (ms_notify s) \<and>
      (\<forall>a r. r \<in> set (db_entries (ms_db s')) \<longrightarrow> unread m a (ms_now s') r \<longrightarrow>
         r \<in> set (db_entries (ms_db s)) \<and> unread m a (ms_now s) r)"
  shows "task_ok s' t"
proof -
  let ?m = "mra_mailbox (fst t)"
  show ?thesis
  proof (cases "snd t")
    case (Waiting c)
    with assms(1) have c: "c \<le> ms_counter s ?m"
      and q: "c = ms_counter s ?m \<Longrightarrow> ?m \<notin> set (ms_notify s) \<Longrightarrow> quiet s (fst t)"
      by (simp_all add: task_ok_def Let_def)
    have "quiet s' (fst t)" if "c = ms_counter s' ?m" "?m \<notin> set (ms_notify s')"
    proof -
      from that(1) c assms(2) [of ?m] have eq: "ms_counter s ?m = ms_counter s' ?m" by simp
      from assms(3) [OF eq that(2)] q that(1) eq show ?thesis
        unfolding quiet_def by metis
    qed
    with Waiting c assms(2) [of ?m] show ?thesis
      by (auto simp: task_ok_def Let_def)
  next
    case (Querying c)
    with assms(1) have "c \<le> ms_counter s ?m" by (simp add: task_ok_def Let_def)
    with Querying assms(2) [of ?m] show ?thesis by (simp add: task_ok_def Let_def)
  qed (simp_all add: task_ok_def Let_def)
qed

lemma recv_pass_db:
  "recv_pass E now db arg = r \<Longrightarrow> set (db_entries (db_after_pass db r)) \<subseteq> set (db_entries db) \<and>
     (db_ok E db \<longrightarrow> db_ok E (db_after_pass db r))"
  by (auto simp: recv_pass_def Let_def db_after_pass_def set_purged db_ok_def purge_expired_entries_def
      split: sum.splits if_splits)

lemma recv_pass_empty:
  assumes "recv_pass E now db arg = Inr ([], db')"
  shows "\<forall>r \<in> set (db_entries db'). \<not> unread (mra_mailbox arg) (mra_after arg) now r"
proof -
  from assms have "rows_to_entries (recv_rows db' (mra_mailbox arg) (mra_after arg) now) = Inr []"
    by (auto simp: recv_pass_def Let_def split: if_splits)
  from rows_to_entries_props(1) [OF this] have none: "recv_rows db' (mra_mailbox arg) (mra_after arg) now = []"
    by simp
  show ?thesis
  proof (rule ballI, rule notI)
    fix r
    assume "r \<in> set (db_entries db')" "unread (mra_mailbox arg) (mra_after arg) now r"
    from recv_rows_complete [OF this] none show False by simp
  qed
qed

lemma mail_invD:
  assumes "mail_inv E s"
  shows "ms_tasks s i = Some t \<Longrightarrow> task_ok s t" and "db_ok E (ms_db s)" and "unat (ms_now s) < 2 ^ 63"
  using assms unfolding mail_inv_def by blast+

lemma mail_invI:
  "db_ok E (ms_db s) \<Longrightarrow> unat (ms_now s) < 2 ^ 63 \<Longrightarrow> (\<And>i t. ms_tasks s i = Some t \<Longrightarrow> task_ok s t) \<Longrightarrow> mail_inv E s"
  unfolding mail_inv_def by blast

lemma mail_inv_tasks:
  assumes "mail_inv E s" and "ms_tasks s' = (ms_tasks s)(i := nt)"
    and "\<And>t. nt = Some t \<Longrightarrow> task_ok s' t"
    and "db_ok E (ms_db s')" and "unat (ms_now s') < 2 ^ 63"
    and "\<And>m. ms_counter s m \<le> ms_counter s' m"
    and "\<And>m. ms_counter s m = ms_counter s' m \<Longrightarrow> m \<notin> set (ms_notify s') \<Longrightarrow> m \<notin> set (ms_notify s) \<and>
      (\<forall>a r. r \<in> set (db_entries (ms_db s')) \<longrightarrow> unread m a (ms_now s') r \<longrightarrow>
         r \<in> set (db_entries (ms_db s)) \<and> unread m a (ms_now s) r)"
  shows "mail_inv E s'"
proof -
  have "task_ok s' t" if "ms_tasks s' j = Some t" for j t
  proof (cases "j = i")
    case True
    with that assms(2,3) show ?thesis by simp
  next
    case False
    with that assms(2) have "ms_tasks s j = Some t" by simp
    then have "task_ok s t" by (rule mail_invD(1) [OF assms(1)])
    then show ?thesis using assms(6,7) by (rule task_ok_mono)
  qed
  with assms(4,5) show ?thesis by (rule mail_invI)
qed

lemma mail_inv_all:
  assumes "mail_inv E s" and "ms_tasks s' = ms_tasks s"
    and "db_ok E (ms_db s')" and "unat (ms_now s') < 2 ^ 63"
    and "\<And>m. ms_counter s m \<le> ms_counter s' m"
    and "\<And>m. ms_counter s m = ms_counter s' m \<Longrightarrow> m \<notin> set (ms_notify s') \<Longrightarrow> m \<notin> set (ms_notify s) \<and>
      (\<forall>a r. r \<in> set (db_entries (ms_db s')) \<longrightarrow> unread m a (ms_now s') r \<longrightarrow>
         r \<in> set (db_entries (ms_db s)) \<and> unread m a (ms_now s) r)"
  shows "mail_inv E s'"
proof -
  have "task_ok s' t" if "ms_tasks s' j = Some t" for j t
    using mail_invD(1) [OF assms(1)] that assms(2) task_ok_mono [OF _ assms(5,6)] by metis
  with assms(3,4) show ?thesis by (rule mail_invI)
qed

lemmas mail_inv_simps = mail_invD(2) mail_invD(3) [simplified]

lemma mail_inv_query:
  assumes inv: "mail_inv E s" and task: "ms_tasks s i = Some (arg, Querying c)"
    and pass: "recv_pass E (ms_now s) (ms_db s) arg = r"
  shows "mail_inv E (set_task i arg (after_pass c r) (s \<lparr> ms_db := db_after_pass (ms_db s) r \<rparr>))"
    (is "mail_inv E ?s")
proof (rule mail_inv_tasks [OF inv, of ?s i "Some (arg, after_pass c r)"])
  have c: "c \<le> ms_counter s (mra_mailbox arg)"
    using mail_invD(1) [OF inv task] by (simp add: task_ok_def)
  have own: "task_ok ?s (arg, after_pass c r)"
  proof (cases r)
    case (Inl e)
    then show ?thesis by (simp add: task_ok_def after_pass_def Let_def)
  next
    case (Inr p)
    then obtain es db' where r: "r = Inr (es, db')" by (cases p) simp
    show ?thesis
    proof (cases "es = []")
      case True
      with recv_pass_empty [of E "ms_now s" "ms_db s" arg db'] pass r c show ?thesis
        by (simp add: task_ok_def after_pass_def Let_def quiet_def set_task_def db_after_pass_def)
    qed (simp add: r task_ok_def after_pass_def Let_def)
  qed
  then show "task_ok ?s t" if "Some (arg, after_pass c r) = Some t" for t
    using that by simp
  show "db_ok E (ms_db ?s)"
    using recv_pass_db [OF pass] mail_invD(2) [OF inv] by (simp add: set_task_def)
  show "m \<notin> set (ms_notify s) \<and> (\<forall>a q. q \<in> set (db_entries (ms_db ?s)) \<longrightarrow> unread m a (ms_now ?s) q \<longrightarrow>
         q \<in> set (db_entries (ms_db s)) \<and> unread m a (ms_now s) q)" if "m \<notin> set (ms_notify ?s)" for m
    using recv_pass_db [OF pass] that by (auto simp: set_task_def)
qed (simp_all add: set_task_def mail_inv_simps [OF inv])

lemma mail_inv_step:
  assumes "bcs_law E" and "mail_step E s s'" and inv: "mail_inv E s"
  shows "mail_inv E s'"
  using assms(2)
proof cases
  case (tick t)
  have "unread m a (ms_now s) r" if "unread m a t r" for m a r
    using tick(2,3) that by (rule unread_later)
  then show ?thesis
    unfolding tick(1) by (intro mail_inv_all [OF inv]) (simp_all add: mail_inv_simps [OF inv] tick(3) [simplified])
next
  case (request env req db')
  have "db_ok E db'"
    using serve_db_ok [OF assms(1) request(2,3) mail_invD(2) [OF inv]] .
  with serve_entries [OF request(2)] show ?thesis
    unfolding request(1) by (intro mail_inv_all [OF inv]) (auto simp: mail_inv_simps [OF inv] unread_def)
next
  case (notify m)
  have "ms_counter s m < ms_counter s m + 1"
    using notify(3) by (simp add: pubsub_counter_def word_less_nat_alt unat_word_ariths)
  then have up: "ms_counter s m' \<le> ((ms_counter s)(m := ms_counter s m + 1)) m'"
    and same: "ms_counter s m' = ((ms_counter s)(m := ms_counter s m + 1)) m' \<Longrightarrow> m' \<noteq> m" for m'
    by auto
  show ?thesis
    unfolding notify(1) pubsub_incr_def
  proof (rule mail_inv_all [OF inv])
    fix m'
    let ?s = "s \<lparr> ms_notify := remove1 m (ms_notify s),
      ms_counter := (ms_counter (s \<lparr> ms_notify := remove1 m (ms_notify s) \<rparr>))(m := ms_counter (s \<lparr> ms_notify := remove1 m (ms_notify s) \<rparr>) m + 1) \<rparr>"
    show "ms_counter s m' \<le> ms_counter ?s m'" using up [of m'] by simp
    assume "ms_counter s m' = ms_counter ?s m'" "m' \<notin> set (ms_notify ?s)"
    with same [of m'] have "m' \<noteq> m" "m' \<notin> set (remove1 m (ms_notify s))" by simp_all
    then have "m' \<notin> set (ms_notify s)" by (metis in_set_remove1)
    then show "m' \<notin> set (ms_notify s) \<and> (\<forall>a r. r \<in> set (db_entries (ms_db ?s)) \<longrightarrow> unread m' a (ms_now ?s) r \<longrightarrow>
         r \<in> set (db_entries (ms_db s)) \<and> unread m' a (ms_now s) r)" by simp
  qed (simp_all add: mail_inv_simps [OF inv])
next
  case (start i arg)
  show ?thesis
    unfolding start(1) by (rule mail_inv_tasks [OF inv, where i = i and nt = "Some (arg, Counting)"])
      (simp_all add: set_task_def task_ok_def mail_inv_simps [OF inv])
next
  case (count i arg)
  show ?thesis
    unfolding count(1)
    by (rule mail_inv_tasks [OF inv, where i = i and nt = "Some (arg, Querying (pubsub_counter s (mra_mailbox arg)))"])
      (simp_all add: set_task_def task_ok_def pubsub_counter_def mail_inv_simps [OF inv])
next
  case (query i arg c r)
  show ?thesis unfolding query(1) by (rule mail_inv_query [OF inv query(2,3)])
next
  case (wake i arg c)
  show ?thesis
    unfolding wake(1) by (rule mail_inv_tasks [OF inv, where i = i and nt = "Some (arg, Counting)"])
      (simp_all add: set_task_def task_ok_def mail_inv_simps [OF inv])
next
  case (drop i)
  show ?thesis
    unfolding drop(1) by (rule mail_inv_tasks [OF inv, where i = i and nt = None])
      (simp_all add: mail_inv_simps [OF inv])
qed

lemma mail_inv_reachable:
  assumes "bcs_law E" and "(mail_step E)\<^sup>*\<^sup>* s0 s" and "mail_inv E s0"
  shows "mail_inv E s"
  using assms(2) by (induction rule: rtranclp_induct) (auto intro: mail_inv_step assms)

lemma rows_to_entries_ok: "\<forall>r \<in> set rs. entry_ok r \<Longrightarrow> \<exists>es. rows_to_entries rs = Inr es"
proof (induction rs)
  case Nil
  then show ?case by simp
next
  case (Cons r rs)
  then obtain es where "rows_to_entries rs = Inr es" by auto
  moreover have "er_sender r = None \<or> (\<exists>h. er_sender r = Some (hash_column h))"
    using Cons.prems by (cases "er_sender r") (auto simp: entry_ok_def)
  ultimately show ?case by (auto simp: hash_column_def)
qed

lemma recv_pass_delivers:
  assumes "db_ok E db" and "right_of E db (mra_mailbox arg) (token_hash E (mra_auth arg)) Recv"
    and "r \<in> set (db_entries db)" and "unread (mra_mailbox arg) (mra_after arg) now r"
  shows "\<exists>es db'. recv_pass E now db arg = Inr (es, db') \<and> es \<noteq> []"
proof -
  let ?db = "purge_expired_entries db now"
  let ?rows = "recv_rows ?db (mra_mailbox arg) (mra_after arg) now"
  have "\<forall>q \<in> set ?rows. entry_ok q"
    using assms(1) recv_rows_subset by (fastforce simp: db_ok_def set_purged)
  then obtain es where es: "rows_to_entries ?rows = Inr es" using rows_to_entries_ok by blast
  have "r \<in> set (db_entries ?db)"
    using assms(3,4) by (simp add: set_purged unread_def)
  with recv_rows_complete [OF this assms(4)] have "?rows \<noteq> []" by fastforce
  with rows_to_entries_props(1) [OF es] have "es \<noteq> []" by auto
  with es assms(2) show ?thesis by (simp add: recv_pass_def Let_def)
qed

lemma decode_chains_ok:
  "\<forall>r \<in> set rows. cert_ok E r \<Longrightarrow> \<exists>m. decode_chains E rows out = Inr m"
  by (induction rows arbitrary: out) (auto simp: cert_ok_def)

lemma device_list_ok:
  assumes "db_ok E db"
  shows "\<exists>r. device_list E db u = Inr r \<and> (\<forall>m h chain. r = Some m \<longrightarrow> map_of m h = Some chain \<longrightarrow>
    pk_hash E (cert_pk (last_device chain)) = h)"
proof -
  let ?rows = "filter (\<lambda>r. cr_username r = username_as_str u) (db_certs db)"
  have "\<forall>r \<in> set ?rows. cert_ok E r" using assms by (simp add: db_ok_def)
  then obtain m where "decode_chains E ?rows [] = Inr m" using decode_chains_ok by blast
  then obtain r where r: "device_list E db u = Inr r"
    by (cases "?rows = []") (simp_all add: device_list_def Let_def)
  have "pk_hash E (cert_pk (last_device chain)) = h" if m: "r = Some m" "map_of m h = Some chain" for m h chain
  proof -
    from r m(1) have "device_list E db u = Inr (Some m)" by simp
    from device_list_entry [OF this m(2)] obtain q where q: "q \<in> set (db_certs db)" "cr_device_hash q = hash_column h"
      "bcs_from E ty_chain (de_chain E) (cr_cert_chain q) = Some chain" by blast
    from q(1) assms have "cert_ok E q" by (simp add: db_ok_def)
    with q(2,3) show ?thesis by (simp add: cert_ok_def)
  qed
  with r show ?thesis by blast
qed

lemma alive_earlier: "alive t e \<Longrightarrow> sint now \<le> sint t \<Longrightarrow> alive now e"
  by (auto simp: alive_def split: option.splits)

lemma serve_keeps_alive:
  assumes "serve E env now db req = Inr db'" and "r \<in> set (db_entries db)" and "alive now (er_expires_at r)"
  shows "r \<in> set (db_entries db')"
proof (cases req)
  case (DeviceAuth u cert tok)
  then obtain t where "device_auth E (env_server_name env) (env_dir env) (env_now_s env) now tok db u cert = Inr (t, db')"
    using assms by auto
  from device_auth_frame [OF this] assms(2) show ?thesis by simp
next
  case (AddMediumPk auth k)
  with device_add_medium_pk_Inr [of E db auth k db'] assms show ?thesis by auto
next
  case (ProfileSet u p)
  with assms have "profile_set E db u p = Inr db'" by simp
  then show ?thesis by (rule profile_set_Inr) (use assms(2) in simp)
next
  case (MailboxSend auth m msg ttl)
  then obtain t where "mailbox_send E now db auth m msg ttl = Inr (t, db')" using assms by auto
  from mailbox_send_Inr(8) [OF this] assms(2,3) show ?thesis by auto
next
  case (AclEdit auth m arg)
  with assms acl_edit_frame [of E db auth m arg db'] show ?thesis by simp
next
  case (RegisterGroup auth g)
  with assms register_group_frame [of E now db auth g db'] show ?thesis by simp
qed

lemma step_keeps_alive:
  assumes "mail_step E s s'" and "unat (ms_now s) < 2 ^ 63"
    and "r \<in> set (db_entries (ms_db s))" and "alive (ms_now s') (er_expires_at r)"
  shows "r \<in> set (db_entries (ms_db s')) \<and> sint (ms_now s) \<le> sint (ms_now s') \<and> unat (ms_now s') < 2 ^ 63"
  using assms(1)
proof cases
  case (tick t)
  have "unat (ms_now s) \<le> unat t" using tick(2) by (simp add: word_le_nat_alt)
  then have "sint (ms_now s) \<le> sint t"
    unfolding sint_small_unat [OF assms(2)] sint_small_unat [OF tick(3)] by (intro of_nat_mono)
  with tick assms(3) show ?thesis by simp
next
  case (request env req db')
  then have "alive (ms_now s) (er_expires_at r)" using assms(4) by simp
  from serve_keeps_alive [OF request(2) assms(3) this] request assms(2) show ?thesis by simp
next
  case (query i arg c p)
  then have "alive (ms_now s) (er_expires_at r)" using assms(4) by (simp add: set_task_def)
  then have "r \<in> set (db_entries (db_after_pass (ms_db s) p))"
    using query(3) assms(3)
    by (auto simp: db_after_pass_def recv_pass_def Let_def set_purged split: sum.splits if_splits)
  with query assms(2) show ?thesis by (simp add: set_task_def)
qed (use assms(2,3) in \<open>simp_all add: set_task_def pubsub_incr_def\<close>)

lemma run_keeps_alive:
  assumes "(mail_step E)\<^sup>*\<^sup>* s s'" and "unat (ms_now s) < 2 ^ 63"
    and "r \<in> set (db_entries (ms_db s))" and "alive (ms_now s') (er_expires_at r)"
  shows "r \<in> set (db_entries (ms_db s'))"
  using assms
proof (induction arbitrary: rule: converse_rtranclp_induct)
  case base
  then show ?case by simp
next
  case (step s s1)
  have clock: "sint (ms_now a) \<le> sint (ms_now b) \<and> unat (ms_now b) < 2 ^ 63" if "mail_step E a b" "unat (ms_now a) < 2 ^ 63" for a b
    using that(1)
  proof cases
    case (tick t)
    have "unat (ms_now a) \<le> unat t" using tick(2) by (simp add: word_le_nat_alt)
    then have "sint (ms_now a) \<le> sint t"
      unfolding sint_small_unat [OF that(2)] sint_small_unat [OF tick(3)] by (intro of_nat_mono)
    with tick show ?thesis by simp
  qed (use that(2) in \<open>simp_all add: set_task_def pubsub_incr_def\<close>)
  have later: "sint (ms_now a) \<le> sint (ms_now b) \<and> unat (ms_now b) < 2 ^ 63"
    if "(mail_step E)\<^sup>*\<^sup>* a b" "unat (ms_now a) < 2 ^ 63" for a b
    using that by (induction rule: rtranclp_induct) (use clock in \<open>auto intro: order_trans\<close>)
  have s1: "unat (ms_now s1) < 2 ^ 63" using clock [OF step.hyps(1) step.prems(1)] by blast
  with later [OF step.hyps(2)] have "alive (ms_now s1) (er_expires_at r)"
    using alive_earlier [OF step.prems(3)] by blast
  with step_keeps_alive [OF step.hyps(1) step.prems(1,2)] have "r \<in> set (db_entries (ms_db s1))" by blast
  with step.IH s1 step.prems(3) show ?case by blast
qed

section \<open>A concrete run\<close>

text \<open>For the witnesses: a task waits on the demonstration mailbox, a message is sent and notified.\<close>

definition demo_msg :: blob where "demo_msg = \<lparr> blob_kind = ''k'', blob_inner = [7] \<rparr>"

definition demo_arg :: mailbox_recv_args where
  "demo_arg = \<lparr> mra_auth = AuthToken 5, mra_mailbox = demo_mailbox, mra_after = 2 \<rparr>"

definition demo_row :: entry_row where
  "demo_row = \<lparr> er_mailbox = demo_mailbox, er_entry_id = 1, er_received_at = 10, er_kind = ''k'', er_body = [7],
     er_sender = Some (hash_column (token_hash demo_ext (AuthToken 5))), er_expires_at = None \<rparr>"

definition demo_sent_db :: server_db where
  "demo_sent_db = demo_mail_db \<lparr> db_entries := [demo_row], db_next_entry := 2 \<rparr>"

lemma demo_mail_rights:
  "db_acl db = db_acl demo_mail_db \<Longrightarrow> right_of demo_ext db demo_mailbox (token_hash demo_ext (AuthToken 5)) x \<longleftrightarrow> x \<noteq> EditAcl"
  by (cases x) (simp_all add: right_of_def entry_right_def load_acl_hash_def demo_mail_db_def t_get_simps acl_key_def)

lemma demo_purge [simp]: "purge_expired_entries demo_mail_db now = demo_mail_db"
  by (simp add: purge_expired_entries_def demo_mail_db_def empty_db_def t_delete_def)

lemma demo_send: "mailbox_send demo_ext 10 demo_mail_db (AuthToken 5) demo_mailbox demo_msg 0 = Inr (10, demo_sent_db)"
  using demo_mail_rights [of demo_mail_db Send]
  by (simp add: mailbox_send_def mailbox_known_def demo_mail_db_def empty_db_def purge_expired_entries_def t_delete_def
      t_insert_def demo_sent_db_def demo_row_def demo_msg_def expires_at_from_ttl_def hash_column_def)

lemma demo_recv_nothing: "recv_pass demo_ext 10 demo_mail_db demo_arg = Inr ([], demo_mail_db)"
  using demo_mail_rights [of demo_mail_db Recv]
  by (simp add: recv_pass_def demo_arg_def recv_rows_def)
    (simp add: demo_mail_db_def empty_db_def)

lemma demo_mail_db_ok: "db_ok demo_ext demo_mail_db"
  by (simp add: db_ok_def demo_mail_db_def empty_db_def t_unique_def)

definition demo_waiting :: mail_sys where
  "demo_waiting = set_task 0 demo_arg (Waiting 0) (mail_init demo_mail_db 10)"

definition demo_notified :: mail_sys where
  "demo_notified = demo_waiting \<lparr> ms_db := demo_sent_db, ms_counter := (\<lambda>_. 0)(demo_mailbox := 1) \<rparr>"

lemma demo_reaches_waiting: "(mail_step demo_ext)\<^sup>*\<^sup>* (mail_init demo_mail_db 10) demo_waiting"
proof -
  let ?s0 = "mail_init demo_mail_db 10"
  let ?s1 = "set_task 0 demo_arg Counting ?s0"
  let ?s2 = "set_task 0 demo_arg (Querying 0) ?s1"
  have "mail_step demo_ext ?s0 ?s1"
    by (rule mail_step.start) (simp add: mail_init_def)
  moreover have "mail_step demo_ext ?s1 ?s2"
    using mail_step.count [of ?s1 0 demo_arg demo_ext] by (simp add: set_task_def pubsub_counter_def mail_init_def)
  moreover have "mail_step demo_ext ?s2 demo_waiting"
    using mail_step.query [of ?s2 0 demo_arg 0 demo_ext "Inr ([], demo_mail_db)"] demo_recv_nothing
    by (simp add: set_task_def mail_init_def after_pass_def db_after_pass_def demo_waiting_def)
  ultimately show ?thesis by (meson converse_rtranclp_into_rtranclp r_into_rtranclp)
qed

lemma demo_reaches_notified: "(mail_step demo_ext)\<^sup>*\<^sup>* (mail_init demo_mail_db 10) demo_notified"
proof -
  let ?s = "demo_waiting \<lparr> ms_db := demo_sent_db, ms_notify := [demo_mailbox] \<rparr>"
  have "mail_step demo_ext demo_waiting ?s"
    using mail_step.request [of demo_ext undefined demo_waiting "MailboxSend (AuthToken 5) demo_mailbox demo_msg 0" demo_sent_db]
      demo_send by (simp add: demo_waiting_def set_task_def mail_init_def)
  moreover have "mail_step demo_ext ?s demo_notified"
    using mail_step.notify [of demo_mailbox ?s demo_ext]
    by (simp add: demo_notified_def demo_waiting_def set_task_def mail_init_def pubsub_incr_def pubsub_counter_def)
  ultimately show ?thesis using demo_reaches_waiting by (meson rtranclp.rtrancl_into_rtrancl)
qed

section \<open>Properties\<close>



text \<open>C6: an accepted message stays in its mailbox until it expires, in every interleaving: no request,
  receive pass or clock tick removes a row that is still alive.\<close>

theorem accepted_message_persists:
  assumes "mailbox_send E (ms_now s) (ms_db s) auth m msg ttl = Inr (t, db')"
    and "unat (ms_now s) < 2 ^ 63"
    and "(mail_step E)\<^sup>*\<^sup>* (s \<lparr> ms_db := db', ms_notify := m # ms_notify s \<rparr>) s'"
    and "alive (ms_now s') (expires_at_from_ttl (ms_now s) ttl)"
  shows "\<exists>r \<in> set (db_entries (ms_db s')). er_mailbox r = m \<and> er_received_at r = t \<and> er_kind r = blob_kind msg \<and>
    er_body r = blob_inner msg \<and> er_sender r = Some (hash_column (token_hash E auth))"
proof -
  from mailbox_send_Inr(1,8) [OF assms(1)] obtain r where "r \<in> set (db_entries db')"
    and r: "er_mailbox r = m" "er_received_at r = t" "er_kind r = blob_kind msg" "er_body r = blob_inner msg"
      "er_sender r = Some (hash_column (token_hash E auth))" "er_expires_at r = expires_at_from_ttl (ms_now s) ttl"
    by (auto simp: hash_column_def)
  with run_keeps_alive [OF assms(3), of r] assms(2,4) have "r \<in> set (db_entries (ms_db s'))" by simp
  with r show ?thesis by blast
qed

theorem accepted_message_persists_witness:
  "mailbox_send demo_ext 10 demo_mail_db (AuthToken 5) demo_mailbox demo_msg 0 = Inr (10, demo_sent_db) \<and>
   (\<exists>r \<in> set (db_entries demo_sent_db). er_mailbox r = demo_mailbox \<and> er_body r = [7])"
proof -
  have "mailbox_send demo_ext (ms_now demo_waiting) (ms_db demo_waiting) (AuthToken 5) demo_mailbox demo_msg 0 = Inr (10, demo_sent_db)"
    and "unat (ms_now demo_waiting) < 2 ^ 63"
    using demo_send by (simp_all add: demo_waiting_def set_task_def mail_init_def)
  from accepted_message_persists [OF this rtranclp.rtrancl_refl] demo_send show ?thesis
    by (fastforce simp: alive_def expires_at_from_ttl_def demo_waiting_def set_task_def demo_msg_def)
qed

text \<open>C14: the only ways to gain a right on a mailbox: the user's own device authentication, on the
  user's direct mailbox and never the right to edit; registering the group the mailbox belongs to with
  a known token; or an ACL edit on that mailbox by a caller who may edit or holds the right, itself
  or through the anonymous entry.\<close>

theorem rights_granted_only_by:
  assumes "serve E env now db req = Inr db'" and "right_of E db' m h x" and "\<not> right_of E db m h x"
  shows "(\<exists>u cert tok. req = DeviceAuth u cert tok \<and> m = mailbox_direct E u \<and> x \<noteq> EditAcl \<and>
      device_auth_checks E (env_server_name env) (env_dir env) (env_now_s env) u cert = Inr ()) \<or>
    (\<exists>auth g. req = RegisterGroup auth g \<and> auth_token_exists E db auth = Inr True \<and>
      m \<in> {mailbox_group_messages E g, mailbox_group_management E g}) \<or>
    (\<exists>auth arg. req = AclEdit auth m arg \<and>
      (right_of E db m (token_hash E auth) EditAcl \<or> right_of E db m (token_hash E auth) x \<or>
       entry_right db m (token_hash E anonymous) x))"
proof (cases req)
  case (DeviceAuth u cert tok)
  then obtain t where auth: "device_auth E (env_server_name env) (env_dir env) (env_now_s env) now tok db u cert = Inr (t, db')"
    using assms(1) by auto
  then have checks: "device_auth_checks E (env_server_name env) (env_dir env) (env_now_s env) u cert = Inr ()"
    by (rule device_auth_Inr)
  from auth have "\<exists>db1 nt. db_acl db1 = db_acl db \<and> update_dm_mailbox E now db1 u nt = Inr db'"
    by (rule device_auth_Inr, elim disjE conjE exE) ((rule exI)+, rule conjI [rotated], assumption, simp)+
  then obtain db1 nt where "right_of E db1 = right_of E db" "update_dm_mailbox E now db1 u nt = Inr db'"
    using right_of_acl_eq by metis
  with update_dm_mailbox_rights(1) [of E now db1 u nt db' m h x] assms(2,3)
  have "m = mailbox_direct E u" "x \<noteq> EditAcl" by auto
  with DeviceAuth checks show ?thesis by blast
next
  case (AddMediumPk auth k)
  with device_add_medium_pk_Inr [of E db auth k db'] assms(1) have "db_acl db' = db_acl db" by auto
  from right_of_acl_eq [OF this] assms(2,3) show ?thesis by simp
next
  case (ProfileSet u p)
  with assms(1) have "profile_set E db u p = Inr db'" by simp
  then have "db_acl db' = db_acl db" by (rule profile_set_Inr) simp
  from right_of_acl_eq [OF this] assms(2,3) show ?thesis by simp
next
  case (MailboxSend auth m' msg ttl)
  then obtain t where "mailbox_send E now db auth m' msg ttl = Inr (t, db')" using assms(1) by auto
  from right_of_acl_eq [OF mailbox_send_Inr(4) [OF this]] assms(2,3) show ?thesis by simp
next
  case (AclEdit auth m' arg)
  then have edit: "mailbox_acl_edit E db auth m' arg = Inr db'" using assms(1) by simp
  then have "m' = m \<and> (right_of E db m (token_hash E auth) EditAcl \<or> right_of E db m (token_hash E auth) x \<or>
       entry_right db m (token_hash E anonymous) x)"
  proof (cases rule: mailbox_acl_edit_cases)
    case remove
    have "m' = m"
      using assms(2,3) unfolding remove by (auto simp: right_of_def entry_right_def delete_acl_rights split: if_splits)
    with right_of_delete_acl [of E db m "token_hash E auth" h x] assms(2,3) remove show ?thesis by blast
  next
    case same
    with assms(2,3) show ?thesis by simp
  next
    case put
    from right_of_insert_acl [OF put(1) assms(2)] assms(3) have "m' = m" "has_right x arg" by auto
    with put(2) show ?thesis by blast
  qed
  with AclEdit show ?thesis by blast
next
  case (RegisterGroup auth g)
  then have "auth_token_exists E db auth = Inr True"
    and "register_mailboxes E now auth [mailbox_group_messages E g, mailbox_group_management E g] db = Inr db'"
    using assms(1) by (auto simp: register_group_def mb_auth_token_exists_def auth_token_exists_def split: if_splits)
  with register_mailboxes_rights [OF this(2) assms(2)] assms(3) RegisterGroup show ?thesis by auto
qed

theorem rights_granted_only_by_witness:
  "\<exists>db'. serve demo_ext \<lparr> env_server_name = ServerName ''~serv_01'', env_dir = demo_dir_lookup, env_now_s = 100 \<rparr> 1000
      empty_db (DeviceAuth (UserName ''@alice'') demo_chain (AuthToken 77)) = Inr db' \<and>
     right_of demo_ext db' (mailbox_direct demo_ext (UserName ''@alice'')) (token_hash demo_ext (AuthToken 77)) Recv \<and>
     (\<exists>u cert tok. DeviceAuth (UserName ''@alice'') demo_chain (AuthToken 77) = DeviceAuth u cert tok \<and>
        mailbox_direct demo_ext (UserName ''@alice'') = mailbox_direct demo_ext u)"
proof -
  let ?env = "\<lparr> env_server_name = ServerName ''~serv_01'', env_dir = demo_dir_lookup, env_now_s = 100 \<rparr>"
  let ?req = "DeviceAuth (UserName ''@alice'') demo_chain (AuthToken 77)"
  let ?m = "mailbox_direct demo_ext (UserName ''@alice'')" and ?h = "token_hash demo_ext (AuthToken 77)"
  obtain db' where auth: "device_auth demo_ext (ServerName ''~serv_01'') demo_dir_lookup 100 1000 (AuthToken 77) empty_db
       (UserName ''@alice'') demo_chain = Inr (AuthToken 77, db')"
    using demo_device_auth by blast
  then have serve: "serve demo_ext ?env 1000 empty_db ?req = Inr db'" by simp
  from auth have "\<exists>db1. update_dm_mailbox demo_ext 1000 db1 (UserName ''@alice'') (Some (AuthToken 77)) = Inr db'"
    by (rule device_auth_Inr, elim disjE conjE exE) (simp add: empty_db_def t_get_simps, blast)
  then have right: "right_of demo_ext db' ?m ?h Recv"
    using update_dm_mailbox_rights(2) by blast
  have "\<not> right_of demo_ext empty_db ?m ?h Recv"
    by (simp add: right_of_def entry_right_def load_acl_hash_def empty_db_def t_get_simps)
  from rights_granted_only_by [OF serve right this] serve right show ?thesis by blast
qed



end
