(* ===== verification/ClientDb.thy ===== *)
theory ClientDb
  imports ServerDb
begin

text \<open>
  The client's database (\<open>nullspace-client/migrations\<close>) and the code closest to it:
  \<open>convo.rs\<close> (conversation identifiers), \<open>identity.rs\<close> (the row of \<open>client_identity\<close>) and
  \<open>database.rs\<close> (mailbox positions, conversation rows, the queries of the event loops). A
  transaction is a function to a result with the database it commits; an error leaves the database as
  it was. Of SQLite's own failures only violated constraints are modelled. Row numbers are integers:
  SQLite gives a new row one more than the greatest number in the table.
\<close>

section \<open>Conversation identifiers\<close>

datatype convo_id = Direct username | Group group_id

primrec convo_type :: "convo_id \<Rightarrow> string" where
  "convo_type (Direct peer) = ''direct''"
| "convo_type (Group g) = ''group''"

primrec convo_counterparty :: "ext \<Rightarrow> convo_id \<Rightarrow> string" where
  "convo_counterparty E (Direct peer) = username_as_str peer"
| "convo_counterparty E (Group g) = group_id_display E g"

definition result_ok :: "'e + 'a \<Rightarrow> 'a option" where
  "result_ok r = (case r of Inl _ \<Rightarrow> None | Inr x \<Rightarrow> Some x)"

definition parse_convo_id :: "ext \<Rightarrow> string \<Rightarrow> string \<Rightarrow> convo_id option" where
  "parse_convo_id E ctype counterparty =
     (if ctype = ''direct'' then map_option Direct (result_ok (username_parse counterparty))
      else if ctype = ''group'' then map_option Group (result_ok (group_id_from_str E counterparty))
      else None)"

primrec convo_wf :: "convo_id \<Rightarrow> bool" where
  "convo_wf (Direct u) = username_wf u"
| "convo_wf (Group g) = True"

lemma result_ok_simps [simp]: "result_ok (Inr x) = Some x" "result_ok (Inl e) = None"
  by (simp_all add: result_ok_def)

lemma result_ok_Some [simp]: "result_ok r = Some x \<longleftrightarrow> r = Inr x"
  by (cases r) auto

lemma parse_convo_id_back:
  "hex_law E \<Longrightarrow> convo_wf c \<Longrightarrow> parse_convo_id E (convo_type c) (convo_counterparty E c) = Some c"
  by (cases c) (simp_all add: parse_convo_id_def username_parse_as_str group_id_from_display)

section \<open>Tables\<close>

record identity_row =
  ir_username :: string
  ir_server_name :: "string option"
  ir_device_secret :: bytes
  ir_cert_chain :: bytes
  ir_medium_sk_current :: bytes
  ir_medium_sk_prev :: bytes

record convo_row =
  cv_id :: int
  cv_type :: string
  cv_counterparty :: string
  cv_created_at :: i64

record message_row =
  cm_id :: int
  cm_convo_id :: int
  cm_sender_username :: string
  cm_mime :: string
  cm_body :: bytes
  cm_sent_at :: i64
  cm_send_error :: "string option"
  cm_received_at :: "i64 option"

record group_row =
  gw_group_id :: bytes
  gw_descriptor :: bytes
  gw_server_name :: string
  gw_token :: bytes
  gw_key_current :: bytes
  gw_key_prev :: bytes
  gw_roster_version :: i64

record member_row =
  mw_group_id :: bytes
  mw_username :: string
  mw_is_admin :: i64
  mw_status :: string

record mailbox_row =
  mx_server_name :: string
  mx_mailbox_id :: bytes
  mx_after :: i64

record root_row =
  rw_hash :: bytes
  rw_root :: bytes
  rw_sender :: string

record desc_cache_row =
  dw_username :: string
  dw_descriptor :: bytes
  dw_fetched_at :: i64

record client_db =
  c_identity :: "identity_row option"
  c_convos :: "convo_row list"
  c_messages :: "message_row list"
  c_groups :: "group_row list"
  c_members :: "member_row list"
  c_mailboxes :: "mailbox_row list"
  c_roots :: "root_row list"
  c_paths :: "(bytes \<times> string) list"
  c_desc_cache :: "desc_cache_row list"
  c_info_cache :: "(string \<times> i64) list"
  c_certs_cache :: "(string \<times> bytes) list"
  c_mediums_cache :: "(string \<times> bytes) list"

definition empty_client_db :: client_db where
  "empty_client_db = \<lparr> c_identity = None, c_convos = [], c_messages = [], c_groups = [], c_members = [],
     c_mailboxes = [], c_roots = [], c_paths = [], c_desc_cache = [], c_info_cache = [], c_certs_cache = [],
     c_mediums_cache = [] \<rparr>"

definition convo_key :: "convo_row \<Rightarrow> string \<times> string" where
  "convo_key r = (cv_type r, cv_counterparty r)"

definition sent_key :: "message_row \<Rightarrow> int \<times> i64" where
  "sent_key r = (cm_convo_id r, cm_sent_at r)"

definition member_key :: "member_row \<Rightarrow> bytes \<times> string" where
  "member_key r = (mw_group_id r, mw_username r)"

definition mailbox_key :: "mailbox_row \<Rightarrow> string \<times> bytes" where
  "mailbox_key r = (mx_server_name r, mx_mailbox_id r)"

definition next_rowid :: "('r \<Rightarrow> int) \<Rightarrow> 'r list \<Rightarrow> int" where
  "next_rowid rid t = (if t = [] then 1 else Max (rid ` set t) + 1)"

lemma next_rowid_fresh: "r \<in> set t \<Longrightarrow> rid r < next_rowid rid t"
proof -
  assume r: "r \<in> set t"
  then have "rid r \<le> Max (rid ` set t)" by (intro Max_ge) auto
  with r show ?thesis by (auto simp: next_rowid_def)
qed

section \<open>The client's identity\<close>

record identity =
  id_username :: username
  id_server_name :: "server_name option"
  id_device_secret :: device_secret
  id_cert_chain :: certificate_chain
  id_medium_sk_current :: dh_secret
  id_medium_sk_prev :: dh_secret

definition load_identity :: "ext \<Rightarrow> client_db \<Rightarrow> anyhow + identity" where
  "load_identity E db =
     and_then (ok_or ''client identity not initialized'' (c_identity db)) (\<lambda>row.
     and_then (map_err (\<lambda>_. ''invalid stored username'') (username_parse (ir_username row))) (\<lambda>username.
     and_then (case ir_server_name row of
         Some name \<Rightarrow> and_then (map_err (\<lambda>_. ''invalid stored server name'') (server_name_parse name)) (\<lambda>n. Inr (Some n))
       | None \<Rightarrow> Inr None) (\<lambda>server_name.
     and_then (ok_or ''decode error'' (bcs_from E TBytes de_signing_secret (ir_device_secret row))) (\<lambda>device_secret.
     and_then (ok_or ''decode error'' (bcs_from E ty_chain (de_chain E) (ir_cert_chain row))) (\<lambda>cert_chain.
     and_then (ok_or ''decode error'' (bcs_from E TBytes de_dh_secret (ir_medium_sk_current row))) (\<lambda>current.
     and_then (ok_or ''decode error'' (bcs_from E TBytes de_dh_secret (ir_medium_sk_prev row))) (\<lambda>prev.
       Inr \<lparr> id_username = username, id_server_name = server_name, id_device_secret = device_secret,
             id_cert_chain = cert_chain, id_medium_sk_current = current, id_medium_sk_prev = prev \<rparr>)))))))"

definition store_server_name :: "server_name \<Rightarrow> client_db \<Rightarrow> client_db" where
  "store_server_name n db =
     db \<lparr> c_identity := map_option (\<lambda>r. r \<lparr> ir_server_name := Some (server_name_as_str n) \<rparr>) (c_identity db) \<rparr>"

definition identity_exists :: "client_db \<Rightarrow> bool" where
  "identity_exists db \<longleftrightarrow> c_identity db \<noteq> None"

text \<open>\<open>persist_identity\<close> of \<open>internal.rs\<close>: a second row with \<open>id = 1\<close> is refused.\<close>

definition persist_identity ::
  "ext \<Rightarrow> client_db \<Rightarrow> username \<Rightarrow> server_name \<Rightarrow> device_secret \<Rightarrow> certificate_chain \<Rightarrow> dh_secret \<Rightarrow> anyhow + client_db" where
  "persist_identity E db username server_name device_secret cert_chain medium_sk =
     and_then (ok_or ''encode error'' (bcs_enc E (ser_signing_secret device_secret))) (\<lambda>ds.
     and_then (ok_or ''encode error'' (bcs_enc E (ser_chain cert_chain))) (\<lambda>cc.
     and_then (ok_or ''encode error'' (bcs_enc E (ser_dh_secret medium_sk))) (\<lambda>sk.
       if c_identity db \<noteq> None then Inl ''UNIQUE constraint failed''
       else Inr (db \<lparr> c_identity := Some \<lparr> ir_username = username_as_str username,
         ir_server_name = Some (server_name_as_str server_name), ir_device_secret = ds, ir_cert_chain = cc,
         ir_medium_sk_current = sk, ir_medium_sk_prev = sk \<rparr> \<rparr>))))"

lemma load_persisted:
  assumes "bcs_law E" and "persist_identity E db u n ds ch sk = Inr db'"
    and "username_wf u" and "server_name_wf n" and "chain_wf E ch"
  shows "load_identity E db' = Inr \<lparr> id_username = u, id_server_name = Some n, id_device_secret = ds,
    id_cert_chain = ch, id_medium_sk_current = sk, id_medium_sk_prev = sk \<rparr>"
proof -
  from assms(2) obtain d c k where e: "bcs_enc E (ser_signing_secret ds) = Some d" "bcs_enc E (ser_chain ch) = Some c"
      "bcs_enc E (ser_dh_secret sk) = Some k"
    and row: "c_identity db' = Some \<lparr> ir_username = username_as_str u, ir_server_name = Some (server_name_as_str n),
      ir_device_secret = d, ir_cert_chain = c, ir_medium_sk_current = k, ir_medium_sk_prev = k \<rparr>"
    by (auto simp: persist_identity_def split: if_splits)
  show ?thesis
    by (simp add: load_identity_def row bcs_from_enc [OF assms(1) e(1)] bcs_from_enc [OF assms(1) e(2)]
        bcs_from_enc [OF assms(1) e(3)] assms(3-5) username_parse_as_str server_name_parse_as_str)
qed

section \<open>Mailbox positions\<close>

definition mailbox_column :: "mailbox_id \<Rightarrow> bytes" where
  "mailbox_column m = be_bytes (hash_to_bytes (mailbox_id_hash m))"

definition ensure_mailbox_state ::
  "server_name \<Rightarrow> mailbox_id \<Rightarrow> nano_timestamp \<Rightarrow> client_db \<Rightarrow> client_db" where
  "ensure_mailbox_state n m initial_after db =
     db \<lparr> c_mailboxes := t_ignore mailbox_key
       \<lparr> mx_server_name = server_name_as_str n, mx_mailbox_id = mailbox_column m, mx_after = initial_after \<rparr>
       (c_mailboxes db) \<rparr>"

definition load_mailbox_after :: "server_name \<Rightarrow> mailbox_id \<Rightarrow> client_db \<Rightarrow> nano_timestamp" where
  "load_mailbox_after n m db =
     (case t_get mailbox_key (server_name_as_str n, mailbox_column m) (c_mailboxes db) of
        Some r \<Rightarrow> mx_after r | None \<Rightarrow> 0)"

definition update_mailbox_after ::
  "server_name \<Rightarrow> mailbox_id \<Rightarrow> nano_timestamp \<Rightarrow> client_db \<Rightarrow> client_db" where
  "update_mailbox_after n m after db =
     db \<lparr> c_mailboxes := t_update (\<lambda>r. mailbox_key r = (server_name_as_str n, mailbox_column m))
       (\<lambda>r. r \<lparr> mx_after := after \<rparr>) (c_mailboxes db) \<rparr>"

lemma t_get_update:
  assumes "\<And>r. key (f r) = key r"
  shows "t_get key k (t_update (\<lambda>r. key r = j) f t) = (if k = j then map_option f (t_get key k t) else t_get key k t)"
  using assms by (induction t) (auto simp: t_update_def t_get_simps)

lemma mailbox_column_inject [simp]: "mailbox_column m = mailbox_column m' \<longleftrightarrow> m = m'"
  by (cases m; cases m'; cases "mailbox_id_hash m"; cases "mailbox_id_hash m'")
    (auto simp: mailbox_column_def)

lemma server_name_as_str_inject [simp]: "server_name_as_str n = server_name_as_str n' \<longleftrightarrow> n = n'"
  by (cases n; cases n') simp

lemma username_as_str_inject [simp]: "username_as_str n = username_as_str n' \<longleftrightarrow> n = n'"
  by (cases n; cases n') simp

text \<open>The position of a mailbox is where it was last left; other mailboxes keep theirs.\<close>

lemma mailbox_after_simps:
  "load_mailbox_after n m (update_mailbox_after n m a (ensure_mailbox_state n m i db)) = a"
  "(n, m) \<noteq> (n', m') \<Longrightarrow> load_mailbox_after n m (update_mailbox_after n' m' a db) = load_mailbox_after n m db"
  "(n, m) \<noteq> (n', m') \<Longrightarrow> load_mailbox_after n m (ensure_mailbox_state n' m' i db) = load_mailbox_after n m db"
proof -
  let ?k = "(server_name_as_str n, mailbox_column m)"
  have k: "mailbox_key (r \<lparr> mx_after := x \<rparr>) = mailbox_key r" for r x by (simp add: mailbox_key_def)
  have kr: "mailbox_key \<lparr> mx_server_name = a, mx_mailbox_id = b, mx_after = c \<rparr> = (a, b)" for a b c
    by (simp add: mailbox_key_def)
  note upd = t_get_update [where key = mailbox_key, OF k]
  show "load_mailbox_after n m (update_mailbox_after n m a (ensure_mailbox_state n m i db)) = a"
    by (auto simp: load_mailbox_after_def update_mailbox_after_def ensure_mailbox_state_def upd t_get_ignore
        kr split: option.split)
  show "(n, m) \<noteq> (n', m') \<Longrightarrow> load_mailbox_after n m (update_mailbox_after n' m' a db) = load_mailbox_after n m db"
    by (auto simp: load_mailbox_after_def update_mailbox_after_def upd)
  show "(n, m) \<noteq> (n', m') \<Longrightarrow> load_mailbox_after n m (ensure_mailbox_state n' m' i db) = load_mailbox_after n m db"
    by (auto simp: load_mailbox_after_def ensure_mailbox_state_def t_get_ignore kr split: option.split)
qed

section \<open>Conversations and messages\<close>

definition ensure_convo_id :: "nano_timestamp \<Rightarrow> string \<Rightarrow> string \<Rightarrow> client_db \<Rightarrow> anyhow + (int \<times> client_db)" where
  "ensure_convo_id now ctype counterparty db =
     (case t_get convo_key (ctype, counterparty) (c_convos db) of
        Some r \<Rightarrow> Inr (cv_id r, db)
      | None \<Rightarrow>
          if ctype \<notin> {''direct'', ''group''} then Inl ''CHECK constraint failed''
          else (let i = next_rowid cv_id (c_convos db) in
            Inr (i, db \<lparr> c_convos := c_convos db @ [\<lparr> cv_id = i, cv_type = ctype,
              cv_counterparty = counterparty, cv_created_at = now \<rparr>] \<rparr>)))"

text \<open>The rows \<open>INSERT\<close> and \<open>INSERT OR IGNORE\<close> put into \<open>convo_messages\<close>, whose unique index is
  the conversation and the time of sending.\<close>

definition new_message ::
  "int \<Rightarrow> string \<Rightarrow> string \<Rightarrow> bytes \<Rightarrow> i64 \<Rightarrow> i64 option \<Rightarrow> client_db \<Rightarrow> message_row" where
  "new_message convo sender mime body sent_at received_at db =
     \<lparr> cm_id = next_rowid cm_id (c_messages db), cm_convo_id = convo, cm_sender_username = sender, cm_mime = mime,
       cm_body = body, cm_sent_at = sent_at, cm_send_error = None, cm_received_at = received_at \<rparr>"

definition ignore_message ::
  "int \<Rightarrow> string \<Rightarrow> string \<Rightarrow> bytes \<Rightarrow> i64 \<Rightarrow> i64 option \<Rightarrow> client_db \<Rightarrow> client_db" where
  "ignore_message convo sender mime body sent_at received_at db =
     db \<lparr> c_messages := t_ignore sent_key (new_message convo sender mime body sent_at received_at db) (c_messages db) \<rparr>"

section \<open>Attachments seen in messages\<close>

definition store_attachment_root ::
  "ext \<Rightarrow> username \<Rightarrow> attachment \<Rightarrow> client_db \<Rightarrow> anyhow + (hash \<times> client_db)" where
  "store_attachment_root E sender root db =
     (let v = ser_attachment ser_hash ser_aead_key root; h = bcs_hash E v in
      and_then (ok_or ''encode error'' (bcs_enc E v)) (\<lambda>root_bcs.
        let row = \<lparr> rw_hash = be_bytes (hash_to_bytes h), rw_root = root_bcs, rw_sender = username_as_str sender \<rparr> in
        Inr (h, db \<lparr> c_roots := (if rw_hash row \<in> rw_hash ` set (c_roots db)
              then t_update (\<lambda>r. rw_hash r = rw_hash row)
                (\<lambda>r. r \<lparr> rw_root := rw_root row, rw_sender := rw_sender row \<rparr>) (c_roots db)
              else c_roots db @ [row]) \<rparr>)))"

definition load_attachment_root :: "ext \<Rightarrow> client_db \<Rightarrow> hash \<Rightarrow> anyhow + (string \<times> attachment)" where
  "load_attachment_root E db attachment_id =
     and_then (ok_or ''attachment not found''
       (t_get rw_hash (be_bytes (hash_to_bytes attachment_id)) (c_roots db))) (\<lambda>r.
     and_then (ok_or ''decode error''
       (bcs_from E (ty_attachment TBytes TBytes) (de_attachment de_hash de_aead_key) (rw_root r))) (\<lambda>root.
       Inr (rw_sender r, root)))"

text \<open>The receive paths store the root of an attachment message and ignore a failure.\<close>

definition note_attachment :: "ext \<Rightarrow> username \<Rightarrow> string \<Rightarrow> bytes \<Rightarrow> client_db \<Rightarrow> client_db" where
  "note_attachment E sender mime body db =
     (if mime = attachment_mime
      then (case json_from E (ty_attachment TStr TStr) (dej_attachment E) body of
              Some root \<Rightarrow> (case store_attachment_root E sender root db of Inr (h, db') \<Rightarrow> db' | Inl _ \<Rightarrow> db)
            | None \<Rightarrow> db)
      else db)"

end
