(* ===== verification/Roster.thy ===== *)
theory Roster
  imports ClientDb
begin

text \<open>
  The roster of a group (\<open>nullspace-client/src/convo/roster.rs\<close>): the rows of
  \<open>group_members\<close>, and the effect of each management message on them. The abstract roster is a
  map from user names to an admin flag and a status, the abstract effect \<open>manage_spec\<close> is a function
  on it, and the statements of the source refine it. From the abstract side follow who may change what
  and what a ban keeps, over any sequence of messages.
\<close>

section \<open>The code\<close>

datatype group_member_status = Pending | Accepted | Banned

record roster_member =
  rm_username :: username
  rm_is_admin :: bool
  rm_status :: group_member_status

definition is_active :: "roster_member \<Rightarrow> bool" where
  "is_active m = (case rm_status m of Pending \<Rightarrow> True | Accepted \<Rightarrow> True | Banned \<Rightarrow> False)"

definition status_from_str :: "string \<Rightarrow> group_member_status option" where
  "status_from_str s =
     (if s = ''pending'' then Some Pending
      else if s = ''accepted'' then Some Accepted
      else if s = ''banned'' then Some Banned
      else None)"

primrec status_as_str :: "group_member_status \<Rightarrow> string" where
  "status_as_str Pending = ''pending''"
| "status_as_str Accepted = ''accepted''"
| "status_as_str Banned = ''banned''"

definition group_column :: "group_id \<Rightarrow> bytes" where
  "group_column g = be_bytes (group_id_as_bytes g)"

definition bool_i64 :: "bool \<Rightarrow> i64" where
  "bool_i64 b = (if b then 1 else 0)"

definition row_member :: "username \<Rightarrow> member_row \<Rightarrow> anyhow + roster_member" where
  "row_member u r =
     and_then (ok_or ''invalid group member status'' (status_from_str (mw_status r))) (\<lambda>status.
       Inr \<lparr> rm_username = u, rm_is_admin = (mw_is_admin r \<noteq> 0), rm_status = status \<rparr>)"

definition get_raw :: "group_id \<Rightarrow> username \<Rightarrow> client_db \<Rightarrow> anyhow + roster_member option" where
  "get_raw g u db =
     (case t_get member_key (group_column g, username_as_str u) (c_members db) of
        None \<Rightarrow> Inr None
      | Some r \<Rightarrow> and_then (row_member u r) (\<lambda>m. Inr (Some m)))"

fun list_rows :: "member_row list \<Rightarrow> anyhow + roster_member list" where
  "list_rows [] = Inr []"
| "list_rows (r # rs) =
     and_then (map_err (\<lambda>_. ''invalid username'') (username_parse (mw_username r))) (\<lambda>u.
     and_then (row_member u r) (\<lambda>m.
     and_then (list_rows rs) (\<lambda>out. Inr (m # out))))"

definition list_raw :: "group_id \<Rightarrow> client_db \<Rightarrow> anyhow + roster_member list" where
  "list_raw g db =
     list_rows (sort_key mw_username (filter (\<lambda>r. mw_group_id r = group_column g) (c_members db)))"

definition group_known :: "client_db \<Rightarrow> bytes \<Rightarrow> bool" where
  "group_known db g \<longleftrightarrow> g \<in> gw_group_id ` set (c_groups db)"

text \<open>The upsert answers whether it wrote; the referenced group must exist.\<close>

definition upsert_member :: "group_id \<Rightarrow> roster_member \<Rightarrow> client_db \<Rightarrow> anyhow + (bool \<times> client_db)" where
  "upsert_member g m db =
     (let k = (group_column g, username_as_str (rm_username m));
          admin = bool_i64 (rm_is_admin m); status = status_as_str (rm_status m) in
      case t_get member_key k (c_members db) of
        Some r \<Rightarrow>
          if mw_is_admin r = admin \<and> mw_status r = status then Inr (False, db)
          else Inr (True, db \<lparr> c_members := t_update (\<lambda>r. member_key r = k)
            (\<lambda>r. r \<lparr> mw_is_admin := admin, mw_status := status \<rparr>) (c_members db) \<rparr>)
      | None \<Rightarrow>
          if \<not> group_known db (group_column g) then Inl ''FOREIGN KEY constraint failed''
          else Inr (True, db \<lparr> c_members := c_members db @ [\<lparr> mw_group_id = group_column g,
            mw_username = username_as_str (rm_username m), mw_is_admin = admin, mw_status = status \<rparr>] \<rparr>))"

definition remove_member :: "group_id \<Rightarrow> username \<Rightarrow> client_db \<Rightarrow> bool \<times> client_db" where
  "remove_member g u db =
     (let k = (group_column g, username_as_str u) in
      (k \<in> member_key ` set (c_members db),
       db \<lparr> c_members := t_delete (\<lambda>r. member_key r = k) (c_members db) \<rparr>))"

definition set_version :: "group_id \<Rightarrow> (i64 \<Rightarrow> i64) \<Rightarrow> client_db \<Rightarrow> client_db" where
  "set_version g f db =
     db \<lparr> c_groups := t_update (\<lambda>r. gw_group_id r = group_column g)
       (\<lambda>r. r \<lparr> gw_roster_version := f (gw_roster_version r) \<rparr>) (c_groups db) \<rparr>"

definition bump_version :: "group_id \<Rightarrow> client_db \<Rightarrow> client_db" where
  "bump_version g db = set_version g (\<lambda>v. v + 1) db"

definition ensure_initialized :: "group_id \<Rightarrow> username \<Rightarrow> client_db \<Rightarrow> anyhow + client_db" where
  "ensure_initialized g init_admin db =
     and_then (ok_or ''group not found'' (t_get gw_group_id (group_column g) (c_groups db))) (\<lambda>r.
       if gw_roster_version r \<noteq> 0 then Inr db
       else and_then (upsert_member g \<lparr> rm_username = init_admin, rm_is_admin = True, rm_status = Accepted \<rparr> db)
         (\<lambda>(_, db). Inr (set_version g (\<lambda>_. 1) db)))"

text \<open>\<open>GroupRoster::load\<close>; a roster is the pair of group and initial administrator, so what is left
  of it is the initialised database. \<open>list\<close> and \<open>get\<close> are \<open>list_raw\<close> and \<open>get_raw\<close>.\<close>

definition roster_load :: "group_id \<Rightarrow> username \<Rightarrow> client_db \<Rightarrow> anyhow + client_db" where
  "roster_load g init_admin db = ensure_initialized g init_admin db"

definition manage_change ::
  "group_id \<Rightarrow> username \<Rightarrow> group_manage_msg \<Rightarrow> client_db \<Rightarrow> anyhow + (bool \<times> client_db)" where
  "manage_change g sender manage db =
     and_then (get_raw g sender db) (\<lambda>sender_member.
     let sender_active = (case sender_member of None \<Rightarrow> False | Some m \<Rightarrow> is_active m);
         sender_admin = (case sender_member of None \<Rightarrow> False | Some m \<Rightarrow> rm_is_admin m \<and> is_active m) in
     case manage of
       InviteSent username \<Rightarrow>
         if \<not> sender_active then Inr (False, db)
         else and_then (get_raw g username db) (\<lambda>found.
           case found of
             Some m \<Rightarrow>
               if rm_status m = Banned \<or> rm_status m = Accepted then Inr (False, db)
               else if rm_status m = Pending then Inr (False, db)
               else upsert_member g \<lparr> rm_username = username, rm_is_admin = False, rm_status = Pending \<rparr> db
           | None \<Rightarrow> upsert_member g \<lparr> rm_username = username, rm_is_admin = False, rm_status = Pending \<rparr> db)
     | InviteAccepted \<Rightarrow>
         and_then (get_raw g sender db) (\<lambda>found.
           case found of
             Some m \<Rightarrow>
               if rm_status m = Banned then Inr (False, db)
               else upsert_member g \<lparr> rm_username = sender, rm_is_admin = False, rm_status = Accepted \<rparr> db
           | None \<Rightarrow> upsert_member g \<lparr> rm_username = sender, rm_is_admin = False, rm_status = Accepted \<rparr> db)
     | Leave \<Rightarrow>
         and_then (get_raw g sender db) (\<lambda>found.
           case found of
             Some m \<Rightarrow> if rm_status m = Banned then Inr (False, db) else Inr (remove_member g sender db)
           | None \<Rightarrow> Inr (False, db))
     | Ban username \<Rightarrow>
         if \<not> sender_admin then Inr (False, db)
         else upsert_member g \<lparr> rm_username = username, rm_is_admin = False, rm_status = Banned \<rparr> db
     | Unban username \<Rightarrow>
         if \<not> sender_admin then Inr (False, db)
         else and_then (get_raw g username db) (\<lambda>found.
           case found of
             Some m \<Rightarrow>
               if rm_status m = Banned
               then upsert_member g \<lparr> rm_username = username, rm_is_admin = False, rm_status = Pending \<rparr> db
               else Inr (False, db)
           | None \<Rightarrow> Inr (False, db))
     | AddAdmin username \<Rightarrow>
         if \<not> sender_admin then Inr (False, db)
         else and_then (get_raw g username db) (\<lambda>found.
           case found of
             Some m \<Rightarrow>
               if is_active m
               then upsert_member g \<lparr> rm_username = username, rm_is_admin = True, rm_status = rm_status m \<rparr> db
               else Inr (False, db)
           | None \<Rightarrow> Inr (False, db))
     | RemoveAdmin username \<Rightarrow>
         if \<not> sender_admin then Inr (False, db)
         else and_then (get_raw g username db) (\<lambda>found.
           case found of
             Some m \<Rightarrow>
               if is_active m
               then upsert_member g \<lparr> rm_username = username, rm_is_admin = False, rm_status = rm_status m \<rparr> db
               else Inr (False, db)
           | None \<Rightarrow> Inr (False, db)))"

definition apply_manage_message ::
  "group_id \<Rightarrow> username \<Rightarrow> group_manage_msg \<Rightarrow> client_db \<Rightarrow> anyhow + (bool \<times> client_db)" where
  "apply_manage_message g sender manage db =
     and_then (manage_change g sender manage db) (\<lambda>(changed, db).
       Inr (changed, if changed then bump_version g db else db))"

section \<open>The abstract roster\<close>

type_synonym roster = "username \<Rightarrow> (bool \<times> group_member_status) option"

definition roster_of :: "group_id \<Rightarrow> client_db \<Rightarrow> roster" where
  "roster_of g db u =
     map_option (\<lambda>r. (mw_is_admin r \<noteq> 0, the (status_from_str (mw_status r))))
       (t_get member_key (group_column g, username_as_str u) (c_members db))"

definition version_of :: "group_id \<Rightarrow> client_db \<Rightarrow> i64 option" where
  "version_of g db = map_option gw_roster_version (t_get gw_group_id (group_column g) (c_groups db))"

text \<open>What the schema's constraints say of the rows.\<close>

definition members_ok :: "client_db \<Rightarrow> bool" where
  "members_ok db \<longleftrightarrow> (\<forall>r \<in> set (c_members db).
     mw_is_admin r \<in> {0, 1} \<and> status_from_str (mw_status r) \<noteq> None \<and> group_known db (mw_group_id r))"

definition active :: "(bool \<times> group_member_status) option \<Rightarrow> bool" where
  "active x \<longleftrightarrow> (\<exists>a st. x = Some (a, st) \<and> st \<noteq> Banned)"

definition active_admin :: "(bool \<times> group_member_status) option \<Rightarrow> bool" where
  "active_admin x \<longleftrightarrow> (\<exists>st. x = Some (True, st) \<and> st \<noteq> Banned)"

definition banned :: "(bool \<times> group_member_status) option \<Rightarrow> bool" where
  "banned x \<longleftrightarrow> (\<exists>a. x = Some (a, Banned))"

fun manage_spec :: "username \<Rightarrow> group_manage_msg \<Rightarrow> roster \<Rightarrow> roster" where
  "manage_spec s (InviteSent u) R = (if active (R s) \<and> R u = None then R(u \<mapsto> (False, Pending)) else R)"
| "manage_spec s InviteAccepted R = (if banned (R s) then R else R(s \<mapsto> (False, Accepted)))"
| "manage_spec s Leave R = (if banned (R s) then R else R(s := None))"
| "manage_spec s (Ban u) R = (if active_admin (R s) then R(u \<mapsto> (False, Banned)) else R)"
| "manage_spec s (Unban u) R =
     (if active_admin (R s) \<and> banned (R u) then R(u \<mapsto> (False, Pending)) else R)"
| "manage_spec s (AddAdmin u) R =
     (if active_admin (R s) \<and> active (R u) then R(u \<mapsto> (True, snd (the (R u)))) else R)"
| "manage_spec s (RemoveAdmin u) R =
     (if active_admin (R s) \<and> active (R u) then R(u \<mapsto> (False, snd (the (R u)))) else R)"

section \<open>The statements refine the abstract effect\<close>

lemma status_back [simp]: "status_from_str (status_as_str st) = Some st"
  by (cases st) (simp_all add: status_from_str_def)

lemma status_from_str_Some: "status_from_str s = Some st \<longleftrightarrow> s = status_as_str st"
  by (cases st) (auto simp: status_from_str_def split: if_splits)

lemma group_column_inject [simp]: "group_column g = group_column g' \<longleftrightarrow> g = g'"
  by (cases g; cases g'; cases "group_id_hash g"; cases "group_id_hash g'")
    (auto simp: group_column_def group_id_as_bytes_def)

lemma bool_i64_simps [simp]: "bool_i64 b \<in> {0, 1}" "bool_i64 b \<noteq> 0 \<longleftrightarrow> b" "bool_i64 b = 0 \<longleftrightarrow> \<not> b"
  by (simp_all add: bool_i64_def)

lemma member_key_rows [simp]:
  "member_key \<lparr> mw_group_id = g, mw_username = u, mw_is_admin = a, mw_status = st \<rparr> = (g, u)"
  "member_key (r \<lparr> mw_is_admin := x, mw_status := y \<rparr>) = member_key r"
  by (simp_all add: member_key_def)

lemma get_raw_roster:
  assumes "members_ok db"
  shows "get_raw g u db = Inr (map_option
    (\<lambda>(a, st). \<lparr> rm_username = u, rm_is_admin = a, rm_status = st \<rparr>) (roster_of g db u))"
proof (cases "t_get member_key (group_column g, username_as_str u) (c_members db)")
  case (Some r)
  with assms t_get_SomeD [OF this] have "status_from_str (mw_status r) \<noteq> None"
    by (auto simp: members_ok_def)
  with Some show ?thesis by (auto simp: get_raw_def row_member_def roster_of_def)
qed (simp add: get_raw_def roster_of_def)

lemma is_active_simps [simp]:
  "is_active \<lparr> rm_username = u, rm_is_admin = a, rm_status = st \<rparr> \<longleftrightarrow> st \<noteq> Banned"
  by (cases st) (simp_all add: is_active_def)

text \<open>One write: the entry becomes the given one, everything else stays, and the answer says whether
  the roster has changed.\<close>

definition writes :: "group_id \<Rightarrow> roster \<Rightarrow> client_db \<Rightarrow> anyhow + (bool \<times> client_db) \<Rightarrow> bool" where
  "writes g R db res \<longleftrightarrow> (\<exists>changed db'. res = Inr (changed, db') \<and> roster_of g db' = R \<and> members_ok db' \<and>
     (changed \<longleftrightarrow> R \<noteq> roster_of g db) \<and> (\<not> changed \<longrightarrow> db' = db) \<and>
     (\<forall>g'. g' \<noteq> g \<longrightarrow> roster_of g' db' = roster_of g' db) \<and> db' = db \<lparr> c_members := c_members db' \<rparr>)"

lemma writes_same: "members_ok db \<Longrightarrow> R = roster_of g db \<Longrightarrow> writes g R db (Inr (False, db))"
  by (auto simp: writes_def)

lemma roster_of_upd:
  assumes "\<And>k. t_get member_key k (c_members db') = (if k = (group_column g, username_as_str u) then Some r
      else t_get member_key k (c_members db))"
    and "mw_is_admin r = bool_i64 a" and "mw_status r = status_as_str st"
  shows "roster_of g db' = (roster_of g db)(u \<mapsto> (a, st))"
    and "g' \<noteq> g \<Longrightarrow> roster_of g' db' = roster_of g' db"
  using assms by (auto simp: roster_of_def fun_eq_iff)

lemma writes_changed:
  assumes "roster_of g db' = (roster_of g db)(u \<mapsto> x)" and "\<And>g'. g' \<noteq> g \<Longrightarrow> roster_of g' db' = roster_of g' db"
    and "roster_of g db u \<noteq> Some x" and "members_ok db'" and "db' = db \<lparr> c_members := c_members db' \<rparr>"
  shows "writes g ((roster_of g db)(u \<mapsto> x)) db (Inr (True, db'))"
proof -
  have "(roster_of g db)(u \<mapsto> x) \<noteq> roster_of g db"
    using assms(3) by (auto simp: fun_eq_iff)
  with assms show ?thesis by (auto simp: writes_def)
qed

lemma writes_upsert:
  assumes ok: "members_ok db" and known: "group_known db (group_column g)"
    and R: "R = (roster_of g db)(u \<mapsto> (a, st))"
  shows "writes g R db (upsert_member g \<lparr> rm_username = u, rm_is_admin = a, rm_status = st \<rparr> db)"
proof (cases "t_get member_key (group_column g, username_as_str u) (c_members db)")
  case None
  let ?r = "\<lparr> mw_group_id = group_column g, mw_username = username_as_str u, mw_is_admin = bool_i64 a,
    mw_status = status_as_str st \<rparr>"
  let ?db = "db \<lparr> c_members := c_members db @ [?r] \<rparr>"
  have "t_get member_key k (c_members ?db) = (if k = (group_column g, username_as_str u) then Some ?r
      else t_get member_key k (c_members db))" for k
    using None by (auto simp: t_get_append t_get_simps split: option.split)
  note upd = roster_of_upd [OF this, of a st, simplified]
  have "members_ok ?db" using ok known by (auto simp: members_ok_def group_known_def bool_i64_def)
  moreover have "roster_of g db u \<noteq> Some (a, st)" using None by (simp add: roster_of_def)
  ultimately have "writes g R db (Inr (True, ?db))"
    unfolding R by (intro writes_changed upd) auto
  with None known show ?thesis by (simp add: upsert_member_def Let_def)
next
  case (Some r)
  with ok t_get_SomeD [OF this] obtain st0 where r: "mw_is_admin r = 0 \<or> mw_is_admin r = 1" "mw_status r = status_as_str st0"
    by (auto simp: members_ok_def status_from_str_Some)
  have same: "mw_is_admin r = bool_i64 a \<and> mw_status r = status_as_str st \<longleftrightarrow> roster_of g db u = Some (a, st)"
    using r Some by (cases st; cases st0) (auto simp: roster_of_def bool_i64_def status_from_str_def)
  show ?thesis
  proof (cases "mw_is_admin r = bool_i64 a \<and> mw_status r = status_as_str st")
    case True
    with same have "R = roster_of g db" by (auto simp: R fun_eq_iff)
    with True Some ok show ?thesis by (simp add: upsert_member_def writes_same)
  next
    case False
    let ?f = "\<lambda>r. r \<lparr> mw_is_admin := bool_i64 a, mw_status := status_as_str st \<rparr>"
    let ?db = "db \<lparr> c_members := t_update (\<lambda>r. member_key r = (group_column g, username_as_str u)) ?f (c_members db) \<rparr>"
    have "t_get member_key k (c_members ?db) = (if k = (group_column g, username_as_str u) then Some (?f r)
        else t_get member_key k (c_members db))" for k
      using Some t_get_update [of member_key ?f k] by simp
    note upd = roster_of_upd [OF this, of a st, simplified]
    have "members_ok ?db" using ok by (auto simp: members_ok_def group_known_def bool_i64_def t_update_def)
    moreover have "roster_of g db u \<noteq> Some (a, st)" using False same by blast
    ultimately have "writes g R db (Inr (True, ?db))"
      unfolding R by (intro writes_changed upd) auto
    with False Some show ?thesis by (auto simp: upsert_member_def Let_def)
  qed
qed

lemma writes_remove:
  assumes ok: "members_ok db" and there: "roster_of g db u \<noteq> None"
  shows "writes g ((roster_of g db)(u := None)) db (Inr (remove_member g u db))"
proof -
  have get: "t_get member_key k (t_delete (\<lambda>r. member_key r = k') t)
      = (if k = k' then None else t_get member_key k t)" for k k' t
    by (induction t) (auto simp: t_delete_def t_get_simps)
  have "roster_of g (snd (remove_member g u db)) = (roster_of g db)(u := None)"
    and others: "g' \<noteq> g \<Longrightarrow> roster_of g' (snd (remove_member g u db)) = roster_of g' db" for g'
    by (auto simp: remove_member_def Let_def roster_of_def fun_eq_iff get)
  moreover have "members_ok (snd (remove_member g u db))"
    using ok by (auto simp: remove_member_def Let_def members_ok_def group_known_def)
  moreover have "fst (remove_member g u db)"
  proof (rule ccontr)
    assume "\<not> fst (remove_member g u db)"
    then have "t_get member_key (group_column g, username_as_str u) (c_members db) = None"
      by (simp add: remove_member_def Let_def t_get_None)
    with there show False by (simp add: roster_of_def)
  qed
  moreover have "(roster_of g db)(u := None) \<noteq> roster_of g db"
    using there by (auto simp: fun_eq_iff)
  moreover have "snd (remove_member g u db) = db \<lparr> c_members := c_members (snd (remove_member g u db)) \<rparr>"
    by (simp add: remove_member_def Let_def)
  ultimately show ?thesis
    unfolding writes_def by (intro exI [of _ True] exI [of _ "snd (remove_member g u db)"]) (auto simp: prod_eq_iff)
qed

lemma active_simps [simp]:
  "active None = False" "active (Some (a, st)) \<longleftrightarrow> st \<noteq> Banned"
  "active_admin None = False" "active_admin (Some (a, st)) \<longleftrightarrow> a \<and> st \<noteq> Banned"
  "banned None = False" "banned (Some (a, st)) \<longleftrightarrow> st = Banned"
  by (auto simp: active_def active_admin_def banned_def)

lemma manage_change_refines:
  assumes ok: "members_ok db" and known: "group_known db (group_column g)"
  shows "writes g (manage_spec s m (roster_of g db)) db (manage_change g s m db)"
proof -
  note get = get_raw_roster [OF ok]
  note up = writes_upsert [OF ok known refl]
  note same = writes_same [OF ok]
  have pend: "st \<noteq> Banned \<Longrightarrow> st \<noteq> Accepted \<Longrightarrow> st = Pending" for st by (cases st) auto
  show ?thesis
  proof (cases m)
    case (InviteSent u)
    then show ?thesis
      by (cases "roster_of g db s"; cases "roster_of g db u")
        (auto simp: manage_change_def get Let_def up dest: pend intro!: same)
  next
    case InviteAccepted
    then show ?thesis
      by (cases "roster_of g db s") (auto simp: manage_change_def get Let_def up intro!: same)
  next
    case (Ban u)
    then show ?thesis
      by (cases "roster_of g db s") (auto simp: manage_change_def get Let_def up intro!: same)
  next
    case (Unban u)
    then show ?thesis
      by (cases "roster_of g db s"; cases "roster_of g db u")
        (auto simp: manage_change_def get Let_def up intro!: same)
  next
    case Leave
    have "(roster_of g db)(s := None) = roster_of g db" if "roster_of g db s = None"
      using that by (auto simp: fun_eq_iff)
    with Leave show ?thesis
      by (cases "roster_of g db s") (auto simp: manage_change_def get Let_def writes_remove [OF ok] intro!: same)
  next
    case (AddAdmin u)
    then show ?thesis
      by (cases "roster_of g db s"; cases "roster_of g db u")
        (auto simp: manage_change_def get Let_def up intro!: same)
  next
    case (RemoveAdmin u)
    then show ?thesis
      by (cases "roster_of g db s"; cases "roster_of g db u")
        (auto simp: manage_change_def get Let_def up intro!: same)
  qed
qed

lemma set_version_sel [simp]:
  "c_members (set_version g f db) = c_members db"
  "roster_of g' (set_version g f db) = roster_of g' db"
  "group_known (set_version g f db) = group_known db"
  "members_ok (set_version g f db) = members_ok db"
proof -
  have "map gw_group_id (c_groups (set_version g f db)) = map gw_group_id (c_groups db)"
    by (simp add: set_version_def t_update_def)
  then have ids: "gw_group_id ` set (c_groups (set_version g f db)) = gw_group_id ` set (c_groups db)"
    by (metis list.set_map)
  show "c_members (set_version g f db) = c_members db" by (simp add: set_version_def)
  then show "roster_of g' (set_version g f db) = roster_of g' db" by (simp add: roster_of_def fun_eq_iff)
  show "group_known (set_version g f db) = group_known db" by (simp add: group_known_def ids fun_eq_iff)
  then show "members_ok (set_version g f db) = members_ok db"
    by (simp add: members_ok_def \<open>c_members (set_version g f db) = c_members db\<close>)
qed

lemma version_set: "version_of g' (set_version g f db)
    = (if g' = g then map_option f (version_of g db) else version_of g' db)"
proof -
  have "t_get gw_group_id k (c_groups (set_version g f db)) = (if k = group_column g then
      map_option (\<lambda>r. r \<lparr> gw_roster_version := f (gw_roster_version r) \<rparr>) (t_get gw_group_id k (c_groups db))
      else t_get gw_group_id k (c_groups db))" for k
    unfolding set_version_def by (simp add: t_get_update)
  then show ?thesis
    by (cases "t_get gw_group_id (group_column g) (c_groups db)") (auto simp: version_of_def)
qed

lemma apply_refines:
  assumes "members_ok db" and "group_known db (group_column g)"
  shows "\<exists>changed db'. apply_manage_message g s m db = Inr (changed, db') \<and>
    roster_of g db' = manage_spec s m (roster_of g db) \<and> (changed \<longleftrightarrow> roster_of g db' \<noteq> roster_of g db) \<and>
    version_of g db' = map_option (\<lambda>v. if changed then v + 1 else v) (version_of g db) \<and>
    (\<forall>g'. g' \<noteq> g \<longrightarrow> roster_of g' db' = roster_of g' db \<and> version_of g' db' = version_of g' db) \<and>
    members_ok db' \<and> group_known db' (group_column g)"
proof -
  obtain changed db1 where one: "manage_change g s m db = Inr (changed, db1)"
    and R: "roster_of g db1 = manage_spec s m (roster_of g db)" "changed \<longleftrightarrow> roster_of g db1 \<noteq> roster_of g db"
    and others: "\<forall>g'. g' \<noteq> g \<longrightarrow> roster_of g' db1 = roster_of g' db"
    and mem: "members_ok db1" "db1 = db \<lparr> c_members := c_members db1 \<rparr>"
    using manage_change_refines [OF assms, of s m] unfolding writes_def by auto
  from mem(2) have groups: "c_groups db1 = c_groups db" by (metis client_db.select_convs(4) client_db.update_convs(5) client_db.surjective)
  then have v: "version_of g' db1 = version_of g' db" "group_known db1 = group_known db" for g'
    by (simp_all add: version_of_def group_known_def fun_eq_iff)
  let ?db' = "if changed then bump_version g db1 else db1"
  have "apply_manage_message g s m db = Inr (changed, ?db')" by (simp add: apply_manage_message_def one)
  then show ?thesis
    using R others mem(1) v assms(2)
    by (cases changed) (auto simp: bump_version_def version_set map_option_idI option.map_ident)
qed

section \<open>Sequences of messages\<close>

fun apply_all :: "group_id \<Rightarrow> (username \<times> group_manage_msg) list \<Rightarrow> client_db \<Rightarrow> anyhow + client_db" where
  "apply_all g [] db = Inr db"
| "apply_all g ((s, m) # msgs) db = and_then (apply_manage_message g s m db) (\<lambda>(_, db). apply_all g msgs db)"

fun manage_all :: "(username \<times> group_manage_msg) list \<Rightarrow> roster \<Rightarrow> roster" where
  "manage_all [] R = R"
| "manage_all ((s, m) # msgs) R = manage_all msgs (manage_spec s m R)"

lemma apply_all_refines:
  assumes "members_ok db" and "group_known db (group_column g)"
  shows "\<exists>db'. apply_all g msgs db = Inr db' \<and> roster_of g db' = manage_all msgs (roster_of g db) \<and>
    members_ok db' \<and> group_known db' (group_column g)"
  using assms
proof (induction msgs arbitrary: db)
  case (Cons sm msgs)
  obtain s m where sm: "sm = (s, m)" by fastforce
  obtain changed db1 where one: "apply_manage_message g s m db = Inr (changed, db1)"
    "roster_of g db1 = manage_spec s m (roster_of g db)" "members_ok db1" "group_known db1 (group_column g)"
    using apply_refines [OF Cons.prems, of s m] by blast
  from Cons.IH [OF one(3,4)] one(1,2) show ?case by (auto simp: sm)
qed simp

lemma manage_banned:
  "banned (R u) \<Longrightarrow> Unban u \<noteq> m \<Longrightarrow> banned (manage_spec s m R u)"
  by (cases m) (auto simp: banned_def active_def)

lemma manage_all_banned:
  "banned (R u) \<Longrightarrow> (\<forall>s. (s, Unban u) \<notin> set msgs) \<Longrightarrow> banned (manage_all msgs R u)"
proof (induction msgs arbitrary: R)
  case (Cons sm msgs)
  obtain s m where sm: "sm = (s, m)" by fastforce
  with Cons.prems have "banned (manage_spec s m R u)" by (intro manage_banned) auto
  with Cons show ?case by (simp add: sm)
qed simp

lemma manage_admin:
  "active_admin (manage_spec s m R u) \<Longrightarrow> active_admin (R u) \<or> m = AddAdmin u \<and> active_admin (R s)"
  by (cases m) (auto simp: active_admin_def split: if_splits)

lemma manage_all_admin:
  "active_admin (manage_all msgs R u) \<Longrightarrow>
     active_admin (R u) \<or> (\<exists>s. (s, AddAdmin u) \<in> set msgs) \<and> (\<exists>s. active_admin (R s))"
proof (induction msgs arbitrary: R)
  case (Cons sm msgs)
  obtain s m where sm: "sm = (s, m)" by fastforce
  from Cons.prems have "active_admin (manage_all msgs (manage_spec s m R) u)" by (simp add: sm)
  from Cons.IH [OF this] show ?case
    using manage_admin [of s m R] by (auto simp: sm dest!: manage_admin)
qed simp

lemma manage_others:
  assumes "manage_spec s m R u \<noteq> R u" and "\<not> active_admin (R s)"
  shows "u = s \<or> R u = None"
  using assms by (cases m) (auto split: if_splits)

lemma manage_all_others:
  assumes "manage_all msgs R u \<noteq> R u"
  shows "u \<in> fst ` set msgs \<or> R u = None \<or>
    (\<exists>pre s m post. msgs = pre @ (s, m) # post \<and> active_admin (manage_all pre R s))"
  using assms
proof (induction msgs arbitrary: R)
  case (Cons sm msgs)
  obtain s m where sm: "sm = (s, m)" by fastforce
  show ?case
  proof (cases "active_admin (R s)")
    case True
    then show ?thesis
      by (intro disjI2 exI [of _ "[]"] exI [of _ s] exI [of _ m] exI [of _ msgs]) (simp add: sm)
  next
    case False
    show ?thesis
    proof (cases "manage_spec s m R u = R u")
      case True
      with Cons.prems have "manage_all msgs (manage_spec s m R) u \<noteq> manage_spec s m R u" by (simp add: sm)
      from Cons.IH [OF this] True
      consider "u \<in> fst ` set msgs \<or> R u = None"
        | pre s' m' post where "msgs = pre @ (s', m') # post" "active_admin (manage_all pre (manage_spec s m R) s')"
        by metis
      then show ?thesis
      proof cases
        case 2
        then have "sm # msgs = (sm # pre) @ (s', m') # post \<and> active_admin (manage_all (sm # pre) R s')"
          by (simp add: sm)
        then show ?thesis by blast
      qed auto
    next
      case False
      from manage_others [OF this \<open>\<not> active_admin (R s)\<close>] show ?thesis by (auto simp: sm)
    qed
  qed
qed simp

section \<open>Properties\<close>

text \<open>C16: applying a management message never fails on a known group, and refines the abstract effect:
  the group's roster becomes \<open>manage_spec\<close> of the old one, the answer and the version number say exactly
  whether it changed, and no other group's roster or version is touched.\<close>

theorem roster_refines:
  assumes "members_ok db" and "group_known db (group_column g)"
  shows "\<exists>changed db'. apply_manage_message g s m db = Inr (changed, db') \<and>
    roster_of g db' = manage_spec s m (roster_of g db) \<and> (changed \<longleftrightarrow> roster_of g db' \<noteq> roster_of g db) \<and>
    version_of g db' = map_option (\<lambda>v. if changed then v + 1 else v) (version_of g db) \<and>
    (\<forall>g'. g' \<noteq> g \<longrightarrow> roster_of g' db' = roster_of g' db \<and> version_of g' db' = version_of g' db) \<and>
    members_ok db' \<and> group_known db' (group_column g)"
  using assms by (rule apply_refines)

definition demo_group :: group_id where "demo_group = GroupId (Hash 9)"

definition demo_group_db :: client_db where
  "demo_group_db = empty_client_db \<lparr>
     c_groups := [\<lparr> gw_group_id = group_column demo_group, gw_descriptor = [], gw_server_name = ''~serv_01'', gw_token = [],
       gw_key_current = [], gw_key_prev = [], gw_roster_version = 1 \<rparr>],
     c_members := [\<lparr> mw_group_id = group_column demo_group, mw_username = ''@alice'', mw_is_admin = 1, mw_status = ''accepted'' \<rparr>,
       \<lparr> mw_group_id = group_column demo_group, mw_username = ''@mallory'', mw_is_admin = 0, mw_status = ''banned'' \<rparr>] \<rparr>"

lemma demo_group_db_ok: "members_ok demo_group_db" "group_known demo_group_db (group_column demo_group)"
  by (simp_all add: demo_group_db_def members_ok_def group_known_def empty_client_db_def status_from_str_def)

lemma demo_roster:
  "roster_of demo_group demo_group_db (UserName ''@alice'') = Some (True, Accepted)"
  "roster_of demo_group demo_group_db (UserName ''@mallory'') = Some (False, Banned)"
  by (simp_all add: roster_of_def demo_group_db_def empty_client_db_def t_get_simps member_key_def status_from_str_def)

theorem roster_refines_witness:
  "\<exists>changed db'. apply_manage_message demo_group (UserName ''@alice'') (InviteSent (UserName ''@bobby'')) demo_group_db
      = Inr (changed, db') \<and> roster_of demo_group db' (UserName ''@bobby'') = Some (False, Pending)"
proof -
  let ?s = "UserName ''@alice''" and ?u = "UserName ''@bobby''"
  obtain changed db' where run: "apply_manage_message demo_group ?s (InviteSent ?u) demo_group_db = Inr (changed, db')"
    and R: "roster_of demo_group db' = manage_spec ?s (InviteSent ?u) (roster_of demo_group demo_group_db)"
    using roster_refines [OF demo_group_db_ok, of ?s "InviteSent ?u"] by blast
  have "roster_of demo_group demo_group_db ?u = None"
    by (simp add: roster_of_def demo_group_db_def empty_client_db_def t_get_simps member_key_def)
  then have "roster_of demo_group db' ?u = Some (False, Pending)" by (simp add: R demo_roster)
  with run show ?thesis by blast
qed



end
