(* ===== verification/UserInfo.thy ===== *)
theory UserInfo
  imports ClientDb Device
begin

text \<open>
  What the client knows about other users (\<open>nullspace-client/src/user_info.rs\<close>): the cached
  descriptor, the cached device chains and medium-term keys, and their refresh from the user's server.
  A handler returns its result together with the database, since each statement commits by itself;
  \<open>call\<close> is \<open>?\<close> for such handlers. The connection to a server is a parameter, and so are the two
  requests made over it.
\<close>

section \<open>Handlers with effects\<close>

type_synonym ('s, 'a) eff = "'s \<Rightarrow> (anyhow + 'a) \<times> 's"

definition call :: "('s, 'a) eff \<Rightarrow> ('a \<Rightarrow> ('s, 'b) eff) \<Rightarrow> ('s, 'b) eff" where
  "call m k s = (case m s of (Inl e, s') \<Rightarrow> (Inl e, s') | (Inr x, s') \<Rightarrow> k x s')"

definition done_with :: "anyhow + 'a \<Rightarrow> ('s, 'a) eff" where
  "done_with r s = (r, s)"

definition modify_by :: "('s \<Rightarrow> 's) \<Rightarrow> ('s, unit) eff" where
  "modify_by f s = (Inr (), f s)"

text \<open>A transaction that commits on success and rolls back on failure.\<close>

definition transact :: "('s \<Rightarrow> anyhow + ('a \<times> 's)) \<Rightarrow> ('s, 'a) eff" where
  "transact f s = (case f s of Inl e \<Rightarrow> (Inl e, s) | Inr (x, s') \<Rightarrow> (Inr x, s'))"

lemma eff_simps [simp]:
  "call (done_with (Inr x)) k s = k x s" "call (done_with (Inl e)) k s = (Inl e, s)"
  "call (modify_by f) k s = k () (f s)"
  "done_with r s = (r, s)" "modify_by f s = (Inr (), f s)"
  by (simp_all add: call_def done_with_def modify_by_def)

lemma call_Inr: "call m k s = (Inr y, s') \<longleftrightarrow> (\<exists>x s1. m s = (Inr x, s1) \<and> k x s1 = (Inr y, s'))"
  by (auto simp: call_def split: prod.splits sum.splits)

lemma call_eq: "m s = (Inr x, s1) \<Longrightarrow> call m k s = k x s1"
  by (simp add: call_def)

section \<open>Maps in columns\<close>

definition ser_btree :: "('k \<Rightarrow> sval) \<Rightarrow> ('v \<Rightarrow> sval) \<Rightarrow> ('k, 'v) btree \<Rightarrow> sval" where
  "ser_btree sk sv m = VMap (map (\<lambda>(k, v). (sk k, sv v)) m)"

fun de_entries :: "(sval \<Rightarrow> 'k::linorder option) \<Rightarrow> (sval \<Rightarrow> 'v option) \<Rightarrow> (sval \<times> sval) list
    \<Rightarrow> ('k, 'v) btree \<Rightarrow> ('k, 'v) btree option" where
  "de_entries dk dv [] acc = Some acc"
| "de_entries dk dv ((a, b) # kvs) acc =
     (case (dk a, dv b) of (Some k, Some v) \<Rightarrow> de_entries dk dv kvs (bt_insert k v acc) | _ \<Rightarrow> None)"

fun de_btree :: "(sval \<Rightarrow> 'k::linorder option) \<Rightarrow> (sval \<Rightarrow> 'v option) \<Rightarrow> sval \<Rightarrow> ('k, 'v) btree option" where
  "de_btree dk dv (VMap kvs) = de_entries dk dv kvs []"
| "de_btree dk dv _ = None"

definition ser_smp :: "signed_medium_pk \<Rightarrow> sval" where
  "ser_smp k = VTup [ser_dh_public (smp_medium_pk k), VU64 (smp_created k), ser_signature (smp_signature k)]"

definition ty_smp :: styp where "ty_smp = TTup [TBytes, TU64, TBytes]"

fun de_smp :: "sval \<Rightarrow> signed_medium_pk option" where
  "de_smp (VTup [p, c, s]) =
     (case (de_dh_public p, de_u64 c, de_signature s) of
        (Some pk, Some created, Some sig) \<Rightarrow>
          Some \<lparr> smp_medium_pk = pk, smp_created = created, smp_signature = sig \<rparr>
      | _ \<Rightarrow> None)"
| "de_smp _ = None"

type_synonym chain_map = "(hash, certificate_chain) btree"
type_synonym medium_map = "(hash, signed_medium_pk) btree"

section \<open>The caches\<close>

definition USER_CACHE_TTL_SECONDS :: int where "USER_CACHE_TTL_SECONDS = 60"

text \<open>The clock as an \<open>i64\<close>, and a saturating difference of two.\<close>

definition now_seconds :: "timestamp \<Rightarrow> i64" where
  "now_seconds now = (case i64_try_from now of Some x \<Rightarrow> x | None \<Rightarrow> 2 ^ 63 - 1)"

definition sat_sub_i64 :: "i64 \<Rightarrow> i64 \<Rightarrow> int" where
  "sat_sub_i64 a b = max (- (2 ^ 63)) (min (2 ^ 63 - 1) (sint a - sint b))"

definition is_fresh :: "timestamp \<Rightarrow> i64 \<Rightarrow> bool" where
  "is_fresh now fetched_at \<longleftrightarrow> sat_sub_i64 (now_seconds now) fetched_at \<le> USER_CACHE_TTL_SECONDS"

definition load_cached_descriptor :: "ext \<Rightarrow> username \<Rightarrow> client_db \<Rightarrow> anyhow + (user_descriptor \<times> i64) option" where
  "load_cached_descriptor E u db =
     (case t_get dw_username (username_as_str u) (c_desc_cache db) of
        None \<Rightarrow> Inr None
      | Some r \<Rightarrow> and_then (ok_or ''decode error'' (bcs_from E ty_user_descriptor de_user_descriptor (dw_descriptor r)))
          (\<lambda>d. Inr (Some (d, dw_fetched_at r))))"

definition store_cached_descriptor ::
  "ext \<Rightarrow> timestamp \<Rightarrow> username \<Rightarrow> user_descriptor \<Rightarrow> client_db \<Rightarrow> anyhow + (unit \<times> client_db)" where
  "store_cached_descriptor E now u d db =
     and_then (ok_or ''encode error'' (bcs_enc E (ser_user_descriptor d))) (\<lambda>bytes.
       Inr ((), db \<lparr> c_desc_cache := t_replace dw_username \<lparr> dw_username = username_as_str u,
         dw_descriptor = bytes, dw_fetched_at = now_seconds now \<rparr> (c_desc_cache db) \<rparr>))"

definition load_cached_user_info_fetched_at :: "username \<Rightarrow> client_db \<Rightarrow> i64 option" where
  "load_cached_user_info_fetched_at u db = map_option snd (t_get fst (username_as_str u) (c_info_cache db))"

definition load_cached_device_chains :: "ext \<Rightarrow> username \<Rightarrow> client_db \<Rightarrow> anyhow + chain_map" where
  "load_cached_device_chains E u db =
     (case t_get fst (username_as_str u) (c_certs_cache db) of
        None \<Rightarrow> Inr []
      | Some r \<Rightarrow> ok_or ''decode error'' (bcs_from E (TMap TBytes ty_chain) (de_btree de_hash (de_chain E)) (snd r)))"

definition load_cached_medium_pks :: "ext \<Rightarrow> username \<Rightarrow> client_db \<Rightarrow> anyhow + medium_map" where
  "load_cached_medium_pks E u db =
     (case t_get fst (username_as_str u) (c_mediums_cache db) of
        None \<Rightarrow> Inr []
      | Some r \<Rightarrow> ok_or ''decode error'' (bcs_from E (TMap TBytes ty_smp) (de_btree de_hash de_smp) (snd r)))"

definition store_cached_user_info ::
  "ext \<Rightarrow> timestamp \<Rightarrow> username \<Rightarrow> chain_map \<Rightarrow> medium_map \<Rightarrow> client_db \<Rightarrow> anyhow + (unit \<times> client_db)" where
  "store_cached_user_info E now u device_chains medium_pks db =
     and_then (ok_or ''encode error'' (bcs_enc E (ser_btree ser_hash ser_chain device_chains))) (\<lambda>chains_bytes.
     and_then (ok_or ''encode error'' (bcs_enc E (ser_btree ser_hash ser_smp medium_pks))) (\<lambda>medium_bytes.
       Inr ((), db \<lparr> c_certs_cache := t_replace fst (username_as_str u, chains_bytes) (c_certs_cache db),
         c_mediums_cache := t_replace fst (username_as_str u, medium_bytes) (c_mediums_cache db),
         c_info_cache := t_replace fst (username_as_str u, now_seconds now) (c_info_cache db) \<rparr>)))"

section \<open>Looking a user up\<close>

definition cached_user_descriptor ::
  "ext \<Rightarrow> timestamp \<Rightarrow> (username \<Rightarrow> anyhow + user_descriptor option) \<Rightarrow> username \<Rightarrow> (client_db, user_descriptor) eff" where
  "cached_user_descriptor E now dir u db =
     (case load_cached_descriptor E u db of
        Inl e \<Rightarrow> (Inl e, db)
      | Inr cached \<Rightarrow>
          (case (case cached of Some (descriptor, fetched_at) \<Rightarrow> if is_fresh now fetched_at then Some descriptor else None
                 | None \<Rightarrow> None) of
             Some descriptor \<Rightarrow> (Inr descriptor, db)
           | None \<Rightarrow>
               call (done_with (and_then (dir u) (ok_or ''username not in directory''))) (\<lambda>descriptor.
               call (transact (store_cached_descriptor E now u descriptor)) (\<lambda>_.
                 done_with (Inr descriptor))) db))"

definition get_user_root_hash ::
  "ext \<Rightarrow> timestamp \<Rightarrow> (username \<Rightarrow> anyhow + user_descriptor option) \<Rightarrow> username \<Rightarrow> (client_db, hash) eff" where
  "get_user_root_hash E now dir u =
     call (cached_user_descriptor E now dir u) (\<lambda>d. done_with (Inr (ud_root_cert_hash d)))"

fun merge_monotonic_medium_pks :: "medium_map \<Rightarrow> medium_map \<Rightarrow> medium_map" where
  "merge_monotonic_medium_pks out [] = out"
| "merge_monotonic_medium_pks out ((device_hash, medium_pk) # fetched) =
     merge_monotonic_medium_pks
       (case map_of out device_hash of
          Some existing \<Rightarrow>
            if smp_created medium_pk < smp_created existing then out else bt_insert device_hash medium_pk out
        | None \<Rightarrow> bt_insert device_hash medium_pk out) fetched"

fun valid_chains :: "ext \<Rightarrow> timestamp \<Rightarrow> hash \<Rightarrow> chain_map \<Rightarrow> chain_map \<Rightarrow> chain_map" where
  "valid_chains E now root [] acc = acc"
| "valid_chains E now root ((device_hash, chain) # rest) acc =
     valid_chains E now root rest
       (if \<not> is_ok (chain_verify E now chain root) then acc
        else if pk_hash E (cert_pk (last_device chain)) \<noteq> device_hash then acc
        else bt_insert device_hash chain acc)"

record 'srv user_api =
  ua_connect :: "server_name \<Rightarrow> anyhow + 'srv"
  ua_device_certs :: "'srv \<Rightarrow> username \<Rightarrow> anyhow + (server_rpc_error + chain_map option)"
  ua_medium_pks :: "'srv \<Rightarrow> username \<Rightarrow> anyhow + (server_rpc_error + medium_map)"

record 'srv user_info =
  ui_username :: username
  ui_server :: 'srv
  ui_server_name :: server_name
  ui_device_chains :: chain_map
  ui_medium_pks :: medium_map

definition fetch_chains :: "'srv user_api \<Rightarrow> 'srv \<Rightarrow> username \<Rightarrow> anyhow + chain_map" where
  "fetch_chains api server u =
     and_then (ua_device_certs api server u) (\<lambda>r.
     and_then (map_err rpc_error_display r) (ok_or ''username has no certificate chains''))"

definition fetch_medium_pks :: "'srv user_api \<Rightarrow> 'srv \<Rightarrow> username \<Rightarrow> anyhow + medium_map" where
  "fetch_medium_pks api server u = and_then (ua_medium_pks api server u) (map_err rpc_error_display)"

definition get_user_info ::
  "ext \<Rightarrow> timestamp \<Rightarrow> (username \<Rightarrow> anyhow + user_descriptor option) \<Rightarrow> 'srv user_api \<Rightarrow> username
    \<Rightarrow> (client_db, 'srv user_info) eff" where
  "get_user_info E now dir api u =
     call (cached_user_descriptor E now dir u) (\<lambda>descriptor.
     call (done_with (ua_connect api (ud_server_name descriptor))) (\<lambda>server.
     call (\<lambda>db. (load_cached_device_chains E u db, db)) (\<lambda>cached_chains.
     call (\<lambda>db. (load_cached_medium_pks E u db, db)) (\<lambda>cached_mediums.
     call (\<lambda>db. (Inr (load_cached_user_info_fetched_at u db), db)) (\<lambda>fetched_at.
     let cache_fresh = (case fetched_at of None \<Rightarrow> False | Some t \<Rightarrow> is_fresh now t);
         should_refresh = (\<not> cache_fresh \<or> cached_chains = []) in
     call (if should_refresh
           then call (done_with (fetch_chains api server u)) (\<lambda>chains.
                call (done_with (fetch_medium_pks api server u)) (\<lambda>medium_pks.
                let merged = merge_monotonic_medium_pks cached_mediums medium_pks in
                call (transact (store_cached_user_info E now u chains merged)) (\<lambda>_.
                  done_with (Inr (chains, merged)))))
           else done_with (Inr (cached_chains, cached_mediums))) (\<lambda>(chains, mediums).
     let device_chains = valid_chains E now (ud_root_cert_hash descriptor) chains [] in
     if device_chains = [] then done_with (Inl ''no valid device certificate chains'')
     else done_with (Inr \<lparr> ui_username = u, ui_server = server, ui_server_name = ud_server_name descriptor,
            ui_device_chains = device_chains, ui_medium_pks = mediums \<rparr>)))))))"

section \<open>Lemmas\<close>

definition chain_listed :: "ext \<Rightarrow> timestamp \<Rightarrow> hash \<Rightarrow> hash \<Rightarrow> certificate_chain \<Rightarrow> bool" where
  "chain_listed E now root h ch \<longleftrightarrow> chain_ok E now ch root \<and> pk_hash E (cert_pk (last_device ch)) = h"

text \<open>The loop keeps exactly the chains that are good and stand under their own hash.\<close>

lemma map_of_valid_chains:
  "distinct (map fst m) \<Longrightarrow> map_of (valid_chains E now root m acc) h =
     (case map_of m h of
        Some ch \<Rightarrow> if chain_listed E now root h ch then Some ch else map_of acc h
      | None \<Rightarrow> map_of acc h)"
proof (induction m arbitrary: acc)
  case (Cons x m)
  obtain h' ch' where x: "x = (h', ch')" by fastforce
  have ok: "is_ok (chain_verify E now ch' root) \<longleftrightarrow> chain_ok E now ch' root"
    using chain_verify_iff [of E now ch' root] by (auto simp: is_ok_iff)
  from Cons.prems x have "h' \<notin> fst ` set m" "distinct (map fst m)" by auto
  then have "map_of m h' = None" by (simp add: map_of_eq_None_iff)
  then show ?case
    using Cons.IH [OF \<open>distinct (map fst m)\<close>] by (auto simp: x ok chain_listed_def split: option.split)
qed simp

lemma valid_chains_sound:
  "(h, ch) \<in> set (valid_chains E now root m acc) \<Longrightarrow> (h, ch) \<notin> set acc \<Longrightarrow> chain_listed E now root h ch"
proof (induction m arbitrary: acc)
  case (Cons x m)
  obtain h' ch' where x: "x = (h', ch')" by fastforce
  have ins: "(h, ch) \<in> set (bt_insert h' ch' acc) \<Longrightarrow> (h, ch) = (h', ch') \<or> (h, ch) \<in> set acc" for acc :: chain_map
    by (induction h' ch' acc rule: bt_insert.induct) (auto split: if_splits)
  have ok: "is_ok (chain_verify E now ch' root) \<longleftrightarrow> chain_ok E now ch' root"
    using chain_verify_iff [of E now ch' root] by (auto simp: is_ok_iff)
  show ?case
  proof (cases "chain_listed E now root h' ch'")
    case True
    then have "(h, ch) \<in> set (valid_chains E now root m (bt_insert h' ch' acc))"
      using Cons.prems by (simp add: x ok chain_listed_def)
    with Cons.IH Cons.prems(2) True ins show ?thesis by blast
  next
    case False
    then have "(h, ch) \<in> set (valid_chains E now root m acc)"
      using Cons.prems by (auto simp: x ok chain_listed_def split: if_splits)
    with Cons.IH Cons.prems(2) show ?thesis by blast
  qed
qed simp

text \<open>Merging never moves the creation time of a device's key back.\<close>

definition newer_keys :: "medium_map \<Rightarrow> medium_map \<Rightarrow> bool" where
  "newer_keys old new \<longleftrightarrow> (\<forall>h k. map_of old h = Some k \<longrightarrow> (\<exists>k'. map_of new h = Some k' \<and> smp_created k \<le> smp_created k'))"

lemma newer_keys_refl: "newer_keys m m"
  by (auto simp: newer_keys_def)

lemma merge_monotonic: "newer_keys out (merge_monotonic_medium_pks out fetched)"
proof (induction out fetched rule: merge_monotonic_medium_pks.induct)
  case (2 out h k fetched)
  let ?out = "case map_of out h of
      Some existing \<Rightarrow> if smp_created k < smp_created existing then out else bt_insert h k out
    | None \<Rightarrow> bt_insert h k out"
  have "newer_keys out ?out"
    by (auto simp: newer_keys_def split: option.split)
  with 2 show ?case
    unfolding newer_keys_def merge_monotonic_medium_pks.simps by (meson order_trans)
qed (simp add: newer_keys_refl)

lemma merge_no_regress:
  assumes "map_of out h = Some k0" and "\<forall>(h', k) \<in> set fetched. h' = h \<longrightarrow> smp_created k < smp_created k0"
  shows "map_of (merge_monotonic_medium_pks out fetched) h = Some k0"
  using assms
proof (induction out fetched rule: merge_monotonic_medium_pks.induct)
  case (2 out h' k fetched)
  then show ?case by (cases "h' = h") (auto split: option.splits)
qed simp

text \<open>A descriptor comes from the directory, or from a cache entry at most a minute old.\<close>

lemma cached_descriptor_Inr:
  assumes "cached_user_descriptor E now dir u db = (Inr d, db')"
  shows "dir u = Inr (Some d) \<or> (\<exists>t. load_cached_descriptor E u db = Inr (Some (d, t)) \<and> is_fresh now t)"
    and "c_certs_cache db' = c_certs_cache db" and "c_mediums_cache db' = c_mediums_cache db"
    and "c_info_cache db' = c_info_cache db"
proof -
  obtain cached where c: "load_cached_descriptor E u db = Inr cached"
    using assms by (cases "load_cached_descriptor E u db") (auto simp: cached_user_descriptor_def)
  show "dir u = Inr (Some d) \<or> (\<exists>t. load_cached_descriptor E u db = Inr (Some (d, t)) \<and> is_fresh now t)"
    and "c_certs_cache db' = c_certs_cache db" and "c_mediums_cache db' = c_mediums_cache db"
    and "c_info_cache db' = c_info_cache db"
    using assms c by (auto simp: cached_user_descriptor_def call_Inr transact_def store_cached_descriptor_def
        split: option.splits if_splits sum.splits prod.splits)
qed

lemma get_user_info_Inr:
  assumes "get_user_info E now dir api u db = (Inr info, db')"
  obtains d chains where "dir u = Inr (Some d) \<or> (\<exists>t. load_cached_descriptor E u db = Inr (Some (d, t)) \<and> is_fresh now t)"
    and "ui_device_chains info = valid_chains E now (ud_root_cert_hash d) chains []"
    and "ui_device_chains info \<noteq> []" and "ui_username info = u" and "ui_server_name info = ud_server_name d"
    and "ua_connect api (ud_server_name d) = Inr (ui_server info)"
    and "\<And>old. load_cached_medium_pks E u db = Inr old \<Longrightarrow> newer_keys old (ui_medium_pks info)"
proof -
  obtain d db1 where d: "cached_user_descriptor E now dir u db = (Inr d, db1)"
    using assms by (auto simp: get_user_info_def call_Inr)
  note c = cached_descriptor_Inr [OF d]
  have same: "load_cached_medium_pks E u db1 = load_cached_medium_pks E u db"
    by (simp add: load_cached_medium_pks_def c(3))
  have "\<exists>srv chains mediums old. ua_connect api (ud_server_name d) = Inr srv \<and>
      load_cached_medium_pks E u db1 = Inr old \<and> newer_keys old mediums \<and>
      valid_chains E now (ud_root_cert_hash d) chains [] \<noteq> [] \<and>
      info = \<lparr> ui_username = u, ui_server = srv, ui_server_name = ud_server_name d,
        ui_device_chains = valid_chains E now (ud_root_cert_hash d) chains [], ui_medium_pks = mediums \<rparr>"
    using assms d merge_monotonic newer_keys_refl unfolding get_user_info_def
    by (clarsimp simp: call_Inr Let_def split: if_splits; blast)
  then obtain srv chains mediums old where srv: "ua_connect api (ud_server_name d) = Inr srv"
    and old: "load_cached_medium_pks E u db1 = Inr old" and m: "newer_keys old mediums"
    and ne: "valid_chains E now (ud_root_cert_hash d) chains [] \<noteq> []"
    and info: "info = \<lparr> ui_username = u, ui_server = srv, ui_server_name = ud_server_name d,
      ui_device_chains = valid_chains E now (ud_root_cert_hash d) chains [], ui_medium_pks = mediums \<rparr>"
    by blast
  show thesis
    using that [OF c(1), of chains] srv ne old m by (simp add: info same)
qed

section \<open>Properties\<close>

text \<open>C19: whatever the user's server and the caches hold, what \<open>get_user_info\<close> returns is good: the
  descriptor is the directory's or a cached copy at most a minute old; every device chain verifies now
  under the descriptor's root hash and stands under the hash of its own device, and there is at least
  one; and no device's medium-term key is older than the cached one.\<close>

theorem user_info_sound:
  assumes "get_user_info E now dir api u db = (Inr info, db')"
  shows "\<exists>d. (dir u = Inr (Some d) \<or> (\<exists>t. load_cached_descriptor E u db = Inr (Some (d, t)) \<and> is_fresh now t)) \<and>
    ui_server_name info = ud_server_name d \<and> ui_device_chains info \<noteq> [] \<and>
    (\<forall>(h, ch) \<in> set (ui_device_chains info). chain_ok E now ch (ud_root_cert_hash d) \<and>
      pk_hash E (cert_pk (last_device ch)) = h) \<and>
    (\<forall>old h k. load_cached_medium_pks E u db = Inr old \<longrightarrow> map_of old h = Some k \<longrightarrow>
      (\<exists>k'. map_of (ui_medium_pks info) h = Some k' \<and> smp_created k \<le> smp_created k'))"
proof -
  from assms obtain d chains where
    d: "dir u = Inr (Some d) \<or> (\<exists>t. load_cached_descriptor E u db = Inr (Some (d, t)) \<and> is_fresh now t)"
    and chains: "ui_device_chains info = valid_chains E now (ud_root_cert_hash d) chains []"
    and ne: "ui_device_chains info \<noteq> []" and srv: "ui_server_name info = ud_server_name d"
    and keys: "\<And>old. load_cached_medium_pks E u db = Inr old \<Longrightarrow> newer_keys old (ui_medium_pks info)"
    by (rule get_user_info_Inr) blast
  have "chain_ok E now ch (ud_root_cert_hash d) \<and> pk_hash E (cert_pk (last_device ch)) = h"
    if "(h, ch) \<in> set (ui_device_chains info)" for h ch
    using valid_chains_sound [of h ch E now "ud_root_cert_hash d" chains "[]"] that
    by (simp add: chains chain_listed_def)
  then show ?thesis
    using d ne srv keys unfolding newer_keys_def by (intro exI [of _ d]) auto
qed

text \<open>A server that lists the demo chain and a signed medium-term key.\<close>

definition demo_device_hash :: hash where
  "demo_device_hash = pk_hash demo_ext (cert_pk (last_device demo_chain))"

definition demo_smp :: signed_medium_pk where
  "demo_smp = smp_sign demo_ext \<lparr> smp_medium_pk = dh_public_key demo_ext (DhSecret 7), smp_created = 50,
     smp_signature = zero_signature \<rparr> (SigningSecret 6)"

definition demo_api :: "unit user_api" where
  "demo_api = \<lparr> ua_connect = (\<lambda>n. Inr ()), ua_device_certs = (\<lambda>s u. Inr (Inr (Some [(demo_device_hash, demo_chain)]))),
     ua_medium_pks = (\<lambda>s u. Inr (Inr [(demo_device_hash, demo_smp)])) \<rparr>"

lemma demo_user_info:
  "\<exists>info db'. get_user_info demo_ext 100 demo_dir_lookup demo_api (UserName ''@alice'') empty_client_db = (Inr info, db') \<and>
     ui_device_chains info = [(demo_device_hash, demo_chain)] \<and> ui_medium_pks info = [(demo_device_hash, demo_smp)] \<and>
     ui_username info = UserName ''@alice'' \<and> ui_server_name info = ServerName ''~serv_01''"
proof -
  let ?u = "UserName ''@alice''"
  have enc: "bcs_enc demo_ext (ser_btree ser_hash ser_chain [(demo_device_hash, demo_chain)]) \<noteq> None"
    "bcs_enc demo_ext (ser_btree ser_hash ser_smp [(demo_device_hash, demo_smp)]) \<noteq> None"
    "bcs_enc demo_ext (ser_user_descriptor \<lparr> ud_server_name = ServerName ''~serv_01'', ud_root_cert_hash = demo_root \<rparr>) \<noteq> None"
    by code_simp+
  have ok: "is_ok (chain_verify demo_ext 100 demo_chain demo_root)"
    using demo_chain_ok chain_verify_iff [of demo_ext 100 demo_chain demo_root] by (simp add: is_ok_iff)
  show ?thesis
    using enc ok
    by (auto simp: get_user_info_def call_def cached_user_descriptor_def load_cached_descriptor_def
        demo_dir_lookup_def empty_client_db_def t_get_simps transact_def store_cached_descriptor_def demo_api_def
        load_cached_device_chains_def load_cached_medium_pks_def load_cached_user_info_fetched_at_def Let_def
        fetch_chains_def fetch_medium_pks_def store_cached_user_info_def demo_device_hash_def [symmetric])
qed

theorem user_info_sound_witness:
  "\<exists>info db'. get_user_info demo_ext 100 demo_dir_lookup demo_api (UserName ''@alice'') empty_client_db = (Inr info, db') \<and>
     ui_device_chains info = [(demo_device_hash, demo_chain)] \<and> ui_server_name info = ServerName ''~serv_01''"
proof -
  obtain info db' where run: "get_user_info demo_ext 100 demo_dir_lookup demo_api (UserName ''@alice'') empty_client_db = (Inr info, db')"
    and chains: "ui_device_chains info = [(demo_device_hash, demo_chain)]"
    using demo_user_info by blast
  from user_info_sound [OF run] have "ui_server_name info = ServerName ''~serv_01''"
    by (auto simp: demo_dir_lookup_def load_cached_descriptor_def empty_client_db_def t_get_simps)
  with run chains show ?thesis by blast
qed

end
