(* ===== verification/ConvoRecv.thy ===== *)
theory ConvoRecv
  imports Roster UserInfo
begin

text \<open>
  Receiving (\<open>nullspace-client/src/convo/dm_recv.rs\<close>, \<open>group_recv.rs\<close>, the receiving half of
  \<open>rekey.rs\<close> and the group records of \<open>group.rs\<close>): what one mailbox entry does to the client's
  database. The directory is a parameter; the clock is an argument, in seconds for certificates and
  caches, in nanoseconds for new rows. The loops around these handlers, which fetch the next entry
  from the long poller, are in \<open>ClientLoops\<close>.
\<close>

definition decode_as :: "ext \<Rightarrow> styp \<Rightarrow> (sval \<Rightarrow> 'a option) \<Rightarrow> bytes \<Rightarrow> anyhow + 'a" where
  "decode_as E t d b = ok_or ''decode error'' (bcs_from E t d b)"

definition read_db :: "('s \<Rightarrow> anyhow + 'a) \<Rightarrow> ('s, 'a) eff" where
  "read_db f s = (f s, s)"

section \<open>Group records\<close>

record group_record =
  gr_group_id :: group_id
  gr_descriptor :: group_descriptor
  gr_server_name :: server_name
  gr_token :: auth_token
  gr_key_current :: aead_key
  gr_key_prev :: aead_key

definition record_of_row :: "ext \<Rightarrow> group_row \<Rightarrow> anyhow + group_record" where
  "record_of_row E r =
     and_then (ok_or ''invalid group_id bytes'' (array_try_from (gw_group_id r))) (\<lambda>g.
     and_then (decode_as E (ty_group_descriptor TBytes TBytes) (de_group_descriptor de_hash de_aead_key) (gw_descriptor r)) (\<lambda>descriptor.
     and_then (decode_as E TBytes de_auth_token (gw_token r)) (\<lambda>token.
     and_then (decode_as E TBytes de_aead_key (gw_key_current r)) (\<lambda>current.
     and_then (decode_as E TBytes de_aead_key (gw_key_prev r)) (\<lambda>prev.
     and_then (map_err (\<lambda>_. ''invalid server name'') (server_name_parse (gw_server_name r))) (\<lambda>server_name.
       Inr \<lparr> gr_group_id = GroupId (Hash g), gr_descriptor = descriptor, gr_server_name = server_name,
             gr_token = token, gr_key_current = current, gr_key_prev = prev \<rparr>))))))"

definition load_group :: "ext \<Rightarrow> group_id \<Rightarrow> client_db \<Rightarrow> anyhow + group_record option" where
  "load_group E g db =
     (case t_get gw_group_id (group_column g) (c_groups db) of
        None \<Rightarrow> Inr None
      | Some r \<Rightarrow> and_then (record_of_row E r) (\<lambda>rec. Inr (Some rec)))"

fun records_of_rows :: "ext \<Rightarrow> group_row list \<Rightarrow> anyhow + group_record list" where
  "records_of_rows E [] = Inr []"
| "records_of_rows E (r # rs) =
     and_then (record_of_row E r) (\<lambda>rec. and_then (records_of_rows E rs) (\<lambda>out. Inr (rec # out)))"

definition load_groups :: "ext \<Rightarrow> client_db \<Rightarrow> anyhow + group_record list" where
  "load_groups E db = records_of_rows E (c_groups db)"

section \<open>Direct messages\<close>

definition dm_decrypt :: "ext \<Rightarrow> identity \<Rightarrow> header_encrypted \<Rightarrow> anyhow + bytes" where
  "dm_decrypt E identity encrypted =
     (case he_decrypt_bytes E encrypted (id_medium_sk_current identity) of
        Inr decrypted \<Rightarrow> Inr decrypted
      | Inl _ \<Rightarrow> map_err (\<lambda>_. ''failed to decrypt header-encrypted message'')
          (he_decrypt_bytes E encrypted (id_medium_sk_prev identity)))"

definition store_received ::
  "ext \<Rightarrow> nano_timestamp \<Rightarrow> string \<Rightarrow> string \<Rightarrow> username \<Rightarrow> event \<Rightarrow> nano_timestamp \<Rightarrow> (client_db, unit) eff" where
  "store_received E now_ns ctype counterparty sender content received_at =
     call (modify_by (note_attachment E sender (ev_mime content) (ev_body content))) (\<lambda>_.
     call (transact (ensure_convo_id now_ns ctype counterparty)) (\<lambda>convo_id.
       modify_by (ignore_message convo_id (username_as_str sender) (ev_mime content) (ev_body content)
         (ev_sent_at content) (Some received_at))))"

definition process_mailbox_entry ::
  "ext \<Rightarrow> timestamp \<Rightarrow> nano_timestamp \<Rightarrow> (username \<Rightarrow> anyhow + user_descriptor option) \<Rightarrow> server_name \<Rightarrow> mailbox_id
    \<Rightarrow> mailbox_entry \<Rightarrow> (client_db, unit) eff" where
  "process_mailbox_entry E now now_ns dir server_name mailbox entry =
     call (read_db (load_identity E)) (\<lambda>identity.
     call (modify_by (update_mailbox_after server_name mailbox (mbe_received_at entry))) (\<lambda>_.
     let message = mbe_message entry in
     if blob_kind message \<noteq> V1_DIRECT_MESSAGE then done_with (Inr ())
     else
       call (done_with (decode_as E ty_header_encrypted de_header_encrypted (blob_inner message))) (\<lambda>encrypted.
       call (done_with (dm_decrypt E identity encrypted)) (\<lambda>decrypted.
       call (done_with (decode_as E ty_device_signed (de_device_signed E) decrypted)) (\<lambda>signed.
       let sender_username = ds_sender signed in
       call (get_user_root_hash E now dir sender_username) (\<lambda>sender_root_hash.
       call (done_with (map_err (\<lambda>_. ''failed to verify device-signed message'')
         (device_verify_blob E now signed sender_root_hash))) (\<lambda>message.
       if blob_kind message \<noteq> V1_MESSAGE_CONTENT then done_with (Inr ())
       else
         call (done_with (decode_as E ty_event de_event (blob_inner message))) (\<lambda>content.
         case ev_recipient content of
           RGroup group_id \<Rightarrow> done_with (Inr ())
         | RUser recipient \<Rightarrow>
             if recipient \<noteq> id_username identity \<and> sender_username \<noteq> id_username identity then done_with (Inr ())
             else (let peer_username = (if sender_username = id_username identity then recipient else sender_username) in
               store_received E now_ns ''direct'' (username_as_str peer_username) sender_username content
                 (mbe_received_at entry))))))))))"

section \<open>Group messages, management and rekeying\<close>

definition sender_root :: "(username \<Rightarrow> anyhow + user_descriptor option) \<Rightarrow> username \<Rightarrow> anyhow + hash" where
  "sender_root dir sender =
     and_then (and_then (dir sender) (ok_or ''sender username not in directory'')) (\<lambda>d. Inr (ud_root_cert_hash d))"

definition ser_rekey :: "group_id \<times> 256 word \<Rightarrow> sval" where
  "ser_rekey p = VTup [ser_hash (group_id_hash (fst p)), ser_arr_u8 (snd p)]"

definition ty_rekey :: styp where "ty_rekey = TTup [TBytes, TTup (replicate 32 TU8)]"

fun de_rekey :: "sval \<Rightarrow> (group_id \<times> 256 word) option" where
  "de_rekey (VTup [g, k]) =
     (case (de_hash g, de_arr_u8 k) of (Some h, Some w) \<Rightarrow> Some (GroupId h, w) | _ \<Rightarrow> None)"
| "de_rekey _ = None"

definition install_key :: "ext \<Rightarrow> group_record \<Rightarrow> aead_key \<Rightarrow> client_db \<Rightarrow> anyhow + (unit \<times> client_db)" where
  "install_key E grp new_key db =
     and_then (ok_or ''encode error'' (bcs_enc E (ser_aead_key (gr_key_current grp)))) (\<lambda>prev.
     and_then (ok_or ''encode error'' (bcs_enc E (ser_aead_key new_key))) (\<lambda>current.
       Inr ((), db \<lparr> c_groups := t_update (\<lambda>r. gw_group_id r = group_column (gr_group_id grp))
         (\<lambda>r. r \<lparr> gw_key_prev := prev, gw_key_current := current \<rparr>) (c_groups db) \<rparr>)))"

definition process_group_rekey_entry ::
  "ext \<Rightarrow> timestamp \<Rightarrow> (username \<Rightarrow> anyhow + user_descriptor option) \<Rightarrow> group_record \<Rightarrow> blob \<Rightarrow> (client_db, unit) eff" where
  "process_group_rekey_entry E now dir grp message =
     call (read_db (load_identity E)) (\<lambda>identity.
     call (done_with (decode_as E ty_header_encrypted de_header_encrypted (blob_inner message))) (\<lambda>encrypted.
     call (done_with (case he_decrypt_bytes E encrypted (id_medium_sk_current identity) of
         Inr decrypted \<Rightarrow> Inr decrypted
       | Inl _ \<Rightarrow> map_err (\<lambda>_. ''decrypt error'') (he_decrypt_bytes E encrypted (id_medium_sk_prev identity)))) (\<lambda>decrypted.
     call (done_with (decode_as E ty_device_signed (de_device_signed E) decrypted)) (\<lambda>signed.
     let sender_username = ds_sender signed in
     call (transact (\<lambda>db. and_then (roster_load (gr_group_id grp) (gd_init_admin (gr_descriptor grp)) db)
       (\<lambda>db. Inr ((), db)))) (\<lambda>_.
     call (read_db (get_raw (gr_group_id grp) sender_username)) (\<lambda>sender_member.
     if \<not> (case sender_member of None \<Rightarrow> False | Some m \<Rightarrow> rm_is_admin m \<and> is_active m) then done_with (Inr ())
     else
       call (done_with (sender_root dir sender_username)) (\<lambda>root.
       call (done_with (map_err (\<lambda>_. ''failed to verify device-signed rekey'')
         (device_verify_bytes E now signed root))) (\<lambda>payload.
       call (done_with (decode_as E ty_rekey de_rekey payload)) (\<lambda>(rekey_group, key_bytes).
       if rekey_group \<noteq> gr_group_id grp then done_with (Inr ())
       else transact (install_key E grp (AeadKey key_bytes)))))))))))"

text \<open>Opening a group payload: the key is the current or the previous one for messages, the management
  key for management; the sender's chain is checked against the directory.\<close>

definition verify_group_payload ::
  "ext \<Rightarrow> timestamp \<Rightarrow> (username \<Rightarrow> anyhow + user_descriptor option) \<Rightarrow> anyhow \<Rightarrow> device_signed \<Rightarrow> anyhow + blob" where
  "verify_group_payload E now dir failure payload =
     and_then (sender_root dir (ds_sender payload)) (\<lambda>root.
       map_err (\<lambda>_. failure) (device_verify_blob E now payload root))"

definition process_group_message_entry ::
  "ext \<Rightarrow> timestamp \<Rightarrow> nano_timestamp \<Rightarrow> (username \<Rightarrow> anyhow + user_descriptor option) \<Rightarrow> group_record
    \<Rightarrow> mailbox_entry \<Rightarrow> (client_db, unit) eff" where
  "process_group_message_entry E now now_ns dir grp entry =
     (let message = mbe_message entry in
      if blob_kind message = V1_GROUP_REKEY then process_group_rekey_entry E now dir grp message
      else if blob_kind message \<noteq> V1_GROUP_MESSAGE then done_with (Inr ())
      else
        call (done_with (decode_as E ty_group_message de_group_message (blob_inner message))) (\<lambda>group_message.
        call (done_with (case decrypt_message E group_message (gr_key_current grp) of
            Inr ds \<Rightarrow> Inr ds
          | Inl _ \<Rightarrow> map_err (\<lambda>_. ''decrypt error'') (decrypt_message E group_message (gr_key_prev grp)))) (\<lambda>signed.
        call (done_with (verify_group_payload E now dir ''failed to verify group message'' signed)) (\<lambda>message.
        if blob_kind message \<noteq> V1_MESSAGE_CONTENT then done_with (Inr ())
        else
          call (done_with (decode_as E ty_event de_event (blob_inner message))) (\<lambda>content.
          case ev_recipient content of
            RUser username \<Rightarrow> done_with (Inr ())
          | RGroup recipient \<Rightarrow>
              if recipient \<noteq> gr_group_id grp then done_with (Inr ())
              else store_received E now_ns ''group'' (group_id_display E (gr_group_id grp)) (ds_sender signed) content
                (mbe_received_at entry))))))"

definition process_group_management_entry ::
  "ext \<Rightarrow> timestamp \<Rightarrow> (username \<Rightarrow> anyhow + user_descriptor option) \<Rightarrow> group_record
    \<Rightarrow> mailbox_entry \<Rightarrow> (client_db, unit) eff" where
  "process_group_management_entry E now dir grp entry =
     (let message = mbe_message entry in
      if blob_kind message \<noteq> V1_GROUP_MESSAGE then done_with (Inr ())
      else
        call (done_with (decode_as E ty_group_message de_group_message (blob_inner message))) (\<lambda>group_message.
        call (done_with (map_err (\<lambda>_. ''decrypt error'')
          (decrypt_message E group_message (gd_management_key (gr_descriptor grp))))) (\<lambda>signed.
        call (done_with (verify_group_payload E now dir ''failed to verify management message'' signed)) (\<lambda>message.
        if blob_kind message \<noteq> V1_MESSAGE_CONTENT then done_with (Inr ())
        else
          call (done_with (decode_as E ty_event de_event (blob_inner message))) (\<lambda>content.
          case ev_recipient content of
            RUser username \<Rightarrow> done_with (Inr ())
          | RGroup recipient \<Rightarrow>
              if recipient \<noteq> gr_group_id grp then done_with (Inr ())
              else if ev_mime content \<noteq> group_manage_mime then done_with (Inr ())
              else
                call (done_with (ok_or ''json error'' (json_from E ty_group_manage de_group_manage (ev_body content)))) (\<lambda>manage.
                transact (\<lambda>db.
                  and_then (roster_load (gr_group_id grp) (gd_init_admin (gr_descriptor grp)) db) (\<lambda>db.
                  and_then (apply_manage_message (gr_group_id grp) (ds_sender signed) manage db) (\<lambda>(changed, db).
                    Inr ((), db))))))))))"

datatype group_mailbox_kind = Messages | Management

text \<open>\<open>group_recv_once\<close>, once the race of the two polls has an entry: the position is moved
  before the entry is processed, and a failure to process it is only logged.\<close>

definition group_recv_entry ::
  "ext \<Rightarrow> timestamp \<Rightarrow> nano_timestamp \<Rightarrow> (username \<Rightarrow> anyhow + user_descriptor option) \<Rightarrow> group_record
    \<Rightarrow> group_mailbox_kind \<Rightarrow> mailbox_entry \<Rightarrow> client_db \<Rightarrow> client_db" where
  "group_recv_entry E now now_ns dir grp kind entry db =
     (let mailbox = (case kind of Messages \<Rightarrow> mailbox_group_messages E (gr_group_id grp)
                     | Management \<Rightarrow> mailbox_group_management E (gr_group_id grp));
          db = update_mailbox_after (gr_server_name grp) mailbox (mbe_received_at entry) db
      in snd ((case kind of
          Messages \<Rightarrow> process_group_message_entry E now now_ns dir grp entry
        | Management \<Rightarrow> process_group_management_entry E now dir grp entry) db))"

section \<open>Lemmas\<close>

lemma call_split:
  "P (call m k s) \<longleftrightarrow> (\<forall>e s1. m s = (Inl e, s1) \<longrightarrow> P (Inl e, s1)) \<and> (\<forall>x s1. m s = (Inr x, s1) \<longrightarrow> P (k x s1))"
  by (auto simp: call_def split: prod.split sum.split)

text \<open>One rule per construct of a handler, to walk it from the front.\<close>

lemma eff_steps:
  "(\<And>e. r = Inl e \<Longrightarrow> P (Inl e, s)) \<Longrightarrow> (\<And>x. r = Inr x \<Longrightarrow> P (k x s)) \<Longrightarrow> P (call (done_with r) k s)"
  "(\<And>e. f s = Inl e \<Longrightarrow> P (Inl e, s)) \<Longrightarrow> (\<And>x. f s = Inr x \<Longrightarrow> P (k x s)) \<Longrightarrow> P (call (read_db f) k s)"
  "(\<And>e. t s = Inl e \<Longrightarrow> P (Inl e, s)) \<Longrightarrow> (\<And>x s1. t s = Inr (x, s1) \<Longrightarrow> P (k x s1)) \<Longrightarrow> P (call (transact t) k s)"
  "(b \<Longrightarrow> P (m1 s)) \<Longrightarrow> (\<not> b \<Longrightarrow> P (m2 s)) \<Longrightarrow> P ((if b then m1 else m2) s)"
  "(\<And>x y. p = (x, y) \<Longrightarrow> P (g x y s)) \<Longrightarrow> P ((case p of (x, y) \<Rightarrow> g x y) s)"
  by (auto simp: call_def read_db_def transact_def split: sum.split prod.split)

lemma call_read [simp]: "call (read_db f) k s = (case f s of Inl e \<Rightarrow> (Inl e, s) | Inr x \<Rightarrow> k x s)"
  by (simp add: call_def read_db_def split: sum.split)

lemma call_done: "call (done_with r) k s = (case r of Inl e \<Rightarrow> (Inl e, s) | Inr x \<Rightarrow> k x s)"
  by (simp add: call_def split: sum.split)

lemma note_attachment_sel [simp]:
  "c_messages (note_attachment E u mime body db) = c_messages db"
  "c_convos (note_attachment E u mime body db) = c_convos db"
  "c_groups (note_attachment E u mime body db) = c_groups db"
  "c_members (note_attachment E u mime body db) = c_members db"
  by (simp_all add: note_attachment_def store_attachment_root_def Let_def split: option.split sum.split)
    (auto simp: and_then_def split: sum.splits)

lemma update_mailbox_sel [simp]:
  "c_messages (update_mailbox_after n m a db) = c_messages db"
  "c_convos (update_mailbox_after n m a db) = c_convos db"
  "c_groups (update_mailbox_after n m a db) = c_groups db"
  "c_members (update_mailbox_after n m a db) = c_members db"
  "load_identity E (update_mailbox_after n m a db) = load_identity E db"
  "load_cached_descriptor E u (update_mailbox_after n m a db) = load_cached_descriptor E u db"
  by (simp_all add: update_mailbox_after_def load_identity_def load_cached_descriptor_def)

lemma cached_descriptor_keeps:
  assumes "cached_user_descriptor E now dir u db = (r, db')"
  shows "c_messages db' = c_messages db" and "c_convos db' = c_convos db" and "c_groups db' = c_groups db"
    and "c_members db' = c_members db"
  using assms
  by (auto simp: cached_user_descriptor_def call_def transact_def store_cached_descriptor_def
      split: sum.splits option.splits if_splits prod.splits)

definition directory_knows ::
  "ext \<Rightarrow> timestamp \<Rightarrow> (username \<Rightarrow> anyhow + user_descriptor option) \<Rightarrow> client_db \<Rightarrow> username \<Rightarrow> hash \<Rightarrow> bool" where
  "directory_knows E now dir db u root \<longleftrightarrow> (\<exists>d. ud_root_cert_hash d = root \<and>
     (dir u = Inr (Some d) \<or> (\<exists>t. load_cached_descriptor E u db = Inr (Some (d, t)) \<and> is_fresh now t)))"

lemma root_hash_keeps:
  assumes "get_user_root_hash E now dir u db = (r, db')"
  shows "c_messages db' = c_messages db" and "c_convos db' = c_convos db" and "c_groups db' = c_groups db"
    and "r = Inr root \<Longrightarrow> directory_knows E now dir db u root"
proof -
  obtain q where q: "cached_user_descriptor E now dir u db = (q, db')"
    using assms by (auto simp: get_user_root_hash_def call_def split: prod.splits sum.splits)
  from cached_descriptor_keeps [OF q]
  show "c_messages db' = c_messages db" "c_convos db' = c_convos db" "c_groups db' = c_groups db" by blast+
  assume "r = Inr root"
  with assms q obtain d where "q = Inr d" "ud_root_cert_hash d = root"
    by (auto simp: get_user_root_hash_def call_def split: prod.splits sum.splits)
  with cached_descriptor_Inr(1) [of E now dir u db d db'] q show "directory_knows E now dir db u root"
    by (auto simp: directory_knows_def)
qed

text \<open>Storing a message leaves what is there and adds at most the one row, in its conversation.\<close>

definition stored_row :: "client_db \<Rightarrow> client_db \<Rightarrow> string \<Rightarrow> string \<Rightarrow> username \<Rightarrow> event \<Rightarrow> nano_timestamp \<Rightarrow> message_row \<Rightarrow> bool" where
  "stored_row db db' ctype counterparty sender content received_at row \<longleftrightarrow>
     c_messages db' = c_messages db @ [row] \<and>
     cm_sender_username row = username_as_str sender \<and> cm_mime row = ev_mime content \<and> cm_body row = ev_body content \<and>
     cm_sent_at row = ev_sent_at content \<and> cm_received_at row = Some received_at \<and> cm_send_error row = None \<and>
     (\<exists>cv \<in> set (c_convos db'). cv_id cv = cm_convo_id row \<and> cv_type cv = ctype \<and> cv_counterparty cv = counterparty)"

lemma ensure_convo_Inr:
  assumes "ensure_convo_id now ctype cp db = Inr (i, db')"
  shows "c_messages db' = c_messages db" and "c_groups db' = c_groups db" and "c_members db' = c_members db"
    and "\<exists>cv \<in> set (c_convos db'). cv_id cv = i \<and> cv_type cv = ctype \<and> cv_counterparty cv = cp"
    and "set (c_convos db) \<subseteq> set (c_convos db')"
  using assms
  by (auto simp: ensure_convo_id_def Let_def split: option.splits if_splits)
    (use t_get_SomeD [of convo_key] in \<open>fastforce simp: convo_key_def\<close>)

lemma store_received_effect:
  assumes "store_received E now_ns ctype cp sender content rcv db = (r, db')"
  shows "c_messages db' = c_messages db \<or> (\<exists>row. stored_row db db' ctype cp sender content rcv row)"
    and "c_groups db' = c_groups db" and "c_members db' = c_members db"
proof -
  let ?db1 = "note_attachment E sender (ev_mime content) (ev_body content) db"
  have "(c_messages db' = c_messages db \<or> (\<exists>row. stored_row db db' ctype cp sender content rcv row)) \<and>
    c_groups db' = c_groups db \<and> c_members db' = c_members db"
  proof (cases "ensure_convo_id now_ns ctype cp ?db1")
    case (Inl e)
    with assms have "db' = ?db1"
      by (auto simp: store_received_def call_def transact_def)
    then show ?thesis by simp
  next
    case (Inr p)
    then obtain i db2 where i: "ensure_convo_id now_ns ctype cp ?db1 = Inr (i, db2)" by (cases p) auto
    let ?row = "new_message i (username_as_str sender) (ev_mime content) (ev_body content) (ev_sent_at content) (Some rcv) db2"
    note e = ensure_convo_Inr [OF i]
    from assms i have db': "db' = db2 \<lparr> c_messages := t_ignore sent_key ?row (c_messages db2) \<rparr>"
      by (auto simp: store_received_def call_def transact_def ignore_message_def)
    have "c_messages db' = c_messages db \<or> stored_row db db' ctype cp sender content rcv ?row"
      using e by (auto simp: db' t_ignore_def stored_row_def new_message_def)
    with e show ?thesis by (auto simp: db')
  qed
  then show "c_messages db' = c_messages db \<or> (\<exists>row. stored_row db db' ctype cp sender content rcv row)"
    and "c_groups db' = c_groups db" and "c_members db' = c_members db" by blast+
qed

text \<open>A payload whose device signature holds under the root the directory knows for its sender.\<close>

definition signed_event ::
  "ext \<Rightarrow> timestamp \<Rightarrow> hash \<Rightarrow> device_signed \<Rightarrow> event \<Rightarrow> bool" where
  "signed_event E now root payload content \<longleftrightarrow>
     chain_ok E now (ds_cert_chain payload) root \<and>
     verify_sig E (cert_pk (last_device (ds_cert_chain payload))) (ds_signature payload) (ds_signed_value E payload) = Inr () \<and>
     (\<exists>body. bcs_from E ty_blob de_blob (ds_body payload) = Some \<lparr> blob_kind = V1_MESSAGE_CONTENT, blob_inner = body \<rparr> \<and>
       bcs_from E ty_event de_event body = Some content)"

lemma signed_event_intro:
  assumes "device_verify_blob E now payload root = Inr m" and "blob_kind m = V1_MESSAGE_CONTENT"
    and "decode_as E ty_event de_event (blob_inner m) = Inr content"
  shows "signed_event E now root payload content"
proof -
  have "\<lparr> blob_kind = V1_MESSAGE_CONTENT, blob_inner = blob_inner m \<rparr> = m"
    using assms(2) by (cases m) simp
  with assms show ?thesis
    by (auto simp: signed_event_def device_verify_blob_def device_verify_bytes_Inr last_device_def decode_as_def
        intro!: exI [of _ "blob_inner m"])
qed

text \<open>What puts a row into the messages when a direct message is processed.\<close>

definition dm_stored ::
  "ext \<Rightarrow> timestamp \<Rightarrow> (username \<Rightarrow> anyhow + user_descriptor option) \<Rightarrow> nano_timestamp \<Rightarrow> client_db \<Rightarrow> client_db \<Rightarrow> bool" where
  "dm_stored E now dir received_at db db' \<longleftrightarrow>
     (\<exists>identity payload root content recipient row. load_identity E db = Inr identity \<and>
      directory_knows E now dir db (ds_sender payload) root \<and> signed_event E now root payload content \<and>
      ev_recipient content = RUser recipient \<and>
      (recipient = id_username identity \<or> ds_sender payload = id_username identity) \<and>
      stored_row db db' ''direct'' (username_as_str (if ds_sender payload = id_username identity then recipient
        else ds_sender payload)) (ds_sender payload) content received_at row)"

lemma dm_effect:
  assumes "process_mailbox_entry E now now_ns dir server_name mailbox entry db = (r, db')"
  shows "c_groups db' = c_groups db \<and> (c_messages db' = c_messages db \<or> dm_stored E now dir (mbe_received_at entry) db db')"
proof -
  let ?db1 = "update_mailbox_after server_name mailbox (mbe_received_at entry) db"
  define P where "P = (\<lambda>(r :: anyhow + unit, db'). c_groups db' = c_groups db \<and>
    (c_messages db' = c_messages db \<or> dm_stored E now dir (mbe_received_at entry) db db'))"
  have base: "c_groups d = c_groups db \<Longrightarrow> c_messages d = c_messages db \<Longrightarrow> P (q, d)" for q d
    by (simp add: P_def)
  have "P (process_mailbox_entry E now now_ns dir server_name mailbox entry db)"
  proof (cases "load_identity E db")
    case (Inl e)
    then show ?thesis by (simp add: process_mailbox_entry_def base)
  next
    case (Inr identity)
    have store: "P (store_received E now_ns ''direct'' (username_as_str peer) sender content (mbe_received_at entry) db2)"
      if root: "get_user_root_hash E now dir (ds_sender payload) ?db1 = (Inr root, db2)"
        and ev: "device_verify_blob E now payload root = Inr m" "blob_kind m = V1_MESSAGE_CONTENT"
          "decode_as E ty_event de_event (blob_inner m) = Inr content"
        and rc: "ev_recipient content = RUser recipient"
          "recipient = id_username identity \<or> ds_sender payload = id_username identity"
        and peer: "peer = (if ds_sender payload = id_username identity then recipient else ds_sender payload)"
        and sender: "sender = ds_sender payload"
      for payload root db2 m content recipient peer sender
    proof -
      obtain r3 db3 where st: "store_received E now_ns ''direct'' (username_as_str peer) (ds_sender payload) content
          (mbe_received_at entry) db2 = (r3, db3)"
        by fastforce
      note k = root_hash_keeps [OF root] and eff = store_received_effect [OF st]
      have knows: "directory_knows E now dir db (ds_sender payload) root"
        using k(4) by (auto simp: directory_knows_def)
      have "dm_stored E now dir (mbe_received_at entry) db db3"
        if "stored_row db2 db3 ''direct'' (username_as_str peer) (ds_sender payload) content (mbe_received_at entry) row" for row
      proof -
        from that k(1) have "stored_row db db3 ''direct'' (username_as_str peer) (ds_sender payload) content (mbe_received_at entry) row"
          by (simp add: stored_row_def)
        with Inr knows signed_event_intro [OF ev] rc show ?thesis
          unfolding dm_stored_def peer by blast
      qed
      with eff k show ?thesis unfolding sender st P_def by auto
    qed
    show ?thesis
      using Inr
      by (auto simp: process_mailbox_entry_def Let_def call_done root_hash_keeps intro: base intro!: store
          split: sum.split call_split recipient.split)
  qed
  with assms show ?thesis by (simp add: P_def)
qed

section \<open>What an entry of a group's mailboxes changes\<close>

definition group_keys :: "client_db \<Rightarrow> (bytes \<times> bytes \<times> bytes) list" where
  "group_keys db = map (\<lambda>r. (gw_group_id r, gw_key_current r, gw_key_prev r)) (c_groups db)"

lemma get_raw_Some: "get_raw g u db = Inr (Some m) \<Longrightarrow> roster_of g db u = Some (rm_is_admin m, rm_status m)"
  by (auto simp: get_raw_def row_member_def roster_of_def split: option.splits)

lemma get_raw_admin:
  assumes "get_raw g u db = Inr (Some m)" and "rm_is_admin m" and "is_active m"
  shows "active_admin (roster_of g db u)"
  using get_raw_Some [OF assms(1)] assms(2,3)
  by (cases "rm_status m") (auto simp: is_active_def)

lemma group_keys_set_version [simp]: "group_keys (set_version g f db) = group_keys db"
  by (simp add: group_keys_def set_version_def t_update_def comp_def if_distrib cong: if_cong)

lemma member_upsert_keeps:
  assumes "upsert_member g m db = Inr (b, db')"
  shows "c_messages db' = c_messages db" and "c_convos db' = c_convos db" and "c_groups db' = c_groups db"
  using assms by (auto simp: upsert_member_def Let_def split: option.splits if_splits)

lemma set_version_keeps [simp]:
  "c_messages (set_version g f db) = c_messages db" "c_convos (set_version g f db) = c_convos db"
  by (simp_all add: set_version_def)

lemma roster_load_cases:
  assumes "roster_load g admin db = Inr db'"
  shows "db' = db \<or> (\<exists>m b db1 f. upsert_member g m db = Inr (b, db1) \<and> db' = set_version g f db1)"
proof -
  obtain r where r: "t_get gw_group_id (group_column g) (c_groups db) = Some r"
    using assms by (cases "t_get gw_group_id (group_column g) (c_groups db)")
      (simp_all add: roster_load_def ensure_initialized_def)
  show ?thesis
  proof (cases "gw_roster_version r = 0")
    case True
    let ?m = "\<lparr> rm_username = admin, rm_is_admin = True, rm_status = Accepted \<rparr>"
    obtain b db1 where "upsert_member g ?m db = Inr (b, db1)" "db' = set_version g (\<lambda>_. 1) db1"
      using assms r True by (cases "upsert_member g ?m db") (auto simp: roster_load_def ensure_initialized_def)
    then show ?thesis by blast
  next
    case False
    with assms r show ?thesis by (simp add: roster_load_def ensure_initialized_def)
  qed
qed

lemma roster_load_keeps:
  assumes "roster_load g admin db = Inr db'"
  shows "c_messages db' = c_messages db" and "c_convos db' = c_convos db" and "group_keys db' = group_keys db"
proof -
  have "c_messages db' = c_messages db \<and> c_convos db' = c_convos db \<and> group_keys db' = group_keys db"
    using roster_load_cases [OF assms]
  proof (elim disjE exE conjE)
    fix m b db1 f
    assume u: "upsert_member g m db = Inr (b, db1)" and "db' = set_version g f db1"
    then show ?thesis using member_upsert_keeps [OF u] by (simp add: group_keys_def [of db] group_keys_def [of db1])
  qed simp
  then show "c_messages db' = c_messages db" "c_convos db' = c_convos db" "group_keys db' = group_keys db" by blast+
qed

lemma manage_change_cases:
  assumes "manage_change g u m db = Inr (b, db')"
  shows "db' = db \<or> (\<exists>mm. upsert_member g mm db = Inr (b, db')) \<or> db' = snd (remove_member g u db)"
proof -
  obtain sm where sm: "get_raw g u db = Inr sm"
    using assms by (cases "get_raw g u db") (simp_all add: manage_change_def)
  have get: "\<exists>x. get_raw g v db = Inr x \<and> k x = Inr (b, db')" if "and_then (get_raw g v db) k = Inr (b, db')" for v k
    using that by simp
  show ?thesis
    using assms unfolding manage_change_def sm and_then_simps Let_def
    by (cases m) (auto dest!: get split: if_splits option.splits, (metis snd_conv)?)
qed

lemma apply_manage_keeps:
  assumes "apply_manage_message g u m db = Inr (b, db')"
  shows "c_messages db' = c_messages db" and "c_convos db' = c_convos db" and "group_keys db' = group_keys db"
proof -
  obtain db1 where one: "manage_change g u m db = Inr (b, db1)" and db': "db' = (if b then bump_version g db1 else db1)"
    using assms by (auto simp: apply_manage_message_def)
  have "c_messages db1 = c_messages db \<and> c_convos db1 = c_convos db \<and> c_groups db1 = c_groups db"
    using manage_change_cases [OF one]
  proof (elim disjE exE)
    fix mm
    assume u: "upsert_member g mm db = Inr (b, db1)"
    show ?thesis using member_upsert_keeps [OF u] by simp
  qed (simp_all add: remove_member_def Let_def)
  then have "c_messages db' = c_messages db \<and> c_convos db' = c_convos db \<and> group_keys db' = group_keys db"
    by (simp add: db' bump_version_def group_keys_def [of db] group_keys_def [of db1])
  then show "c_messages db' = c_messages db" "c_convos db' = c_convos db" "group_keys db' = group_keys db" by blast+
qed

text \<open>A new pair of keys: installed by a sender who is an active administrator in the loaded roster and
  whose device signed the group's identifier with the key.\<close>

definition rekeyed ::
  "ext \<Rightarrow> timestamp \<Rightarrow> (username \<Rightarrow> anyhow + user_descriptor option) \<Rightarrow> group_record \<Rightarrow> client_db \<Rightarrow> client_db \<Rightarrow> bool" where
  "rekeyed E now dir grp db db' \<longleftrightarrow> (\<exists>payload root body key db1.
     roster_load (gr_group_id grp) (gd_init_admin (gr_descriptor grp)) db = Inr db1 \<and>
     active_admin (roster_of (gr_group_id grp) db1 (ds_sender payload)) \<and>
     sender_root dir (ds_sender payload) = Inr root \<and> device_verify_bytes E now payload root = Inr body \<and>
     decode_as E ty_rekey de_rekey body = Inr (gr_group_id grp, key) \<and>
     install_key E grp (AeadKey key) db1 = Inr ((), db'))"

lemma rekey_effect:
  assumes "process_group_rekey_entry E now dir grp message db = (r, db')"
  shows "c_messages db' = c_messages db \<and>
    (c_members db' = c_members db \<or> (\<exists>db1. roster_load (gr_group_id grp) (gd_init_admin (gr_descriptor grp)) db = Inr db1 \<and>
      c_members db' = c_members db1)) \<and>
    (group_keys db' = group_keys db \<or> rekeyed E now dir grp db db')"
proof -
  let ?load = "roster_load (gr_group_id grp) (gd_init_admin (gr_descriptor grp)) db"
  define P where "P = (\<lambda>(r :: anyhow + unit, db'). c_messages db' = c_messages db \<and>
    (c_members db' = c_members db \<or> (\<exists>db1. ?load = Inr db1 \<and> c_members db' = c_members db1)) \<and>
    (group_keys db' = group_keys db \<or> rekeyed E now dir grp db db'))"
  have base: "P (q, db)" for q by (simp add: P_def)
  have loaded: "P (q, db1)" if "?load = Inr db1" for q db1
    using roster_load_keeps [OF that] that by (auto simp: P_def)
  have inst: "P (transact (install_key E grp (AeadKey key)) db1)"
    if load: "?load = Inr db1"
      and admin: "get_raw (gr_group_id grp) (ds_sender payload) db1 = Inr (Some m)" "rm_is_admin m" "is_active m"
      and ver: "sender_root dir (ds_sender payload) = Inr root"
        "map_err f (device_verify_bytes E now payload root) = Inr body"
        "decode_as E ty_rekey de_rekey body = Inr (gr_group_id grp, key)"
    for db1 payload m root f body key
  proof (cases "install_key E grp (AeadKey key) db1")
    case (Inl e)
    with loaded [OF load] show ?thesis by (simp add: transact_def)
  next
    case (Inr p)
    then obtain db2 where db2: "install_key E grp (AeadKey key) db1 = Inr ((), db2)" by (cases p) auto
    then have "c_messages db2 = c_messages db1" "c_members db2 = c_members db1"
      by (auto simp: install_key_def)
    moreover have "rekeyed E now dir grp db db2"
      unfolding rekeyed_def using load get_raw_admin [OF admin] ver db2 by auto
    ultimately show ?thesis
      using db2 roster_load_keeps [OF load] load by (auto simp: P_def transact_def)
  qed
  have "P (process_group_rekey_entry E now dir grp message db)"
    unfolding process_group_rekey_entry_def Let_def
    by (intro eff_steps [where P = P]) (auto intro: base loaded intro!: inst split: option.splits)
  with assms show ?thesis by (simp add: P_def)
qed

definition group_stored ::
  "ext \<Rightarrow> timestamp \<Rightarrow> (username \<Rightarrow> anyhow + user_descriptor option) \<Rightarrow> group_record \<Rightarrow> nano_timestamp
    \<Rightarrow> client_db \<Rightarrow> client_db \<Rightarrow> bool" where
  "group_stored E now dir grp received_at db db' \<longleftrightarrow>
     (\<exists>payload root content row. sender_root dir (ds_sender payload) = Inr root \<and>
      signed_event E now root payload content \<and> ev_recipient content = RGroup (gr_group_id grp) \<and>
      stored_row db db' ''group'' (group_id_display E (gr_group_id grp)) (ds_sender payload) content received_at row)"

definition group_managed ::
  "ext \<Rightarrow> timestamp \<Rightarrow> (username \<Rightarrow> anyhow + user_descriptor option) \<Rightarrow> group_record \<Rightarrow> client_db \<Rightarrow> client_db \<Rightarrow> bool" where
  "group_managed E now dir grp db db' \<longleftrightarrow>
     (\<exists>payload root content manage db1 changed. sender_root dir (ds_sender payload) = Inr root \<and>
      signed_event E now root payload content \<and> ev_recipient content = RGroup (gr_group_id grp) \<and>
      ev_mime content = group_manage_mime \<and>
      json_from E ty_group_manage de_group_manage (ev_body content) = Some manage \<and>
      roster_load (gr_group_id grp) (gd_init_admin (gr_descriptor grp)) db = Inr db1 \<and>
      apply_manage_message (gr_group_id grp) (ds_sender payload) manage db1 = Inr (changed, db'))"

lemma verify_group_payload_Inr:
  "verify_group_payload E now dir f payload = Inr m \<longleftrightarrow>
     (\<exists>root. sender_root dir (ds_sender payload) = Inr root \<and> device_verify_blob E now payload root = Inr m)"
  by (auto simp: verify_group_payload_def)

lemma group_message_effect:
  assumes "process_group_message_entry E now now_ns dir grp entry db = (r, db')"
    and "blob_kind (mbe_message entry) \<noteq> V1_GROUP_REKEY"
  shows "c_groups db' = c_groups db \<and> c_members db' = c_members db \<and>
    (c_messages db' = c_messages db \<or> group_stored E now dir grp (mbe_received_at entry) db db')"
proof -
  define P where "P = (\<lambda>(r :: anyhow + unit, db'). c_groups db' = c_groups db \<and> c_members db' = c_members db \<and>
    (c_messages db' = c_messages db \<or> group_stored E now dir grp (mbe_received_at entry) db db'))"
  have base: "P (q, db)" for q by (simp add: P_def)
  have store: "P (store_received E now_ns ''group'' (group_id_display E (gr_group_id grp)) (ds_sender payload) content
      (mbe_received_at entry) db)"
    if v: "verify_group_payload E now dir f payload = Inr m" "blob_kind m = V1_MESSAGE_CONTENT"
      "decode_as E ty_event de_event (blob_inner m) = Inr content" "ev_recipient content = RGroup (gr_group_id grp)"
    for f payload m content
  proof -
    obtain root where root: "sender_root dir (ds_sender payload) = Inr root" "device_verify_blob E now payload root = Inr m"
      using v(1) by (auto simp: verify_group_payload_Inr)
    obtain r1 db1 where st: "store_received E now_ns ''group'' (group_id_display E (gr_group_id grp)) (ds_sender payload)
        content (mbe_received_at entry) db = (r1, db1)" by fastforce
    from store_received_effect [OF st] root(1) signed_event_intro [OF root(2) v(2,3)] v(4)
    show ?thesis unfolding st P_def group_stored_def by auto
  qed
  have "P (process_group_message_entry E now now_ns dir grp entry db)"
    unfolding process_group_message_entry_def Let_def if_not_P [OF assms(2)]
    by (intro eff_steps [where P = P]) (auto intro: base store split: recipient.split)
  with assms(1) show ?thesis by (simp add: P_def)
qed

lemma group_management_effect:
  assumes "process_group_management_entry E now dir grp entry db = (r, db')"
  shows "db' = db \<or> group_managed E now dir grp db db'"
proof -
  define P where "P = (\<lambda>(r :: anyhow + unit, db'). db' = db \<or> group_managed E now dir grp db db')"
  have base: "P (q, db)" for q by (simp add: P_def)
  let ?tx = "\<lambda>payload manage db. and_then (roster_load (gr_group_id grp) (gd_init_admin (gr_descriptor grp)) db) (\<lambda>db.
    and_then (apply_manage_message (gr_group_id grp) (ds_sender payload) manage db) (\<lambda>(changed, db). Inr ((), db)))"
  have tx: "P (transact (?tx payload manage) db)"
    if v: "verify_group_payload E now dir f payload = Inr m" "blob_kind m = V1_MESSAGE_CONTENT"
      "decode_as E ty_event de_event (blob_inner m) = Inr content" "ev_recipient content = RGroup (gr_group_id grp)"
      "ev_mime content = group_manage_mime" "json_from E ty_group_manage de_group_manage (ev_body content) = Some manage"
    for f payload m content manage
  proof (cases "?tx payload manage db")
    case (Inl e)
    then show ?thesis by (simp add: transact_def base)
  next
    case (Inr p)
    obtain root where root: "sender_root dir (ds_sender payload) = Inr root" "device_verify_blob E now payload root = Inr m"
      using v(1) by (auto simp: verify_group_payload_Inr)
    from Inr obtain db1 changed db2 where "roster_load (gr_group_id grp) (gd_init_admin (gr_descriptor grp)) db = Inr db1"
      "apply_manage_message (gr_group_id grp) (ds_sender payload) manage db1 = Inr (changed, db2)" "p = ((), db2)"
      by auto
    then have "group_managed E now dir grp db db2"
      unfolding group_managed_def using root(1) signed_event_intro [OF root(2) v(2,3)] v(4-6) by blast
    then show ?thesis unfolding transact_def Inr \<open>p = ((), db2)\<close> P_def by simp
  qed
  have "P (process_group_management_entry E now dir grp entry db)"
    unfolding process_group_management_entry_def Let_def
    by (intro eff_steps [where P = P]) (auto intro!: tx eff_steps [where P = P] intro: base split: recipient.split)
  with assms show ?thesis by (simp add: P_def)
qed

end
