(* ===== verification/Retry.thy ===== *)
theory Retry
  imports Prelude
begin

text \<open>
  Retrying a fallible operation with exponential backoff
  (\<open>nullspace-client/src/retry.rs\<close>). The operation is a state transformer that answers a result;
  the sleeps are returned as the list of their lengths in milliseconds.
\<close>

definition transient_backoff :: "u32 \<Rightarrow> u64" where
  "transient_backoff transient_attempt =
     (let shift = min transient_attempt 62;
          factor = (if unat shift < 64 then push_bit (unat shift) 1 else u64_max)
      in min (sat_mul64 25 factor) 20000)"

function retry_loop ::
  "('s \<Rightarrow> (anyhow + 'a) \<times> 's) \<Rightarrow> u32 \<Rightarrow> 's \<Rightarrow> (anyhow + 'a) \<times> 's \<times> u64 list" where
  "retry_loop f attempts s =
     (case f s of
        (Inr v, s') \<Rightarrow> (Inr v, s', [])
      | (Inl err, s') \<Rightarrow>
          if attempts < 7 then
            (let (r, s'', slept) = retry_loop f (if attempts = - 1 then attempts else attempts + 1) s'
             in (r, s'', transient_backoff attempts # slept))
          else (Inl err, s', []))"
  by pat_completeness auto

termination
proof (relation "measure (\<lambda>(f, attempts, s). 7 - unat attempts)")
  fix attempts :: u32
  assume a: "attempts < 7"
  then have u: "unat attempts < 7" by (simp add: word_less_nat_alt)
  moreover from a have "attempts \<noteq> - 1" by auto
  moreover from u have "unat (attempts + 1) = unat attempts + 1"
    by (simp add: unat_word_ariths)
  ultimately show "((f, if attempts = - 1 then attempts else attempts + 1, s'), f', attempts, s)
      \<in> measure (\<lambda>(f, attempts, s). 7 - unat attempts)" for f s' f' s
    by simp
qed simp

declare retry_loop.simps [simp del]

definition retry_backoff :: "('s \<Rightarrow> (anyhow + 'a) \<times> 's) \<Rightarrow> 's \<Rightarrow> (anyhow + 'a) \<times> 's \<times> u64 list" where
  "retry_backoff f s = retry_loop f 0 s"

section \<open>What it does\<close>

text \<open>The state the operation sees at its \<open>k\<close>-th call when every earlier call has been made.\<close>

definition state_at :: "('s \<Rightarrow> (anyhow + 'a) \<times> 's) \<Rightarrow> nat \<Rightarrow> 's \<Rightarrow> 's" where
  "state_at f k s = ((snd \<circ> f) ^^ k) s"

definition outcome :: "('s \<Rightarrow> (anyhow + 'a) \<times> 's) \<Rightarrow> nat \<Rightarrow> 's \<Rightarrow> anyhow + 'a" where
  "outcome f k s = fst (f (state_at f k s))"

lemma state_at_simps [simp]:
  "state_at f 0 s = s" "state_at f (Suc k) s = state_at f k (snd (f s))"
  by (simp_all add: state_at_def funpow_swap1)

lemma outcome_Suc [simp]: "outcome f 0 s = fst (f s)" "outcome f (Suc k) s = outcome f k (snd (f s))"
  by (simp_all add: outcome_def)

lemma upt_shift: "[Suc m..<Suc n] = map Suc [m..<n]"
  by (simp add: map_Suc_upt)

lemma retry_loop_spec:
  assumes "a \<le> 7"
  shows "\<exists>k \<le> 7 - a. retry_loop f (of_nat a) s
      = (outcome f k s, state_at f (Suc k) s, map (\<lambda>i. transient_backoff (of_nat i)) [a..<a + k]) \<and>
    list_all (\<lambda>j. \<not> is_ok (outcome f j s)) [0..<k] \<and> (is_ok (outcome f k s) \<or> k = 7 - a)"
  using assms
proof (induction "7 - a" arbitrary: a s)
  case 0
  then have "a = 7" by simp
  then show ?case
    by (intro exI [of _ 0]) (auto simp: retry_loop.simps split: sum.split prod.split)
next
  case (Suc n)
  then have a: "a < 7" by simp
  then have less: "(of_nat a :: u32) < 7" "(of_nat a :: u32) \<noteq> - 1" "(of_nat a + 1 :: u32) = of_nat (Suc a)"
  proof -
    from a have "a \<in> {0, 1, 2, 3, 4, 5, 6}" by auto
    then show "(of_nat a :: u32) < 7" "(of_nat a :: u32) \<noteq> - 1" "(of_nat a + 1 :: u32) = of_nat (Suc a)"
      by auto
  qed
  obtain r s' where fs: "f s = (r, s')" by fastforce
  show ?case
  proof (cases r)
    case (Inr v)
    with fs show ?thesis
      by (intro exI [of _ 0]) (simp add: retry_loop.simps)
  next
    case (Inl err)
    from Suc have "n = 7 - Suc a" "Suc a \<le> 7" by auto
    from Suc.hyps(1) [OF this, of s'] obtain k where k: "k \<le> 7 - Suc a"
      and rec: "retry_loop f (of_nat (Suc a)) s'
        = (outcome f k s', state_at f (Suc k) s', map (\<lambda>i. transient_backoff (of_nat i)) [Suc a..<Suc a + k])"
      and fails: "list_all (\<lambda>j. \<not> is_ok (outcome f j s')) [0..<k]"
      and stop: "is_ok (outcome f k s') \<or> k = 7 - Suc a" by blast
    have list: "[0..<Suc k] = 0 # map Suc [0..<k]" "[a..<a + Suc k] = a # [Suc a..<Suc a + k]"
      by (simp_all add: upt_conv_Cons map_Suc_upt del: upt_Suc)
    have "retry_loop f (of_nat a) s = (outcome f (Suc k) s, state_at f (Suc (Suc k)) s,
        map (\<lambda>i. transient_backoff (of_nat i)) [a..<a + Suc k])"
      using fs Inl less(1,2) rec [folded less(3)] unfolding list
      by (subst retry_loop.simps) (simp del: upt_Suc)
    moreover have "list_all (\<lambda>j. \<not> is_ok (outcome f j s)) [0..<Suc k]"
      using fs Inl fails unfolding list by (simp add: list.pred_map comp_def del: map_Suc_upt)
    ultimately show ?thesis
      using k stop a fs by (intro exI [of _ "Suc k"]) auto
  qed
qed

lemma transient_backoff_le: "transient_backoff a \<le> 20000"
  by (simp add: transient_backoff_def Let_def)

lemma transient_backoff_small:
  assumes "i < 8"
  shows "unat (transient_backoff (of_nat i)) = 25 * 2 ^ i"
proof -
  from assms have "i \<in> {0, 1, 2, 3, 4, 5, 6, 7}" by auto
  then show ?thesis
    by (auto simp: transient_backoff_def Let_def sat_mul64_def push_bit_eq_mult min_def)
qed

section \<open>Properties\<close>

text \<open>\<open>retry_backoff\<close> calls the operation once and then again after each failure, at most eight
  times in all; it returns the outcome and the state of the last call, which is the first success or
  the eighth failure; it sleeps \<open>25 \<cdot> 2\<^sup>i\<close> milliseconds after the failure number \<open>i\<close>, at
  most 3.2 seconds in sum.\<close>

theorem retry_backoff_bounded:
  "\<exists>k \<le> 7. \<exists>slept. retry_backoff f s = (outcome f k s, state_at f (Suc k) s, slept) \<and>
     list_all (\<lambda>j. \<not> is_ok (outcome f j s)) [0..<k] \<and> (is_ok (outcome f k s) \<or> k = 7) \<and>
     map unat slept = map (\<lambda>i. 25 * 2 ^ i) [0..<k] \<and> sum_list (map unat slept) \<le> 3175"
proof -
  obtain k where k: "k \<le> 7"
    and r: "retry_backoff f s = (outcome f k s, state_at f (Suc k) s,
      map (\<lambda>i. transient_backoff (of_nat i)) [0..<k])"
    and rest: "list_all (\<lambda>j. \<not> is_ok (outcome f j s)) [0..<k]" "is_ok (outcome f k s) \<or> k = 7"
    using retry_loop_spec [of 0 f s] by (auto simp: retry_backoff_def)
  let ?slept = "map (\<lambda>i. transient_backoff (of_nat i)) [0..<k]"
  have sl: "map unat ?slept = map (\<lambda>i. 25 * 2 ^ i) [0..<k]"
    using k by (simp add: transient_backoff_small)
  have "sum_list (map (\<lambda>i. 25 * 2 ^ i) [0..<n]) = 25 * (2 ^ n - 1 :: nat)" for n
  proof (induction n)
    case (Suc n)
    have "1 \<le> (2 :: nat) ^ n" by simp
    with Suc show ?case by simp
  qed simp
  moreover have "(2 :: nat) ^ k \<le> 2 ^ 7" using k by (intro power_increasing) auto
  ultimately have "sum_list (map unat ?slept) \<le> 3175" unfolding sl by simp
  with k r rest sl show ?thesis by blast
qed

theorem retry_backoff_bounded_witness:
  "\<exists>k \<le> 7. \<exists>slept. retry_backoff (\<lambda>n. (if n < 2 then Inl ''busy'' else Inr n, n + 1)) (0 :: nat)
       = (outcome (\<lambda>n. (if n < 2 then Inl ''busy'' else Inr n, n + 1)) k 0,
          state_at (\<lambda>n. (if n < 2 then Inl ''busy'' else Inr n, n + 1)) (Suc k) 0, slept)"
  using retry_backoff_bounded [of "\<lambda>n. (if n < 2 then Inl ''busy'' else Inr n, n + 1)" 0] by blast

end
