(* ===== verification/ConvoSend.thy ===== *)
theory ConvoSend
  imports ConvoRecv Retry
begin

text \<open>
  Sending (\<open>nullspace-client/src/convo/send.rs\<close>, \<open>group.rs\<close>, the sending half of
  \<open>rekey.rs\<close> and \<open>dm_common.rs\<close>). A handler acts on the client's database and on the world, which
  is everything else: the servers, the directory, the clock and the random numbers, as functions of a
  state that the requests change. The properties tie sending to receiving.
\<close>

section \<open>The world\<close>

record ('s, 'srv) world =
  w_now_s :: "'s \<Rightarrow> timestamp"
  w_now_ns :: "'s \<Rightarrow> nano_timestamp"
  w_dir :: "'s \<Rightarrow> username \<Rightarrow> anyhow + user_descriptor option"
  w_users :: "'s \<Rightarrow> 'srv user_api"
  w_auth_token :: "identity \<Rightarrow> ('s, auth_token) eff"
  w_mailbox_send :: "server_name \<Rightarrow> auth_token \<Rightarrow> mailbox_id \<Rightarrow> blob \<Rightarrow> u32 \<Rightarrow> ('s, server_rpc_error + nano_timestamp) eff"
  w_acl_edit :: "server_name \<Rightarrow> auth_token \<Rightarrow> mailbox_id \<Rightarrow> mailbox_acl \<Rightarrow> ('s, server_rpc_error + unit) eff"
  w_register_group :: "server_name \<Rightarrow> auth_token \<Rightarrow> group_id \<Rightarrow> ('s, server_rpc_error + unit) eff"
  w_rand_dh :: "'s \<Rightarrow> dh_secret \<times> 's"
  w_rand_key :: "'s \<Rightarrow> aead_key \<times> 's"
  w_rand_nonce :: "'s \<Rightarrow> 192 word \<times> 's"
  w_rand_hash :: "'s \<Rightarrow> hash \<times> 's"
  w_rand_token :: "'s \<Rightarrow> auth_token \<times> 's"
  w_roll :: "nat \<Rightarrow> 's \<Rightarrow> bool \<times> 's"   \<comment> \<open>whether a random number is at most \<open>1 / n\<close>\<close>

type_synonym ('s, 'a) sys_eff = "(client_db \<times> 's, 'a) eff"

definition on_db :: "(client_db, 'a) eff \<Rightarrow> ('s, 'a) sys_eff" where
  "on_db m st = (case m (fst st) of (r, db) \<Rightarrow> (r, (db, snd st)))"

definition on_net :: "('s, 'a) eff \<Rightarrow> ('s, 'a) sys_eff" where
  "on_net m st = (case m (snd st) of (r, s) \<Rightarrow> (r, (fst st, s)))"

definition draw :: "('s \<Rightarrow> 'a \<times> 's) \<Rightarrow> ('s, 'a) sys_eff" where
  "draw f st = (case f (snd st) of (x, s) \<Rightarrow> (Inr x, (fst st, s)))"

definition clock :: "('s \<Rightarrow> 'a) \<Rightarrow> ('s, 'a) sys_eff" where
  "clock f st = (Inr (f (snd st)), st)"

text \<open>\<open>server.v1_..().await?.map_err(..)?\<close>.\<close>

definition rpc :: "('s, server_rpc_error + 'a) eff \<Rightarrow> ('s, 'a) sys_eff" where
  "rpc m = call (on_net m) (\<lambda>r. done_with (map_err rpc_error_display r))"

section \<open>Direct messages\<close>

definition refresh_own_server_name :: "('s, 'srv) world \<Rightarrow> identity \<Rightarrow> ('s, server_name) sys_eff" where
  "refresh_own_server_name W identity =
     call (clock (w_dir W)) (\<lambda>dir.
     call (done_with (and_then (dir (id_username identity)) (ok_or ''identity username not in directory''))) (\<lambda>d.
     call (on_db (modify_by (store_server_name (ud_server_name d)))) (\<lambda>_.
       done_with (Inr (ud_server_name d)))))"

definition own_server_name :: "('s, 'srv) world \<Rightarrow> identity \<Rightarrow> ('s, server_name) sys_eff" where
  "own_server_name W identity =
     (case id_server_name identity of
        Some server_name \<Rightarrow> done_with (Inr server_name)
      | None \<Rightarrow> refresh_own_server_name W identity)"

text \<open>The loop of \<open>collect_recipients\<close>, in \<open>send.rs\<close> and again in \<open>rekey.rs\<close>.\<close>

fun collect_loop :: "ext \<Rightarrow> chain_map \<Rightarrow> medium_map \<Rightarrow> dh_public list" where
  "collect_loop E [] medium_pks = []"
| "collect_loop E ((device_hash, chain) # device_chains) medium_pks =
     (let cert = last_device chain in
      if pk_hash E (cert_pk cert) \<noteq> device_hash then collect_loop E device_chains medium_pks
      else (case map_of medium_pks device_hash of
          None \<Rightarrow> collect_loop E device_chains medium_pks
        | Some medium_pk \<Rightarrow>
            if \<not> is_ok (smp_verify E medium_pk (cert_pk cert)) then collect_loop E device_chains medium_pks
            else smp_medium_pk medium_pk # collect_loop E device_chains medium_pks))"

definition collect_recipients :: "ext \<Rightarrow> chain_map \<Rightarrow> medium_map \<Rightarrow> anyhow + dh_public list" where
  "collect_recipients E device_chains medium_pks =
     (let recipients = collect_loop E device_chains medium_pks in
      if recipients = [] then Inl ''no medium-term keys available'' else Inr recipients)"

definition recipients_from_peer :: "ext \<Rightarrow> 'srv user_info \<Rightarrow> anyhow + dh_public list" where
  "recipients_from_peer E peer = collect_recipients E (ui_device_chains peer) (ui_medium_pks peer)"

text \<open>Sign, encrypt to the recipients' devices and wrap.\<close>

definition seal_dm ::
  "ext \<Rightarrow> dh_secret \<Rightarrow> aead_key \<Rightarrow> identity \<Rightarrow> dh_public list \<Rightarrow> blob \<Rightarrow> anyhow + blob" where
  "seal_dm E esk key identity recipients message =
     and_then (map_err (\<lambda>_. ''device sign error'') (device_sign_blob E message (id_username identity)
       (id_cert_chain identity) (id_device_secret identity))) (\<lambda>ds.
     and_then (ok_or ''encode error'' (bcs_enc E (ser_device_signed ds))) (\<lambda>signed_bytes.
     and_then (map_err (\<lambda>_. ''failed to encrypt DM'') (he_encrypt_bytes E esk key signed_bytes recipients)) (\<lambda>encrypted.
     and_then (ok_or ''encode error'' (bcs_enc E (ser_header_encrypted encrypted))) (\<lambda>inner.
       Inr \<lparr> blob_kind = V1_DIRECT_MESSAGE, blob_inner = inner \<rparr>))))"

definition send_dm_once ::
  "ext \<Rightarrow> ('s, 'srv) world \<Rightarrow> identity \<Rightarrow> username \<Rightarrow> blob \<Rightarrow> ('s, nano_timestamp) sys_eff" where
  "send_dm_once E W identity target message =
     call (clock (\<lambda>s. (w_now_s W s, w_dir W s, w_users W s))) (\<lambda>(now, dir, api).
     call (on_db (get_user_info E now dir api target)) (\<lambda>peer.
     call (own_server_name W identity) (\<lambda>own_server.
     call (done_with (recipients_from_peer E peer)) (\<lambda>recipients.
     call (if ui_server_name peer = own_server then on_net (w_auth_token W identity)
           else done_with (Inr anonymous)) (\<lambda>auth.
     call (draw (w_rand_dh W)) (\<lambda>esk.
     call (draw (w_rand_key W)) (\<lambda>key.
     call (done_with (seal_dm E esk key identity recipients message)) (\<lambda>blob.
       rpc (w_mailbox_send W (ui_server_name peer) auth (mailbox_direct E target) blob 0)))))))))"

definition send_dm ::
  "ext \<Rightarrow> ('s, 'srv) world \<Rightarrow> username \<Rightarrow> string \<Rightarrow> bytes \<Rightarrow> nano_timestamp \<Rightarrow> ('s, nano_timestamp) sys_eff" where
  "send_dm E W peer mime body sent_at =
     call (on_db (read_db (load_identity E))) (\<lambda>identity.
     let content = \<lparr> ev_recipient = RUser peer, ev_sent_at = sent_at, ev_mime = mime, ev_body = body \<rparr> in
     call (done_with (ok_or ''encode error'' (bcs_enc E (ser_event content)))) (\<lambda>inner.
     let message = \<lparr> blob_kind = V1_MESSAGE_CONTENT, blob_inner = inner \<rparr> in
     call (send_dm_once E W identity peer message) (\<lambda>peer_received_at.
       if id_username identity \<noteq> peer then send_dm_once E W identity (id_username identity) message
       else done_with (Inr peer_received_at))))"

section \<open>Group messages\<close>

definition send_to_group_mailbox ::
  "('s, 'srv) world \<Rightarrow> group_record \<Rightarrow> mailbox_id \<Rightarrow> blob \<Rightarrow> ('s, nano_timestamp) sys_eff" where
  "send_to_group_mailbox W grp mailbox message =
     rpc (w_mailbox_send W (gr_server_name grp) (gr_token grp) mailbox message 0)"

definition seal_group ::
  "ext \<Rightarrow> anyhow \<Rightarrow> 192 word \<Rightarrow> identity \<Rightarrow> event \<Rightarrow> aead_key \<Rightarrow> anyhow + blob" where
  "seal_group E failure nonce identity content key =
     and_then (map_err (\<lambda>_. failure) (encrypt_message E nonce content (id_username identity) (id_cert_chain identity)
       (id_device_secret identity) key)) (\<lambda>group_message.
     and_then (ok_or ''encode error'' (bcs_enc E (ser_group_message group_message))) (\<lambda>inner.
       Inr \<lparr> blob_kind = V1_GROUP_MESSAGE, blob_inner = inner \<rparr>))"

definition send_group_message ::
  "ext \<Rightarrow> ('s, 'srv) world \<Rightarrow> group_id \<Rightarrow> string \<Rightarrow> bytes \<Rightarrow> nano_timestamp \<Rightarrow> ('s, nano_timestamp) sys_eff" where
  "send_group_message E W g mime body sent_at =
     call (on_db (read_db (load_identity E))) (\<lambda>identity.
     call (on_db (read_db (\<lambda>db. and_then (load_group E g db) (ok_or ''group not found'')))) (\<lambda>grp.
     let content = \<lparr> ev_recipient = RGroup (gr_group_id grp), ev_sent_at = sent_at, ev_mime = mime, ev_body = body \<rparr> in
     call (draw (w_rand_nonce W)) (\<lambda>nonce.
     call (done_with (seal_group E ''failed to encrypt group message'' nonce identity content (gr_key_current grp))) (\<lambda>blob.
       send_to_group_mailbox W grp (mailbox_group_messages E (gr_group_id grp)) blob))))"

definition send_management_message ::
  "ext \<Rightarrow> ('s, 'srv) world \<Rightarrow> identity \<Rightarrow> group_record \<Rightarrow> group_manage_msg \<Rightarrow> ('s, nano_timestamp) sys_eff" where
  "send_management_message E W identity grp manage =
     call (clock (w_now_ns W)) (\<lambda>now.
     call (done_with (map_err (\<lambda>_. ''payload decode error'') (from_json_payload E group_manage_mime ser_group_manage
       (RGroup (gr_group_id grp)) now manage))) (\<lambda>content.
     call (draw (w_rand_nonce W)) (\<lambda>nonce.
     call (done_with (seal_group E ''failed to encrypt management message'' nonce identity content
       (gd_management_key (gr_descriptor grp)))) (\<lambda>blob.
       send_to_group_mailbox W grp (mailbox_group_management E (gr_group_id grp)) blob))))"

section \<open>The queue\<close>

definition queue_message ::
  "ext \<Rightarrow> nano_timestamp \<Rightarrow> convo_id \<Rightarrow> username \<Rightarrow> string \<Rightarrow> bytes \<Rightarrow> (client_db, int) eff" where
  "queue_message E now convo sender mime body =
     call (transact (ensure_convo_id now (convo_type convo) (convo_counterparty E convo))) (\<lambda>convo_id.
     call (transact (\<lambda>db.
       let row = new_message convo_id (username_as_str sender) mime body now None db in
       and_then (ok_or ''UNIQUE constraint failed'' (t_insert sent_key row (c_messages db))) (\<lambda>rows.
         Inr (cm_id row, db \<lparr> c_messages := rows \<rparr>)))) (\<lambda>row_id.
     call (modify_by (note_attachment E sender mime body)) (\<lambda>_.
       done_with (Inr row_id))))"

definition send_message ::
  "ext \<Rightarrow> ('s, 'srv) world \<Rightarrow> convo_id \<Rightarrow> string \<Rightarrow> bytes \<Rightarrow> nano_timestamp \<Rightarrow> ('s, nano_timestamp) sys_eff" where
  "send_message E W convo mime body sent_at =
     (case convo of
        Direct peer \<Rightarrow> send_dm E W peer mime body sent_at
      | Group group_id \<Rightarrow> send_group_message E W group_id mime body sent_at)"

record pending_message =
  pm_id :: int
  pm_convo_type :: string
  pm_counterparty :: string
  pm_mime :: string
  pm_body :: bytes
  pm_sent_at :: nano_timestamp

definition is_pending :: "client_db \<Rightarrow> message_row \<Rightarrow> bool" where
  "is_pending db m \<longleftrightarrow> cm_received_at m = None \<and> cm_send_error m = None \<and> t_get cv_id (cm_convo_id m) (c_convos db) \<noteq> None"

definition next_pending_message :: "client_db \<Rightarrow> pending_message option" where
  "next_pending_message db =
     (case sort_key cm_id (filter (is_pending db) (c_messages db)) of
        [] \<Rightarrow> None
      | m # _ \<Rightarrow> map_option (\<lambda>c. \<lparr> pm_id = cm_id m, pm_convo_type = cv_type c, pm_counterparty = cv_counterparty c,
          pm_mime = cm_mime m, pm_body = cm_body m, pm_sent_at = cm_sent_at m \<rparr>)
          (t_get cv_id (cm_convo_id m) (c_convos db)))"

definition mark_message_sent :: "int \<Rightarrow> nano_timestamp \<Rightarrow> client_db \<Rightarrow> client_db" where
  "mark_message_sent i received_at db =
     db \<lparr> c_messages := t_update (\<lambda>m. cm_id m = i) (\<lambda>m. m \<lparr> cm_received_at := Some received_at \<rparr>) (c_messages db) \<rparr>"

definition mark_message_failed :: "int \<Rightarrow> anyhow \<Rightarrow> nano_timestamp \<Rightarrow> client_db \<Rightarrow> client_db" where
  "mark_message_failed i err now db =
     db \<lparr> c_messages := t_update (\<lambda>m. cm_id m = i)
       (\<lambda>m. m \<lparr> cm_send_error := Some err, cm_received_at := Some now \<rparr>) (c_messages db) \<rparr>"

text \<open>One turn of \<open>send_loop_once\<close>; without a pending message the loop waits for a change.\<close>

definition send_turn :: "ext \<Rightarrow> ('s, 'srv) world \<Rightarrow> client_db \<times> 's \<Rightarrow> client_db \<times> 's" where
  "send_turn E W st =
     (case next_pending_message (fst st) of
        None \<Rightarrow> st
      | Some pending \<Rightarrow>
          (case parse_convo_id E (pm_convo_type pending) (pm_counterparty pending) of
             None \<Rightarrow> (mark_message_failed (pm_id pending) ''invalid convo entry'' (w_now_ns W (snd st)) (fst st), snd st)
           | Some convo \<Rightarrow>
               (case retry_backoff (send_message E W convo (pm_mime pending) (pm_body pending) (pm_sent_at pending)) st of
                  (Inr received_at, st', slept) \<Rightarrow> (mark_message_sent (pm_id pending) received_at (fst st'), snd st')
                | (Inl err, st', slept) \<Rightarrow>
                    (mark_message_failed (pm_id pending) err (w_now_ns W (snd st')) (fst st'), snd st'))))"

section \<open>Groups\<close>

definition insert_group ::
  "ext \<Rightarrow> group_id \<Rightarrow> group_descriptor \<Rightarrow> server_name \<Rightarrow> auth_token \<Rightarrow> aead_key \<Rightarrow> client_db \<Rightarrow> anyhow + client_db" where
  "insert_group E g descriptor server_name token group_key db =
     and_then (ok_or ''encode error'' (bcs_enc E (ser_group_descriptor ser_hash ser_aead_key descriptor))) (\<lambda>d.
     and_then (ok_or ''encode error'' (bcs_enc E (ser_auth_token token))) (\<lambda>t.
     and_then (ok_or ''encode error'' (bcs_enc E (ser_aead_key group_key))) (\<lambda>k.
     and_then (ok_or ''UNIQUE constraint failed'' (t_insert gw_group_id
       \<lparr> gw_group_id = group_column g, gw_descriptor = d, gw_server_name = server_name_as_str server_name, gw_token = t,
         gw_key_current = k, gw_key_prev = k, gw_roster_version = 0 \<rparr> (c_groups db))) (\<lambda>rows.
       Inr (db \<lparr> c_groups := rows \<rparr>)))))"

definition group_acl :: "ext \<Rightarrow> auth_token \<Rightarrow> bool \<Rightarrow> mailbox_acl" where
  "group_acl E token edit =
     \<lparr> acl_token_hash = bcs_hash E (ser_auth_token token), can_edit_acl = edit, can_send = True, can_recv = True \<rparr>"

definition create_group_rows ::
  "ext \<Rightarrow> nano_timestamp \<Rightarrow> group_id \<Rightarrow> group_descriptor \<Rightarrow> auth_token \<Rightarrow> aead_key \<Rightarrow> client_db
    \<Rightarrow> anyhow + (unit \<times> client_db)" where
  "create_group_rows E now g descriptor token group_key db =
     and_then (insert_group E g descriptor (gd_server descriptor) token group_key db) (\<lambda>db.
     and_then (roster_load g (gd_init_admin descriptor) db) (\<lambda>db.
     and_then (list_raw g db) (\<lambda>_.
     let db = ensure_mailbox_state (gd_server descriptor) (mailbox_group_management E g) 0 db;
         db = ensure_mailbox_state (gd_server descriptor) (mailbox_group_messages E g) now db in
     and_then (ensure_convo_id now ''group'' (group_id_display E g) db) (\<lambda>(_, db).
       Inr ((), db)))))"

definition create_group :: "ext \<Rightarrow> ('s, 'srv) world \<Rightarrow> server_name \<Rightarrow> ('s, group_id) sys_eff" where
  "create_group E W server_name =
     call (on_db (read_db (load_identity E))) (\<lambda>identity.
     call (clock (w_dir W)) (\<lambda>dir.
     call (done_with (and_then (dir (id_username identity)) (ok_or ''identity username not in directory''))) (\<lambda>user_descriptor.
     if ud_server_name user_descriptor \<noteq> server_name then done_with (Inl ''group server must match username server'')
     else
       call (draw (w_rand_hash W)) (\<lambda>nonce.
       call (clock (w_now_s W)) (\<lambda>created_at.
       call (draw (w_rand_key W)) (\<lambda>management_key.
       let descriptor = \<lparr> gd_nonce = nonce, gd_init_admin = id_username identity, gd_created_at = created_at,
             gd_server = server_name, gd_management_key = management_key \<rparr>;
           g = group_descriptor_id E descriptor in
       call (draw (w_rand_key W)) (\<lambda>group_key.
       call (draw (w_rand_token W)) (\<lambda>token.
       call (on_net (w_auth_token W identity)) (\<lambda>auth.
       call (rpc (w_register_group W server_name auth g)) (\<lambda>_.
       call (rpc (w_acl_edit W server_name auth (mailbox_group_messages E g) (group_acl E token True))) (\<lambda>_.
       call (rpc (w_acl_edit W server_name auth (mailbox_group_management E g) (group_acl E token True))) (\<lambda>_.
       call (clock (w_now_ns W)) (\<lambda>now.
       call (on_db (transact (create_group_rows E now g descriptor token group_key))) (\<lambda>_.
         done_with (Inr g)))))))))))))))"

definition invite :: "ext \<Rightarrow> ('s, 'srv) world \<Rightarrow> group_id \<Rightarrow> username \<Rightarrow> ('s, unit) sys_eff" where
  "invite E W g u =
     call (on_db (read_db (load_identity E))) (\<lambda>identity.
     if u = id_username identity then done_with (Inl ''cannot invite self'')
     else
       call (clock (w_dir W)) (\<lambda>dir.
       call (done_with (and_then (dir u) (ok_or ''username not in directory''))) (\<lambda>_.
       call (on_db (read_db (\<lambda>db. and_then (load_group E g db) (ok_or ''group not found'')))) (\<lambda>grp.
       call (draw (w_rand_token W)) (\<lambda>invite_token.
       call (rpc (w_acl_edit W (gr_server_name grp) (gr_token grp) (mailbox_group_messages E (gr_group_id grp))
         (group_acl E invite_token False))) (\<lambda>_.
       call (rpc (w_acl_edit W (gr_server_name grp) (gr_token grp) (mailbox_group_management E (gr_group_id grp))
         (group_acl E invite_token False))) (\<lambda>_.
       call (send_management_message E W identity grp (InviteSent u)) (\<lambda>_.
       call (clock (w_now_ns W)) (\<lambda>now.
       let invite = \<lparr> gi_descriptor = gr_descriptor grp, gi_group_key = gr_key_current grp, gi_token = invite_token,
             gi_created_at = now \<rparr> in
       call (done_with (map_err (\<lambda>_. ''payload decode error'') (from_json_payload E group_invite_mime (ser_group_invite E)
         (RUser u) now invite))) (\<lambda>content.
       call (on_db (queue_message E now (Direct u) (id_username identity) (ev_mime content) (ev_body content))) (\<lambda>_.
         done_with (Inr ()))))))))))))"

definition find_invite :: "ext \<Rightarrow> int \<Rightarrow> client_db \<Rightarrow> anyhow + group_invite_msg" where
  "find_invite E invite_id db =
     and_then (ok_or ''invite not found'' (t_get cm_id invite_id (filter (\<lambda>m. \<exists>c \<in> set (c_convos db).
       cv_id c = cm_convo_id m \<and> cv_type c = ''direct'') (c_messages db)))) (\<lambda>m.
       if cm_mime m \<noteq> group_invite_mime then Inl ''message is not a group invite''
       else ok_or ''json error'' (json_from E ty_group_invite (de_group_invite E) (cm_body m)))"

definition accept_rows :: "ext \<Rightarrow> nano_timestamp \<Rightarrow> group_invite_msg \<Rightarrow> client_db \<Rightarrow> anyhow + (unit \<times> client_db)" where
  "accept_rows E now msg db =
     (let descriptor = gi_descriptor msg; g = group_descriptor_id E descriptor in
      and_then (if group_known db (group_column g) then Inr db
        else insert_group E g descriptor (gd_server descriptor) (gi_token msg) (gi_group_key msg) db) (\<lambda>db.
      let db = ensure_mailbox_state (gd_server descriptor) (mailbox_group_management E g) 0 db;
          db = ensure_mailbox_state (gd_server descriptor) (mailbox_group_messages E g) (gi_created_at msg) db in
      and_then (ensure_convo_id now ''group'' (group_id_display E g) db) (\<lambda>(_, db).
        Inr ((), db))))"

definition accept_invite :: "ext \<Rightarrow> ('s, 'srv) world \<Rightarrow> int \<Rightarrow> ('s, group_id) sys_eff" where
  "accept_invite E W invite_id =
     call (on_db (read_db (load_identity E))) (\<lambda>identity.
     call (on_db (read_db (find_invite E invite_id))) (\<lambda>invite.
     let g = group_descriptor_id E (gi_descriptor invite) in
     call (clock (w_now_ns W)) (\<lambda>now.
     call (on_db (transact (accept_rows E now invite))) (\<lambda>_.
     call (on_db (read_db (\<lambda>db. and_then (load_group E g db) (ok_or ''group not found after invite accept'')))) (\<lambda>grp.
     call (send_management_message E W identity grp InviteAccepted) (\<lambda>_.
       done_with (Inr g)))))))"

section \<open>Rekeying\<close>

fun collect_members ::
  "ext \<Rightarrow> ('s, 'srv) world \<Rightarrow> roster_member list \<Rightarrow> ('s, dh_public list) sys_eff" where
  "collect_members E W [] = done_with (Inr [])"
| "collect_members E W (m # ms) =
     call (clock (\<lambda>s. (w_now_s W s, w_dir W s, w_users W s))) (\<lambda>(now, dir, api).
     call (on_db (get_user_info E now dir api (rm_username m))) (\<lambda>peer.
     call (collect_members E W ms) (\<lambda>rest.
       done_with (Inr (collect_loop E (ui_device_chains peer) (ui_medium_pks peer) @ rest)))))"

definition collect_group_recipients ::
  "ext \<Rightarrow> ('s, 'srv) world \<Rightarrow> group_record \<Rightarrow> ('s, dh_public list) sys_eff" where
  "collect_group_recipients E W grp =
     call (on_db (transact (\<lambda>db. and_then (roster_load (gr_group_id grp) (gd_init_admin (gr_descriptor grp)) db)
       (\<lambda>db. Inr ((), db))))) (\<lambda>_.
     call (on_db (read_db (list_raw (gr_group_id grp)))) (\<lambda>members.
     call (collect_members E W (filter is_active members)) (\<lambda>recipients.
       if recipients = [] then done_with (Inl ''no recipients available for group'')
       else done_with (Inr recipients))))"

definition seal_rekey ::
  "ext \<Rightarrow> dh_secret \<Rightarrow> aead_key \<Rightarrow> identity \<Rightarrow> dh_public list \<Rightarrow> group_id \<Rightarrow> aead_key \<Rightarrow> anyhow + blob" where
  "seal_rekey E esk key identity recipients g new_key =
     and_then (ok_or ''encode error'' (bcs_enc E (ser_rekey (g, aead_key_to_bytes new_key)))) (\<lambda>payload.
     let ds = device_sign_bytes E payload (id_username identity) (id_cert_chain identity) (id_device_secret identity) in
     and_then (ok_or ''encode error'' (bcs_enc E (ser_device_signed ds))) (\<lambda>signed_bytes.
     and_then (map_err (\<lambda>_. ''failed to encrypt group rekey'') (he_encrypt_bytes E esk key signed_bytes recipients)) (\<lambda>encrypted.
     and_then (ok_or ''encode error'' (bcs_enc E (ser_header_encrypted encrypted))) (\<lambda>inner.
       Inr \<lparr> blob_kind = V1_GROUP_REKEY, blob_inner = inner \<rparr>))))"

definition send_group_rekey :: "ext \<Rightarrow> ('s, 'srv) world \<Rightarrow> identity \<Rightarrow> group_record \<Rightarrow> ('s, unit) sys_eff" where
  "send_group_rekey E W identity grp =
     call (collect_group_recipients E W grp) (\<lambda>recipients.
     call (draw (w_rand_key W)) (\<lambda>new_key.
     call (draw (w_rand_dh W)) (\<lambda>esk.
     call (draw (w_rand_key W)) (\<lambda>key.
     call (done_with (seal_rekey E esk key identity recipients (gr_group_id grp) new_key)) (\<lambda>outer.
     call (send_to_group_mailbox W grp (mailbox_group_messages E (gr_group_id grp)) outer) (\<lambda>_.
       done_with (Inr ())))))))"

fun rekey_groups :: "ext \<Rightarrow> ('s, 'srv) world \<Rightarrow> identity \<Rightarrow> group_record list \<Rightarrow> ('s, unit) sys_eff" where
  "rekey_groups E W identity [] = done_with (Inr ())"
| "rekey_groups E W identity (grp # grps) =
     call (on_db (transact (\<lambda>db. and_then (roster_load (gr_group_id grp) (gd_init_admin (gr_descriptor grp)) db)
       (\<lambda>db. Inr ((), db))))) (\<lambda>_.
     call (on_db (read_db (list_raw (gr_group_id grp)))) (\<lambda>members.
     let admin_count = length (filter (\<lambda>m. rm_is_admin m \<and> is_active m) members) in
     if admin_count = 0 then rekey_groups E W identity grps
     else if \<not> list_ex (\<lambda>m. rm_username m = id_username identity \<and> rm_is_admin m \<and> is_active m) members
     then rekey_groups E W identity grps
     else
       call (draw (w_roll W admin_count)) (\<lambda>hit.
       call (if hit then (\<lambda>st. (Inr (), snd (send_group_rekey E W identity grp st))) else done_with (Inr ())) (\<lambda>_.
         rekey_groups E W identity grps))))"

definition group_rekey_loop_once :: "ext \<Rightarrow> ('s, 'srv) world \<Rightarrow> ('s, unit) sys_eff" where
  "group_rekey_loop_once E W =
     call (on_db (read_db (load_identity E))) (\<lambda>identity.
     call (on_db (read_db (load_groups E))) (\<lambda>groups.
       rekey_groups E W identity groups))"

end
