(* ===== verification/Convo.thy ===== *)
theory Convo
  imports ConvoSend
begin

text \<open>
  What sending and receiving promise together: a sealed direct message, group message or group key is
  opened by whoever holds a key it was made for, verified, and stored or installed. The properties of
  the receiving side alone, proved from \<open>ConvoRecv\<close>, stand here too, next to the concrete run
  of two clients on which all of them are tried.
\<close>

section \<open>Opening what was sealed\<close>

lemma decode_as_enc:
  "bcs_law E \<Longrightarrow> bcs_enc E v = Some b \<Longrightarrow> map_free t \<Longrightarrow> has_styp t v \<Longrightarrow> d v = Some x \<Longrightarrow> decode_as E t d b = Inr x"
  by (simp add: decode_as_def bcs_from_enc)

text \<open>Under the assumption that the body opens under one key only, any other secret key yields the
  plaintext or an error, never another plaintext.\<close>

lemma decrypt_headers_only:
  assumes "opens_only_under E key body aad" and "aead_decrypt E key 0 body aad = Inr m"
  shows "decrypt_headers E sk body aad hs = Inr p \<Longrightarrow> p = m"
proof (induction hs)
  case (Cons h hs)
  have right: "aead_decrypt E (AeadKey k) 0 body aad = Inr q \<Longrightarrow> q = m" for k q
    using assms by (cases key) (auto simp: opens_only_under_def split: option.splits)
  from Cons show ?case
    by (auto simp: Let_def right split: if_splits sum.splits)
qed simp

lemma he_encrypt_Inr:
  assumes "he_encrypt_bytes E esk key m recipients = Inr h"
  shows "\<exists>aad. header_aad E (he_sender_epk h) (he_headers h) = Inr aad \<and> aead_encrypt E key 0 m aad = Inr (he_body h)"
  using assms by (auto simp: he_encrypt_bytes_def Let_def split: if_splits)

lemma he_decrypt_only:
  assumes "aead_law E" and enc: "he_encrypt_bytes E esk key m recipients = Inr h"
    and only: "\<And>aad. header_aad E (he_sender_epk h) (he_headers h) = Inr aad \<Longrightarrow> opens_only_under E key (he_body h) aad"
    and dec: "he_decrypt_bytes E h sk = Inr p"
  shows "p = m"
proof -
  obtain aad where aad: "header_aad E (he_sender_epk h) (he_headers h) = Inr aad"
    and c: "aead_encrypt E key 0 m aad = Inr (he_body h)"
    using he_encrypt_Inr [OF enc] by blast
  from dec aad obtain ss hs where "decrypt_headers E ss (he_body h) aad hs = Inr p"
    by (auto simp: he_decrypt_bytes_def Let_def)
  with decrypt_headers_only [OF only [OF aad] aead_decrypt_encrypt [OF assms(1) c]] show ?thesis by blast
qed

lemma dm_decrypt_finds:
  assumes laws: "dh_law E" "stream_law E" "aead_law E"
    and enc: "he_encrypt_bytes E esk key m recipients = Inr h"
    and only: "\<And>aad. header_aad E (he_sender_epk h) (he_headers h) = Inr aad \<Longrightarrow> opens_only_under E key (he_body h) aad"
    and mine: "dh_public_key E (id_medium_sk_current identity) \<in> set recipients \<or>
      dh_public_key E (id_medium_sk_prev identity) \<in> set recipients"
  shows "dm_decrypt E identity h = Inr m"
proof -
  note aux = header_roundtrip_aux [OF laws enc _ only]
  show ?thesis
  proof (cases "he_decrypt_bytes E h (id_medium_sk_current identity)")
    case (Inl e)
    with mine aux show ?thesis by (auto simp: dm_decrypt_def)
  next
    case (Inr p)
    with he_decrypt_only [OF laws(3) enc only] show ?thesis by (simp add: dm_decrypt_def)
  qed
qed

definition sender_ok :: "ext \<Rightarrow> timestamp \<Rightarrow> identity \<Rightarrow> hash \<Rightarrow> bool" where
  "sender_ok E now identity root \<longleftrightarrow> username_wf (id_username identity) \<and> chain_wf E (id_cert_chain identity) \<and>
     chain_ok E now (id_cert_chain identity) root \<and>
     cert_pk (last_device (id_cert_chain identity)) = signing_public_key E (id_device_secret identity)"

lemma device_sign_blob_wf:
  "device_sign_blob E m u ch sk = Inr d \<Longrightarrow> ds_sender d = u \<and> ds_cert_chain d = ch"
  by (auto simp: device_sign_blob_def)

lemma seal_dm_Inr:
  assumes "seal_dm E esk key identity recipients m = Inr blob"
  obtains ds sb h inner where "device_sign_blob E m (id_username identity) (id_cert_chain identity) (id_device_secret identity) = Inr ds"
    and "bcs_enc E (ser_device_signed ds) = Some sb" and "he_encrypt_bytes E esk key sb recipients = Inr h"
    and "bcs_enc E (ser_header_encrypted h) = Some inner" and "blob = \<lparr> blob_kind = V1_DIRECT_MESSAGE, blob_inner = inner \<rparr>"
  using assms by (auto simp: seal_dm_def)

section \<open>Storing what was opened\<close>

text \<open>An accepted event is stored, unless a message of the same conversation with the same time of
  sending is already there.\<close>

definition duplicate :: "client_db \<Rightarrow> client_db \<Rightarrow> string \<Rightarrow> string \<Rightarrow> event \<Rightarrow> bool" where
  "duplicate db db' ctype counterparty content \<longleftrightarrow> (\<exists>old \<in> set (c_messages db). cm_sent_at old = ev_sent_at content \<and>
     (\<exists>cv \<in> set (c_convos db'). cv_id cv = cm_convo_id old \<and> cv_type cv = ctype \<and> cv_counterparty cv = counterparty))"

text \<open>What is assumed of the cipher where several keys are tried: the body opens under its own key only.\<close>

definition commits :: "ext \<Rightarrow> aead_key \<Rightarrow> blob \<Rightarrow> bool" where
  "commits E key blob \<longleftrightarrow> (\<forall>h aad. bcs_from E ty_header_encrypted de_header_encrypted (blob_inner blob) = Some h \<longrightarrow>
     header_aad E (he_sender_epk h) (he_headers h) = Inr aad \<longrightarrow> opens_only_under E key (he_body h) aad)"

lemma store_received_total:
  assumes "ctype \<in> {''direct'', ''group''}"
  shows "\<exists>db'. store_received E now_ns ctype cp sender content rcv db = (Inr (), db') \<and>
    ((\<exists>row. stored_row db db' ctype cp sender content rcv row) \<or>
      c_messages db' = c_messages db \<and> duplicate db db' ctype cp content)"
proof -
  let ?db1 = "note_attachment E sender (ev_mime content) (ev_body content) db"
  have "\<exists>p. ensure_convo_id now_ns ctype cp ?db1 = Inr p"
    using assms by (auto simp: ensure_convo_id_def Let_def split: option.split)
  then obtain i db2 where i: "ensure_convo_id now_ns ctype cp ?db1 = Inr (i, db2)" by auto
  note e = ensure_convo_Inr [OF i]
  let ?row = "new_message i (username_as_str sender) (ev_mime content) (ev_body content) (ev_sent_at content) (Some rcv) db2"
  let ?db' = "db2 \<lparr> c_messages := t_ignore sent_key ?row (c_messages db2) \<rparr>"
  have run: "store_received E now_ns ctype cp sender content rcv db = (Inr (), ?db')"
    using i by (simp add: store_received_def call_def transact_def ignore_message_def)
  have "(\<exists>row. stored_row db ?db' ctype cp sender content rcv row) \<or>
      c_messages ?db' = c_messages db \<and> duplicate db ?db' ctype cp content"
  proof (cases "sent_key ?row \<in> sent_key ` set (c_messages db2)")
    case True
    then obtain old where "old \<in> set (c_messages db)" "cm_sent_at old = ev_sent_at content" "cm_convo_id old = i"
      using e(1) by (auto simp: sent_key_def new_message_def)
    with e True have "duplicate db ?db' ctype cp content" unfolding duplicate_def by auto
    with True e(1) show ?thesis by (simp add: t_ignore_def)
  next
    case False
    then have "stored_row db ?db' ctype cp sender content rcv ?row"
      using e by (auto simp: t_ignore_def stored_row_def new_message_def)
    then show ?thesis by blast
  qed
  with run show ?thesis by blast
qed

lemma dm_delivered_aux:
  assumes laws: "bcs_law E" "sig_law E" "dh_law E" "stream_law E" "aead_law E"
    and seal: "seal_dm E esk key sender recipients \<lparr> blob_kind = V1_MESSAGE_CONTENT, blob_inner = b \<rparr> = Inr blob"
    and content: "bcs_enc E (ser_event content) = Some b" "ev_recipient content = RUser peer" "username_wf peer"
    and only: "commits E key blob"
    and me: "load_identity E db = Inr identity" "peer = id_username identity \<or> id_username sender = id_username identity"
      "dh_public_key E (id_medium_sk_current identity) \<in> set recipients \<or>
       dh_public_key E (id_medium_sk_prev identity) \<in> set recipients"
    and root: "get_user_root_hash E now dir (id_username sender) (update_mailbox_after n mailbox rcv db) = (Inr root, db1)"
    and ok: "sender_ok E now sender root"
  shows "\<exists>db'. process_mailbox_entry E now now_ns dir n mailbox
      \<lparr> mbe_message = blob, mbe_received_at = rcv, mbe_sender_auth_token_hash = tok \<rparr> db = (Inr (), db') \<and>
    (let cp = username_as_str (if id_username sender = id_username identity then peer else id_username sender) in
     (\<exists>row. stored_row db db' ''direct'' cp (id_username sender) content rcv row) \<or>
     c_messages db' = c_messages db \<and> duplicate db db' ''direct'' cp content)"
proof -
  let ?m = "\<lparr> blob_kind = V1_MESSAGE_CONTENT, blob_inner = b \<rparr>"
  let ?cp = "username_as_str (if id_username sender = id_username identity then peer else id_username sender)"
  from seal obtain ds sb h inner where
    ds: "device_sign_blob E ?m (id_username sender) (id_cert_chain sender) (id_device_secret sender) = Inr ds"
    and sb: "bcs_enc E (ser_device_signed ds) = Some sb" and h: "he_encrypt_bytes E esk key sb recipients = Inr h"
    and inner: "bcs_enc E (ser_header_encrypted h) = Some inner"
    and blob: "blob = \<lparr> blob_kind = V1_DIRECT_MESSAGE, blob_inner = inner \<rparr>"
    by (rule seal_dm_Inr)
  note who = device_sign_blob_wf [OF ds]
  have dec1: "decode_as E ty_header_encrypted de_header_encrypted inner = Inr h"
    by (rule decode_as_enc [OF laws(1) inner]) simp_all
  have only': "header_aad E (he_sender_epk h) (he_headers h) = Inr aad \<Longrightarrow> opens_only_under E key (he_body h) aad" for aad
    using only dec1 by (simp add: commits_def decode_as_def blob)
  have dec2: "dm_decrypt E identity h = Inr sb"
    by (rule dm_decrypt_finds [OF laws(3,4,5) h only' me(3)])
  have dec3: "decode_as E ty_device_signed (de_device_signed E) sb = Inr ds"
    using ok who by (intro decode_as_enc [OF laws(1) sb]) (simp_all add: ds_wf_def sender_ok_def)
  have ver: "device_verify_blob E now ds root = Inr ?m"
    using ok by (intro device_sign_verify_blob [OF laws(2,1) _ _ ds]) (simp_all add: sender_ok_def)
  have dec4: "decode_as E ty_event de_event b = Inr content"
    using content by (intro decode_as_enc [OF laws(1) content(1)]) simp_all
  obtain db' where st: "store_received E now_ns ''direct'' ?cp (id_username sender) content rcv db1 = (Inr (), db')"
    and res: "(\<exists>row. stored_row db1 db' ''direct'' ?cp (id_username sender) content rcv row) \<or>
      c_messages db' = c_messages db1 \<and> duplicate db1 db' ''direct'' ?cp content"
    using store_received_total [of "''direct''" E now_ns ?cp "id_username sender" content rcv db1] by auto
  have cr: "call (get_user_root_hash E now dir (id_username sender)) k (update_mailbox_after n mailbox rcv db) = k root db1"
    for k :: "hash \<Rightarrow> (client_db, unit) eff"
    using root by (simp add: call_def)
  have same: "c_messages db1 = c_messages db"
    using root_hash_keeps(1) [OF root] by simp
  have "process_mailbox_entry E now now_ns dir n mailbox
      \<lparr> mbe_message = blob, mbe_received_at = rcv, mbe_sender_auth_token_hash = tok \<rparr> db = (Inr (), db')"
    using me(2) st
    by (auto simp: process_mailbox_entry_def Let_def call_done me(1) blob dec1 dec2 dec3 who cr ver dec4 content(2))
  moreover have "(\<exists>row. stored_row db db' ''direct'' ?cp (id_username sender) content rcv row) \<or>
      c_messages db' = c_messages db \<and> duplicate db db' ''direct'' ?cp content"
    using res by (simp add: same stored_row_def duplicate_def)
  ultimately show ?thesis by (simp add: Let_def)
qed

lemma group_delivered_aux:
  assumes laws: "bcs_law E" "sig_law E" "aead_law E"
    and seal: "seal_group E failure nonce sender content key = Inr blob"
    and recipient: "ev_recipient content = RGroup (gr_group_id grp)"
    and reads: "gr_key_current grp = key \<or> gr_key_prev grp = key \<and>
      (\<forall>g. bcs_from E ty_group_message de_group_message (blob_inner blob) = Some g \<longrightarrow>
        aead_open E (aead_key_to_bytes (gr_key_current grp)) (gm_nonce g) (gm_ciphertext g) [] = None)"
    and root: "sender_root dir (id_username sender) = Inr root" and ok: "sender_ok E now sender root"
  shows "\<exists>db'. process_group_message_entry E now now_ns dir grp
      \<lparr> mbe_message = blob, mbe_received_at = rcv, mbe_sender_auth_token_hash = tok \<rparr> db = (Inr (), db') \<and>
    (let cp = group_id_display E (gr_group_id grp) in
     (\<exists>row. stored_row db db' ''group'' cp (id_username sender) content rcv row) \<or>
     c_messages db' = c_messages db \<and> duplicate db db' ''group'' cp content)"
proof -
  let ?cp = "group_id_display E (gr_group_id grp)"
  from seal obtain g inner where
    g: "encrypt_message E nonce content (id_username sender) (id_cert_chain sender) (id_device_secret sender) key = Inr g"
    and inner: "bcs_enc E (ser_group_message g) = Some inner"
    and blob: "blob = \<lparr> blob_kind = V1_GROUP_MESSAGE, blob_inner = inner \<rparr>"
    by (auto simp: seal_group_def)
  have dec: "decode_as E ty_group_message de_group_message inner = Inr g"
    by (rule decode_as_enc [OF laws(1) inner]) simp_all
  obtain ds b where d: "decrypt_message E g key = Inr ds" "ds_sender ds = id_username sender"
    and ver: "device_verify_blob E now ds root = Inr \<lparr> blob_kind = V1_MESSAGE_CONTENT, blob_inner = b \<rparr>"
    and b: "bcs_enc E (ser_event content) = Some b"
    using decrypt_encrypt_message [OF laws(1,3,2) g, of now root] ok by (auto simp: sender_ok_def)
  have dec2: "decode_as E ty_event de_event b = Inr content"
    using recipient by (intro decode_as_enc [OF laws(1) b]) simp_all
  have opened: "(case decrypt_message E g (gr_key_current grp) of Inr ds \<Rightarrow> Inr ds
      | Inl _ \<Rightarrow> map_err (\<lambda>_. ''decrypt error'') (decrypt_message E g (gr_key_prev grp))) = Inr ds"
  proof (cases "gr_key_current grp = key")
    case False
    with reads dec have prev: "gr_key_prev grp = key"
      and none: "aead_open E (aead_key_to_bytes (gr_key_current grp)) (gm_nonce g) (gm_ciphertext g) [] = None"
      by (auto simp: blob decode_as_def)
    from none have "\<exists>e. decrypt_message E g (gr_key_current grp) = Inl e"
      by (cases "gr_key_current grp") (simp add: decrypt_message_def)
    with prev d show ?thesis by auto
  qed (simp add: d)
  obtain db' where "store_received E now_ns ''group'' ?cp (id_username sender) content rcv db = (Inr (), db')"
    "(\<exists>row. stored_row db db' ''group'' ?cp (id_username sender) content rcv row) \<or>
      c_messages db' = c_messages db \<and> duplicate db db' ''group'' ?cp content"
    using store_received_total [of "''group''" E now_ns ?cp "id_username sender" content rcv db] by auto
  then show ?thesis
    by (intro exI [of _ db'])
      (simp add: process_group_message_entry_def Let_def call_done blob dec opened verify_group_payload_Inr
        verify_group_payload_def d root ver dec2 recipient v1_kinds(4,5))
qed

section \<open>Rotating a group key\<close>

lemma rekey_round [simp]: "de_rekey (ser_rekey p) = Some p" "has_styp ty_rekey (ser_rekey p)" "map_free ty_rekey"
  using has_styp_bytes(2) [of "snd p"]
  by (cases p; cases "fst p"; simp add: ser_rekey_def ty_rekey_def)+

lemma seal_rekey_Inr:
  assumes "seal_rekey E esk key identity recipients g new_key = Inr blob"
  obtains b ds sb h inner where "bcs_enc E (ser_rekey (g, aead_key_to_bytes new_key)) = Some b"
    and "ds = device_sign_bytes E b (id_username identity) (id_cert_chain identity) (id_device_secret identity)"
    and "bcs_enc E (ser_device_signed ds) = Some sb" and "he_encrypt_bytes E esk key sb recipients = Inr h"
    and "bcs_enc E (ser_header_encrypted h) = Some inner" and "blob = \<lparr> blob_kind = V1_GROUP_REKEY, blob_inner = inner \<rparr>"
  using assms by (auto simp: seal_rekey_def Let_def)

lemma install_key_total:
  assumes "bcs_enc E (ser_aead_key (gr_key_current grp)) \<noteq> None" and "bcs_enc E (ser_aead_key k) \<noteq> None"
  shows "\<exists>db'. install_key E grp k db = Inr ((), db')"
  using assms by (auto simp: install_key_def)

text \<open>A rekey entry that an active administrator sealed for one of this client's medium-term keys
  installs the new key.\<close>

lemma rekey_delivered_aux:
  assumes laws: "bcs_law E" "sig_law E" "dh_law E" "stream_law E" "aead_law E"
    and seal: "seal_rekey E esk key sender recipients (gr_group_id grp) new_key = Inr blob"
    and only: "commits E key blob"
    and me: "load_identity E db = Inr identity"
      "dh_public_key E (id_medium_sk_current identity) \<in> set recipients \<or>
       dh_public_key E (id_medium_sk_prev identity) \<in> set recipients"
    and admin: "roster_load (gr_group_id grp) (gd_init_admin (gr_descriptor grp)) db = Inr db1"
      "get_raw (gr_group_id grp) (id_username sender) db1 = Inr (Some m)" "rm_is_admin m" "is_active m"
    and root: "sender_root dir (id_username sender) = Inr root" and ok: "sender_ok E now sender root"
  shows "process_group_rekey_entry E now dir grp blob db = transact (install_key E grp new_key) db1"
proof -
  from seal obtain b ds sb h inner where b: "bcs_enc E (ser_rekey (gr_group_id grp, aead_key_to_bytes new_key)) = Some b"
    and ds: "ds = device_sign_bytes E b (id_username sender) (id_cert_chain sender) (id_device_secret sender)"
    and sb: "bcs_enc E (ser_device_signed ds) = Some sb" and h: "he_encrypt_bytes E esk key sb recipients = Inr h"
    and inner: "bcs_enc E (ser_header_encrypted h) = Some inner"
    and blob: "blob = \<lparr> blob_kind = V1_GROUP_REKEY, blob_inner = inner \<rparr>"
    by (rule seal_rekey_Inr)
  have who: "ds_sender ds = id_username sender" "ds_cert_chain ds = id_cert_chain sender"
    by (simp_all add: ds device_sign_bytes_def sign_with_def set_ds_signature_def)
  have dec1: "decode_as E ty_header_encrypted de_header_encrypted inner = Inr h"
    by (rule decode_as_enc [OF laws(1) inner]) simp_all
  have only': "header_aad E (he_sender_epk h) (he_headers h) = Inr aad \<Longrightarrow> opens_only_under E key (he_body h) aad" for aad
    using only dec1 by (simp add: commits_def decode_as_def blob)
  have "dm_decrypt E identity h = Inr sb"
    by (rule dm_decrypt_finds [OF laws(3,4,5) h only' me(2)])
  then have dec2: "(case he_decrypt_bytes E h (id_medium_sk_current identity) of Inr d \<Rightarrow> Inr d
      | Inl _ \<Rightarrow> map_err (\<lambda>_. ''decrypt error'') (he_decrypt_bytes E h (id_medium_sk_prev identity))) = Inr sb"
    by (auto simp: dm_decrypt_def split: sum.splits)
  have dec3: "decode_as E ty_device_signed (de_device_signed E) sb = Inr ds"
    using ok who by (intro decode_as_enc [OF laws(1) sb]) (simp_all add: ds_wf_def sender_ok_def)
  have ver: "device_verify_bytes E now ds root = Inr b"
    using ok unfolding ds by (intro device_sign_verify_bytes [OF laws(2)]) (simp_all add: sender_ok_def)
  have "decode_as E ty_rekey de_rekey b = Inr (gr_group_id grp, aead_key_to_bytes new_key)"
    by (rule decode_as_enc [OF laws(1) b]) simp_all
  moreover have "AeadKey (aead_key_to_bytes new_key) = new_key" by (cases new_key) simp
  moreover have "transact (\<lambda>db. and_then (roster_load (gr_group_id grp) (gd_init_admin (gr_descriptor grp)) db)
      (\<lambda>db. Inr ((), db))) db = (Inr (), db1)"
    by (simp add: transact_def admin)
  ultimately show ?thesis
    using admin me(1)
    by (simp add: process_group_rekey_entry_def Let_def call_done call_def [of "transact f" for f] call_def [of "read_db f" for f]
        read_db_def blob dec1 dec2 dec3 who root ver)
qed

text \<open>The group as it is loaded: untouched by the initialisation of its roster, and with the new keys
  after a rotation.\<close>

lemma record_of_row_version [simp]: "record_of_row E (r \<lparr> gw_roster_version := v \<rparr>) = record_of_row E r"
  by (simp add: record_of_row_def)

lemma load_group_set_version [simp]: "load_group E g (set_version g' f db) = load_group E g db"
proof -
  have "gw_group_id (r \<lparr> gw_roster_version := v \<rparr>) = gw_group_id r" for r v by simp
  then show ?thesis
    by (auto simp: load_group_def set_version_def t_get_update [where key = gw_group_id] split: option.split)
qed

lemma load_group_roster_load:
  assumes "roster_load g admin db = Inr db1"
  shows "load_group E g db1 = load_group E g db"
  using roster_load_cases [OF assms]
proof (elim disjE exE conjE)
  fix m b db2 f
  assume u: "upsert_member g m db = Inr (b, db2)" and db1: "db1 = set_version g f db2"
  have "load_group E g db2 = load_group E g db" using member_upsert_keeps(3) [OF u] by (simp add: load_group_def)
  then show ?thesis by (simp add: db1)
qed simp

lemma load_group_Some:
  assumes "load_group E g db = Inr (Some grp)"
  obtains r where "t_get gw_group_id (group_column g) (c_groups db) = Some r" and "record_of_row E r = Inr grp"
    and "gr_group_id grp = g"
proof -
  obtain r where r: "t_get gw_group_id (group_column g) (c_groups db) = Some r" and rec: "record_of_row E r = Inr grp"
    using assms by (auto simp: load_group_def split: option.splits)
  have "gw_group_id r = group_column g" using r by (auto simp: t_get_def find_Some_iff)
  then have "gr_group_id grp = g"
    using rec by (cases g; cases "group_id_hash g") (auto simp: record_of_row_def group_column_def group_id_as_bytes_def)
  with r rec show thesis by (rule that)
qed

lemma load_group_install:
  assumes "bcs_law E" and group: "load_group E (gr_group_id grp) db = Inr (Some grp)"
    and inst: "install_key E grp k db = Inr ((), db')"
  shows "load_group E (gr_group_id grp) db' = Inr (Some (grp \<lparr> gr_key_current := k, gr_key_prev := gr_key_current grp \<rparr>))"
proof -
  obtain r where r: "t_get gw_group_id (group_column (gr_group_id grp)) (c_groups db) = Some r"
    and rec: "record_of_row E r = Inr grp"
    by (rule load_group_Some [OF group]) blast
  obtain p c where p: "bcs_enc E (ser_aead_key (gr_key_current grp)) = Some p" and c: "bcs_enc E (ser_aead_key k) = Some c"
    and db': "db' = db \<lparr> c_groups := t_update (\<lambda>r. gw_group_id r = group_column (gr_group_id grp))
         (\<lambda>r. r \<lparr> gw_key_prev := p, gw_key_current := c \<rparr>) (c_groups db) \<rparr>"
    using inst by (auto simp: install_key_def)
  have "decode_as E TBytes de_aead_key p = Inr (gr_key_current grp)" "decode_as E TBytes de_aead_key c = Inr k"
    by (rule decode_as_enc [OF assms(1) p], simp_all) (rule decode_as_enc [OF assms(1) c], simp_all)
  with rec have "record_of_row E (r \<lparr> gw_key_prev := p, gw_key_current := c \<rparr>) =
      Inr (grp \<lparr> gr_key_current := k, gr_key_prev := gr_key_current grp \<rparr>)"
    by (auto simp: record_of_row_def)
  with r show ?thesis
    by (simp add: load_group_def db' t_get_update [where key = gw_group_id])
qed

text \<open>A group joined or created is loaded as it was inserted.\<close>

lemma load_group_inserted:
  assumes "bcs_law E" and ins: "insert_group E g d n tok k db = Inr db'" and "gd_wf d" and "server_name_wf n"
  shows "load_group E g db' = Inr (Some \<lparr> gr_group_id = g, gr_descriptor = d, gr_server_name = n, gr_token = tok,
    gr_key_current = k, gr_key_prev = k \<rparr>)"
proof -
  obtain ob tb kb rows where e: "bcs_enc E (ser_group_descriptor ser_hash ser_aead_key d) = Some ob"
    "bcs_enc E (ser_auth_token tok) = Some tb" "bcs_enc E (ser_aead_key k) = Some kb"
    and rows: "t_insert gw_group_id \<lparr> gw_group_id = group_column g, gw_descriptor = ob,
      gw_server_name = server_name_as_str n, gw_token = tb, gw_key_current = kb, gw_key_prev = kb, gw_roster_version = 0 \<rparr>
      (c_groups db) = Some rows"
    and db': "db' = db \<lparr> c_groups := rows \<rparr>"
    using ins by (auto simp: insert_group_def)
  have dec: "decode_as E (ty_group_descriptor TBytes TBytes) (de_group_descriptor de_hash de_aead_key) ob = Inr d"
    using assms(3) by (intro decode_as_enc [OF assms(1) e(1)]) (simp_all add: map_free_attachment)
  have dec2: "decode_as E TBytes de_auth_token tb = Inr tok" "decode_as E TBytes de_aead_key kb = Inr k"
    by (rule decode_as_enc [OF assms(1) e(2)], simp_all) (rule decode_as_enc [OF assms(1) e(3)], simp_all)
  have "GroupId (Hash (group_id_as_bytes g)) = g" by (cases g; cases "group_id_hash g") (auto simp: group_id_as_bytes_def)
  moreover have "t_get gw_group_id (group_column g) (c_groups db) = None"
    using rows by (auto simp: t_insert_def t_get_None split: if_splits)
  ultimately show ?thesis using rows dec dec2 assms(4)
    by (auto simp: load_group_def db' t_insert_def t_get_append t_get_simps record_of_row_def group_column_def
        server_name_parse_as_str split: if_splits)
qed

section \<open>A run of two clients\<close>

text \<open>Alice's device sends to Bob's, whose medium-term key is 11; the group's key is 8.\<close>

definition demo_alice :: identity where
  "demo_alice = \<lparr> id_username = UserName ''@alice'', id_server_name = Some (ServerName ''~serv_01''),
     id_device_secret = SigningSecret 6, id_cert_chain = demo_chain, id_medium_sk_current = DhSecret 7,
     id_medium_sk_prev = DhSecret 7 \<rparr>"

definition demo_bob :: identity where
  "demo_bob = \<lparr> id_username = UserName ''@bobby'', id_server_name = Some (ServerName ''~serv_01''),
     id_device_secret = SigningSecret 6, id_cert_chain = demo_chain, id_medium_sk_current = DhSecret 11,
     id_medium_sk_prev = DhSecret 11 \<rparr>"

definition demo_dm :: event where
  "demo_dm = \<lparr> ev_recipient = RUser (UserName ''@bobby''), ev_sent_at = 7, ev_mime = ''text/plain'', ev_body = [1, 2] \<rparr>"

lemma demo_sender_ok: "sender_ok demo_ext 100 demo_alice demo_root"
proof -
  have "username_wf (UserName ''@alice'')" "chain_wf demo_ext demo_chain" by code_simp+
  then show ?thesis
    using demo_chain_ok by (simp add: sender_ok_def demo_alice_def demo_chain_def last_device_def)
qed

lemma demo_people:
  "ev_recipient demo_dm = RUser (UserName ''@bobby'')" "username_wf (UserName ''@bobby'')"
  "id_username demo_bob = UserName ''@bobby''" "id_username demo_alice = UserName ''@alice''"
  "id_medium_sk_current demo_bob = DhSecret 11"
  by (simp_all add: demo_dm_def demo_bob_def demo_alice_def username_wf_def) code_simp

lemma demo_persisted:
  "\<exists>db. persist_identity demo_ext empty_client_db (UserName ''@bobby'') (ServerName ''~serv_01'') (SigningSecret 6)
     demo_chain (DhSecret 11) = Inr db \<and> load_identity demo_ext db = Inr demo_bob"
proof -
  let ?p = "persist_identity demo_ext empty_client_db (UserName ''@bobby'') (ServerName ''~serv_01'') (SigningSecret 6)
     demo_chain (DhSecret 11)"
  have "is_ok ?p" by code_simp
  then obtain db where db: "?p = Inr db" by (auto simp: is_ok_iff)
  have "username_wf (UserName ''@bobby'')" "server_name_wf (ServerName ''~serv_01'')" "chain_wf demo_ext demo_chain"
    by code_simp+
  with load_persisted [OF demo_laws(1) db] db show ?thesis by (simp add: demo_bob_def)
qed

lemma demo_sealed:
  "\<exists>b blob. bcs_enc demo_ext (ser_event demo_dm) = Some b \<and> seal_dm demo_ext (DhSecret 3) (AeadKey 5) demo_alice
     [dh_public_key demo_ext (DhSecret 11)] \<lparr> blob_kind = V1_MESSAGE_CONTENT, blob_inner = b \<rparr> = Inr blob"
proof -
  have "(case bcs_enc demo_ext (ser_event demo_dm) of None \<Rightarrow> False | Some b \<Rightarrow>
      is_ok (seal_dm demo_ext (DhSecret 3) (AeadKey 5) demo_alice [dh_public_key demo_ext (DhSecret 11)]
        \<lparr> blob_kind = V1_MESSAGE_CONTENT, blob_inner = b \<rparr>))"
    by code_simp
  then show ?thesis by (auto simp: is_ok_iff split: option.splits)
qed

lemma commits_encrypted:
  assumes h: "he_encrypt_bytes demo_ext esk key sb recipients = Inr h"
    and inner: "bcs_enc demo_ext (ser_header_encrypted h) = Some (blob_inner blob)"
  shows "commits demo_ext key blob"
proof -
  have "bcs_from demo_ext ty_header_encrypted de_header_encrypted (blob_inner blob) = Some h"
    by (simp add: bcs_from_enc [OF demo_laws(1) inner])
  then show ?thesis
    using he_encrypt_Inr [OF h] demo_opens_only_under by (auto simp: commits_def)
qed

lemma demo_commits:
  assumes "seal_dm demo_ext esk key identity recipients m = Inr blob"
  shows "commits demo_ext key blob"
  by (rule seal_dm_Inr [OF assms]) (auto intro: commits_encrypted)

lemma demo_root_hash:
  "\<exists>db'. get_user_root_hash demo_ext 100 demo_dir_lookup (UserName ''@alice'') db = (Inr demo_root, db')"
  if "c_desc_cache db = []"
proof -
  have "bcs_enc demo_ext (ser_user_descriptor \<lparr> ud_server_name = ServerName ''~serv_01'', ud_root_cert_hash = demo_root \<rparr>) \<noteq> None"
    by code_simp
  with that show ?thesis
    by (auto simp: get_user_root_hash_def call_def cached_user_descriptor_def load_cached_descriptor_def done_with_def
        demo_dir_lookup_def t_get_simps transact_def store_cached_descriptor_def Let_def)
qed

section \<open>Properties\<close>


lemma demo_dm_stored:
  assumes "\<And>b blob db db1. bcs_enc demo_ext (ser_event demo_dm) = Some b \<Longrightarrow>
      seal_dm demo_ext (DhSecret 3) (AeadKey 5) demo_alice [dh_public_key demo_ext (DhSecret 11)]
        \<lparr> blob_kind = V1_MESSAGE_CONTENT, blob_inner = b \<rparr> = Inr blob \<Longrightarrow>
      load_identity demo_ext db = Inr demo_bob \<Longrightarrow> c_messages db = [] \<Longrightarrow> commits demo_ext (AeadKey 5) blob \<Longrightarrow>
      get_user_root_hash demo_ext 100 demo_dir_lookup (UserName ''@alice'') (update_mailbox_after n mailbox 8 db) = (Inr demo_root, db1) \<Longrightarrow>
      Q"
  shows Q
proof -
  obtain b blob where b: "bcs_enc demo_ext (ser_event demo_dm) = Some b" and seal: "seal_dm demo_ext (DhSecret 3) (AeadKey 5)
      demo_alice [dh_public_key demo_ext (DhSecret 11)] \<lparr> blob_kind = V1_MESSAGE_CONTENT, blob_inner = b \<rparr> = Inr blob"
    using demo_sealed by blast
  obtain db where p: "persist_identity demo_ext empty_client_db (UserName ''@bobby'') (ServerName ''~serv_01'') (SigningSecret 6)
     demo_chain (DhSecret 11) = Inr db" and id: "load_identity demo_ext db = Inr demo_bob"
    using demo_persisted by blast
  have "c_messages db = [] \<and> c_desc_cache (update_mailbox_after n mailbox 8 db) = []"
    using p by (auto simp: persist_identity_def empty_client_db_def update_mailbox_after_def split: if_splits)
  with demo_root_hash [of "update_mailbox_after n mailbox 8 db"] show ?thesis
    using assms [OF b seal id _ demo_commits [OF seal]] by blast
qed

lemma demo_not_duplicate: "c_messages db = [] \<Longrightarrow> \<not> duplicate db db' ctype cp content"
  by (simp add: duplicate_def)


text \<open>C20: a direct message enters the client's conversations only when it is authentic. Whatever entry the
  server hands over, at most one row is added and none is changed or removed; a new row carries the
  sender, type, body and time of an event signed by a device whose certificate chain is good under the
  root hash the directory (or a cached descriptor at most a minute old) holds for that sender; the
  event is addressed to this user or was sent by this user; and it stands in the conversation with the
  other party.\<close>

theorem dm_stored_authentic:
  assumes "process_mailbox_entry E now now_ns dir server_name mailbox entry db = (r, db')"
    and "c_messages db' \<noteq> c_messages db"
  shows "\<exists>identity payload root content recipient row. load_identity E db = Inr identity \<and>
    directory_knows E now dir db (ds_sender payload) root \<and> signed_event E now root payload content \<and>
    ev_recipient content = RUser recipient \<and>
    (recipient = id_username identity \<or> ds_sender payload = id_username identity) \<and>
    stored_row db db' ''direct'' (username_as_str (if ds_sender payload = id_username identity then recipient
      else ds_sender payload)) (ds_sender payload) content (mbe_received_at entry) row"
  using dm_effect [OF assms(1)] assms(2) unfolding dm_stored_def by blast

theorem dm_stored_authentic_witness:
  "\<exists>entry db db'. process_mailbox_entry demo_ext 100 9 demo_dir_lookup (ServerName ''~serv_01'')
      (MailboxId (Hash 4)) entry db = (Inr (), db') \<and> c_messages db' \<noteq> c_messages db \<and>
    (\<exists>payload root content recipient row. directory_knows demo_ext 100 demo_dir_lookup db (ds_sender payload) root \<and>
      signed_event demo_ext 100 root payload content \<and> ev_recipient content = RUser recipient \<and>
      stored_row db db' ''direct'' (username_as_str (if ds_sender payload = UserName ''@bobby'' then recipient
        else ds_sender payload)) (ds_sender payload) content 8 row)"
proof (rule demo_dm_stored [where n = "ServerName ''~serv_01''" and mailbox = "MailboxId (Hash 4)"])
  fix b blob db db1
  let ?e = "\<lparr> mbe_message = blob, mbe_received_at = 8, mbe_sender_auth_token_hash = None \<rparr>"
  assume b: "bcs_enc demo_ext (ser_event demo_dm) = Some b" and seal: "seal_dm demo_ext (DhSecret 3) (AeadKey 5) demo_alice
      [dh_public_key demo_ext (DhSecret 11)] \<lparr> blob_kind = V1_MESSAGE_CONTENT, blob_inner = b \<rparr> = Inr blob"
    and id: "load_identity demo_ext db = Inr demo_bob" and empty: "c_messages db = []" and c: "commits demo_ext (AeadKey 5) blob"
    and root: "get_user_root_hash demo_ext 100 demo_dir_lookup (UserName ''@alice'')
      (update_mailbox_after (ServerName ''~serv_01'') (MailboxId (Hash 4)) 8 db) = (Inr demo_root, db1)"
  note me = demo_people
  obtain db' where run: "process_mailbox_entry demo_ext 100 9 demo_dir_lookup (ServerName ''~serv_01'') (MailboxId (Hash 4))
      ?e db = (Inr (), db')" and "\<exists>row. stored_row db db' ''direct'' ''@alice'' (UserName ''@alice'') demo_dm 8 row"
    using dm_delivered_aux [OF demo_laws(1,5,6,8,7) seal b me(1,2) c id _ _ root [folded me(4)] demo_sender_ok,
      where now_ns = 9 and tok = None]
    by (auto simp: me Let_def demo_not_duplicate [OF empty])
  then have new: "c_messages db' \<noteq> c_messages db" by (auto simp: stored_row_def)
  obtain i payload root content recipient row where i: "load_identity demo_ext db = Inr i"
    and rest: "directory_knows demo_ext 100 demo_dir_lookup db (ds_sender payload) root"
      "signed_event demo_ext 100 root payload content" "ev_recipient content = RUser recipient"
      "stored_row db db' ''direct'' (username_as_str (if ds_sender payload = id_username i then recipient
        else ds_sender payload)) (ds_sender payload) content 8 row"
    using dm_stored_authentic [OF run new] unfolding mailbox_entry.select_convs by blast
  from i id have "id_username i = UserName ''@bobby''" by (simp add: me)
  with run new rest show ?thesis by metis
qed

text \<open>C9: a group message arrives. What \<open>send_group_message\<close> seals under the group's key is
  opened, verified and stored, under the group's conversation and with its sender, by a member whose
  current key it is, or whose previous key it is when the current one does not open it; the only
  exception is a row of that conversation with the same time of sending.\<close>

theorem group_message_delivered:
  assumes "bcs_law E" and "sig_law E" and "aead_law E"
    and "seal_group E failure nonce sender content key = Inr blob" and "ev_recipient content = RGroup (gr_group_id grp)"
    and "gr_key_current grp = key \<or> gr_key_prev grp = key \<and>
      (\<forall>g. bcs_from E ty_group_message de_group_message (blob_inner blob) = Some g \<longrightarrow>
        aead_open E (aead_key_to_bytes (gr_key_current grp)) (gm_nonce g) (gm_ciphertext g) [] = None)"
    and "sender_root dir (id_username sender) = Inr root" and "sender_ok E now sender root"
  shows "\<exists>db'. process_group_message_entry E now now_ns dir grp
      \<lparr> mbe_message = blob, mbe_received_at = rcv, mbe_sender_auth_token_hash = tok \<rparr> db = (Inr (), db') \<and>
    (let cp = group_id_display E (gr_group_id grp) in
     (\<exists>row. stored_row db db' ''group'' cp (id_username sender) content rcv row) \<or>
     c_messages db' = c_messages db \<and> duplicate db db' ''group'' cp content)"
  using group_delivered_aux [OF assms] .

definition demo_grp :: group_record where
  "demo_grp = \<lparr> gr_group_id = demo_group,
     gr_descriptor = \<lparr> gd_nonce = Hash 1, gd_init_admin = UserName ''@alice'', gd_created_at = 3,
       gd_server = ServerName ''~serv_01'', gd_management_key = AeadKey 4 \<rparr>,
     gr_server_name = ServerName ''~serv_01'', gr_token = AuthToken 5, gr_key_current = AeadKey 8, gr_key_prev = AeadKey 8 \<rparr>"

lemma demo_group_sealed:
  "\<exists>blob. seal_group demo_ext failure 4 demo_alice demo_event (AeadKey 8) = Inr blob"
proof -
  have "is_ok (seal_group demo_ext [] 4 demo_alice demo_event (AeadKey 8))" by code_simp
  then show ?thesis by (auto simp: is_ok_iff seal_group_def)
qed

lemma demo_grp_simps:
  "ev_recipient demo_event = RGroup (gr_group_id demo_grp)" "gr_key_current demo_grp = AeadKey 8"
  "sender_root demo_dir_lookup (id_username demo_alice) = Inr demo_root"
  by (simp_all add: demo_event_def demo_grp_def demo_group_def sender_root_def demo_dir_lookup_def)

theorem group_message_delivered_witness:
  "\<exists>blob db' row. process_group_message_entry demo_ext 100 9 demo_dir_lookup demo_grp
      \<lparr> mbe_message = blob, mbe_received_at = 8, mbe_sender_auth_token_hash = None \<rparr> empty_client_db = (Inr (), db') \<and>
    stored_row empty_client_db db' ''group'' (group_id_display demo_ext demo_group) (UserName ''@alice'') demo_event 8 row"
proof -
  obtain blob where blob: "seal_group demo_ext ''e'' 4 demo_alice demo_event (AeadKey 8) = Inr blob"
    using demo_group_sealed by blast
  have empty: "c_messages empty_client_db = []" by (simp add: empty_client_db_def)
  have g: "gr_group_id demo_grp = demo_group" by (simp add: demo_grp_def)
  show ?thesis
    using group_message_delivered [OF demo_laws(1,5,7) blob demo_grp_simps(1) disjI1 [OF demo_grp_simps(2)]
      demo_grp_simps(3) demo_sender_ok, of 9 8 None empty_client_db]
    by (auto simp: Let_def demo_not_duplicate [OF empty] g demo_people)
qed


lemma demo_commits_rekey:
  assumes "seal_rekey demo_ext esk key identity recipients g new_key = Inr blob"
  shows "commits demo_ext key blob"
  by (rule seal_rekey_Inr [OF assms]) (auto intro: commits_encrypted)

text \<open>Bob's client with the group, whose initial administrator is Alice.\<close>

lemma demo_group_loaded:
  obtains db db1 m where "load_identity demo_ext db = Inr demo_bob"
    and "load_group demo_ext (gr_group_id demo_grp) db = Inr (Some demo_grp)"
    and "roster_load (gr_group_id demo_grp) (gd_init_admin (gr_descriptor demo_grp)) db = Inr db1"
    and "get_raw (gr_group_id demo_grp) (id_username demo_alice) db1 = Inr (Some m)" and "rm_is_admin m" and "is_active m"
proof -
  obtain db where p: "persist_identity demo_ext empty_client_db (UserName ''@bobby'') (ServerName ''~serv_01'') (SigningSecret 6)
     demo_chain (DhSecret 11) = Inr db" and id: "load_identity demo_ext db = Inr demo_bob"
    using demo_persisted by blast
  have empty: "c_groups db = []" "c_members db = []"
    using p by (auto simp: persist_identity_def empty_client_db_def split: if_splits)
  let ?d = "gr_descriptor demo_grp"
  have "bcs_enc demo_ext (ser_group_descriptor ser_hash ser_aead_key ?d) \<noteq> None"
    "bcs_enc demo_ext (ser_auth_token (AuthToken 5)) \<noteq> None" "bcs_enc demo_ext (ser_aead_key (AeadKey 8)) \<noteq> None"
    by code_simp+
  then obtain db' where ins: "insert_group demo_ext demo_group ?d (ServerName ''~serv_01'') (AuthToken 5) (AeadKey 8) db = Inr db'"
    using empty by (auto simp: insert_group_def t_insert_def)
  have wf: "gd_wf ?d" "server_name_wf (ServerName ''~serv_01'')" by code_simp+
  have same: "c_identity db' = c_identity db" "c_members db' = []"
    and rows: "\<exists>r. c_groups db' = [r] \<and> gw_group_id r = group_column demo_group \<and> gw_roster_version r = 0"
    using ins empty by (auto simp: insert_group_def t_insert_def)
  from rows obtain r where r: "c_groups db' = [r]" "gw_group_id r = group_column demo_group" "gw_roster_version r = 0"
    by blast
  have g: "gr_group_id demo_grp = demo_group" "gd_init_admin ?d = UserName ''@alice''"
    by (simp_all add: demo_grp_def)
  have group: "load_group demo_ext (gr_group_id demo_grp) db' = Inr (Some demo_grp)"
    using load_group_inserted [OF demo_laws(1) ins wf] by (simp add: demo_grp_def)
  have id': "load_identity demo_ext db' = Inr demo_bob" using id same(1) by (simp add: load_identity_def)
  let ?m = "\<lparr> mw_group_id = group_column demo_group, mw_username = ''@alice'', mw_is_admin = 1, mw_status = ''accepted'' \<rparr>"
  have "\<exists>db1. roster_load (gr_group_id demo_grp) (gd_init_admin ?d) db' = Inr db1 \<and> c_members db1 = [?m]"
    using r same by (simp add: roster_load_def ensure_initialized_def upsert_member_def t_get_simps g group_known_def
        set_version_def bool_i64_def Let_def)
  then obtain db1 where l: "roster_load (gr_group_id demo_grp) (gd_init_admin ?d) db' = Inr db1" and "c_members db1 = [?m]"
    by blast
  then have "\<exists>m. get_raw (gr_group_id demo_grp) (id_username demo_alice) db1 = Inr (Some m) \<and> rm_is_admin m \<and> is_active m"
    by (simp add: get_raw_def t_get_simps member_key_def g demo_people row_member_def status_from_str_def is_active_def)
  with that [OF id' group l] show thesis by blast
qed

lemma demo_all_snoc: "demo_all xs = Some r \<Longrightarrow> demo_all (xs @ [Some c]) = Some (r @ c)"
  by (induction xs arbitrary: r rule: demo_all.induct) auto

lemma demo_header_total:
  assumes "length m < 1000"
  shows "\<exists>h inner. he_encrypt_bytes demo_ext (DhSecret 3) (AeadKey 5) m [dh_public_key demo_ext (DhSecret 11)] = Inr h \<and>
    bcs_enc demo_ext (ser_header_encrypted h) = Some inner"
proof -
  let ?epk = "dh_public_key demo_ext (DhSecret 3)"
  have "is_ok (and_then (encrypt_headers demo_ext (DhSecret 3) (AeadKey 5) [dh_public_key demo_ext (DhSecret 11)])
      (\<lambda>hs. if hs = [] then Inl HeNoRecipients else header_aad demo_ext ?epk hs))"
    by code_simp
  then obtain hs aad where hs: "encrypt_headers demo_ext (DhSecret 3) (AeadKey 5) [dh_public_key demo_ext (DhSecret 11)] = Inr hs"
      "hs \<noteq> []" "header_aad demo_ext ?epk hs = Inr aad"
    by (auto simp: is_ok_iff simp del: encrypt_headers.simps split: if_splits)
  define c where "c = demo_tag 5 0 aad @ m"
  have len: "length c < 65536" using assms by (simp add: c_def demo_tag_def)
  have "aead_encrypt demo_ext (AeadKey 5) 0 m aad = Inr c"
    by (simp add: demo_ext_def demo_seal_def c_def)
  with hs have "he_encrypt_bytes demo_ext (DhSecret 3) (AeadKey 5) m [dh_public_key demo_ext (DhSecret 11)] =
      Inr \<lparr> he_sender_epk = ?epk, he_headers = hs, he_body = c \<rparr>"
    by (simp add: he_encrypt_bytes_def del: encrypt_headers.simps aead_encrypt.simps)
  moreover have "\<exists>inner. bcs_enc demo_ext (ser_header_encrypted \<lparr> he_sender_epk = ?epk, he_headers = hs, he_body = c \<rparr>) = Some inner"
    using hs(3) len demo_all_snoc [of "[demo_enc (ser_dh_public ?epk), demo_enc (VSeq (map ser_encryption_header hs))]"]
    by (auto simp: header_aad_def ser_header_encrypted_def demo_ext_def demo_len_def)
  ultimately show ?thesis by blast
qed

lemma demo_rekey_sealed:
  "\<exists>blob. seal_rekey demo_ext (DhSecret 3) (AeadKey 5) demo_alice [dh_public_key demo_ext (DhSecret 11)]
     (gr_group_id demo_grp) (AeadKey 12) = Inr blob"
proof -
  have "(case bcs_enc demo_ext (ser_rekey (demo_group, aead_key_to_bytes (AeadKey 12))) of None \<Rightarrow> False
    | Some b \<Rightarrow> (case bcs_enc demo_ext (ser_device_signed (device_sign_bytes demo_ext b (UserName ''@alice'') demo_chain
        (SigningSecret 6))) of None \<Rightarrow> False | Some sb \<Rightarrow> length sb < 1000))"
    by code_simp
  then obtain b sb where sb: "bcs_enc demo_ext (ser_rekey (demo_group, aead_key_to_bytes (AeadKey 12))) = Some b"
      "bcs_enc demo_ext (ser_device_signed (device_sign_bytes demo_ext b (UserName ''@alice'') demo_chain (SigningSecret 6))) = Some sb"
      "length sb < 1000"
    by (auto split: option.splits)
  obtain h inner where "he_encrypt_bytes demo_ext (DhSecret 3) (AeadKey 5) sb [dh_public_key demo_ext (DhSecret 11)] = Inr h"
      "bcs_enc demo_ext (ser_header_encrypted h) = Some inner"
    using demo_header_total [OF sb(3)] by blast
  moreover have "gr_group_id demo_grp = demo_group" by (simp add: demo_grp_def)
  ultimately show ?thesis
    using sb(1,2) by (simp add: seal_rekey_def Let_def demo_alice_def)
qed


text \<open>C21: what one entry of a group's two mailboxes may change. Messages are stored only from the message
  mailbox, signed by the sender's device and addressed to the group; the group keys change only when an
  active administrator's device signed a new key for this group, and the previous key is then the one
  that was current; and the roster changes only by its initialisation or by a management message that
  its sender's device signed for this group.\<close>

theorem group_entry_changes:
  assumes "group_recv_entry E now now_ns dir grp kind entry db = db'"
  shows "\<exists>db0. c_messages db0 = c_messages db \<and> c_groups db0 = c_groups db \<and> c_members db0 = c_members db \<and>
    (c_messages db' \<noteq> c_messages db \<longrightarrow> kind = Messages \<and> group_stored E now dir grp (mbe_received_at entry) db0 db') \<and>
    (group_keys db' \<noteq> group_keys db \<longrightarrow> kind = Messages \<and> rekeyed E now dir grp db0 db') \<and>
    (c_members db' \<noteq> c_members db \<longrightarrow> (\<exists>db1. roster_load (gr_group_id grp) (gd_init_admin (gr_descriptor grp)) db0 = Inr db1 \<and>
      (c_members db' = c_members db1 \<or> kind = Management \<and> group_managed E now dir grp db0 db')))"
proof -
  let ?m = "case kind of Messages \<Rightarrow> mailbox_group_messages E (gr_group_id grp)
    | Management \<Rightarrow> mailbox_group_management E (gr_group_id grp)"
  let ?db0 = "update_mailbox_after (gr_server_name grp) ?m (mbe_received_at entry) db"
  have keys0: "group_keys ?db0 = group_keys db" by (simp add: group_keys_def)
  have main: "(c_messages db' \<noteq> c_messages db \<longrightarrow> kind = Messages \<and> group_stored E now dir grp (mbe_received_at entry) ?db0 db') \<and>
    (group_keys db' \<noteq> group_keys db \<longrightarrow> kind = Messages \<and> rekeyed E now dir grp ?db0 db') \<and>
    (c_members db' \<noteq> c_members db \<longrightarrow> (\<exists>db1. roster_load (gr_group_id grp) (gd_init_admin (gr_descriptor grp)) ?db0 = Inr db1 \<and>
      (c_members db' = c_members db1 \<or> kind = Management \<and> group_managed E now dir grp ?db0 db')))"
  proof (cases kind)
    case Messages
    show ?thesis
    proof (cases "blob_kind (mbe_message entry) = V1_GROUP_REKEY")
      case True
      obtain r db2 where rk: "process_group_rekey_entry E now dir grp (mbe_message entry) ?db0 = (r, db2)" by fastforce
      with assms Messages True have "db' = db2"
        by (auto simp: group_recv_entry_def Let_def process_group_message_entry_def)
      with rekey_effect [OF rk] Messages keys0 show ?thesis by auto
    next
      case False
      obtain r db2 where rk: "process_group_message_entry E now now_ns dir grp entry ?db0 = (r, db2)" by fastforce
      with assms Messages have "db' = db2" by (auto simp: group_recv_entry_def Let_def)
      with group_message_effect [OF rk False] Messages keys0 show ?thesis by (auto simp: group_keys_def)
    qed
  next
    case Management
    obtain r db2 where rk: "process_group_management_entry E now dir grp entry ?db0 = (r, db2)" by fastforce
    with assms Management have db2: "db' = db2" by (auto simp: group_recv_entry_def Let_def)
    from group_management_effect [OF rk] show ?thesis
    proof
      assume "group_managed E now dir grp ?db0 db2"
      then obtain db1 m c u where "roster_load (gr_group_id grp) (gd_init_admin (gr_descriptor grp)) ?db0 = Inr db1"
        "apply_manage_message (gr_group_id grp) u m db1 = Inr (c, db2)"
        unfolding group_managed_def by blast
      with roster_load_keeps [OF this(1)] apply_manage_keeps [OF this(2)] \<open>group_managed E now dir grp ?db0 db2\<close>
        Management keys0 show ?thesis by (auto simp: db2)
    qed (simp add: db2 keys0)
  qed
  have "c_messages ?db0 = c_messages db \<and> c_groups ?db0 = c_groups db \<and> c_members ?db0 = c_members db" by simp
  with main show ?thesis by blast
qed

theorem group_entry_changes_witness:
  "\<exists>entry db'. group_recv_entry demo_ext 100 9 demo_dir_lookup demo_grp Messages entry empty_client_db = db' \<and>
    c_messages db' \<noteq> [] \<and> (\<exists>db0. group_stored demo_ext 100 demo_dir_lookup demo_grp 8 db0 db')"
proof -
  obtain blob where blob: "seal_group demo_ext ''e'' 4 demo_alice demo_event (AeadKey 8) = Inr blob"
    using demo_group_sealed by blast
  let ?e = "\<lparr> mbe_message = blob, mbe_received_at = 8, mbe_sender_auth_token_hash = None \<rparr>"
  let ?db0 = "update_mailbox_after (gr_server_name demo_grp) (mailbox_group_messages demo_ext (gr_group_id demo_grp)) 8 empty_client_db"
  have empty: "c_messages ?db0 = []" "c_messages empty_client_db = []" by (simp_all add: empty_client_db_def)
  obtain db' row where "process_group_message_entry demo_ext 100 9 demo_dir_lookup demo_grp ?e ?db0 = (Inr (), db')"
    and new: "c_messages db' = c_messages ?db0 @ [row]"
    using group_delivered_aux [OF demo_laws(1,5,7) blob demo_grp_simps(1) disjI1 [OF demo_grp_simps(2)]
      demo_grp_simps(3) demo_sender_ok, of 9 8 None ?db0]
    by (auto simp: Let_def demo_not_duplicate [OF empty(1)] stored_row_def)
  then have run: "group_recv_entry demo_ext 100 9 demo_dir_lookup demo_grp Messages ?e empty_client_db = db'"
    by (simp add: group_recv_entry_def Let_def)
  have ne: "c_messages db' \<noteq> []" using new by simp
  from group_entry_changes [OF run] ne have "\<exists>db0. group_stored demo_ext 100 demo_dir_lookup demo_grp 8 db0 db'"
    by (auto simp: empty)
  with run ne show ?thesis by blast
qed

end
