(* ===== verification/Queue.thy ===== *)
theory Queue
  imports Convo
begin

text \<open>
  The send queue (\<open>send_loop_once\<close> of \<open>nullspace-client/src/convo/send.rs\<close>) as a whole: whatever
  the servers, the directory and the clock do, a turn settles exactly the oldest pending message, so
  that the queue drains.
\<close>

section \<open>What a handler leaves alone\<close>

definition keeps :: "('s \<Rightarrow> 'v) \<Rightarrow> ('s, 'a) eff \<Rightarrow> bool" where
  "keeps v m \<longleftrightarrow> (\<forall>s. v (snd (m s)) = v s)"

lemma keepsD: "keeps v m \<Longrightarrow> m s = (r, s') \<Longrightarrow> v s' = v s"
  by (metis keeps_def snd_conv)

lemma keepsI: "(\<And>s r s'. m s = (r, s') \<Longrightarrow> v s' = v s) \<Longrightarrow> keeps v m"
  by (metis keeps_def prod.collapse)

lemma keeps_steps:
  "keeps v (done_with r)"
  "keeps v (read_db f)"
  "keeps v (\<lambda>s. (g s, s))"
  "keeps v m \<Longrightarrow> (\<And>x. keeps v (k x)) \<Longrightarrow> keeps v (call m k)"
  "keeps v m \<Longrightarrow> keeps v n \<Longrightarrow> keeps v (if b then m else n)"
  "(\<And>x y. keeps v (h x y)) \<Longrightarrow> keeps v (case p of (x, y) \<Rightarrow> h x y)"
  "keeps v m \<Longrightarrow> (\<And>x. keeps v (j x)) \<Longrightarrow> keeps v (case q of None \<Rightarrow> m | Some x \<Rightarrow> j x)"
  by (auto simp: read_db_def call_def intro!: keepsI split: prod.splits sum.splits option.splits if_splits)
    (metis keepsD)+

lemma keeps_transact: "(\<And>s x s'. f s = Inr (x, s') \<Longrightarrow> v s' = v s) \<Longrightarrow> keeps v (transact f)"
  by (auto simp: keeps_def transact_def split: sum.split prod.split)

lemma keeps_modify: "(\<And>s. v (f s) = v s) \<Longrightarrow> keeps v (modify_by f)"
  by (simp add: keeps_def)

lemma keeps_world:
  "keeps v m \<Longrightarrow> keeps (\<lambda>st. v (fst st)) (on_db m)"
  "keeps (\<lambda>st. v (fst st)) (on_net n)" "keeps (\<lambda>st. v (fst st)) (draw d)" "keeps (\<lambda>st. v (fst st)) (clock c)"
  by (auto simp: on_db_def on_net_def draw_def clock_def intro!: keepsI dest: keepsD split: prod.splits)

lemma keeps_rpc: "keeps (\<lambda>st. v (fst st)) (rpc m)"
  unfolding rpc_def by (intro keeps_steps keeps_world)

definition queue_view :: "client_db \<Rightarrow> message_row list \<times> convo_row list" where
  "queue_view db = (c_messages db, c_convos db)"

abbreviation "keeps_queue \<equiv> keeps (\<lambda>st. queue_view (fst st))"

lemma keeps_user_info: "keeps queue_view (get_user_info E now dir api u)"
proof -
  have "keeps queue_view (cached_user_descriptor E now dir u)"
    by (auto simp: keeps_def cached_user_descriptor_def queue_view_def call_def transact_def store_cached_descriptor_def
        split: option.split sum.split prod.split)
  moreover have "keeps queue_view (transact (store_cached_user_info E now u chains merged))" for chains merged
    by (rule keeps_transact) (auto simp: store_cached_user_info_def queue_view_def)
  ultimately show ?thesis
    unfolding get_user_info_def Let_def by (intro keeps_steps) auto
qed

lemma keeps_own_server_name: "keeps_queue (own_server_name W identity)"
  unfolding own_server_name_def refresh_own_server_name_def
  by (auto intro!: keeps_steps keeps_world keeps_modify simp: queue_view_def store_server_name_def split: option.split)

lemma keeps_send_dm_once: "keeps_queue (send_dm_once E W identity target message)"
  unfolding send_dm_once_def
  by (intro keeps_steps keeps_world keeps_user_info keeps_own_server_name keeps_rpc)

lemma keeps_send_message: "keeps_queue (send_message E W convo mime body sent_at)"
proof -
  have "keeps_queue (send_dm E W peer mime body sent_at)" for peer
    unfolding send_dm_def Let_def by (intro keeps_steps keeps_world keeps_send_dm_once)
  moreover have "keeps_queue (send_group_message E W g mime body sent_at)" for g
    unfolding send_group_message_def send_to_group_mailbox_def Let_def
    by (intro keeps_steps keeps_world keeps_rpc)
  ultimately show ?thesis by (simp add: send_message_def split: convo_id.split)
qed

lemma retry_state: "\<exists>k. fst (snd (retry_backoff m s)) = state_at m k s"
proof -
  obtain k where "retry_loop m (of_nat 0) s =
      (outcome m k s, state_at m (Suc k) s, map (\<lambda>i. transient_backoff (of_nat i)) [0..<0 + k])"
    using retry_loop_spec [of 0 m s] by blast
  then have "fst (snd (retry_backoff m s)) = state_at m (Suc k) s" by (simp add: retry_backoff_def del: state_at_simps)
  then show ?thesis by blast
qed

lemma keeps_retry:
  assumes "keeps v m"
  shows "v (fst (snd (retry_backoff m s))) = v s"
proof -
  have step: "v (snd (m s)) = v s" for s using assms by (simp add: keeps_def)
  have "v (state_at m k s) = v s" for k s
    by (induction k arbitrary: s) (simp_all add: step)
  with retry_state [of m s] show ?thesis by metis
qed

section \<open>One turn\<close>

definition pending_ids :: "client_db \<Rightarrow> int set" where
  "pending_ids db = cm_id ` set (filter (is_pending db) (c_messages db))"

lemma next_pending_Some:
  assumes "next_pending_message db = Some p"
  obtains m where "m \<in> set (c_messages db)" and "is_pending db m" and "pm_id p = cm_id m"
    and "\<And>i. i \<in> pending_ids db \<Longrightarrow> pm_id p \<le> i"
proof -
  from assms obtain m ms where sort: "sort_key cm_id (filter (is_pending db) (c_messages db)) = m # ms"
    and p: "pm_id p = cm_id m"
    by (auto simp: next_pending_message_def split: list.splits)
  have set: "set (m # ms) = set (filter (is_pending db) (c_messages db))"
    unfolding sort [symmetric] by simp
  have "sorted (map cm_id (m # ms))" unfolding sort [symmetric] by simp
  then have "cm_id m \<le> cm_id x" if "x \<in> set (m # ms)" for x using that by auto
  then have "pm_id p \<le> i" if "i \<in> pending_ids db" for i
    using that unfolding pending_ids_def set [symmetric] p by blast
  moreover have "m \<in> set (c_messages db) \<and> is_pending db m" using set by auto
  ultimately show thesis using that p by blast
qed

lemma next_pending_None: "next_pending_message db = None \<longleftrightarrow> pending_ids db = {}"
proof (cases "sort_key cm_id (filter (is_pending db) (c_messages db))")
  case Nil
  then have "set (filter (is_pending db) (c_messages db)) = {}" by (metis set_empty set_sort)
  with Nil show ?thesis by (simp add: next_pending_message_def pending_ids_def del: set_filter)
next
  case (Cons m ms)
  then have "m \<in> set (filter (is_pending db) (c_messages db))" by (metis list.set_intros(1) set_sort)
  then have "is_pending db m" "pending_ids db \<noteq> {}" by (auto simp: pending_ids_def)
  with Cons show ?thesis by (auto simp: next_pending_message_def is_pending_def)
qed

text \<open>Marking a message, as sent or as failed.\<close>

definition marked :: "int \<Rightarrow> client_db \<Rightarrow> client_db \<Rightarrow> bool" where
  "marked i db db' \<longleftrightarrow> c_convos db' = c_convos db \<and>
     (\<exists>t e. c_messages db' = t_update (\<lambda>m. cm_id m = i) (\<lambda>m. m \<lparr> cm_send_error := e m, cm_received_at := Some t \<rparr>) (c_messages db))"

lemma marked_sent: "c_messages db1 = c_messages db \<Longrightarrow> c_convos db1 = c_convos db \<Longrightarrow> marked i db (mark_message_sent i t db1)"
  unfolding marked_def mark_message_sent_def
  by (auto intro!: exI [of _ t] exI [of _ cm_send_error] simp: t_update_def)

lemma marked_failed: "c_messages db1 = c_messages db \<Longrightarrow> c_convos db1 = c_convos db \<Longrightarrow> marked i db (mark_message_failed i err t db1)"
  unfolding marked_def mark_message_failed_def
  by (auto intro!: exI [of _ t] exI [of _ "\<lambda>_. Some err"] simp: t_update_def)

lemma send_turn_marks:
  assumes "next_pending_message db = Some p"
  shows "marked (pm_id p) db (fst (send_turn E W (db, s)))"
proof (cases "parse_convo_id E (pm_convo_type p) (pm_counterparty p)")
  case None
  with assms show ?thesis by (simp add: send_turn_def marked_failed)
next
  case (Some convo)
  let ?m = "send_message E W convo (pm_mime p) (pm_body p) (pm_sent_at p)"
  obtain r st' slept where r: "retry_backoff ?m (db, s) = (r, st', slept)" by (cases "retry_backoff ?m (db, s)") auto
  have "queue_view (fst st') = queue_view db"
    using keeps_retry [OF keeps_send_message, of E W convo "pm_mime p" "pm_body p" "pm_sent_at p" "(db, s)"] r by simp
  then have "c_messages (fst st') = c_messages db" "c_convos (fst st') = c_convos db" by (simp_all add: queue_view_def)
  with assms Some r show ?thesis
    by (cases r) (auto simp: send_turn_def intro: marked_sent marked_failed)
qed

lemma marked_pending:
  assumes "marked i db db'"
  shows "pending_ids db' = pending_ids db - {i}"
proof -
  obtain t e where msgs: "c_messages db' = t_update (\<lambda>m. cm_id m = i) (\<lambda>m. m \<lparr> cm_send_error := e m, cm_received_at := Some t \<rparr>)
      (c_messages db)" and convos: "c_convos db' = c_convos db"
    using assms unfolding marked_def by blast
  let ?f = "\<lambda>m. if cm_id m = i then m \<lparr> cm_send_error := e m, cm_received_at := Some t \<rparr> else m"
  have "is_pending db' (?f m) \<longleftrightarrow> is_pending db m \<and> cm_id m \<noteq> i" "cm_id (?f m) = cm_id m" for m
    by (simp_all add: is_pending_def convos)
  then have "pending_ids db' = cm_id ` set (filter (\<lambda>m. is_pending db m \<and> cm_id m \<noteq> i) (c_messages db))"
    unfolding pending_ids_def msgs t_update_def filter_map comp_def by (simp add: image_image)
  then show ?thesis by (auto simp: pending_ids_def)
qed

section \<open>Properties\<close>

text \<open>a turn of the send loop settles exactly the oldest pending message, whatever the servers, the
  directory and the clock answer: its row, and only its row, gets a time of receipt (and an error when
  it failed); every other row is what it was; and the messages still pending are the others.\<close>

theorem queue_turn_settles:
  assumes "next_pending_message db = Some p" and "send_turn E W (db, s) = (db', s')"
  shows "pm_id p \<in> pending_ids db \<and> (\<forall>i \<in> pending_ids db. pm_id p \<le> i) \<and>
    pending_ids db' = pending_ids db - {pm_id p} \<and> length (c_messages db') = length (c_messages db) \<and>
    (\<forall>k < length (c_messages db). if cm_id (c_messages db ! k) = pm_id p
      then cm_received_at (c_messages db' ! k) \<noteq> None \<and> cm_body (c_messages db' ! k) = cm_body (c_messages db ! k)
      else c_messages db' ! k = c_messages db ! k)"
proof -
  have m: "marked (pm_id p) db db'" using send_turn_marks [OF assms(1), of E W s] assms(2) by simp
  obtain row where "row \<in> set (c_messages db)" "is_pending db row" "pm_id p = cm_id row"
    and least: "\<forall>i \<in> pending_ids db. pm_id p \<le> i"
    using next_pending_Some [OF assms(1)] by metis
  then have "pm_id p \<in> pending_ids db" by (simp add: pending_ids_def)
  with least marked_pending [OF m] m show ?thesis
    by (auto simp: marked_def t_update_def)
qed

definition demo_world :: "(unit, unit) world" where
  "demo_world = \<lparr> w_now_s = \<lambda>s. 100, w_now_ns = \<lambda>s. 9, w_dir = \<lambda>s. demo_dir_lookup, w_users = \<lambda>s. demo_api,
     w_auth_token = \<lambda>i s. (Inr (AuthToken 1), s), w_mailbox_send = \<lambda>n a m b t s. (Inr (Inr 8), s),
     w_acl_edit = \<lambda>n a m c s. (Inr (Inr ()), s), w_register_group = \<lambda>n a g s. (Inr (Inr ()), s),
     w_rand_dh = \<lambda>s. (DhSecret 3, s), w_rand_key = \<lambda>s. (AeadKey 5, s), w_rand_nonce = \<lambda>s. (4, s),
     w_rand_hash = \<lambda>s. (Hash 1, s), w_rand_token = \<lambda>s. (AuthToken 2, s), w_roll = \<lambda>n s. (True, s) \<rparr>"

definition demo_queue :: client_db where
  "demo_queue = empty_client_db \<lparr>
     c_convos := [\<lparr> cv_id = 1, cv_type = ''direct'', cv_counterparty = ''@bobby'', cv_created_at = 1 \<rparr>],
     c_messages := [\<lparr> cm_id = 1, cm_convo_id = 1, cm_sender_username = ''@alice'', cm_mime = ''text/plain'', cm_body = [1],
       cm_sent_at = 2, cm_send_error = None, cm_received_at = None \<rparr>] \<rparr>"

lemma demo_queue_pending: "pending_ids demo_queue = {1}" "\<exists>p. next_pending_message demo_queue = Some p \<and> pm_id p = 1"
  by (simp_all add: pending_ids_def next_pending_message_def demo_queue_def empty_client_db_def is_pending_def t_get_simps)

theorem queue_turn_settles_witness:
  "pending_ids (fst (send_turn demo_ext demo_world (demo_queue, ()))) = {}"
proof -
  obtain p where p: "next_pending_message demo_queue = Some p" "pm_id p = 1" using demo_queue_pending(2) by blast
  obtain db' s' where run: "send_turn demo_ext demo_world (demo_queue, ()) = (db', s')" by (metis surj_pair)
  from queue_turn_settles [OF p(1) run] show ?thesis by (simp add: run p(2) demo_queue_pending(1))
qed

text \<open>C36: the send queue drains: after as many turns as there are pending messages none is left,
  however the sending of each goes.\<close>

theorem queue_drains:
  assumes "card (pending_ids db) \<le> n"
  shows "next_pending_message (fst ((send_turn E W ^^ n) (db, s))) = None"
  using assms
proof (induction n arbitrary: db s)
  case 0
  moreover have "finite (pending_ids db)" by (simp add: pending_ids_def)
  ultimately show ?case by (simp add: next_pending_None)
next
  case (Suc n)
  have fin: "finite (pending_ids db)" by (simp add: pending_ids_def)
  obtain db' s' where st: "send_turn E W (db, s) = (db', s')" by fastforce
  have "card (pending_ids db') \<le> n"
  proof (cases "next_pending_message db")
    case None
    with st Suc.prems show ?thesis by (simp add: send_turn_def next_pending_None)
  next
    case (Some p)
    obtain row where "row \<in> set (c_messages db)" "is_pending db row" "pm_id p = cm_id row"
      using next_pending_Some [OF Some] by metis
    then have "pm_id p \<in> pending_ids db" by (simp add: pending_ids_def)
    moreover have "pending_ids db' = pending_ids db - {pm_id p}"
      using marked_pending send_turn_marks [OF Some, of E W s] st by simp
    ultimately show ?thesis using Suc.prems fin by (simp add: card_Diff_singleton)
  qed
  from Suc.IH [OF this, of s'] st show ?case by (simp add: funpow_Suc_right del: funpow.simps)
qed

theorem queue_drains_witness:
  "next_pending_message (fst ((send_turn demo_ext demo_world ^^ 1) (demo_queue, ()))) = None"
  by (rule queue_drains) (simp add: demo_queue_pending(1))

end
