(* ===== verification/ClientKeys.thy ===== *)
theory ClientKeys
  imports Queue
begin

text \<open>
  How the client reaches servers and keeps its keys: authentication tokens (\<open>auth_tokens.rs\<close>), the
  transport through the user's own server (\<open>server.rs\<close>) and the rotation of the medium-term key
  (\<open>medium_keys.rs\<close>). The requests these add to the world are the record \<open>client_env\<close>. The caches
  are maps; entries that time out are a smaller map.
\<close>

text \<open>The requests beyond those of \<open>world\<close>.\<close>

record ('s, 'srv) client_env =
  ce_world :: "('s, 'srv) world"
  ce_server_descriptor :: "'s \<Rightarrow> server_name \<Rightarrow> anyhow + server_descriptor option"
  ce_add_owner :: "username \<Rightarrow> signing_public \<Rightarrow> device_secret \<Rightarrow> ('s, unit) eff"
  ce_insert_descriptor :: "username \<Rightarrow> user_descriptor \<Rightarrow> device_secret \<Rightarrow> ('s, unit) eff"
  ce_device_auth :: "server_name \<Rightarrow> username \<Rightarrow> certificate_chain \<Rightarrow> ('s, server_rpc_error + auth_token) eff"
  ce_add_medium_pk :: "server_name \<Rightarrow> auth_token \<Rightarrow> signed_medium_pk \<Rightarrow> ('s, server_rpc_error + unit) eff"
  ce_profile :: "'srv \<Rightarrow> username \<Rightarrow> ('s, server_rpc_error + user_profile option) eff"
  ce_profile_set :: "server_name \<Rightarrow> username \<Rightarrow> user_profile \<Rightarrow> ('s, server_rpc_error + unit) eff"
  ce_rand_device :: "'s \<Rightarrow> device_secret \<times> 's"

section \<open>Authentication tokens\<close>

definition server_endpoint :: "('s, 'srv) client_env \<Rightarrow> server_name \<Rightarrow> ('s, string) sys_eff" where
  "server_endpoint C n =
     call (clock (ce_server_descriptor C)) (\<lambda>lookup.
     call (done_with (and_then (lookup n) (ok_or ''server not in directory''))) (\<lambda>descriptor.
       done_with (ok_or ''server has no public URLs''
         (case sd_public_urls descriptor of [] \<Rightarrow> None | url # _ \<Rightarrow> Some url))))"

text \<open>\<open>try_get_with\<close> keeps only what was computed without an error.\<close>

definition get_auth_token ::
  "ext \<Rightarrow> ('s, 'srv) client_env \<Rightarrow> (server_name \<rightharpoonup> auth_token) \<Rightarrow> ('s, auth_token \<times> (server_name \<rightharpoonup> auth_token)) sys_eff" where
  "get_auth_token E C cache =
     call (on_db (read_db (load_identity E))) (\<lambda>identity.
     call (own_server_name (ce_world C) identity) (\<lambda>server_name.
     case cache server_name of
       Some auth \<Rightarrow> done_with (Inr (auth, cache))
     | None \<Rightarrow>
         call (server_endpoint C server_name) (\<lambda>endpoint.
         call (rpc (ce_device_auth C server_name (id_username identity) (id_cert_chain identity))) (\<lambda>auth.
           done_with (Inr (auth, cache(server_name \<mapsto> auth)))))))"

section \<open>The transport\<close>

record proxy_info =
  px_own_server_name :: server_name
  px_endpoint :: string
  px_auth_token :: auth_token

record proxying_transport =
  pt_target_name :: server_name
  pt_endpoint :: string
  pt_proxy_info :: "proxy_info option"

text \<open>\<open>get_server_client\<close> up to its cache; a client without an identity has no proxy.\<close>

definition make_transport ::
  "ext \<Rightarrow> ('s, 'srv) client_env \<Rightarrow> server_name \<Rightarrow> ('s, proxying_transport) sys_eff" where
  "make_transport E C n =
     call (on_db (read_db (\<lambda>db. Inr (result_ok (load_identity E db))))) (\<lambda>identity.
     call (case Option.bind identity id_server_name of
         None \<Rightarrow> done_with (Inr None)
       | Some own \<Rightarrow>
           if own = n then done_with (Inr None)
           else
             call (server_endpoint C own) (\<lambda>endpoint.
             call (on_net (w_auth_token (ce_world C) (the identity))) (\<lambda>auth_token.
               done_with (Inr (Some \<lparr> px_own_server_name = own, px_endpoint = endpoint, px_auth_token = auth_token \<rparr>))))) (\<lambda>info.
     call (server_endpoint C n) (\<lambda>endpoint.
       done_with (Inr \<lparr> pt_target_name = n, pt_endpoint = endpoint, pt_proxy_info = info \<rparr>))))"

text \<open>\<open>call_raw\<close>: \<open>direct\<close> sends a request to an endpoint, \<open>via\<close> asks a server to forward it. The
  state holds \<open>proxy_unsupported\<close> and the world.\<close>

record ('s, 'req, 'resp) wire =
  wi_direct :: "string \<Rightarrow> 'req \<Rightarrow> ('s, 'resp) eff"
  wi_via :: "string \<Rightarrow> auth_token \<Rightarrow> server_name \<Rightarrow> 'req \<Rightarrow> ('s, proxy_error + 'resp) eff"

definition keep_flag :: "bool \<Rightarrow> ('s, 'a) eff \<Rightarrow> 's \<Rightarrow> (anyhow + 'a) \<times> bool \<times> 's" where
  "keep_flag b m s = (case m s of (r, s') \<Rightarrow> (r, b, s'))"

definition call_raw ::
  "('s, 'req, 'resp) wire \<Rightarrow> proxying_transport \<Rightarrow> 'req \<Rightarrow> (bool \<times> 's, 'resp) eff" where
  "call_raw N T req = (\<lambda>(proxy_unsupported, s).
     if proxy_unsupported then keep_flag proxy_unsupported (wi_direct N (pt_endpoint T) req) s
     else
       (case pt_proxy_info T of
          None \<Rightarrow> keep_flag proxy_unsupported (wi_direct N (pt_endpoint T) req) s
        | Some info \<Rightarrow>
            if px_own_server_name info = pt_target_name T
            then keep_flag proxy_unsupported (wi_direct N (pt_endpoint T) req) s
            else
              (case wi_via N (px_endpoint info) (px_auth_token info) (pt_target_name T) req s of
                 (Inl e, s') \<Rightarrow> (Inl e, proxy_unsupported, s')
               | (Inr (Inr response), s') \<Rightarrow> (Inr response, proxy_unsupported, s')
               | (Inr (Inl NotSupported), s') \<Rightarrow> keep_flag True (wi_direct N (pt_endpoint T) req) s'
               | (Inr (Inl (Upstream err)), s') \<Rightarrow> (Inl err, proxy_unsupported, s'))))"

definition transport_init :: "proxying_transport \<Rightarrow> bool" where
  "transport_init T = (pt_proxy_info T = None)"

section \<open>The medium-term key\<close>

definition signed_medium :: "ext \<Rightarrow> device_secret \<Rightarrow> dh_secret \<Rightarrow> timestamp \<Rightarrow> signed_medium_pk" where
  "signed_medium E device_secret medium_sk now =
     smp_sign E \<lparr> smp_medium_pk = dh_public_key E medium_sk, smp_created = now, smp_signature = zero_signature \<rparr> device_secret"

definition store_rotated :: "ext \<Rightarrow> dh_secret \<Rightarrow> dh_secret \<Rightarrow> client_db \<Rightarrow> anyhow + (unit \<times> client_db)" where
  "store_rotated E current new_sk db =
     and_then (ok_or ''encode error'' (bcs_enc E (ser_dh_secret current))) (\<lambda>prev_bytes.
     and_then (ok_or ''encode error'' (bcs_enc E (ser_dh_secret new_sk))) (\<lambda>new_bytes.
       Inr ((), db \<lparr> c_identity := map_option (\<lambda>r. r \<lparr> ir_medium_sk_prev := prev_bytes,
         ir_medium_sk_current := new_bytes \<rparr>) (c_identity db) \<rparr>)))"

definition rotate_once :: "ext \<Rightarrow> ('s, 'srv) client_env \<Rightarrow> ('s, unit) sys_eff" where
  "rotate_once E C =
     call (on_db (read_db (load_identity E))) (\<lambda>identity.
     call (clock (w_dir (ce_world C))) (\<lambda>dir.
     call (done_with (and_then (dir (id_username identity)) (ok_or ''identity username not in directory''))) (\<lambda>descriptor.
     call (on_net (w_auth_token (ce_world C) identity)) (\<lambda>auth.
     call (draw (w_rand_dh (ce_world C))) (\<lambda>new_sk.
     call (clock (w_now_s (ce_world C))) (\<lambda>now.
     call (on_db (transact (store_rotated E (id_medium_sk_current identity) new_sk))) (\<lambda>_.
       rpc (ce_add_medium_pk C (ud_server_name descriptor) auth
         (signed_medium E (id_device_secret identity) new_sk now)))))))))"

section \<open>Lemmas\<close>

lemma store_rotated_load:
  assumes "bcs_law E" and "load_identity E db = Inr identity"
    and "store_rotated E (id_medium_sk_current identity) new_sk db = Inr (u, db')"
  shows "load_identity E db' = Inr (identity \<lparr> id_medium_sk_prev := id_medium_sk_current identity,
    id_medium_sk_current := new_sk \<rparr>)"
proof -
  obtain p n where e: "bcs_enc E (ser_dh_secret (id_medium_sk_current identity)) = Some p"
      "bcs_enc E (ser_dh_secret new_sk) = Some n"
    and db': "db' = db \<lparr> c_identity := map_option (\<lambda>r. r \<lparr> ir_medium_sk_prev := p, ir_medium_sk_current := n \<rparr>) (c_identity db) \<rparr>"
    using assms(3) by (auto simp: store_rotated_def)
  show ?thesis
    using assms(2) by (auto simp: load_identity_def db' bcs_from_enc [OF assms(1) e(1)] bcs_from_enc [OF assms(1) e(2)])
qed

lemma rotate_once_db:
  assumes "bcs_law E" and "load_identity E db = Inr identity" and "rotate_once E C (db, s) = (r, db', s')"
  shows "db' = db \<and> r \<noteq> Inr () \<or> (\<exists>k. load_identity E db' = Inr (identity \<lparr> id_medium_sk_prev := id_medium_sk_current identity,
    id_medium_sk_current := k \<rparr>))"
  using assms(3) store_rotated_load [OF assms(1,2)] assms(2)
  by (auto simp: rotate_once_def call_def on_db_def on_net_def draw_def clock_def rpc_def transact_def read_db_def
      split: prod.splits sum.splits)

lemma dm_decrypt_either:
  assumes "he_decrypt_bytes E encrypted k = Inr x" and "k \<in> {id_medium_sk_current i, id_medium_sk_prev i}"
  shows "is_ok (dm_decrypt E i encrypted)"
  using assms by (cases "he_decrypt_bytes E encrypted (id_medium_sk_current i)") (auto simp: dm_decrypt_def is_ok_iff)

text \<open>A request never reaches the target directly while its own server forwards: what \<open>wi_direct\<close>
  would do is irrelevant.\<close>

lemma proxy_never_direct:
  assumes "pt_proxy_info T = Some info" and "px_own_server_name info \<noteq> pt_target_name T"
    and "fst (wi_via N (px_endpoint info) (px_auth_token info) (pt_target_name T) req s) \<noteq> Inr (Inl NotSupported)"
  shows "call_raw (N \<lparr> wi_direct := d \<rparr>) T req (False, s) = call_raw N T req (False, s)"
    and "fst (snd (call_raw N T req (False, s))) = False"
  using assms(3) by (auto simp: call_raw_def assms(1,2) split: prod.splits sum.splits proxy_error.splits)

section \<open>Properties\<close>

text \<open>the medium-term key over two rotations, each of which may fail anywhere. The identity
  always loads; after one rotation the former current key is still current or previous, so what was
  sealed for it still opens; after two that both took place it is gone, and neither the first nor the
  second rotation needs to have told the server of its new key for that.\<close>

theorem rotation_generations:
  assumes "bcs_law E" and "load_identity E db = Inr i"
    and "rotate_once E C (db, s) = (r1, db1, s1)" and "rotate_once E C (db1, s1') = (r2, db2, s2)"
  shows "\<exists>i1 i2. load_identity E db1 = Inr i1 \<and> load_identity E db2 = Inr i2 \<and>
    id_medium_sk_current i \<in> {id_medium_sk_current i1, id_medium_sk_prev i1} \<and>
    (\<forall>encrypted. is_ok (he_decrypt_bytes E encrypted (id_medium_sk_current i)) \<longrightarrow> is_ok (dm_decrypt E i1 encrypted)) \<and>
    id_medium_sk_current i1 \<in> {id_medium_sk_current i2, id_medium_sk_prev i2} \<and>
    (db1 \<noteq> db \<and> db2 \<noteq> db1 \<and> id_medium_sk_current i \<notin> {id_medium_sk_current i1, id_medium_sk_current i2} \<longrightarrow>
       id_medium_sk_current i \<notin> {id_medium_sk_current i2, id_medium_sk_prev i2})"
proof -
  from rotate_once_db [OF assms(1-3)] assms(2) obtain i1 where i1: "load_identity E db1 = Inr i1"
    and one: "db1 = db \<and> i1 = i \<or> id_medium_sk_prev i1 = id_medium_sk_current i" by fastforce
  from rotate_once_db [OF assms(1) i1 assms(4)] i1 obtain i2 where i2: "load_identity E db2 = Inr i2"
    and two: "db2 = db1 \<and> i2 = i1 \<or> id_medium_sk_prev i2 = id_medium_sk_current i1" by fastforce
  have kept: "id_medium_sk_current i \<in> {id_medium_sk_current i1, id_medium_sk_prev i1}" using one by auto
  then have "is_ok (he_decrypt_bytes E encrypted (id_medium_sk_current i)) \<longrightarrow> is_ok (dm_decrypt E i1 encrypted)" for encrypted
    using dm_decrypt_either [of E encrypted "id_medium_sk_current i" _ i1] by (auto simp: is_ok_iff)
  moreover have "id_medium_sk_current i1 \<in> {id_medium_sk_current i2, id_medium_sk_prev i2}" using two by auto
  moreover have "db1 \<noteq> db \<and> db2 \<noteq> db1 \<and> id_medium_sk_current i \<notin> {id_medium_sk_current i1, id_medium_sk_current i2} \<longrightarrow>
       id_medium_sk_current i \<notin> {id_medium_sk_current i2, id_medium_sk_prev i2}"
    using two by auto
  ultimately show ?thesis using i1 i2 kept by blast
qed

definition demo_env :: "(unit, unit) client_env" where
  "demo_env = \<lparr> ce_world = demo_world, ce_server_descriptor = \<lambda>s n. Inr (Some \<lparr> sd_public_urls = [''tcp:1''], sd_server_pk = SigningPublic 1 \<rparr>),
     ce_add_owner = \<lambda>u p k s. (Inr (), s), ce_insert_descriptor = \<lambda>u d k s. (Inr (), s),
     ce_device_auth = \<lambda>n u c s. (Inr (Inr (AuthToken 77)), s), ce_add_medium_pk = \<lambda>n a k s. (Inl ''offline'', s),
     ce_profile = \<lambda>v u s. (Inr (Inr None), s), ce_profile_set = \<lambda>n u p s. (Inr (Inr ()), s),
     ce_rand_device = \<lambda>s. (SigningSecret 8, s) \<rparr>"

lemma demo_secret_encodes: "\<exists>b. bcs_enc demo_ext (ser_dh_secret k) = Some b"
  by (cases k) (simp add: demo_ext_def demo_len_def ser_bytes_arr_def)

lemma demo_rotates:
  assumes "load_identity demo_ext db = Inr i" and "id_username i = UserName ''@bobby''"
  shows "\<exists>db'. rotate_once demo_ext demo_env (db, ()) = (Inl ''offline'', db', ())"
proof -
  obtain db' where st: "store_rotated demo_ext (id_medium_sk_current i) (DhSecret 3) db = Inr ((), db')"
    using demo_secret_encodes [of "id_medium_sk_current i"] demo_secret_encodes [of "DhSecret 3"]
    by (auto simp: store_rotated_def)
  have "rotate_once demo_ext demo_env (db, ()) = (Inl ''offline'', db', ())"
    unfolding rotate_once_def
    by (simp add: assms(1) st call_def on_db_def on_net_def draw_def clock_def rpc_def transact_def read_db_def
        demo_env_def demo_world_def demo_dir_lookup_def)
  then show ?thesis by blast
qed

theorem rotation_generations_witness:
  "\<exists>db db1 db2 i i1. load_identity demo_ext db = Inr i \<and> rotate_once demo_ext demo_env (db, ()) = (Inl ''offline'', db1, ()) \<and>
     rotate_once demo_ext demo_env (db1, ()) = (Inl ''offline'', db2, ()) \<and> load_identity demo_ext db1 = Inr i1 \<and>
     id_medium_sk_current i \<in> {id_medium_sk_current i1, id_medium_sk_prev i1}"
proof -
  obtain db where db: "load_identity demo_ext db = Inr demo_bob" using demo_persisted by blast
  obtain db1 where one: "rotate_once demo_ext demo_env (db, ()) = (Inl ''offline'', db1, ())"
    using demo_rotates [OF db] by (auto simp: demo_people)
  from rotate_once_db [OF demo_laws(1) db one] db obtain i1 where i1: "load_identity demo_ext db1 = Inr i1"
    "id_username i1 = UserName ''@bobby''" by (fastforce simp: demo_people)
  obtain db2 where two: "rotate_once demo_ext demo_env (db1, ()) = (Inl ''offline'', db2, ())"
    using demo_rotates [OF i1] by blast
  from rotation_generations [OF demo_laws(1) db one two] i1
  have "id_medium_sk_current demo_bob \<in> {id_medium_sk_current i1, id_medium_sk_prev i1}" by auto
  with db one two i1 show ?thesis by blast
qed

end
