(* ===== verification/Attachments.thy ===== *)
theory Attachments
  imports ConvoSend FragStore "HOL-Library.Multiset"
begin

text \<open>
  Attachments (\<open>nullspace-client/src/attachments.rs\<close>): a file is cut into chunks, each encrypted
  into a leaf; while there are more than \<open>MAX_FANOUT\<close> of them they are grouped under nodes; the root
  goes into a message. A download walks the nodes and writes each leaf at its offset. The interface
  between the client and the fragment store is the locale \<open>frag_service\<close>, interpreted on
  \<open>upload_frag\<close> and \<open>download_frag\<close> of the server. Progress events are left out. The uploads of
  chunks, sixty-four at a time in the code, are made one by one in an order that is an argument.
\<close>

section \<open>Uploading\<close>

definition CHUNK_SIZE_BYTES :: nat where "CHUNK_SIZE_BYTES = 128 * 1024"
definition MAX_FANOUT :: nat where "MAX_FANOUT = 512"

definition chunk_offsets :: "nat \<Rightarrow> (nat \<times> nat) list" where
  "chunk_offsets total_size =
     map (\<lambda>index. (index, index * CHUNK_SIZE_BYTES))
       [0..<(total_size + CHUNK_SIZE_BYTES - 1) div CHUNK_SIZE_BYTES]"

type_synonym 's uploader = "fragment \<Rightarrow> ('s, server_rpc_error + unit) eff"

definition put_frag :: "'s uploader \<Rightarrow> fragment \<Rightarrow> ('s, unit) eff" where
  "put_frag up f = call (up f) (\<lambda>r. done_with (map_err rpc_error_display r))"

definition upload_chunk ::
  "ext \<Rightarrow> 's uploader \<Rightarrow> aead_key \<Rightarrow> (nat \<Rightarrow> 192 word) \<Rightarrow> bytes \<Rightarrow> nat \<Rightarrow> nat \<times> nat \<Rightarrow> ('s, nat \<times> hash \<times> u64) eff" where
  "upload_chunk E up key nonces file total_size = (\<lambda>(index, offset).
     let chunk_len = min (total_size - offset) CHUNK_SIZE_BYTES;
         buf = take chunk_len (drop offset file) in
     if length buf < chunk_len then done_with (Inl ''early eof'')
     else
       call (done_with (map_err (\<lambda>_. ''chunk encryption failed'') (aead_encrypt E key (nonces index) buf []))) (\<lambda>ciphertext.
       let leaf = Leaf \<lparr> leaf_nonce = nonces index, leaf_data = ciphertext \<rparr> in
       call (put_frag up leaf) (\<lambda>_.
         done_with (Inr (index, frag_hash E leaf, of_nat chunk_len)))))"

fun upload_chunks ::
  "ext \<Rightarrow> 's uploader \<Rightarrow> aead_key \<Rightarrow> (nat \<Rightarrow> 192 word) \<Rightarrow> bytes \<Rightarrow> nat \<Rightarrow> (nat \<times> nat) list
    \<Rightarrow> ('s, (nat \<times> hash \<times> u64) list) eff" where
  "upload_chunks E up key nonces file total_size [] = done_with (Inr [])"
| "upload_chunks E up key nonces file total_size (c # cs) =
     call (upload_chunk E up key nonces file total_size c) (\<lambda>r.
     call (upload_chunks E up key nonces file total_size cs) (\<lambda>rs.
       done_with (Inr (r # rs))))"

text \<open>\<open>slice.chunks(n)\<close>, for \<open>n > 0\<close>.\<close>

function chunks_of :: "nat \<Rightarrow> 'a list \<Rightarrow> 'a list list" where
  "chunks_of n xs = (if xs = [] \<or> n = 0 then [] else take n xs # chunks_of n (drop n xs))"
  by pat_completeness auto
termination by (relation "measure (\<lambda>(n, xs). length xs)") auto

declare chunks_of.simps [simp del]

definition node_child :: "ext \<Rightarrow> fragment_node \<Rightarrow> hash \<times> u64" where
  "node_child E node = (frag_hash E (Node node), node_total_size node)"

definition level_nodes :: "(hash \<times> u64) list \<Rightarrow> fragment_node list" where
  "level_nodes level = map (\<lambda>children. \<lparr> node_children = children \<rparr>) (chunks_of MAX_FANOUT level)"

lemma length_chunks_of: "0 < n \<Longrightarrow> length (chunks_of n xs) = (length xs + n - 1) div n"
proof (induction n xs rule: chunks_of.induct)
  case (1 n xs)
  show ?case
  proof (cases "xs = []")
    case False
    then have "0 < length xs" by simp
    have "length (chunks_of n (drop n xs)) = (length xs - n + n - 1) div n"
      using 1 False by simp
    moreover have "(length xs + n - 1) div n = Suc ((length xs - n + n - 1) div n)"
    proof (cases "length xs < n")
      case True
      then have "(length xs + n - 1) div n = 1" using \<open>0 < length xs\<close> by (cases xs) (auto intro!: div_nat_eqI)
      moreover have "(length xs - n + n - 1) div n = 0" using True 1(2) by simp
      ultimately show ?thesis by simp
    next
      case ge: False
      then have "length xs + n - 1 = (length xs - n + n - 1) + n" using 1(2) by simp
      then show ?thesis using 1(2) by (metis add.commute div_add_self1 less_not_refl2 plus_1_eq_Suc)
    qed
    ultimately show ?thesis using False 1(2) by (simp add: chunks_of.simps [of n xs])
  next
    case True
    then show ?thesis using 1(2) by (simp add: chunks_of.simps [of n "[]"])
  qed
qed

function build_levels ::
  "ext \<Rightarrow> (hash \<times> u64) list \<Rightarrow> fragment_node list \<Rightarrow> (hash \<times> u64) list \<times> fragment_node list" where
  "build_levels E current_level nodes =
     (if length current_level > MAX_FANOUT
      then build_levels E (map (node_child E) (level_nodes current_level)) (nodes @ level_nodes current_level)
      else (current_level, nodes))"
  by pat_completeness auto
termination
  by (relation "measure (\<lambda>(E, level, nodes). length level)")
    (auto simp: level_nodes_def length_chunks_of MAX_FANOUT_def intro!: div_less_dividend less_le_trans)

declare build_levels.simps [simp del]

fun upload_nodes :: "'s uploader \<Rightarrow> fragment_node list \<Rightarrow> ('s, unit) eff" where
  "upload_nodes up [] = done_with (Inr ())"
| "upload_nodes up (node # nodes) = call (put_frag up (Node node)) (\<lambda>_. upload_nodes up nodes)"

text \<open>\<open>upload_inner\<close> from the uploads on: \<open>sched\<close> is the order in which the concurrent uploads are made.\<close>

definition upload_file ::
  "ext \<Rightarrow> 's uploader \<Rightarrow> aead_key \<Rightarrow> (nat \<Rightarrow> 192 word) \<Rightarrow> ((nat \<times> nat) list \<Rightarrow> (nat \<times> nat) list) \<Rightarrow> bytes \<Rightarrow> nat
    \<Rightarrow> string \<Rightarrow> string \<Rightarrow> ('s, attachment) eff" where
  "upload_file E up content_key nonces sched file total_size filename mime =
     call (upload_chunks E up content_key nonces file total_size (sched (chunk_offsets total_size))) (\<lambda>results.
     let chunk_results = sort_key fst results;
         (current_level, nodes) = build_levels E (map snd chunk_results) [] in
     call (upload_nodes up nodes) (\<lambda>_.
       done_with (Inr \<lparr> att_filename = filename, att_mime = mime, att_children = current_level,
         att_content_key = content_key \<rparr>)))"

text \<open>The servers' side of attachments, for \<open>upload_inner\<close> and the downloads.\<close>

record 's frag_world =
  fw_auth_token :: "identity \<Rightarrow> ('s, auth_token) eff"
  fw_upload :: "server_name \<Rightarrow> auth_token \<Rightarrow> u32 \<Rightarrow> 's uploader"
  fw_download :: "server_name \<Rightarrow> 's \<Rightarrow> hash \<Rightarrow> anyhow + (server_rpc_error + fragment option)"
  fw_dir :: "'s \<Rightarrow> username \<Rightarrow> anyhow + user_descriptor option"

definition upload_inner ::
  "ext \<Rightarrow> 's frag_world \<Rightarrow> aead_key \<Rightarrow> (nat \<Rightarrow> 192 word) \<Rightarrow> ((nat \<times> nat) list \<Rightarrow> (nat \<times> nat) list) \<Rightarrow> client_db
    \<Rightarrow> bytes \<Rightarrow> nat \<Rightarrow> string \<Rightarrow> string \<Rightarrow> ('s, attachment) eff" where
  "upload_inner E F content_key nonces sched db file total_size filename mime =
     (if \<not> identity_exists db then done_with (Inl ''not ready'')
      else
        call (done_with (load_identity E db)) (\<lambda>identity.
        call (done_with (ok_or ''server name not available'' (id_server_name identity))) (\<lambda>server_name.
        call (fw_auth_token F identity) (\<lambda>auth.
          upload_file E (fw_upload F server_name auth 0) content_key nonces sched file total_size filename mime))))"

section \<open>Downloading\<close>

definition write_at :: "nat \<Rightarrow> bytes \<Rightarrow> bytes \<Rightarrow> bytes" where
  "write_at offset data file =
     (if data = [] then file
      else take offset file @ replicate (offset - length file) 0 @ data @ drop (offset + length data) file)"

text \<open>The \<open>scan\<close> of \<open>child_offsets\<close>, and the same running offset in the node case of
  \<open>download_fragment\<close>.\<close>

fun offsets_from :: "u64 \<Rightarrow> (hash \<times> u64) list \<Rightarrow> (hash \<times> u64) list" where
  "offsets_from offset [] = []"
| "offsets_from offset ((h, len) # children) = (h, offset) # offsets_from (sat_add64 offset len) children"

definition child_offsets :: "attachment \<Rightarrow> (hash \<times> u64) list" where
  "child_offsets a = offsets_from 0 (att_children a)"

definition fetch_fragment ::
  "ext \<Rightarrow> (hash \<Rightarrow> anyhow + (server_rpc_error + fragment option)) \<Rightarrow> hash \<Rightarrow> anyhow + fragment" where
  "fetch_fragment E get h =
     and_then (get h) (\<lambda>response.
     and_then (map_err rpc_error_display response) (\<lambda>found.
     and_then (ok_or ''missing fragment'' found) (\<lambda>frag.
       if frag_hash E frag \<noteq> h then Inl ''fragment hash mismatch'' else Inr frag)))"

text \<open>\<open>download_fragment\<close> with its recursion written as the list of calls still to make, so that the
  children of a node come before the rest. Nothing but the hash function keeps a graph of nodes from
  being infinite: \<open>None\<close> is a download that never ends.\<close>

partial_function (option) download_fragments ::
  "ext \<Rightarrow> (hash \<Rightarrow> anyhow + (server_rpc_error + fragment option)) \<Rightarrow> aead_key \<Rightarrow> (hash \<times> u64) list \<Rightarrow> bytes \<Rightarrow> u64
    \<Rightarrow> ((anyhow + u64) \<times> bytes) option" where
  "download_fragments E get key work file downloaded =
     (case work of
        [] \<Rightarrow> Some (Inr downloaded, file)
      | (h, start_offset) # rest \<Rightarrow>
          (case fetch_fragment E get h of
             Inl e \<Rightarrow> Some (Inl e, file)
           | Inr frag \<Rightarrow>
               (case frag of
                  Node node \<Rightarrow> download_fragments E get key (offsets_from start_offset (node_children node) @ rest) file downloaded
                | Leaf leaf \<Rightarrow>
                    (case aead_decrypt E key (leaf_nonce leaf) (leaf_data leaf) [] of
                       Inl e \<Rightarrow> Some (Inl ''chunk decryption failed'', file)
                     | Inr plaintext \<Rightarrow>
                         download_fragments E get key rest (write_at (unat start_offset) plaintext file)
                           (downloaded + of_nat (length plaintext))))))"

text \<open>The result of \<open>download_attachment_to_path\<close> and what the temporary file holds then.\<close>

definition download_content ::
  "ext \<Rightarrow> (hash \<Rightarrow> anyhow + (server_rpc_error + fragment option)) \<Rightarrow> attachment \<Rightarrow> ((anyhow + unit) \<times> bytes) option" where
  "download_content E get a =
     (let total_size = attachment_total_size a in
      if att_children a = [] then Some (Inr (), [])
      else
        map_option (\<lambda>(r, file). (and_then r (\<lambda>downloaded.
            if downloaded \<noteq> total_size then Inl ''download size mismatch'' else Inr ()), file))
          (download_fragments E get (att_content_key a) (child_offsets a) (replicate (unat total_size) 0) 0))"

section \<open>Where a download goes\<close>

text \<open>Characters stand for code points below 256; the file system is a map from paths to contents, and
  whether a path is taken is a predicate, since directories and other entries count too.\<close>

definition is_control :: "char \<Rightarrow> bool" where
  "is_control c \<longleftrightarrow> (let n = of_char c :: nat in n < 32 \<or> (127 \<le> n \<and> n < 160))"

definition is_whitespace :: "char \<Rightarrow> bool" where
  "is_whitespace c \<longleftrightarrow> (let n = of_char c :: nat in n = 32 \<or> (9 \<le> n \<and> n \<le> 13) \<or> n = 133 \<or> n = 160)"

definition trim :: "string \<Rightarrow> string" where
  "trim s = rev (dropWhile is_whitespace (rev (dropWhile is_whitespace s)))"

definition sanitize_filename :: "string \<Rightarrow> string" where
  "sanitize_filename name =
     (let trimmed = trim (filter (\<lambda>ch. \<not> (ch = CHR ''/'' \<or> ch = CHR 0x5C \<or> is_control ch)) name)
      in if trimmed = [] then ''attachment.bin'' else trimmed)"

definition split_extension :: "string \<Rightarrow> string \<times> string" where
  "split_extension filename =
     (if CHR ''.'' \<notin> set filename then (filename, [])
      else
        (let stem = rev (tl (dropWhile (\<lambda>c. c \<noteq> CHR ''.'') (rev filename)));
             ext = rev (takeWhile (\<lambda>c. c \<noteq> CHR ''.'') (rev filename))
         in if stem = [] \<or> ext = [] then (filename, []) else (stem, ext)))"

fun decimal :: "nat \<Rightarrow> string" where
  "decimal n = (if n < 10 then [] else decimal (n div 10)) @ [char_of (48 + n mod 10)]"

declare decimal.simps [simp del]

definition numbered_name :: "string \<Rightarrow> nat \<Rightarrow> string" where
  "numbered_name filename i =
     (let (stem, ext) = split_extension filename in
      if ext = [] then stem @ '' ('' @ decimal i @ '')''
      else stem @ '' ('' @ decimal i @ '').'' @ ext)"

definition unique_path :: "(file_path \<Rightarrow> bool) \<Rightarrow> file_path \<Rightarrow> string \<Rightarrow> anyhow + file_path" where
  "unique_path taken dir filename =
     (if \<not> taken (dir @ [filename]) then Inr (dir @ [filename])
      else ok_or ''could not pick unique filename''
        (find (\<lambda>p. \<not> taken p) (map (\<lambda>i. dir @ [numbered_name filename i]) [1..<10000])))"

type_synonym files = "file_path \<Rightarrow> bytes option"

text \<open>The temporary file is renamed to the target, unless the target has come to exist.\<close>

definition finalize_atomic_file :: "file_path \<Rightarrow> file_path \<Rightarrow> files \<Rightarrow> files" where
  "finalize_atomic_file temp_path target fs =
     (if fs target \<noteq> None then fs(temp_path := None)
      else fs(target := fs temp_path, temp_path := None))"

definition download_attachment_to_path ::
  "ext \<Rightarrow> (hash \<Rightarrow> anyhow + (server_rpc_error + fragment option)) \<Rightarrow> attachment \<Rightarrow> file_path \<Rightarrow> file_path \<Rightarrow> files
    \<Rightarrow> ((anyhow + unit) \<times> files) option" where
  "download_attachment_to_path E get a temp_path final_path fs =
     map_option (\<lambda>(r, content).
         let fs = fs(temp_path \<mapsto> content) in
         (r, if is_ok r then finalize_atomic_file temp_path final_path fs else fs))
       (download_content E get a)"

text \<open>\<open>format!("{nonce:016x}")\<close>, a digit at a time. The code draws nonces until the path is new;
  \<open>nonce\<close> below is the one that was.\<close>

definition hex_digit :: "nat \<Rightarrow> char" where
  "hex_digit d = char_of (if d < 10 then 48 + d else 87 + d)"

definition create_temp_path :: "u64 \<Rightarrow> file_path \<Rightarrow> file_path" where
  "create_temp_path nonce target =
     butlast target @ [last target @ ''.part.'' @
       map (\<lambda>i. hex_digit (unat (drop_bit (4 * (15 - i)) nonce) mod 16)) [0..<16]]"

definition attachment_download_oneshot ::
  "ext \<Rightarrow> 's frag_world \<Rightarrow> 's \<Rightarrow> u64 \<Rightarrow> username \<Rightarrow> attachment \<Rightarrow> file_path \<Rightarrow> files \<Rightarrow> ((anyhow + unit) \<times> files) option" where
  "attachment_download_oneshot E F s nonce sender a save_to fs =
     (if fs save_to \<noteq> None then Some (Inr (), fs)
      else
        (case and_then (fw_dir F s sender) (ok_or ''sender not in directory'') of
           Inl e \<Rightarrow> Some (Inl e, fs)
         | Inr descriptor \<Rightarrow>
             download_attachment_to_path E (fw_download F (ud_server_name descriptor) s) a (create_temp_path nonce save_to) save_to fs))"

text \<open>\<open>busy\<close> says whether this attachment is in \<open>IN_PROGRESS\<close>.\<close>

definition download_inner ::
  "ext \<Rightarrow> 's frag_world \<Rightarrow> 's \<Rightarrow> bool \<Rightarrow> (file_path \<Rightarrow> bool) \<Rightarrow> u64 \<Rightarrow> (file_path \<Rightarrow> string)
    \<Rightarrow> hash \<Rightarrow> file_path \<Rightarrow> client_db \<times> files \<Rightarrow> ((anyhow + unit) \<times> client_db \<times> files) option" where
  "download_inner E F s busy taken nonce path_text attachment_id save_dir st =
     (case st of (db, fs) \<Rightarrow>
      if busy then Some (Inr (), db, fs)
      else if \<not> identity_exists db then Some (Inl ''not ready'', db, fs)
      else
        (case and_then (load_attachment_root E db attachment_id) (\<lambda>(sender_username, root).
              and_then (map_err (\<lambda>_. ''invalid username'') (username_parse sender_username)) (\<lambda>sender.
              and_then (and_then (fw_dir F s sender) (ok_or ''sender not in directory'')) (\<lambda>descriptor.
              and_then (unique_path taken save_dir (sanitize_filename (att_filename root))) (\<lambda>final_path.
                Inr (root, ud_server_name descriptor, final_path))))) of
           Inl e \<Rightarrow> Some (Inl e, db, fs)
         | Inr (root, server_name, final_path) \<Rightarrow>
             map_option (\<lambda>(r, fs'). case r of
                 Inl e \<Rightarrow> (Inl e, db, fs')
               | Inr _ \<Rightarrow> (Inr (), db \<lparr> c_paths := t_replace fst (be_bytes (hash_to_bytes attachment_id), path_text final_path)
                   (c_paths db) \<rparr>, fs'))
               (download_attachment_to_path E (fw_download F server_name s) root (create_temp_path nonce final_path) final_path fs)))"

record attachment_saved =
  as_frag_root :: attachment
  as_saved_to :: "string option"

definition attachment_status ::
  "ext \<Rightarrow> (string \<Rightarrow> bytes option) \<Rightarrow> client_db \<Rightarrow> hash \<Rightarrow> anyhow + attachment_saved" where
  "attachment_status E read_file db i =
     (let dl_path = t_get fst (be_bytes (hash_to_bytes i)) (c_paths db) in
      and_then (ok_or ''no rows returned'' (t_get rw_hash (be_bytes (hash_to_bytes i)) (c_roots db))) (\<lambda>r.
      and_then (ok_or ''decode error''
        (bcs_from E (ty_attachment TBytes TBytes) (de_attachment de_hash de_aead_key) (rw_root r))) (\<lambda>frag_root.
        Inr \<lparr> as_frag_root = frag_root,
              as_saved_to = (case dl_path of
                 None \<Rightarrow> None
               | Some (_, path) \<Rightarrow>
                   (case read_file path of
                      Some content \<Rightarrow> if of_nat (length content) = attachment_total_size frag_root then Some path else None
                    | None \<Rightarrow> None)) \<rparr>)))"

section \<open>What a download finds\<close>

text \<open>The fragment \<open>h\<close> and everything below it, as stored, hold the plaintext \<open>data\<close>.\<close>

inductive holds_frag :: "ext \<Rightarrow> (hash \<Rightarrow> anyhow + (server_rpc_error + fragment option)) \<Rightarrow> aead_key \<Rightarrow> hash \<Rightarrow> bytes \<Rightarrow> bool"
  and holds_children :: "ext \<Rightarrow> (hash \<Rightarrow> anyhow + (server_rpc_error + fragment option)) \<Rightarrow> aead_key \<Rightarrow> (hash \<times> u64) list \<Rightarrow> bytes \<Rightarrow> bool"
  for E get key where
  leaf: "fetch_fragment E get h = Inr (Leaf l) \<Longrightarrow> aead_decrypt E key (leaf_nonce l) (leaf_data l) [] = Inr data \<Longrightarrow>
    holds_frag E get key h data"
| node: "fetch_fragment E get h = Inr (Node n) \<Longrightarrow> holds_children E get key (node_children n) data \<Longrightarrow> holds_frag E get key h data"
| none: "holds_children E get key [] []"
| more: "holds_frag E get key h d \<Longrightarrow> len = of_nat (length d) \<Longrightarrow> holds_children E get key cs rest \<Longrightarrow>
    holds_children E get key ((h, len) # cs) (d @ rest)"

inductive_cases holds_NilE: "holds_children E get key [] data"
inductive_cases holds_ConsE: "holds_children E get key (c # cs) data"

lemma length_write_at: "offset + length data \<le> length file \<Longrightarrow> length (write_at offset data file) = length file"
  by (auto simp: write_at_def)

lemma write_at_append:
  assumes "offset + length (a @ b) \<le> length file"
  shows "write_at (offset + length a) b (write_at offset a file) = write_at offset (a @ b) file"
proof (cases "a = [] \<or> b = []")
  case False
  with assms have "offset < length file" by (cases a) auto
  with False assms show ?thesis by (simp add: write_at_def min_def ac_simps)
qed (auto simp: write_at_def)

lemma write_at_all: "length data = length file \<Longrightarrow> write_at 0 data file = data"
  by (auto simp: write_at_def)

lemma download_holds:
  "holds_frag E get key h data \<Longrightarrow> unat offset + length data \<le> length buf \<Longrightarrow> length buf < 2 ^ 64 \<Longrightarrow>
     download_fragments E get key ((h, offset) # work) buf n =
       download_fragments E get key work (write_at (unat offset) data buf) (n + of_nat (length data))"
  and download_children: "holds_children E get key cs data \<Longrightarrow> unat offset + length data \<le> length buf \<Longrightarrow> length buf < 2 ^ 64 \<Longrightarrow>
     download_fragments E get key (offsets_from offset cs @ work) buf n =
       download_fragments E get key work (write_at (unat offset) data buf) (n + of_nat (length data))"
proof (induction arbitrary: offset work buf n and offset work buf n
    rule: holds_frag_holds_children.inducts)
  case (leaf h l data)
  then show ?case by (subst download_fragments.simps) simp
next
  case (node h nd data)
  then show ?case by (subst download_fragments.simps) simp
next
  case none
  then show ?case by (simp add: write_at_def)
next
  case (more h d len cs rest)
  have len: "unat len = length d"
    using more.hyps more.prems by (simp add: unat_of_nat)
  have off: "unat (sat_add64 offset len) = unat offset + length d"
    using more.prems len by (subst unat_sat_add64_exact) auto
  have "download_fragments E get key (offsets_from offset ((h, len) # cs) @ work) buf n =
      download_fragments E get key (offsets_from (sat_add64 offset len) cs @ work) (write_at (unat offset) d buf)
        (n + of_nat (length d))"
    using more by simp
  also have "\<dots> = download_fragments E get key work
      (write_at (unat offset + length d) rest (write_at (unat offset) d buf)) (n + of_nat (length d) + of_nat (length rest))"
    using more.IH(4) [of "sat_add64 offset len" "write_at (unat offset) d buf" work "n + of_nat (length d)"] more.prems
    by (simp add: off length_write_at)
  also have "write_at (unat offset + length d) rest (write_at (unat offset) d buf) = write_at (unat offset) (d @ rest) buf"
    using more.prems by (intro write_at_append) simp
  finally show ?case by (simp add: add.assoc)
qed

lemma holds_children_total:
  "holds_children E get key cs data \<Longrightarrow> sum_list (map snd cs) = of_nat (length data)"
  by (induction cs arbitrary: data) (auto elim!: holds_NilE holds_ConsE)

lemma download_content_holds:
  assumes "holds_children E get (att_content_key a) (att_children a) data" and "length data < 2 ^ 64"
  shows "download_content E get a = Some (Inr (), data)"
proof (cases "att_children a = []")
  case True
  with assms(1) show ?thesis by (auto simp: download_content_def elim: holds_NilE)
next
  case False
  have total: "attachment_total_size a = of_nat (length data)"
    using holds_children_total [OF assms(1)] by (simp add: attachment_total_size_def)
  then have len: "unat (attachment_total_size a) = length data" using assms(2) by (simp add: unat_of_nat)
  have "download_fragments E get (att_content_key a) (child_offsets a) (replicate (length data) 0) 0 =
      download_fragments E get (att_content_key a) [] (write_at 0 data (replicate (length data) 0)) (of_nat (length data))"
    using download_children [OF assms(1), of 0 "replicate (length data) 0" "[]" 0] assms(2)
    by (simp add: child_offsets_def)
  also have "\<dots> = Some (Inr (of_nat (length data)), data)"
    by (subst download_fragments.simps) (simp add: write_at_all)
  finally show ?thesis using False by (simp add: download_content_def Let_def total len [unfolded total])
qed

section \<open>What an upload leaves at the server\<close>

definition chunk_data :: "bytes \<Rightarrow> nat \<Rightarrow> nat \<times> nat \<Rightarrow> bytes" where
  "chunk_data file tot c = take (min (tot - snd c) CHUNK_SIZE_BYTES) (drop (snd c) file)"

definition leaf_frag :: "ext \<Rightarrow> aead_key \<Rightarrow> (nat \<Rightarrow> 192 word) \<Rightarrow> bytes \<Rightarrow> nat \<Rightarrow> nat \<times> nat \<Rightarrow> fragment" where
  "leaf_frag E key nonces file tot c = Leaf \<lparr> leaf_nonce = nonces (fst c),
     leaf_data = (case aead_encrypt E key (nonces (fst c)) (chunk_data file tot c) [] of Inr x \<Rightarrow> x | Inl _ \<Rightarrow> []) \<rparr>"

definition att_row :: "ext \<Rightarrow> aead_key \<Rightarrow> (nat \<Rightarrow> 192 word) \<Rightarrow> bytes \<Rightarrow> nat \<Rightarrow> nat \<times> nat \<Rightarrow> nat \<times> hash \<times> u64" where
  "att_row E key nonces file tot c =
     (fst c, frag_hash E (leaf_frag E key nonces file tot c), of_nat (length (chunk_data file tot c)))"

text \<open>All the fragments an upload of \<open>file\<close> makes.\<close>

definition file_frags :: "ext \<Rightarrow> aead_key \<Rightarrow> (nat \<Rightarrow> 192 word) \<Rightarrow> bytes \<Rightarrow> fragment set" where
  "file_frags E key nonces file =
     (let cs = chunk_offsets (length file); row = att_row E key nonces file (length file) in
      leaf_frag E key nonces file (length file) ` set cs \<union> Node ` set (snd (build_levels E (map (snd \<circ> row) cs) [])))"

definition has_frags :: "ext \<Rightarrow> (hash \<Rightarrow> anyhow + (server_rpc_error + fragment option)) \<Rightarrow> fragment set \<Rightarrow> bool" where
  "has_frags E get fs \<longleftrightarrow> (\<forall>f \<in> fs. get (frag_hash E f) = Inr (Inr (Some f)))"

lemma fetch_has_frags: "has_frags E get fs \<Longrightarrow> f \<in> fs \<Longrightarrow> fetch_fragment E get (frag_hash E f) = Inr f"
  by (simp add: has_frags_def fetch_fragment_def)

lemma upload_chunk_Inr:
  assumes "upload_chunk E up key nonces file tot c s = (Inr r, s')"
  shows "is_ok (aead_encrypt E key (nonces (fst c)) (chunk_data file tot c) [])"
    and "length (chunk_data file tot c) = min (tot - snd c) CHUNK_SIZE_BYTES"
    and "put_frag up (leaf_frag E key nonces file tot c) s = (Inr (), s')"
    and "r = att_row E key nonces file tot c"
proof -
  obtain i off where c: "c = (i, off)" by (cases c)
  let ?n = "min (tot - off) CHUNK_SIZE_BYTES" and ?buf = "chunk_data file tot c"
  have run: "(if length ?buf < ?n then done_with (Inl ''early eof'') else
      call (done_with (map_err (\<lambda>_. ''chunk encryption failed'') (aead_encrypt E key (nonces i) ?buf []))) (\<lambda>x.
      call (put_frag up (Leaf \<lparr> leaf_nonce = nonces i, leaf_data = x \<rparr>)) (\<lambda>_.
        done_with (Inr (i, frag_hash E (Leaf \<lparr> leaf_nonce = nonces i, leaf_data = x \<rparr>), of_nat ?n))))) s = (Inr r, s')"
    using assms unfolding upload_chunk_def Let_def c chunk_data_def prod.case snd_conv .
  then have "\<not> length ?buf < ?n" by (cases "length ?buf < ?n") auto
  moreover have "length ?buf \<le> ?n" by (simp add: chunk_data_def c min.coboundedI2)
  ultimately have n: "length ?buf = ?n" by (metis le_antisym not_less)
  with run obtain x where enc: "aead_encrypt E key (nonces i) ?buf [] = Inr x"
    by (cases "aead_encrypt E key (nonces i) ?buf []") (auto simp: call_def)
  have leaf: "leaf_frag E key nonces file tot c = Leaf \<lparr> leaf_nonce = nonces i, leaf_data = x \<rparr>"
    using enc by (simp add: leaf_frag_def c)
  from run n enc have "put_frag up (leaf_frag E key nonces file tot c) s = (Inr (), s') \<and> r = att_row E key nonces file tot c"
    by (simp add: leaf call_Inr att_row_def) (auto simp: c)
  then show "put_frag up (leaf_frag E key nonces file tot c) s = (Inr (), s')" "r = att_row E key nonces file tot c"
    by blast+
  show "is_ok (aead_encrypt E key (nonces (fst c)) (chunk_data file tot c) [])"
    "length (chunk_data file tot c) = min (tot - snd c) CHUNK_SIZE_BYTES"
    using enc n by (simp_all add: c)
qed

text \<open>The chunks are the file, and grouping them keeps what they hold.\<close>

lemma concat_takes: "concat (map (\<lambda>i. take n (drop (i * n) xs)) [0..<k]) = take (k * n) xs"
  by (induction k) (simp_all add: take_add [of _ n, symmetric] add.commute)

lemma chunks_are_file: "concat (map (chunk_data file (length file)) (chunk_offsets (length file))) = file"
proof -
  let ?c = CHUNK_SIZE_BYTES and ?k = "(length file + CHUNK_SIZE_BYTES - 1) div CHUNK_SIZE_BYTES"
  have pos: "0 < ?c" by (simp add: CHUNK_SIZE_BYTES_def)
  have "chunk_data file (length file) (i, i * ?c) = take ?c (drop (i * ?c) file)" for i
    by (simp add: chunk_data_def min_def)
  then have "concat (map (chunk_data file (length file)) (chunk_offsets (length file))) =
      concat (map (\<lambda>i. take ?c (drop (i * ?c) file)) [0..<?k])"
    by (simp add: chunk_offsets_def comp_def)
  also have "\<dots> = take (?k * ?c) file" by (rule concat_takes)
  also have "\<dots> = file"
  proof -
    have "length file + ?c - 1 < ?k * ?c + ?c" using pos by (metis dividend_less_div_times add.commute mult.commute)
    then show ?thesis using pos by simp
  qed
  finally show ?thesis .
qed

lemma concat_chunks_of: "0 < n \<Longrightarrow> concat (chunks_of n xs) = xs"
proof (induction n xs rule: chunks_of.induct)
  case (1 n xs)
  then show ?case by (cases "xs = []") (simp_all add: chunks_of.simps [of n xs] chunks_of.simps [of n "[]"])
qed

lemma holds_append:
  "holds_children E get key (cs @ ds) data \<Longrightarrow>
     \<exists>a b. data = a @ b \<and> holds_children E get key cs a \<and> holds_children E get key ds b"
proof (induction cs arbitrary: data)
  case Nil
  then show ?case using holds_frag_holds_children.none by fastforce
next
  case (Cons c cs)
  from Cons.prems obtain h len d rest where c: "c = (h, len)" "data = d @ rest" "holds_frag E get key h d"
      "len = of_nat (length d)" and rest: "holds_children E get key (cs @ ds) rest"
    by (auto elim: holds_ConsE)
  from Cons.IH [OF rest] obtain a b where "rest = a @ b" "holds_children E get key cs a" "holds_children E get key ds b" by blast
  with c holds_frag_holds_children.more [OF c(3,4)] show ?case
    by (intro exI [of _ "d @ a"] exI [of _ b]) simp
qed

lemma holds_groups:
  assumes "\<And>g. g \<in> set gs \<Longrightarrow> fetch_fragment E get (frag_hash E (Node \<lparr> node_children = g \<rparr>)) = Inr (Node \<lparr> node_children = g \<rparr>)"
  shows "holds_children E get key (concat gs) data \<Longrightarrow>
    holds_children E get key (map (\<lambda>g. node_child E \<lparr> node_children = g \<rparr>) gs) data"
  using assms
proof (induction gs arbitrary: data)
  case (Cons g gs)
  from Cons.prems(1) have "holds_children E get key (g @ concat gs) data" by simp
  from holds_append [OF this] obtain a b where ab: "data = a @ b" "holds_children E get key g a"
    "holds_children E get key (concat gs) b" by blast
  have "holds_frag E get key (frag_hash E (Node \<lparr> node_children = g \<rparr>)) a"
    by (rule holds_frag_holds_children.node [OF Cons.prems(2)]) (simp_all add: ab(2))
  moreover have "node_total_size \<lparr> node_children = g \<rparr> = of_nat (length a)"
    using holds_children_total [OF ab(2)] by (simp add: node_total_size_def)
  moreover have "holds_children E get key (map (\<lambda>g. node_child E \<lparr> node_children = g \<rparr>) gs) b"
    by (rule Cons.IH [OF ab(3)]) (rule Cons.prems(2), simp)
  ultimately show ?case
    using holds_frag_holds_children.more [OF _ refl, of E get key _ a] ab(1) by (simp add: node_child_def)
qed simp

lemma sort_rows:
  assumes "mset cs = mset (chunk_offsets n)"
  shows "sort_key fst (map (att_row E key nonces file tot) cs) = map (att_row E key nonces file tot) (chunk_offsets n)"
proof (rule sort_key_inj_key_eq)
  show "mset (map (att_row E key nonces file tot) cs) = mset (map (att_row E key nonces file tot) (chunk_offsets n))"
    using assms by (simp only: mset_map)
  show "inj_on fst (set (map (att_row E key nonces file tot) cs))"
    using mset_eq_setD [OF assms] by (auto simp: inj_on_def att_row_def chunk_offsets_def)
  show "sorted (map fst (map (att_row E key nonces file tot) (chunk_offsets n)))"
    by (simp add: comp_def att_row_def chunk_offsets_def)
qed

lemma build_levels_fanout: "build_levels E level nodes = (level', nodes') \<Longrightarrow> length level' \<le> MAX_FANOUT"
proof (induction E level nodes rule: build_levels.induct)
  case (1 E level nodes)
  then show ?case
    by (cases "length level > MAX_FANOUT") (auto simp: build_levels.simps [of E level nodes])
qed

lemma build_levels_grows: "build_levels E level nodes = (level', nodes') \<Longrightarrow> set nodes \<subseteq> set nodes'"
proof (induction E level nodes rule: build_levels.induct)
  case (1 E level nodes)
  then show ?case
    by (cases "length level > MAX_FANOUT") (auto simp: build_levels.simps [of E level nodes])
qed

lemma build_levels_holds:
  assumes "\<And>n. n \<in> set nodes' \<Longrightarrow> fetch_fragment E get (frag_hash E (Node n)) = Inr (Node n)"
  shows "build_levels E level nodes = (level', nodes') \<Longrightarrow> holds_children E get key level data \<Longrightarrow>
    holds_children E get key level' data"
  using assms
proof (induction E level nodes rule: build_levels.induct)
  case (1 E level nodes)
  show ?case
  proof (cases "length level > MAX_FANOUT")
    case True
    then have step: "build_levels E (map (node_child E) (level_nodes level)) (nodes @ level_nodes level) = (level', nodes')"
      using 1(2) by (simp add: build_levels.simps [of E level nodes])
    let ?gs = "chunks_of MAX_FANOUT level"
    have "fetch_fragment E get (frag_hash E (Node \<lparr> node_children = g \<rparr>)) = Inr (Node \<lparr> node_children = g \<rparr>)" if "g \<in> set ?gs" for g
      using 1(4) build_levels_grows [OF step] that by (auto simp: level_nodes_def)
    from holds_groups [OF this, where gs = ?gs and data = data and key = key] 1(3)
    have "holds_children E get key (map (node_child E) (level_nodes level)) data"
      by (simp add: concat_chunks_of MAX_FANOUT_def level_nodes_def comp_def)
    from 1(1) [OF True step this 1(4)] show ?thesis .
  next
    case False
    with 1(2,3) show ?thesis by (simp add: build_levels.simps [of E level nodes])
  qed
qed

lemma leaves_hold:
  assumes "aead_law E" and "has_frags E get (leaf_frag E key nonces file tot ` set cs)"
    and "\<forall>c \<in> set cs. is_ok (aead_encrypt E key (nonces (fst c)) (chunk_data file tot c) [])"
  shows "holds_children E get key (map (snd \<circ> att_row E key nonces file tot) cs) (concat (map (chunk_data file tot) cs))"
  using assms(2,3)
proof (induction cs)
  case (Cons c cs)
  then obtain x where x: "aead_encrypt E key (nonces (fst c)) (chunk_data file tot c) [] = Inr x" by (auto simp: is_ok_iff)
  have "fetch_fragment E get (frag_hash E (leaf_frag E key nonces file tot c)) = Inr (leaf_frag E key nonces file tot c)"
    using Cons.prems(1) by (rule fetch_has_frags) simp
  then have "holds_frag E get key (frag_hash E (leaf_frag E key nonces file tot c)) (chunk_data file tot c)"
    unfolding leaf_frag_def x sum.case
    by (rule holds_frag_holds_children.leaf) (simp add: aead_decrypt_encrypt [OF assms(1) x])
  moreover have "holds_children E get key (map (snd \<circ> att_row E key nonces file tot) cs) (concat (map (chunk_data file tot) cs))"
    using Cons by (auto simp: has_frags_def comp_def)
  ultimately show ?case
    using holds_frag_holds_children.more [OF _ refl, of E get key _ "chunk_data file tot c"] by (simp add: att_row_def comp_def)
qed (simp add: holds_frag_holds_children.none)

locale frag_service =
  fixes E :: ext and up :: "'s uploader" and get :: "'s \<Rightarrow> hash \<Rightarrow> anyhow + (server_rpc_error + fragment option)"
  assumes stored: "bcs_law E \<Longrightarrow> hex_law E \<Longrightarrow> up f s = (Inr (Inr ()), s') \<Longrightarrow> get s' (frag_hash E f) = Inr (Inr (Some f))"
    and kept: "hex_law E \<Longrightarrow> up f s = (r, s') \<Longrightarrow> h \<noteq> frag_hash E f \<Longrightarrow> get s' h = get s h"
begin

lemma put_has:
  assumes "bcs_law E" and "hex_law E" and "put_frag up f s = (Inr x, s')" and "has_frags E (get s) fs"
    and "inj_on (frag_hash E) (insert f fs)"
  shows "has_frags E (get s') (insert f fs)"
proof -
  have up: "up f s = (Inr (Inr ()), s')"
    using assms(3) by (auto simp: put_frag_def call_def split: prod.splits sum.splits)
  have "get s' (frag_hash E g) = Inr (Inr (Some g))" if "g \<in> insert f fs" for g
  proof (cases "g = f")
    case False
    with that inj_onD [OF assms(5), of g f] have "frag_hash E g \<noteq> frag_hash E f" by auto
    with kept [OF assms(2) up] assms(4) that False show ?thesis by (simp add: has_frags_def)
  qed (simp add: stored [OF assms(1,2) up])
  then show ?thesis by (simp add: has_frags_def)
qed

lemma nodes_has:
  assumes "bcs_law E" and "hex_law E"
  shows "upload_nodes up ns s = (Inr x, s') \<Longrightarrow> has_frags E (get s) fs \<Longrightarrow>
    inj_on (frag_hash E) (Node ` set ns \<union> fs) \<Longrightarrow> has_frags E (get s') (Node ` set ns \<union> fs)"
proof (induction ns arbitrary: s fs)
  case (Cons n ns)
  then obtain s1 where put: "put_frag up (Node n) s = (Inr (), s1)" and rest: "upload_nodes up ns s1 = (Inr x, s')"
    by (auto simp: call_Inr)
  have "inj_on (frag_hash E) (insert (Node n) fs)" using Cons.prems(3) by (rule inj_on_subset) auto
  from put_has [OF assms put Cons.prems(2) this] have "has_frags E (get s1) (insert (Node n) fs)" .
  from Cons.IH [OF rest this] Cons.prems(3) show ?case by simp
qed simp

lemma chunks_has:
  assumes "bcs_law E" and "hex_law E"
  shows "upload_chunks E up key nonces file tot cs s = (Inr rs, s') \<Longrightarrow> has_frags E (get s) fs \<Longrightarrow>
    inj_on (frag_hash E) (leaf_frag E key nonces file tot ` set cs \<union> fs) \<Longrightarrow>
    has_frags E (get s') (leaf_frag E key nonces file tot ` set cs \<union> fs) \<and>
    rs = map (att_row E key nonces file tot) cs \<and>
    (\<forall>c \<in> set cs. is_ok (aead_encrypt E key (nonces (fst c)) (chunk_data file tot c) []))"
proof (induction cs arbitrary: s fs rs)
  case (Cons c cs)
  then obtain r s1 rest where one: "upload_chunk E up key nonces file tot c s = (Inr r, s1)"
    and more: "upload_chunks E up key nonces file tot cs s1 = (Inr rest, s')" and rs: "rs = r # rest"
    by (auto simp: call_Inr)
  note chunk = upload_chunk_Inr [OF one]
  have "inj_on (frag_hash E) (insert (leaf_frag E key nonces file tot c) fs)"
    using Cons.prems(3) by (rule inj_on_subset) auto
  from put_has [OF assms chunk(3) Cons.prems(2) this]
  have "has_frags E (get s1) (insert (leaf_frag E key nonces file tot c) fs)" .
  from Cons.IH [OF more this] Cons.prems(3) chunk rs show ?case by simp
qed simp

lemma upload_file_holds:
  assumes "bcs_law E" and "hex_law E" and "aead_law E"
    and run: "upload_file E up key nonces sched file (length file) name mime s = (Inr a, s')"
    and perm: "mset (sched (chunk_offsets (length file))) = mset (chunk_offsets (length file))"
    and inj: "inj_on (frag_hash E) (file_frags E key nonces file)"
  shows "holds_children E (get s') (att_content_key a) (att_children a) file"
    and "length (att_children a) \<le> MAX_FANOUT"
proof -
  let ?cs = "chunk_offsets (length file)" and ?row = "att_row E key nonces file (length file)"
    and ?leaf = "leaf_frag E key nonces file (length file)"
  obtain rs s1 where chunks: "upload_chunks E up key nonces file (length file) (sched ?cs) s = (Inr rs, s1)"
    and rest: "(let (level, nodes) = build_levels E (map snd (sort_key fst rs)) [] in
      call (upload_nodes up nodes) (\<lambda>_. done_with (Inr \<lparr> att_filename = name, att_mime = mime, att_children = level,
        att_content_key = key \<rparr>))) s1 = (Inr a, s')"
    using run by (auto simp: upload_file_def call_Inr)
  have cs: "set (sched ?cs) = set ?cs" using perm by (rule mset_eq_setD)
  obtain level nodes where lv: "build_levels E (map (snd \<circ> ?row) ?cs) [] = (level, nodes)" by fastforce
  have frags: "file_frags E key nonces file = Node ` set nodes \<union> (?leaf ` set ?cs \<union> {})"
    using lv by (auto simp: file_frags_def)
  have "inj_on (frag_hash E) (?leaf ` set (sched ?cs) \<union> {})"
    using inj cs frags by (auto intro: inj_on_subset)
  from chunks_has [OF assms(1,2) chunks _ this]
  have leaves: "has_frags E (get s1) (?leaf ` set ?cs \<union> {})" and rs: "rs = map ?row (sched ?cs)"
    and enc: "\<forall>c \<in> set ?cs. is_ok (aead_encrypt E key (nonces (fst c)) (chunk_data file (length file) c) [])"
    by (simp_all add: has_frags_def cs)
  have "sort_key fst rs = map ?row ?cs"
    unfolding rs by (rule sort_rows [OF perm])
  with rest lv obtain x where up: "upload_nodes up nodes s1 = (Inr x, s')"
    and a: "att_children a = level" "att_content_key a = key"
    by (auto simp: call_Inr comp_def)
  have all: "has_frags E (get s') (file_frags E key nonces file)"
    unfolding frags by (rule nodes_has [OF assms(1,2) up leaves inj [unfolded frags]])
  then have "holds_children E (get s') key (map (snd \<circ> ?row) ?cs) (concat (map (chunk_data file (length file)) ?cs))"
    by (intro leaves_hold [OF assms(3) _ enc]) (simp add: has_frags_def frags)
  then have start: "holds_children E (get s') key (map (snd \<circ> ?row) ?cs) file" by (simp only: chunks_are_file)
  have "fetch_fragment E (get s') (frag_hash E (Node n)) = Inr (Node n)" if "n \<in> set nodes" for n
    using all that by (intro fetch_has_frags) (auto simp: frags)
  from build_levels_holds [OF this lv start] show "holds_children E (get s') (att_content_key a) (att_children a) file"
    by (simp add: a)
  show "length (att_children a) \<le> MAX_FANOUT" using build_levels_fanout [OF lv] a by simp
qed

end

section \<open>The path a download is saved under\<close>

definition legal_name :: "string \<Rightarrow> bool" where
  "legal_name name \<longleftrightarrow> CHR ''/'' \<notin> set name \<and> CHR 0x5C \<notin> set name \<and> name \<notin> {[], ''.'', ''..''}"

lemma set_dropWhile_sub: "c \<in> set (dropWhile P s) \<Longrightarrow> c \<in> set s"
  by (metis in_set_conv_decomp takeWhile_dropWhile_id Un_iff set_append)

lemma set_tl_sub: "c \<in> set (tl s) \<Longrightarrow> c \<in> set s"
  by (cases s) auto

lemma set_trim: "c \<in> set (trim s) \<Longrightarrow> c \<in> set s"
  by (auto simp: trim_def dest!: set_dropWhile_sub)

lemma sanitized_chars: "c \<in> set (sanitize_filename n) \<Longrightarrow> c \<noteq> CHR ''/'' \<and> c \<noteq> CHR 0x5C"
  by (auto simp: sanitize_filename_def Let_def dest!: set_trim split: if_splits)

lemma sanitized_nonempty: "sanitize_filename n \<noteq> []"
  by (simp add: sanitize_filename_def Let_def)

lemma split_extension_chars:
  "split_extension f = (stem, ext) \<Longrightarrow> set stem \<subseteq> set f \<and> set ext \<subseteq> set f"
proof -
  let ?P = "\<lambda>c. c \<noteq> CHR ''.''"
  have "set (tl (dropWhile ?P (rev f))) \<subseteq> set f" "set (takeWhile ?P (rev f)) \<subseteq> set f"
    using set_dropWhile_sub [of _ ?P "rev f"] by (auto dest: set_tl_sub set_takeWhileD)
  moreover assume "split_extension f = (stem, ext)"
  ultimately show ?thesis by (auto simp: split_extension_def Let_def split: if_splits)
qed

lemma decimal_chars: "c \<in> set (decimal n) \<Longrightarrow> c \<noteq> CHR ''/'' \<and> c \<noteq> CHR 0x5C"
proof (induction n rule: decimal.induct)
  case (1 n)
  have digit: "(of_char (char_of (48 + n mod 10) :: char) :: nat) = 48 + n mod 10"
    by (simp add: of_char_of)
  have "(of_char CHR ''/'' :: nat) = 47" "(of_char CHR 0x5C :: nat) = 92" by simp_all
  moreover have "48 + n mod 10 \<noteq> 47" "48 + n mod 10 \<noteq> 92" using mod_less_divisor [of 10 n] by linarith+
  ultimately have "char_of (48 + n mod 10) \<noteq> CHR ''/''" "char_of (48 + n mod 10) \<noteq> CHR 0x5C"
    using digit by metis+
  moreover have "c \<in> set (if n < 10 then [] else decimal (n div 10)) \<or> c = char_of (48 + n mod 10)"
    using 1(2) by (subst (asm) decimal.simps) (simp add: disj_commute split: if_splits)
  ultimately show ?case using 1(1) by (cases "n < 10") auto
qed

lemma numbered_chars:
  assumes "c \<in> set (numbered_name f i)" and "CHR ''/'' \<notin> set f" and "CHR 0x5C \<notin> set f"
  shows "c \<noteq> CHR ''/'' \<and> c \<noteq> CHR 0x5C"
proof -
  obtain stem ext where "split_extension f = (stem, ext)" by fastforce
  with assms split_extension_chars [OF this] decimal_chars [of c i] show ?thesis
    by (auto simp: numbered_name_def split: if_splits)
qed

lemma numbered_paren: "CHR ''('' \<in> set (numbered_name f i)"
  by (cases "split_extension f") (simp add: numbered_name_def)

lemma unique_path_legal:
  assumes "unique_path taken dir (sanitize_filename n) = Inr p"
    and "taken (dir @ [''.''])" and "taken (dir @ [''..''])"
  shows "\<exists>name. p = dir @ [name] \<and> legal_name name \<and> \<not> taken p"
proof (cases "taken (dir @ [sanitize_filename n])")
  case False
  with assms have "p = dir @ [sanitize_filename n]" by (simp add: unique_path_def)
  moreover have "legal_name (sanitize_filename n)"
    using False assms(2,3) sanitized_chars [of _ n] sanitized_nonempty [of n] by (auto simp: legal_name_def)
  ultimately show ?thesis using False by blast
next
  case True
  with assms(1) obtain i where p: "p = dir @ [numbered_name (sanitize_filename n) i]" "\<not> taken p"
    by (auto simp: unique_path_def find_Some_iff ok_or_def split: option.splits)
  have "legal_name (numbered_name (sanitize_filename n) i)"
    using numbered_chars [of _ "sanitize_filename n" i] sanitized_chars [of _ n] numbered_paren [of "sanitize_filename n" i]
    by (auto simp: legal_name_def)
  with p show ?thesis by blast
qed

lemma temp_path_differs: "dir @ [name] \<noteq> create_temp_path nonce (dir @ [name])"
  by (simp add: create_temp_path_def)

lemma download_to_path_files:
  assumes "download_attachment_to_path E get a temp target fs = Some (r, fs')"
    and "temp \<noteq> target" and "fs temp = None" and "fs target = None"
  shows "\<exists>content. download_content E get a = Some (r, content) \<and>
    fs' = (if is_ok r then fs(target \<mapsto> content) else fs(temp \<mapsto> content))"
proof -
  obtain content where run: "download_content E get a = Some (r, content)"
    and fs': "fs' = (if is_ok r then finalize_atomic_file temp target (fs(temp \<mapsto> content)) else fs(temp \<mapsto> content))"
    using assms(1) by (auto simp: download_attachment_to_path_def Let_def)
  have "finalize_atomic_file temp target (fs(temp \<mapsto> content)) = fs(target \<mapsto> content)"
    using assms(2-4) by (auto simp: finalize_atomic_file_def)
  with run fs' show ?thesis by simp
qed

section \<open>The server as the fragment service\<close>

definition frag_up ::
  "ext \<Rightarrow> file_path \<Rightarrow> u64 \<Rightarrow> server_db \<Rightarrow> auth_token \<Rightarrow> frag_store uploader" where
  "frag_up E root now db auth f s =
     (case upload_frag E root now db auth f 0 s of Inl e \<Rightarrow> (Inr (Inl e), s) | Inr s' \<Rightarrow> (Inr (Inr ()), s'))"

definition frag_get ::
  "ext \<Rightarrow> file_path \<Rightarrow> frag_store \<Rightarrow> hash \<Rightarrow> anyhow + (server_rpc_error + fragment option)" where
  "frag_get E root s h = Inr (download_frag E root s h)"

lemma upload_frag_other:
  assumes "hex_law E" and "upload_frag E root now db auth f ttl s = Inr s'" and "h \<noteq> frag_hash E f"
  shows "download_frag E root s' h = download_frag E root s h"
proof -
  obtain len s1 where up: "upload_begin E root db auth f s = Inr (len, s1)" and s': "s' = upload_commit E now ttl f len s1"
    using assms(2) by (auto simp: upload_frag_def)
  from upload_begin_Inr [OF up] obtain bs where "s1 = store_bcs_bytes E root (frag_hash E f) bs s" by blast
  then show ?thesis
    using assms(3) by (simp add: s' download_frag_def load_frag_def store_bcs_bytes_def path_for_hash_inject [OF assms(1)])
qed

lemma upload_frag_stored:
  assumes "bcs_law E" and "upload_frag E root now db auth f ttl s = Inr s'"
  shows "download_frag E root s' (frag_hash E f) = Inr (Some f)"
proof -
  obtain len s1 where up: "upload_begin E root db auth f s = Inr (len, s1)" and s': "s' = upload_commit E now ttl f len s1"
    using assms(2) by (auto simp: upload_frag_def)
  from upload_begin_Inr [OF up] obtain bs where "bcs_enc E (ser_fragment f) = Some bs"
    and "s1 = store_bcs_bytes E root (frag_hash E f) bs s" by blast
  then show ?thesis
    by (simp add: s' download_frag_def load_frag_def store_bcs_bytes_def frag_read_back [OF assms(1)])
qed

interpretation server_frags: frag_service E "frag_up E root now db auth" "frag_get E root"
proof
  show "frag_get E root s' (frag_hash E f) = Inr (Inr (Some f))"
    if "bcs_law E" "hex_law E" "frag_up E root now db auth f s = (Inr (Inr ()), s')" for f s s'
    using upload_frag_stored [OF that(1)] that(3) by (auto simp: frag_up_def frag_get_def split: sum.splits)
  show "frag_get E root s' h = frag_get E root s h"
    if "hex_law E" "frag_up E root now db auth f s = (r, s')" "h \<noteq> frag_hash E f" for f s r s' h
    using upload_frag_other [OF that(1) _ that(3)] that(2) by (auto simp: frag_up_def frag_get_def split: sum.splits)
qed

section \<open>Properties\<close>

text \<open>C18: an attachment that was uploaded without an error is downloaded byte for byte, whatever the
  order in which its chunks went up and whatever the server held before; its root names at most
  \<open>MAX_FANOUT\<close> children and the size of the file. The fragments of the file must not collide in their
  hashes.\<close>

theorem attachment_roundtrip:
  assumes "bcs_law E" and "hex_law E" and "aead_law E"
    and "upload_file E (frag_up E root now db auth) key nonces sched file (length file) name mime s = (Inr a, s')"
    and "mset (sched (chunk_offsets (length file))) = mset (chunk_offsets (length file))"
    and "length file < 2 ^ 64"
    and "inj_on (frag_hash E) (file_frags E key nonces file)"
  shows "download_content E (frag_get E root s') a = Some (Inr (), file) \<and>
    attachment_total_size a = of_nat (length file) \<and> length (att_children a) \<le> MAX_FANOUT"
  using server_frags.upload_file_holds [OF assms(1-5,7)] download_content_holds [OF _ assms(6)] holds_children_total
  by (fastforce simp: attachment_total_size_def)

lemma demo_upload_file:
  "\<exists>a s'. upload_file demo_ext (frag_up demo_ext [''r''] 9 demo_token_db (AuthToken 77)) (AeadKey 5) (\<lambda>_. 3) rev [1, 2, 3] 3
     ''a.txt'' ''text/plain'' empty_store = (Inr a, s')"
proof -
  obtain d where "bcs_enc demo_ext (ser_auth_token (AuthToken 77)) = Some d" using demo_encodes(2) by blast
  then have auth: "auth_token_exists demo_ext demo_token_db (AuthToken 77) = Inr True"
    by (simp add: auth_token_exists_def demo_token_db_def t_get_simps)
  have "case aead_encrypt demo_ext (AeadKey 5) 3 [1, 2, 3] [] of Inl _ \<Rightarrow> False | Inr x \<Rightarrow>
      (case bcs_enc demo_ext (ser_fragment (Leaf \<lparr> leaf_nonce = 3, leaf_data = x \<rparr>)) of
         None \<Rightarrow> False | Some bs \<Rightarrow> int (length bs) < 1000)"
    by code_simp
  then obtain x bs where x: "aead_encrypt demo_ext (AeadKey 5) 3 [1, 2, 3] [] = Inr x"
    and bs: "bcs_enc demo_ext (ser_fragment (Leaf \<lparr> leaf_nonce = 3, leaf_data = x \<rparr>)) = Some bs" "int (length bs) < 1000"
    by (auto split: option.splits sum.splits)
  have put: "\<exists>s'. put_frag (frag_up demo_ext [''r''] 9 demo_token_db (AuthToken 77))
      (Leaf \<lparr> leaf_nonce = 3, leaf_data = x \<rparr>) empty_store = (Inr (), s')"
    using auth bs by (simp add: put_frag_def call_def frag_up_def upload_frag_def upload_begin_def Let_def)
  have "chunk_offsets 3 = [(0, 0)]" by (simp add: chunk_offsets_def CHUNK_SIZE_BYTES_def)
  with put x show ?thesis
    by (auto simp: upload_file_def upload_chunk_def call_def CHUNK_SIZE_BYTES_def Let_def build_levels.simps [of _ "[_]"]
        MAX_FANOUT_def)
qed

theorem attachment_roundtrip_witness:
  "\<exists>a s'. upload_file demo_ext (frag_up demo_ext [''r''] 9 demo_token_db (AuthToken 77)) (AeadKey 5) (\<lambda>_. 3) rev [1, 2, 3] 3
     ''a.txt'' ''text/plain'' empty_store = (Inr a, s') \<and>
     download_content demo_ext (frag_get demo_ext [''r''] s') a = Some (Inr (), [1, 2, 3])"
proof -
  have three: "length [1, 2, 3 :: 8 word] = 3" by simp
  obtain a s' where up: "upload_file demo_ext (frag_up demo_ext [''r''] 9 demo_token_db (AuthToken 77)) (AeadKey 5) (\<lambda>_. 3) rev
     [1, 2, 3] (length [1, 2, 3 :: 8 word]) ''a.txt'' ''text/plain'' empty_store = (Inr a, s')"
    using demo_upload_file unfolding three by blast
  have "chunk_offsets (length [1, 2, 3 :: 8 word]) = [(0, 0)]" by (simp add: chunk_offsets_def CHUNK_SIZE_BYTES_def)
  then have "inj_on (frag_hash demo_ext) (file_frags demo_ext (AeadKey 5) (\<lambda>_. 3) [1, 2, 3])"
    by (simp add: file_frags_def Let_def build_levels.simps [of _ "[_]"] MAX_FANOUT_def)
  from attachment_roundtrip [OF demo_laws(1,3,7) up _ _ this]
  have "download_content demo_ext (frag_get demo_ext [''r''] s') a = Some (Inr (), [1, 2, 3])" by simp
  with up [unfolded three] show ?thesis by blast
qed


lemma attachment_store_load:
  assumes "bcs_law E" and "store_attachment_root E sender root db = Inr (h, db')"
  shows "load_attachment_root E db' h = Inr (username_as_str sender, root)"
proof -
  let ?k = "be_bytes (hash_to_bytes h)"
  obtain bs where bs: "bcs_enc E (ser_attachment ser_hash ser_aead_key root) = Some bs"
    and roots: "c_roots db' = (if ?k \<in> rw_hash ` set (c_roots db)
      then t_update (\<lambda>r. rw_hash r = ?k) (\<lambda>r. r \<lparr> rw_root := bs, rw_sender := username_as_str sender \<rparr>) (c_roots db)
      else c_roots db @ [\<lparr> rw_hash = ?k, rw_root = bs, rw_sender = username_as_str sender \<rparr>])"
    using assms(2) by (auto simp: store_attachment_root_def Let_def)
  have upd: "?k \<in> rw_hash ` set t \<Longrightarrow> \<exists>r. t_get rw_hash ?k
      (t_update (\<lambda>r. rw_hash r = ?k) (\<lambda>r. r \<lparr> rw_root := bs, rw_sender := username_as_str sender \<rparr>) t) = Some r \<and>
      rw_root r = bs \<and> rw_sender r = username_as_str sender" for t
    by (induction t) (auto simp: t_get_simps t_update_def)
  have "\<exists>r. t_get rw_hash ?k (c_roots db') = Some r \<and> rw_root r = bs \<and> rw_sender r = username_as_str sender"
  proof (cases "?k \<in> rw_hash ` set (c_roots db)")
    case True
    with upd [OF this] show ?thesis by (simp add: roots)
  next
    case False
    then have "t_get rw_hash ?k (c_roots db) = None" by (simp add: t_get_None)
    with False show ?thesis by (simp add: roots t_get_append t_get_simps)
  qed
  moreover have "bcs_from E (ty_attachment TBytes TBytes) (de_attachment de_hash de_aead_key) bs = Some root"
    by (simp add: bcs_from_enc [OF assms(1) bs] map_free_attachment)
  ultimately show ?thesis by (auto simp: load_attachment_root_def)
qed

definition demo_attachment :: attachment where
  "demo_attachment = \<lparr> att_filename = ''../a.txt'', att_mime = ''text/plain'', att_children = [], att_content_key = AeadKey 5 \<rparr>"

definition demo_frag_world :: "unit frag_world" where
  "demo_frag_world = \<lparr> fw_auth_token = \<lambda>i s. (Inr (AuthToken 1), s), fw_upload = \<lambda>n a t f s. (Inr (Inr ()), s),
     fw_download = \<lambda>n s h. Inr (Inr None), fw_dir = \<lambda>s. demo_dir_lookup \<rparr>"


end
