(* ===== verification/Internal.thy ===== *)
theory Internal
  imports ClientKeys Attachments
begin

text \<open>
  The client's surface (\<open>nullspace-client/src/internal.rs\<close>): registration of a user or of a further
  device, conversations and their history, groups, and profiles (\<open>profile.rs\<close>). Text is kept as its
  UTF-8 bytes, one character each.
\<close>

section \<open>Types\<close>

datatype internal_rpc_error = INotReady | IAccessDenied | IOther string

record group_member =
  gm_username :: username
  gm_is_admin :: bool
  gm_status :: group_member_status

record register_start_info =
  rs_username :: username
  rs_server_name :: server_name

datatype register_request = BootstrapNewUser username server_name | AddDevice bytes

record bundle_inner =
  bi_username :: username
  bi_device_secret :: device_secret
  bi_cert_chain :: certificate_chain

definition ser_bundle :: "bundle_inner \<Rightarrow> sval" where
  "ser_bundle b = VTup [ser_username (bi_username b), ser_signing_secret (bi_device_secret b), ser_chain (bi_cert_chain b)]"

definition ty_bundle :: styp where "ty_bundle = TTup [TStr, TBytes, ty_chain]"

fun de_bundle :: "ext \<Rightarrow> sval \<Rightarrow> bundle_inner option" where
  "de_bundle E (VTup [u, s, c]) =
     (case (de_username u, de_signing_secret s, de_chain E c) of
        (Some name, Some secret, Some chain) \<Rightarrow>
          Some \<lparr> bi_username = name, bi_device_secret = secret, bi_cert_chain = chain \<rparr>
      | _ \<Rightarrow> None)"
| "de_bundle E _ = None"

datatype message_content =
    PlainText string
  | AttachmentContent hash u64 string string
  | GroupInviteContent int

datatype outgoing_message = OutPlainText string | OutAttachment attachment

record convo_message =
  ms_id :: int
  ms_convo_id :: convo_id
  ms_sender :: username
  ms_body :: message_content
  ms_send_error :: "string option"
  ms_received_at :: "nano_timestamp option"

record convo_summary =
  su_convo_id :: convo_id
  su_last_message :: "convo_message option"

datatype message_direction = Incoming | Outgoing

record user_last_message_summary =
  ul_received_at :: "nano_timestamp option"
  ul_direction :: message_direction
  ul_preview :: string

record user_details_info =
  de_username_of :: username
  de_display_name :: "string option"
  de_avatar :: "attachment option"
  de_server_name_of :: "server_name option"
  de_common_groups :: "group_id list"
  de_last_dm_message :: "user_last_message_summary option"

text \<open>Handlers that answer an \<open>InternalRpcError\<close>; \<open>or_other m\<close> is \<open>m.map_err(internal_err)\<close>.\<close>

type_synonym ('s, 'a) rpc_eff = "'s \<Rightarrow> (internal_rpc_error + 'a) \<times> 's"

definition icall :: "('s, 'a) rpc_eff \<Rightarrow> ('a \<Rightarrow> ('s, 'b) rpc_eff) \<Rightarrow> ('s, 'b) rpc_eff" where
  "icall m k s = (case m s of (Inl e, s') \<Rightarrow> (Inl e, s') | (Inr x, s') \<Rightarrow> k x s')"

definition idone :: "internal_rpc_error + 'a \<Rightarrow> ('s, 'a) rpc_eff" where
  "idone r s = (r, s)"

definition internal_err :: "anyhow \<Rightarrow> internal_rpc_error" where
  "internal_err err = IOther err"

definition or_other :: "('s, 'a) eff \<Rightarrow> ('s, 'a) rpc_eff" where
  "or_other m s = (case m s of (r, s') \<Rightarrow> (map_err internal_err r, s'))"

text \<open>The one \<open>InternalRpcError\<close> that travels inside an \<open>anyhow\<close> error is \<open>NotReady\<close>.\<close>

definition map_anyhow_err :: "anyhow \<Rightarrow> internal_rpc_error" where
  "map_anyhow_err err = (if err = ''not ready'' then INotReady else IOther err)"

definition or_mapped :: "('s, 'a) eff \<Rightarrow> ('s, 'a) rpc_eff" where
  "or_mapped m s = (case m s of (r, s') \<Rightarrow> (map_err map_anyhow_err r, s'))"

definition need_identity :: "('s, unit) sys_eff \<Rightarrow> (client_db \<times> 's, unit) rpc_eff" where
  "need_identity m st = (if identity_exists (fst st) then or_other m st else (Inl INotReady, st))"

lemma icall_simps [simp]:
  "icall (idone (Inr x)) k s = k x s" "icall (idone (Inl e)) k s = (Inl e, s)" "idone r s = (r, s)"
  by (simp_all add: icall_def idone_def)

lemma icall_Inr: "icall m k s = (Inr y, s') \<longleftrightarrow> (\<exists>x s1. m s = (Inr x, s1) \<and> k x s1 = (Inr y, s'))"
  by (auto simp: icall_def split: prod.splits sum.splits)

lemma or_other_Inr [simp]: "or_other m s = (Inr x, s') \<longleftrightarrow> m s = (Inr x, s')"
  by (auto simp: or_other_def split: prod.splits)

section \<open>Messages as the front end sees them\<close>

definition continuation :: "u8 \<Rightarrow> bool" where
  "continuation b \<longleftrightarrow> 0x80 \<le> b \<and> b < 0xC0"

definition second_byte :: "u8 \<Rightarrow> u8 \<Rightarrow> bool" where
  "second_byte b c =
     (if b = 0xE0 then 0xA0 \<le> c \<and> c < 0xC0
      else if b = 0xED then 0x80 \<le> c \<and> c < 0xA0
      else if b = 0xF0 then 0x90 \<le> c \<and> c < 0xC0
      else if b = 0xF4 then 0x80 \<le> c \<and> c < 0x90
      else continuation c)"

text \<open>\<open>String::from_utf8_lossy\<close>: whether a character starts the bytes, and the length of it or of the
  invalid piece that one replacement character stands for.\<close>

definition utf8_head :: "bytes \<Rightarrow> bool \<times> nat" where
  "utf8_head bs =
     (let b = hd bs; at = (\<lambda>i. if i < length bs then bs ! i else 0) in
      if b < 0x80 then (True, 1)
      else if 0xC2 \<le> b \<and> b < 0xE0 then (if continuation (at 1) then (True, 2) else (False, 1))
      else if 0xE0 \<le> b \<and> b < 0xF0 then
        (if \<not> second_byte b (at 1) then (False, 1)
         else if \<not> continuation (at 2) then (False, 2) else (True, 3))
      else if 0xF0 \<le> b \<and> b \<le> 0xF4 then
        (if \<not> second_byte b (at 1) then (False, 1)
         else if \<not> continuation (at 2) then (False, 2)
         else if \<not> continuation (at 3) then (False, 3) else (True, 4))
      else (False, 1))"

lemma utf8_head_pos: "0 < snd (utf8_head bs)"
  by (simp add: utf8_head_def Let_def)

lemma utf8_head_progress: "(ok, n) = utf8_head bs \<Longrightarrow> 0 < n"
  using utf8_head_pos [of bs] by (metis snd_conv)

function utf8_lossy :: "bytes \<Rightarrow> bytes" where
  "utf8_lossy bs =
     (if bs = [] then []
      else (case utf8_head bs of (ok, n) \<Rightarrow>
        (if ok then take n bs else [0xEF, 0xBF, 0xBD]) @ utf8_lossy (drop n bs)))"
  by pat_completeness auto
termination
  by (relation "measure length") (simp_all add: utf8_head_progress)

declare utf8_lossy.simps [simp del]

definition bytes_str :: "bytes \<Rightarrow> string" where
  "bytes_str bs = map (\<lambda>b. char_of (unat b)) bs"

definition decode_message_content ::
  "ext \<Rightarrow> int \<Rightarrow> username \<Rightarrow> string \<Rightarrow> bytes \<Rightarrow> (client_db, message_content) eff" where
  "decode_message_content E message_id sender mime body =
     (if mime = ''text/plain'' \<or> mime = ''text/markdown'' then done_with (Inr (PlainText (bytes_str (utf8_lossy body))))
      else if mime = group_invite_mime then done_with (Inr (GroupInviteContent message_id))
      else if mime = attachment_mime then
        (case json_from E (ty_attachment TStr TStr) (dej_attachment E) body of
           None \<Rightarrow> done_with (Inl ''invalid attachment root'')
         | Some root \<Rightarrow>
             call (transact (store_attachment_root E sender root)) (\<lambda>i.
               done_with (Inr (AttachmentContent i (attachment_total_size root) (att_mime root) (att_filename root)))))
      else done_with (Inr (PlainText ''Unsupported message'')))"

text \<open>\<open>.ok()\<close> and \<open>Err(_) => continue\<close>: the error is dropped, the effects stay.\<close>

definition attempt :: "('s, 'a) eff \<Rightarrow> ('s, 'a option) eff" where
  "attempt m s = (case m s of (r, s') \<Rightarrow> (Inr (result_ok r), s'))"

definition row_message :: "convo_id \<Rightarrow> message_row \<Rightarrow> username \<Rightarrow> message_content \<Rightarrow> convo_message" where
  "row_message convo m sender body =
     \<lparr> ms_id = cm_id m, ms_convo_id = convo, ms_sender = sender, ms_body = body,
       ms_send_error = cm_send_error m, ms_received_at = cm_received_at m \<rparr>"

text \<open>One row of a query, as a message; \<open>None\<close> when its body does not decode.\<close>

definition decode_row :: "ext \<Rightarrow> convo_id \<Rightarrow> message_row \<Rightarrow> (client_db, convo_message option) eff" where
  "decode_row E convo m =
     call (done_with (map_err (\<lambda>_. ''invalid username'') (username_parse (cm_sender_username m)))) (\<lambda>sender.
     call (attempt (decode_message_content E (cm_id m) sender (cm_mime m) (cm_body m))) (\<lambda>body.
       done_with (Inr (map_option (row_message convo m sender) body))))"

definition last_row :: "client_db \<Rightarrow> convo_row \<Rightarrow> message_row option" where
  "last_row db c =
     (let ids = cm_id ` set (filter (\<lambda>m. cm_convo_id m = cv_id c) (c_messages db)) in
      if ids = {} then None else t_get cm_id (Max ids) (c_messages db))"

definition convo_order :: "convo_row \<times> message_row option \<Rightarrow> bool \<times> int \<times> int \<times> int" where
  "convo_order = (\<lambda>(c, m).
     let received = Option.bind m cm_received_at in
     (received \<noteq> None, - (case received of Some t \<Rightarrow> sint t | None \<Rightarrow> 0), - sint (cv_created_at c), - cv_id c))"

definition convo_list_query :: "client_db \<Rightarrow> (convo_row \<times> message_row option) list" where
  "convo_list_query db = sort_key convo_order (map (\<lambda>c. (c, last_row db c)) (c_convos db))"

fun convo_list_rows :: "ext \<Rightarrow> (convo_row \<times> message_row option) list \<Rightarrow> (client_db, convo_summary list) eff" where
  "convo_list_rows E [] = done_with (Inr [])"
| "convo_list_rows E ((c, m) # rows) =
     call (done_with (ok_or ''invalid convo row'' (parse_convo_id E (cv_type c) (cv_counterparty c)))) (\<lambda>convo_id.
     call (case m of None \<Rightarrow> done_with (Inr None) | Some m \<Rightarrow> decode_row E convo_id m) (\<lambda>last_message.
     call (convo_list_rows E rows) (\<lambda>out.
       done_with (Inr (\<lparr> su_convo_id = convo_id, su_last_message = last_message \<rparr> # out)))))"

definition convo_list :: "ext \<Rightarrow> (client_db, convo_summary list) eff" where
  "convo_list E db = convo_list_rows E (convo_list_query db) db"

definition in_convo :: "client_db \<Rightarrow> string \<Rightarrow> string \<Rightarrow> message_row \<Rightarrow> bool" where
  "in_convo db ctype counterparty m \<longleftrightarrow>
     (\<exists>c \<in> set (c_convos db). cv_id c = cm_convo_id m \<and> cv_type c = ctype \<and> cv_counterparty c = counterparty)"

definition history_query :: "ext \<Rightarrow> client_db \<Rightarrow> convo_id \<Rightarrow> int \<Rightarrow> int \<Rightarrow> nat \<Rightarrow> message_row list" where
  "history_query E db convo before after limit =
     rev (take limit (rev (sort_key cm_id (filter (\<lambda>m. in_convo db (convo_type convo) (convo_counterparty E convo) m \<and>
       cm_id m \<le> before \<and> after \<le> cm_id m) (c_messages db)))))"

fun history_rows :: "ext \<Rightarrow> convo_id \<Rightarrow> message_row list \<Rightarrow> (client_db, convo_message list) eff" where
  "history_rows E convo [] = done_with (Inr [])"
| "history_rows E convo (m # rows) =
     call (decode_row E convo m) (\<lambda>message.
     call (history_rows E convo rows) (\<lambda>out.
       done_with (Inr (case message of None \<Rightarrow> out | Some x \<Rightarrow> x # out))))"

definition convo_history ::
  "ext \<Rightarrow> convo_id \<Rightarrow> int option \<Rightarrow> int option \<Rightarrow> 16 word \<Rightarrow> (client_db, convo_message list) eff" where
  "convo_history E convo before after limit db =
     history_rows E convo (history_query E db convo (case before of Some b \<Rightarrow> b | None \<Rightarrow> 2 ^ 63 - 1)
       (case after of Some a \<Rightarrow> a | None \<Rightarrow> - (2 ^ 63)) (unat limit)) db"

section \<open>Sending and groups\<close>

definition convo_send ::
  "ext \<Rightarrow> ('s, 'srv) client_env \<Rightarrow> convo_id \<Rightarrow> outgoing_message \<Rightarrow> (client_db \<times> 's, int) rpc_eff" where
  "convo_send E C convo_id message st =
     (case load_identity E (fst st) of
        Inl _ \<Rightarrow> (Inl INotReady, st)
      | Inr identity \<Rightarrow>
          icall (idone (case message of
              OutPlainText text \<Rightarrow> Inr (''text/plain'', str_bytes text)
            | OutAttachment root \<Rightarrow>
                (case json_enc E (serj_attachment E root) of
                   None \<Rightarrow> Inl (IOther ''json error'') | Some body \<Rightarrow> Inr (attachment_mime, body)))) (\<lambda>(mime, body).
            or_other (call (clock (w_now_ns (ce_world C))) (\<lambda>now.
              on_db (queue_message E now convo_id (id_username identity) mime body)))) st)"

definition when_registered :: "(client_db \<times> 's, 'a) rpc_eff \<Rightarrow> (client_db \<times> 's, 'a) rpc_eff" where
  "when_registered m st = (if identity_exists (fst st) then m st else (Inl INotReady, st))"

definition convo_create_group :: "ext \<Rightarrow> ('s, 'srv) client_env \<Rightarrow> server_name \<Rightarrow> (client_db \<times> 's, convo_id) rpc_eff" where
  "convo_create_group E C server =
     when_registered (icall (or_other (create_group E (ce_world C) server)) (\<lambda>group_id. idone (Inr (Group group_id))))"

definition own_server :: "ext \<Rightarrow> (client_db \<times> 's, server_name) rpc_eff" where
  "own_server E =
     icall (or_other (on_db (read_db (load_identity E)))) (\<lambda>identity.
       idone (ok_or (IOther ''server name not available'') (id_server_name identity)))"

definition own_username :: "ext \<Rightarrow> (client_db \<times> 's, username) rpc_eff" where
  "own_username E =
     icall (or_other (on_db (read_db (load_identity E)))) (\<lambda>identity. idone (Inr (id_username identity)))"

definition group_invite :: "ext \<Rightarrow> ('s, 'srv) client_env \<Rightarrow> group_id \<Rightarrow> username \<Rightarrow> (client_db \<times> 's, unit) rpc_eff" where
  "group_invite E C g u = when_registered (or_other (invite E (ce_world C) g u))"

definition group_members :: "ext \<Rightarrow> group_id \<Rightarrow> (client_db \<times> 's, group_member list) rpc_eff" where
  "group_members E g =
     when_registered (
       icall (or_other (on_db (read_db (load_group E g)))) (\<lambda>found.
       icall (idone (ok_or (IOther ''group not found'') found)) (\<lambda>group_record.
       icall (or_other (on_db (transact (\<lambda>db. and_then (roster_load g (gd_init_admin (gr_descriptor group_record)) db)
         (\<lambda>db. Inr ((), db)))))) (\<lambda>_.
       icall (or_other (on_db (read_db (list_raw g)))) (\<lambda>members.
         idone (Inr (map (\<lambda>m. \<lparr> gm_username = rm_username m, gm_is_admin = rm_is_admin m, gm_status = rm_status m \<rparr>)
           members)))))))"

definition group_accept_invite :: "ext \<Rightarrow> ('s, 'srv) client_env \<Rightarrow> int \<Rightarrow> (client_db \<times> 's, group_id) rpc_eff" where
  "group_accept_invite E C dm_id = when_registered (or_other (accept_invite E (ce_world C) dm_id))"

section \<open>Profiles and user details\<close>

definition get_profile ::
  "ext \<Rightarrow> ('s, 'srv) client_env \<Rightarrow> username \<Rightarrow> ('s, user_profile option) sys_eff" where
  "get_profile E C u =
     call (clock (\<lambda>s. (w_now_s (ce_world C) s, w_dir (ce_world C) s, w_users (ce_world C) s))) (\<lambda>(now, dir, api).
     call (on_db (get_user_info E now dir api u)) (\<lambda>user.
     call (rpc (ce_profile C (ui_server user) u)) (\<lambda>found.
     case found of
       None \<Rightarrow> done_with (Inr None)
     | Some profile \<Rightarrow>
         if \<exists>(h, chain) \<in> set (ui_device_chains user). is_ok (up_verify E profile (cert_pk (last_device chain)))
         then done_with (Inr (Some profile))
         else done_with (Inl ''profile signature did not verify against any device''))))"

definition active_in :: "client_db \<Rightarrow> username \<Rightarrow> bytes set" where
  "active_in db u = mw_group_id ` set (filter (\<lambda>r. mw_username r = username_as_str u \<and>
     mw_status r \<in> {''pending'', ''accepted''}) (c_members db))"

definition common_groups :: "client_db \<Rightarrow> username \<Rightarrow> username \<Rightarrow> group_id list" where
  "common_groups db local_username other_username =
     List.map_filter (\<lambda>b. map_option (\<lambda>w. GroupId (Hash w)) (array_try_from b))
       (sort (remdups (map mw_group_id (filter (\<lambda>r. mw_username r = username_as_str other_username \<and>
         mw_status r \<in> {''pending'', ''accepted''} \<and> mw_group_id r \<in> active_in db local_username) (c_members db)))))"

definition last_dm_message_summary :: "client_db \<Rightarrow> username \<Rightarrow> username \<Rightarrow> user_last_message_summary option" where
  "last_dm_message_summary db local_username other_username =
     (case rev (sort_key cm_id (filter (\<lambda>m. in_convo db ''direct'' (username_as_str other_username) m \<and>
         cm_sender_username m \<noteq> username_as_str local_username) (c_messages db))) of
        [] \<Rightarrow> None
      | m # _ \<Rightarrow> map_option (\<lambda>received_at. \<lparr> ul_received_at = Some received_at, ul_direction = Incoming, ul_preview = [] \<rparr>)
          (cm_received_at m))"

definition user_details :: "ext \<Rightarrow> ('s, 'srv) client_env \<Rightarrow> username \<Rightarrow> (client_db \<times> 's, user_details_info) rpc_eff" where
  "user_details E C u =
     when_registered (
       icall (or_other (on_db (read_db (load_identity E)))) (\<lambda>identity.
       icall (or_mapped (get_profile E C u)) (\<lambda>profile.
       icall (case Option.bind profile up_avatar of
           None \<Rightarrow> idone (Inr ())
         | Some avatar \<Rightarrow> icall (or_other (on_db (transact (store_attachment_root E u avatar)))) (\<lambda>_. idone (Inr ()))) (\<lambda>_.
       icall (or_mapped (call (clock (\<lambda>s. (w_now_s (ce_world C) s, w_dir (ce_world C) s, w_users (ce_world C) s)))
         (\<lambda>(now, dir, api). on_db (get_user_info E now dir api u)))) (\<lambda>user_info.
       icall (or_other (on_db (read_db (\<lambda>db. Inr (common_groups db (id_username identity) u,
         last_dm_message_summary db (id_username identity) u))))) (\<lambda>(groups, last_dm).
         idone (Inr \<lparr> de_username_of = u, de_display_name = Option.bind profile up_display_name,
           de_avatar = Option.bind profile up_avatar, de_server_name_of = Some (ui_server_name user_info),
           de_common_groups = groups, de_last_dm_message = last_dm \<rparr>)))))))"

section \<open>Registration\<close>

definition register_start ::
  "('s, 'srv) client_env \<Rightarrow> username \<Rightarrow> (client_db \<times> 's, register_start_info option) rpc_eff" where
  "register_start C u =
     icall (or_other (call (clock (w_dir (ce_world C))) (\<lambda>dir. done_with (dir u)))) (\<lambda>found.
       idone (Inr (map_option (\<lambda>d. \<lparr> rs_username = u, rs_server_name = ud_server_name d \<rparr>) found)))"

definition server_from_name :: "('s, 'srv) client_env \<Rightarrow> server_name \<Rightarrow> (client_db \<times> 's, server_name) rpc_eff" where
  "server_from_name C n =
     icall (or_other (call (clock (ce_server_descriptor C)) (\<lambda>lookup. done_with (lookup n)))) (\<lambda>found.
     icall (idone (ok_or (IOther ''server not found'') found)) (\<lambda>_. idone (Inr n)))"

definition register_medium_key ::
  "ext \<Rightarrow> ('s, 'srv) client_env \<Rightarrow> server_name \<Rightarrow> auth_token \<Rightarrow> device_secret \<Rightarrow> (client_db \<times> 's, dh_secret) rpc_eff" where
  "register_medium_key E C server auth device_secret =
     or_other (call (draw (w_rand_dh (ce_world C))) (\<lambda>medium_sk.
       call (clock (w_now_s (ce_world C))) (\<lambda>now.
       call (rpc (ce_add_medium_pk C server auth (signed_medium E device_secret medium_sk now))) (\<lambda>_.
         done_with (Inr medium_sk)))))"

definition persist_new ::
  "ext \<Rightarrow> username \<Rightarrow> server_name \<Rightarrow> device_secret \<Rightarrow> certificate_chain \<Rightarrow> dh_secret \<Rightarrow> (client_db \<times> 's, unit) rpc_eff" where
  "persist_new E u n ds ch sk =
     or_other (on_db (transact (\<lambda>db. and_then (persist_identity E db u n ds ch sk) (\<lambda>db. Inr ((), db)))))"

definition register_bootstrap ::
  "ext \<Rightarrow> ('s, 'srv) client_env \<Rightarrow> username \<Rightarrow> server_name \<Rightarrow> (client_db \<times> 's, unit) rpc_eff" where
  "register_bootstrap E C u server_name =
     icall (or_other (call (clock (w_dir (ce_world C))) (\<lambda>dir. done_with (dir u)))) (\<lambda>found.
     if found \<noteq> None then idone (Inl (IOther ''username already exists''))
     else
       icall (server_from_name C server_name) (\<lambda>server.
       icall (or_other (draw (ce_rand_device C))) (\<lambda>device_secret.
       let root_cert = self_signed E device_secret (2 ^ 64 - 1) True;
           cert_chain = \<lparr> chain_ancestors = [], chain_this = root_cert \<rparr>;
           user_descriptor = \<lparr> ud_server_name = server_name, ud_root_cert_hash = pk_hash E (cert_pk root_cert) \<rparr> in
       icall (or_other (on_net (ce_add_owner C u (signing_public_key E device_secret) device_secret))) (\<lambda>_.
       icall (or_other (on_net (ce_insert_descriptor C u user_descriptor device_secret))) (\<lambda>_.
       icall (or_other (rpc (ce_device_auth C server u cert_chain))) (\<lambda>auth.
       icall (register_medium_key E C server auth device_secret) (\<lambda>medium_sk.
         persist_new E u server_name device_secret cert_chain medium_sk)))))))"

definition register_add_device :: "ext \<Rightarrow> ('s, 'srv) client_env \<Rightarrow> bytes \<Rightarrow> (client_db \<times> 's, unit) rpc_eff" where
  "register_add_device E C bundle =
     icall (idone (ok_or (IOther ''decode error'') (bcs_from E ty_bundle (de_bundle E) bundle))) (\<lambda>b.
     icall (or_other (call (clock (\<lambda>s. (w_now_s (ce_world C) s, w_dir (ce_world C) s)))
       (\<lambda>(now, dir). done_with (and_then (dir (bi_username b)) (\<lambda>found. Inr (now, found)))))) (\<lambda>(now, found).
     icall (idone (ok_or (IOther ''username not found'') found)) (\<lambda>user_descriptor.
     icall (idone (map_err internal_err (chain_verify E now (bi_cert_chain b) (ud_root_cert_hash user_descriptor)))) (\<lambda>_.
     icall (server_from_name C (ud_server_name user_descriptor)) (\<lambda>server.
     icall (or_other (rpc (ce_device_auth C server (bi_username b) (bi_cert_chain b)))) (\<lambda>auth.
     icall (register_medium_key E C server auth (bi_device_secret b)) (\<lambda>medium_sk.
       persist_new E (bi_username b) (ud_server_name user_descriptor) (bi_device_secret b) (bi_cert_chain b) medium_sk)))))))"

definition register_finish :: "ext \<Rightarrow> ('s, 'srv) client_env \<Rightarrow> register_request \<Rightarrow> (client_db \<times> 's, unit) rpc_eff" where
  "register_finish E C request st =
     (if identity_exists (fst st) then (Inl INotReady, st)
      else
        (case request of
           BootstrapNewUser u server_name \<Rightarrow> register_bootstrap E C u server_name st
         | AddDevice bundle \<Rightarrow> register_add_device E C bundle st))"

definition new_device_bundle ::
  "ext \<Rightarrow> ('s, 'srv) client_env \<Rightarrow> bool \<Rightarrow> timestamp \<Rightarrow> (client_db \<times> 's, bytes) rpc_eff" where
  "new_device_bundle E C can_issue expiry =
     icall (or_other (on_db (read_db (load_identity E)))) (\<lambda>identity.
     let issuer_cert = last_device (id_cert_chain identity);
         issuer_can_issue = (cert_pk issuer_cert = signing_public_key E (id_device_secret identity) \<and> cert_can_issue issuer_cert) in
     if \<not> issuer_can_issue then idone (Inl IAccessDenied)
     else
       icall (or_other (draw (ce_rand_device C))) (\<lambda>new_secret.
       let cert = issue_certificate E (id_device_secret identity) (signing_public_key E new_secret) expiry can_issue;
           chain = \<lparr> chain_ancestors = chain_ancestors (id_cert_chain identity) @ [chain_this (id_cert_chain identity)],
                     chain_this = cert \<rparr>;
           bundle = \<lparr> bi_username = id_username identity, bi_device_secret = new_secret, bi_cert_chain = chain \<rparr> in
         idone (ok_or (IOther ''encode error'') (bcs_enc E (ser_bundle bundle)))))"

definition own_profile_set ::
  "ext \<Rightarrow> ('s, 'srv) client_env \<Rightarrow> string option \<Rightarrow> attachment option \<Rightarrow> (client_db \<times> 's, unit) rpc_eff" where
  "own_profile_set E C display_name avatar =
     when_registered (
       icall (or_other (on_db (read_db (load_identity E)))) (\<lambda>identity.
       icall (idone (ok_or (IOther ''server name not available'') (id_server_name identity))) (\<lambda>server_name.
       icall (server_from_name C server_name) (\<lambda>server.
       icall (or_other (clock (w_now_s (ce_world C)))) (\<lambda>created.
       let profile = up_sign E \<lparr> up_display_name = display_name, up_avatar = avatar, up_created = created,
             up_signature = zero_signature \<rparr> (id_device_secret identity) in
         or_other (rpc (ce_profile_set C server (id_username identity) profile)))))))"

section \<open>Lemmas\<close>

lemma serde_bundle:
  "username_wf (bi_username b) \<Longrightarrow> chain_wf E (bi_cert_chain b) \<Longrightarrow> de_bundle E (ser_bundle b) = Some b"
  "has_styp ty_bundle (ser_bundle b)" "map_free ty_bundle"
  by (simp_all add: ser_bundle_def ty_bundle_def)

text \<open>A chain whose leaf may issue, extended by a certificate that the leaf's key signs.\<close>

lemma issuer_mono: "pk \<in> issuer E root now cs \<Longrightarrow> set cs \<subseteq> set ds \<Longrightarrow> pk \<in> issuer E root now ds"
  by (induction rule: issuer.induct) (auto intro: issuer.intros)

lemma leaf_issues:
  assumes "chain_ok E now ch root" and "cert_can_issue (chain_this ch)"
  shows "cert_pk (chain_this ch) \<in> issuer E root now (chain_certs ch)"
proof (cases "is_root E root (chain_this ch)")
  case True
  with assms show ?thesis by (intro issuer.root) (auto simp: chain_ok_def Let_def chain_certs_def)
next
  case False
  have leaf: "chain_this ch \<in> set (chain_certs ch)" by (simp add: chain_certs_def)
  with False assms(1) obtain pk where "pk \<in> issuer E root now (chain_certs ch)" "signed_by E pk (chain_this ch)"
    by (auto simp: chain_ok_def Let_def)
  with False assms leaf show ?thesis by (intro issuer.issued) (auto simp: chain_ok_def Let_def)
qed

definition extend_chain :: "certificate_chain \<Rightarrow> device_certificate \<Rightarrow> certificate_chain" where
  "extend_chain ch c = \<lparr> chain_ancestors = chain_ancestors ch @ [chain_this ch], chain_this = c \<rparr>"

lemma extended_chain_ok:
  assumes "chain_ok E now ch root" and "cert_can_issue (chain_this ch)"
    and "signed_by E (cert_pk (chain_this ch)) c" and "fresh now c" and "\<not> is_root E root c"
  shows "chain_ok E now (extend_chain ch c) root"
proof -
  have certs: "chain_certs (extend_chain ch c) = chain_certs ch @ [c]"
    by (simp add: chain_certs_def extend_chain_def)
  have mono: "pk \<in> issuer E root now (chain_certs ch) \<Longrightarrow> pk \<in> issuer E root now (chain_certs ch @ [c])" for pk
    by (erule issuer_mono) auto
  have "\<exists>pk \<in> issuer E root now (chain_certs ch @ [c]). signed_by E pk c"
    using mono [OF leaf_issues [OF assms(1,2)]] assms(3) by blast
  moreover have "\<forall>d \<in> set (chain_certs ch). \<not> is_root E root d \<longrightarrow>
      (\<exists>pk \<in> issuer E root now (chain_certs ch @ [c]). signed_by E pk d)"
    using assms(1) mono by (fastforce simp: chain_ok_def Let_def)
  ultimately show ?thesis
    using assms(1,4,5) unfolding chain_ok_def Let_def certs by (auto simp: extend_chain_def)
qed

lemma self_signed_chain_ok:
  assumes "sig_law E" and "now < expiry"
  shows "chain_verify E now \<lparr> chain_ancestors = [], chain_this = self_signed E sk expiry True \<rparr>
    (pk_hash E (signing_public_key E sk)) = Inr ()"
  unfolding chain_verify_iff chain_ok_def
  using assms by (simp add: chain_certs_def is_root_def pk_hash_def fresh_def signed_by_issuer)

lemma on_db_transact [simp]:
  "on_db (transact f) (db, s) = (case f db of Inl e \<Rightarrow> (Inl e, db, s) | Inr (x, db') \<Rightarrow> (Inr x, db', s))"
  by (simp add: on_db_def transact_def split: sum.split prod.split)

lemma persist_new_Inr:
  assumes "bcs_law E" and "persist_new E u n ds ch sk (db, s) = (Inr x, db', s')"
    and "username_wf u" and "server_name_wf n" and "chain_wf E ch"
  shows "load_identity E db' = Inr \<lparr> id_username = u, id_server_name = Some n, id_device_secret = ds,
    id_cert_chain = ch, id_medium_sk_current = sk, id_medium_sk_prev = sk \<rparr>"
  using load_persisted [OF assms(1) _ assms(3-5)] assms(2)
  by (auto simp: persist_new_def and_then_def split: sum.splits)

text \<open>The key that was registered for a device.\<close>

definition key_published :: "ext \<Rightarrow> ('s, 'srv) client_env \<Rightarrow> server_name \<Rightarrow> device_secret \<Rightarrow> dh_secret \<Rightarrow> bool" where
  "key_published E C n ds sk \<longleftrightarrow> (\<exists>auth now s1 s2. ce_add_medium_pk C n auth (signed_medium E ds sk now) s1 = (Inr (Inr ()), s2))"

lemma rpc_Inr: "rpc m (db, s) = (Inr x, st') \<longleftrightarrow> (\<exists>s'. m s = (Inr (Inr x), s') \<and> st' = (db, s'))"
  by (auto simp: rpc_def call_def on_net_def split: prod.splits sum.splits)

lemma register_medium_key_Inr:
  assumes "register_medium_key E C n auth ds (db, s) = (Inr sk, st')"
  shows "key_published E C n ds sk \<and> fst st' = db"
  using assms by (auto simp: register_medium_key_def call_Inr draw_def clock_def rpc_Inr key_published_def
      split: prod.splits)

lemma sys_steps:
  "call (clock g) k st = k (g (snd st)) st"
  "on_net m (db, s) = (Inr x, st') \<longleftrightarrow> (\<exists>s'. m s = (Inr x, s') \<and> st' = (db, s'))"
  "draw f (db, s) = (Inr y, st') \<longleftrightarrow> (\<exists>s'. f s = (y, s') \<and> st' = (db, s'))"
  by (auto simp: on_net_def draw_def clock_def call_def split: prod.splits)

lemma server_from_name_Inr:
  "server_from_name C n (db, s) = (Inr x, st') \<longleftrightarrow> x = n \<and> st' = (db, s) \<and> (\<exists>d. ce_server_descriptor C s n = Inr (Some d))"
  by (auto simp: server_from_name_def icall_Inr sys_steps)

lemma register_bootstrap_Inr:
  assumes "register_bootstrap E C u n (db, s) = (Inr x, db', s')"
  obtains ds sk s1 s2 s3 where
    "persist_new E u n ds \<lparr> chain_ancestors = [], chain_this = self_signed E ds (2 ^ 64 - 1) True \<rparr> sk (db, s1) = (Inr x, db', s')"
    and "ce_insert_descriptor C u \<lparr> ud_server_name = n, ud_root_cert_hash = pk_hash E (signing_public_key E ds) \<rparr> ds s2 = (Inr (), s3)"
    and "key_published E C n ds sk"
proof -
  from assms obtain ds sk auth s2 s3 s4 st5 where
    ins: "ce_insert_descriptor C u \<lparr> ud_server_name = n, ud_root_cert_hash = pk_hash E (signing_public_key E ds) \<rparr> ds s2 = (Inr (), s3)"
    and med: "register_medium_key E C n auth ds (db, s4) = (Inr sk, st5)"
    and per: "persist_new E u n ds \<lparr> chain_ancestors = [], chain_this = self_signed E ds (2 ^ 64 - 1) True \<rparr> sk st5 = (Inr x, db', s')"
    by (auto simp: register_bootstrap_def icall_Inr sys_steps server_from_name_Inr rpc_Inr Let_def split: if_splits)
  from register_medium_key_Inr [OF med] obtain s5 where "st5 = (db, s5)" "key_published E C n ds sk" by (cases st5) auto
  with ins per that show thesis by blast
qed

lemma register_add_device_Inr:
  assumes "register_add_device E C bytes (db, s) = (Inr x, db', s')"
  obtains b d now s1 sk where
    "bcs_from E ty_bundle (de_bundle E) bytes = Some b" and "w_dir (ce_world C) s (bi_username b) = Inr (Some d)"
    and "chain_verify E now (bi_cert_chain b) (ud_root_cert_hash d) = Inr ()"
    and "persist_new E (bi_username b) (ud_server_name d) (bi_device_secret b) (bi_cert_chain b) sk (db, s1) = (Inr x, db', s')"
    and "key_published E C (ud_server_name d) (bi_device_secret b) sk"
proof -
  from assms obtain b d auth sk s4 st5 where
    dec: "bcs_from E ty_bundle (de_bundle E) bytes = Some b" and dir: "w_dir (ce_world C) s (bi_username b) = Inr (Some d)"
    and ver: "chain_verify E (w_now_s (ce_world C) s) (bi_cert_chain b) (ud_root_cert_hash d) = Inr ()"
    and med: "register_medium_key E C (ud_server_name d) auth (bi_device_secret b) (db, s4) = (Inr sk, st5)"
    and per: "persist_new E (bi_username b) (ud_server_name d) (bi_device_secret b) (bi_cert_chain b) sk st5 = (Inr x, db', s')"
    by (auto simp: register_add_device_def icall_Inr sys_steps server_from_name_Inr rpc_Inr ok_or_Inr)
  from register_medium_key_Inr [OF med] obtain s5 where "st5 = (db, s5)"
    "key_published E C (ud_server_name d) (bi_device_secret b) sk" by (cases st5) auto
  with dec dir ver per that show thesis by blast
qed

lemma de_bundle_wf:
  assumes "bcs_from E ty_bundle (de_bundle E) bytes = Some b"
  shows "username_wf (bi_username b) \<and> chain_wf E (bi_cert_chain b)"
proof -
  from assms obtain v where "de_bundle E v = Some b" by (auto simp: bcs_from_def bind_eq_Some_conv)
  then show ?thesis
    by (cases "(E, v)" rule: de_bundle.cases) (auto split: option.splits dest: de_username_wf de_chain_wf)
qed

text \<open>What a stored message shows as, independently of the database.\<close>

definition shown_content :: "ext \<Rightarrow> message_row \<Rightarrow> message_content option" where
  "shown_content E m =
     (if cm_mime m = ''text/plain'' \<or> cm_mime m = ''text/markdown'' then Some (PlainText (bytes_str (utf8_lossy (cm_body m))))
      else if cm_mime m = group_invite_mime then Some (GroupInviteContent (cm_id m))
      else if cm_mime m = attachment_mime then
        (case json_from E (ty_attachment TStr TStr) (dej_attachment E) (cm_body m) of
           None \<Rightarrow> None
         | Some root \<Rightarrow>
             map_option (\<lambda>_. AttachmentContent (bcs_hash E (ser_attachment ser_hash ser_aead_key root))
                 (attachment_total_size root) (att_mime root) (att_filename root))
               (bcs_enc E (ser_attachment ser_hash ser_aead_key root)))
      else Some (PlainText ''Unsupported message''))"

lemma decode_content:
  "result_ok (fst (decode_message_content E (cm_id m) sender (cm_mime m) (cm_body m) db)) = shown_content E m"
proof (cases "json_from E (ty_attachment TStr TStr) (dej_attachment E) (cm_body m)")
  case None
  then show ?thesis by (simp add: decode_message_content_def shown_content_def)
next
  case (Some root)
  obtain db' where "store_attachment_root E sender root db =
      (case bcs_enc E (ser_attachment ser_hash ser_aead_key root) of None \<Rightarrow> Inl ''encode error''
       | Some b \<Rightarrow> Inr (bcs_hash E (ser_attachment ser_hash ser_aead_key root), db'))"
    by (cases "bcs_enc E (ser_attachment ser_hash ser_aead_key root)") (simp_all add: store_attachment_root_def Let_def)
  with Some show ?thesis
    by (simp add: decode_message_content_def shown_content_def call_def transact_def split: option.split)
qed

definition shown_message :: "ext \<Rightarrow> convo_id \<Rightarrow> message_row \<Rightarrow> convo_message option" where
  "shown_message E convo m =
     Option.bind (result_ok (username_parse (cm_sender_username m))) (\<lambda>sender.
       map_option (row_message convo m sender) (shown_content E m))"

lemma decode_row_result:
  assumes "username_parse (cm_sender_username m) = Inr sender"
  shows "\<exists>db'. decode_row E convo m db = (Inr (shown_message E convo m), db')"
proof -
  obtain r db' where run: "decode_message_content E (cm_id m) sender (cm_mime m) (cm_body m) db = (r, db')" by fastforce
  with decode_content [of E m sender db] have "result_ok r = shown_content E m" by simp
  with run assms show ?thesis by (simp add: decode_row_def shown_message_def call_def attempt_def)
qed

definition sender_parses :: "message_row \<Rightarrow> bool" where
  "sender_parses m \<longleftrightarrow> is_ok (username_parse (cm_sender_username m))"

lemma history_rows_result:
  "\<forall>m \<in> set rows. sender_parses m \<Longrightarrow>
     \<exists>db'. history_rows E convo rows db = (Inr (List.map_filter (shown_message E convo) rows), db')"
proof (induction rows arbitrary: db)
  case (Cons m rows)
  then obtain u where "username_parse (cm_sender_username m) = Inr u" by (auto simp: sender_parses_def is_ok_iff)
  from decode_row_result [OF this] obtain db1 where "decode_row E convo m db = (Inr (shown_message E convo m), db1)" by blast
  moreover obtain db2 where "history_rows E convo rows db1 = (Inr (List.map_filter (shown_message E convo) rows), db2)"
    using Cons by auto
  ultimately show ?case
    by (auto simp: call_eq List.map_filter_def split: option.split)
qed (simp add: List.map_filter_def)

text \<open>The page a history query selects: the newest \<open>limit\<close> rows that are wanted.\<close>

definition wanted :: "ext \<Rightarrow> client_db \<Rightarrow> convo_id \<Rightarrow> int \<Rightarrow> int \<Rightarrow> message_row \<Rightarrow> bool" where
  "wanted E db convo before after m \<longleftrightarrow>
     in_convo db (convo_type convo) (convo_counterparty E convo) m \<and> cm_id m \<le> before \<and> after \<le> cm_id m"

lemma strict_sort_key:
  assumes "t_unique key t"
  shows "sorted_wrt (\<lambda>x y. key x < key y) (sort_key key (filter P t))"
proof -
  have "inj_on key (set t)" and "distinct t"
    using assms by (auto simp: t_unique_def distinct_map)
  then have "distinct (map key (sort_key key (filter P t)))"
    by (auto simp: distinct_map intro: inj_on_subset)
  then have "sorted_wrt (<) (map key (sort_key key (filter P t)))" by (simp add: strict_sorted_iff)
  then show ?thesis by (simp add: sorted_wrt_map)
qed

lemma history_query_eq:
  "history_query E db convo before after limit =
     (let L = sort_key cm_id (filter (wanted E db convo before after) (c_messages db)) in drop (length L - limit) L)"
proof -
  have "(\<lambda>m. in_convo db (convo_type convo) (convo_counterparty E convo) m \<and> cm_id m \<le> before \<and> after \<le> cm_id m) =
      wanted E db convo before after"
    by (simp add: wanted_def fun_eq_iff)
  then show ?thesis by (simp add: history_query_def rev_take Let_def)
qed

lemma history_query_page:
  fixes E db convo before after limit
  defines "Q \<equiv> history_query E db convo before after limit"
  assumes uniq: "t_unique cm_id (c_messages db)"
  shows "sorted_wrt (\<lambda>x y. cm_id x < cm_id y) Q" and "length Q \<le> limit"
    and "set Q \<subseteq> {r \<in> set (c_messages db). wanted E db convo before after r}"
    and "\<lbrakk>r \<in> set (c_messages db); wanted E db convo before after r; r \<notin> set Q\<rbrakk> \<Longrightarrow>
      limit \<le> card {r' \<in> set Q. cm_id r < cm_id r'}"
proof -
  let ?L = "sort_key cm_id (filter (wanted E db convo before after) (c_messages db))"
  have L: "sorted_wrt (\<lambda>x y. cm_id x < cm_id y) ?L" by (rule strict_sort_key [OF uniq])
  have Q: "Q = drop (length ?L - limit) ?L" by (simp add: Q_def history_query_eq Let_def)
  show sorted: "sorted_wrt (\<lambda>x y. cm_id x < cm_id y) Q" unfolding Q by (rule sorted_wrt_drop [OF L])
  show "length Q \<le> limit" by (simp add: Q)
  show "set Q \<subseteq> {r \<in> set (c_messages db). wanted E db convo before after r}"
    unfolding Q using set_drop_subset [of _ ?L] by fastforce
  assume r: "r \<in> set (c_messages db)" "wanted E db convo before after r" "r \<notin> set Q"
  then have "r \<in> set ?L" by simp
  with r(3) have front: "r \<in> set (take (length ?L - limit) ?L)"
    unfolding Q by (metis Un_iff append_take_drop_id set_append)
  then have "length Q = limit" by (cases "limit \<le> length ?L") (auto simp: Q)
  have "\<forall>r' \<in> set Q. cm_id r < cm_id r'"
    using L front unfolding Q by (metis append_take_drop_id sorted_wrt_append)
  then have "{r' \<in> set Q. cm_id r < cm_id r'} = set Q" by auto
  moreover have "distinct Q"
    using sorted strict_sorted_iff [of "map cm_id Q"] by (auto simp: sorted_wrt_map distinct_map)
  ultimately show "limit \<le> card {r' \<in> set Q. cm_id r < cm_id r'}"
    using \<open>length Q = limit\<close> by (simp add: distinct_card)
qed

lemma shown_message_id: "shown_message E convo r = Some x \<Longrightarrow> ms_id x = cm_id r"
  by (auto simp: shown_message_def bind_eq_Some_conv row_message_def)

lemma sorted_map_filter:
  "sorted_wrt R xs \<Longrightarrow> (\<And>x y a b. R x y \<Longrightarrow> f x = Some a \<Longrightarrow> f y = Some b \<Longrightarrow> S a b) \<Longrightarrow> sorted_wrt S (List.map_filter f xs)"
  by (induction xs) (auto simp: List.map_filter_def)

lemma set_map_filter_iff: "y \<in> set (List.map_filter f xs) \<longleftrightarrow> (\<exists>x \<in> set xs. f x = Some y)"
  by (induction xs) (auto simp: List.map_filter_def)

lemma length_map_filter: "length (List.map_filter f xs) \<le> length xs"
  by (simp add: List.map_filter_def)

lemma load_identity_wf:
  assumes "load_identity E db = Inr i"
  shows "username_wf (id_username i) \<and> chain_wf E (id_cert_chain i)"
proof -
  have "\<exists>row :: identity_row. username_parse (ir_username row) = Inr (id_username i) \<and>
      bcs_from E ty_chain (de_chain E) (ir_cert_chain row) = Some (id_cert_chain i)"
    by (rule exI [of _ "the (c_identity db)"]) (use assms in \<open>auto simp: load_identity_def\<close>)
  then show ?thesis by (auto simp: bcs_from_def bind_eq_Some_conv dest: username_parse_wf de_chain_wf)
qed

text \<open>The directory lists \<open>d\<close> for the user, or accepted it from the device.\<close>

definition descriptor_backed :: "('s, 'srv) client_env \<Rightarrow> username \<Rightarrow> user_descriptor \<Rightarrow> device_secret \<Rightarrow> bool" where
  "descriptor_backed C u d ds \<longleftrightarrow>
     (\<exists>s. w_dir (ce_world C) s u = Inr (Some d)) \<or> (\<exists>s1 s2. ce_insert_descriptor C u d ds s1 = (Inr (), s2))"

section \<open>Properties\<close>

text \<open>C22: a device that finished registering (as a new user or by a bundle) has an identity that loads,
  and there was none before; its certificate chain verifies under the root key hash that the directory
  lists for the name, or that this device published for it; and the medium-term key it will decrypt
  with is the one, signed by the device, that the user's server accepted.\<close>

theorem registration_sound:
  assumes "bcs_law E" and "sig_law E"
    and "register_finish E C request (db, s) = (Inr (), db', s')"
    and "\<forall>s u d. w_dir (ce_world C) s u = Inr (Some d) \<longrightarrow> server_name_wf (ud_server_name d)"
    and "\<forall>u n. request = BootstrapNewUser u n \<longrightarrow> username_wf u \<and> server_name_wf n"
  shows "\<not> identity_exists db \<and> (\<exists>i d now. load_identity E db' = Inr i \<and> id_server_name i = Some (ud_server_name d) \<and>
    chain_verify E now (id_cert_chain i) (ud_root_cert_hash d) = Inr () \<and>
    descriptor_backed C (id_username i) d (id_device_secret i) \<and>
    id_medium_sk_prev i = id_medium_sk_current i \<and>
    key_published E C (ud_server_name d) (id_device_secret i) (id_medium_sk_current i))"
proof -
  have fresh: "\<not> identity_exists db" using assms(3) by (auto simp: register_finish_def split: if_splits)
  show ?thesis
  proof (cases request)
    case (BootstrapNewUser u n)
    with assms(3) fresh have "register_bootstrap E C u n (db, s) = (Inr (), db', s')" by (simp add: register_finish_def)
    then obtain ds sk s1 s2 s3 where per: "persist_new E u n ds \<lparr> chain_ancestors = [],
        chain_this = self_signed E ds (2 ^ 64 - 1) True \<rparr> sk (db, s1) = (Inr (), db', s')"
      and dir: "ce_insert_descriptor C u \<lparr> ud_server_name = n, ud_root_cert_hash = pk_hash E (signing_public_key E ds) \<rparr> ds s2 = (Inr (), s3)"
      and key: "key_published E C n ds sk"
      by (rule register_bootstrap_Inr)
    let ?ch = "\<lparr> chain_ancestors = [], chain_this = self_signed E ds (2 ^ 64 - 1) True \<rparr>"
    let ?d = "\<lparr> ud_server_name = n, ud_root_cert_hash = pk_hash E (signing_public_key E ds) \<rparr>"
    have "chain_wf E ?ch" using assms(2) by (simp add: chain_wf_def chain_certs_def)
    with persist_new_Inr [OF assms(1) per] assms(5) BootstrapNewUser
    have load: "load_identity E db' = Inr \<lparr> id_username = u, id_server_name = Some n, id_device_secret = ds,
        id_cert_chain = ?ch, id_medium_sk_current = sk, id_medium_sk_prev = sk \<rparr>" (is "_ = Inr ?i") by simp
    have "chain_verify E 0 (id_cert_chain ?i) (ud_root_cert_hash ?d) = Inr ()"
      using self_signed_chain_ok [OF assms(2), of 0 "2 ^ 64 - 1" ds] by simp
    moreover have "descriptor_backed C (id_username ?i) ?d (id_device_secret ?i)"
      using dir by (auto simp: descriptor_backed_def)
    ultimately show ?thesis
      using fresh load key by (intro conjI exI [of _ ?i] exI [of _ ?d] exI [of _ 0]) simp_all
  next
    case (AddDevice bytes)
    with assms(3) fresh have "register_add_device E C bytes (db, s) = (Inr (), db', s')" by (simp add: register_finish_def)
    then obtain b d now s1 sk where dec: "bcs_from E ty_bundle (de_bundle E) bytes = Some b"
      and dir: "w_dir (ce_world C) s (bi_username b) = Inr (Some d)"
      and ver: "chain_verify E now (bi_cert_chain b) (ud_root_cert_hash d) = Inr ()"
      and per: "persist_new E (bi_username b) (ud_server_name d) (bi_device_secret b) (bi_cert_chain b) sk (db, s1) = (Inr (), db', s')"
      and key: "key_published E C (ud_server_name d) (bi_device_secret b) sk"
      by (rule register_add_device_Inr)
    have "descriptor_backed C (bi_username b) d (bi_device_secret b)"
      using dir by (auto simp: descriptor_backed_def)
    with persist_new_Inr [OF assms(1) per] de_bundle_wf [OF dec] assms(4) dir ver key fresh show ?thesis
      by (intro conjI exI [of _ "\<lparr> id_username = bi_username b, id_server_name = Some (ud_server_name d),
        id_device_secret = bi_device_secret b, id_cert_chain = bi_cert_chain b, id_medium_sk_current = sk,
        id_medium_sk_prev = sk \<rparr>"] exI [of _ d] exI [of _ now]) simp_all
  qed
qed

definition demo_reg_env :: "(unit, unit) client_env" where
  "demo_reg_env = demo_env \<lparr> ce_world := demo_world \<lparr> w_dir := \<lambda>s u. Inr None \<rparr>,
     ce_add_medium_pk := \<lambda>n a k s. (Inr (Inr ()), s) \<rparr>"

lemma demo_registers:
  "\<exists>db. register_finish demo_ext demo_reg_env (BootstrapNewUser (UserName ''@carol'') (ServerName ''~serv_01''))
     (empty_client_db, ()) = (Inr (), db, ())"
proof -
  let ?p = "persist_identity demo_ext empty_client_db (UserName ''@carol'') (ServerName ''~serv_01'') (SigningSecret 8)
     \<lparr> chain_ancestors = [], chain_this = self_signed demo_ext (SigningSecret 8) 18446744073709551615 True \<rparr> (DhSecret 3)"
  have "is_ok ?p" by code_simp
  then obtain db where db: "?p = Inr db" by (auto simp: is_ok_iff)
  have none: "\<not> identity_exists empty_client_db" by (simp add: identity_exists_def empty_client_db_def)
  have "register_bootstrap demo_ext demo_reg_env (UserName ''@carol'') (ServerName ''~serv_01'') (empty_client_db, ()) = (Inr (), db, ())"
    unfolding register_bootstrap_def server_from_name_def register_medium_key_def persist_new_def
    by (simp add: icall_def or_other_def clock_def on_net_def draw_def rpc_def call_def demo_reg_env_def demo_env_def
        demo_world_def Let_def db)
  then show ?thesis using none by (simp add: register_finish_def)
qed

theorem registration_sound_witness:
  "\<exists>db i n. register_finish demo_ext demo_reg_env (BootstrapNewUser (UserName ''@carol'') (ServerName ''~serv_01''))
     (empty_client_db, ()) = (Inr (), db, ()) \<and> load_identity demo_ext db = Inr i \<and> id_server_name i = Some n"
proof -
  obtain db where run: "register_finish demo_ext demo_reg_env (BootstrapNewUser (UserName ''@carol'') (ServerName ''~serv_01''))
     (empty_client_db, ()) = (Inr (), db, ())" using demo_registers by blast
  have wf: "username_wf (UserName ''@carol'')" "server_name_wf (ServerName ''~serv_01'')" by code_simp+
  have dir: "\<forall>s u d. w_dir (ce_world demo_reg_env) s u = Inr (Some d) \<longrightarrow> server_name_wf (ud_server_name d)"
    by (simp add: demo_reg_env_def)
  have "\<forall>u n. BootstrapNewUser (UserName ''@carol'') (ServerName ''~serv_01'') = BootstrapNewUser u n \<longrightarrow>
      username_wf u \<and> server_name_wf n"
    using wf by simp
  from registration_sound [OF demo_laws(1,5) run dir this] obtain i and d :: user_descriptor where "load_identity demo_ext db = Inr i"
    "id_server_name i = Some (ud_server_name d)" by blast
  with run show ?thesis by blast
qed


lemma demo_issuer:
  "\<exists>db i. load_identity demo_ext db = Inr i \<and> id_username i = UserName ''@carol'' \<and> id_device_secret i = SigningSecret 5 \<and>
     id_cert_chain i = \<lparr> chain_ancestors = [], chain_this = self_signed demo_ext (SigningSecret 5) 200 True \<rparr>"
proof -
  let ?ch = "\<lparr> chain_ancestors = [], chain_this = self_signed demo_ext (SigningSecret 5) 200 True \<rparr>"
  let ?p = "persist_identity demo_ext empty_client_db (UserName ''@carol'') (ServerName ''~serv_01'') (SigningSecret 5) ?ch (DhSecret 3)"
  have "is_ok ?p" by code_simp
  then obtain db where db: "?p = Inr db" by (auto simp: is_ok_iff)
  have "username_wf (UserName ''@carol'')" "server_name_wf (ServerName ''~serv_01'')" "chain_wf demo_ext ?ch"
    by code_simp+
  from load_persisted [OF demo_laws(1) db this]
  have "load_identity demo_ext db = Inr \<lparr> id_username = UserName ''@carol'', id_server_name = Some (ServerName ''~serv_01''),
    id_device_secret = SigningSecret 5, id_cert_chain = ?ch, id_medium_sk_current = DhSecret 3, id_medium_sk_prev = DhSecret 3 \<rparr>"
    (is "_ = Inr ?i") .
  then show ?thesis by (intro exI [of _ db] exI [of _ ?i]) simp
qed


text \<open>a page of a conversation's history never fails while the stored senders parse; it is in
  ascending order, at most \<open>limit\<close> long, holds only messages of that conversation within the bounds,
  and omits a message that can be shown only when \<open>limit\<close> newer ones were selected.\<close>

theorem history_page:
  assumes "t_unique cm_id (c_messages db)" and "\<forall>m \<in> set (c_messages db). sender_parses m"
  shows "\<exists>page db'. convo_history E convo (Some before) (Some after) limit db = (Inr page, db') \<and>
    sorted_wrt (\<lambda>x y. ms_id x < ms_id y) page \<and> length page \<le> unat limit \<and>
    (\<forall>x \<in> set page. \<exists>r \<in> set (c_messages db). wanted E db convo before after r \<and> shown_message E convo r = Some x) \<and>
    (\<forall>r \<in> set (c_messages db). wanted E db convo before after r \<and> shown_content E r \<noteq> None \<longrightarrow>
       shown_message E convo r \<in> Some ` set page \<or>
       unat limit \<le> card {r' \<in> set (c_messages db). wanted E db convo before after r' \<and> cm_id r < cm_id r'})"
proof -
  let ?Q = "history_query E db convo before after (unat limit)"
  note page = history_query_page [OF assms(1), where E = E and convo = convo and before = before and after = after
    and limit = "unat limit"]
  have parses: "\<forall>m \<in> set ?Q. sender_parses m" using page(3) assms(2) by blast
  let ?P = "List.map_filter (shown_message E convo) ?Q"
  obtain db' where "history_rows E convo ?Q db = (Inr ?P, db')"
    using history_rows_result [OF parses, where E = E and convo = convo and db = db] by blast
  then have run: "convo_history E convo (Some before) (Some after) limit db = (Inr ?P, db')"
    by (simp add: convo_history_def)
  have sorted: "sorted_wrt (\<lambda>x y. ms_id x < ms_id y) ?P"
    using page(1) by (rule sorted_map_filter) (auto simp: shown_message_id)
  have len: "length ?P \<le> unat limit" using page(2) length_map_filter le_trans by blast
  have origin: "\<forall>x \<in> set ?P. \<exists>r \<in> set (c_messages db). wanted E db convo before after r \<and> shown_message E convo r = Some x"
  proof
    fix x
    assume "x \<in> set ?P"
    then obtain r where "r \<in> set ?Q" "shown_message E convo r = Some x" by (auto simp: set_map_filter_iff)
    with page(3) show "\<exists>r \<in> set (c_messages db). wanted E db convo before after r \<and> shown_message E convo r = Some x"
      by blast
  qed
  have all: "shown_message E convo r \<in> Some ` set ?P \<or>
      unat limit \<le> card {r' \<in> set (c_messages db). wanted E db convo before after r' \<and> cm_id r < cm_id r'}"
    if r: "r \<in> set (c_messages db)" "wanted E db convo before after r" "shown_content E r \<noteq> None" for r
  proof (cases "r \<in> set ?Q")
    case True
    from r(1) assms(2) have "sender_parses r" by blast
    with r(3) obtain x where "shown_message E convo r = Some x"
      by (auto simp: shown_message_def sender_parses_def is_ok_iff)
    with True have "x \<in> set ?P" by (auto simp: set_map_filter_iff)
    with \<open>shown_message E convo r = Some x\<close> show ?thesis by simp
  next
    case False
    have "{r' \<in> set ?Q. cm_id r < cm_id r'} \<subseteq> {r' \<in> set (c_messages db). wanted E db convo before after r' \<and> cm_id r < cm_id r'}"
      using page(3) by blast
    then have "card {r' \<in> set ?Q. cm_id r < cm_id r'} \<le> card {r' \<in> set (c_messages db). wanted E db convo before after r' \<and> cm_id r < cm_id r'}"
      by (intro card_mono) auto
    with page(4) [OF r(1,2) False] show ?thesis by simp
  qed
  show ?thesis
    by (intro exI [of _ ?P] exI [of _ db'] conjI run sorted len origin) (use all in blast)
qed

theorem history_page_witness:
  "\<exists>page db'. convo_history demo_ext (Direct (UserName ''@bobby'')) (Some 5) (Some 0) 1 demo_queue = (Inr page, db') \<and>
     shown_message demo_ext (Direct (UserName ''@bobby'')) (hd (c_messages demo_queue)) \<in> Some ` set page"
proof -
  have uniq: "t_unique cm_id (c_messages demo_queue)" by (simp add: demo_queue_def t_unique_def)
  have "is_ok (username_parse ''@alice'')" by code_simp
  then have parses: "\<forall>m \<in> set (c_messages demo_queue). sender_parses m" by (simp add: demo_queue_def sender_parses_def)
  let ?c = "Direct (UserName ''@bobby'')" and ?r = "hd (c_messages demo_queue)"
  let ?newer = "{r' \<in> set (c_messages demo_queue). wanted demo_ext demo_queue ?c 5 0 r' \<and> cm_id ?r < cm_id r'}"
  have r: "?r \<in> set (c_messages demo_queue)" "cm_id ?r = 1" "shown_content demo_ext ?r \<noteq> None"
    by (simp_all add: demo_queue_def shown_content_def)
  have "wanted demo_ext demo_queue ?c 5 0 ?r" by (simp add: demo_queue_def wanted_def in_convo_def)
  moreover have "\<forall>r' \<in> set (c_messages demo_queue). cm_id r' = 1" by (simp add: demo_queue_def)
  then have "?newer = {}" using r(2) by auto
  then have "\<not> unat (1 :: 16 word) \<le> card ?newer" by (simp only: card.empty) simp
  ultimately show ?thesis
    using history_page [OF uniq parses, where E = demo_ext and convo = ?c and before = 5 and after = 0 and limit = 1] r(1,3)
    by blast
qed

end
