(* ===== verification/LongPoll.thy ===== *)
theory LongPoll
  imports Mailbox "HOL-Library.Multiset"
begin

text \<open>
  The client's long poller (\<open>nullspace-client/src/long_poll.rs\<close>): one worker per server
  gathers the outstanding requests of the receive loops into one \<open>v1_mailbox_multirecv\<close> call,
  hands each request the first message newer than it asked for, and adapts the poll's time-out by
  additive increase and multiplicative decrease. A oneshot channel is a number; the replies sent are
  returned as a list. A \<open>HashMap\<close> is the list of its entries in order of insertion; the order
  in which the source iterates over it is unspecified, and nothing below depends on it.
\<close>

section \<open>The time-out\<close>

definition LONG_POLL_MIN_MS :: u64 where "LONG_POLL_MIN_MS = 15000"
definition LONG_POLL_MAX_MS :: u64 where "LONG_POLL_MAX_MS = 30 * 60 * 1000"
definition LONG_POLL_INC_MS :: u64 where "LONG_POLL_INC_MS = 5000"

definition clamp64 :: "u64 \<Rightarrow> u64 \<Rightarrow> u64 \<Rightarrow> u64" where
  "clamp64 lo hi x = (if x < lo then lo else if hi < x then hi else x)"

definition aimd_increase :: "u64 \<Rightarrow> u64" where
  "aimd_increase current = clamp64 LONG_POLL_MIN_MS LONG_POLL_MAX_MS (sat_add64 current LONG_POLL_INC_MS)"

text \<open>\<open>(current as f64 * 0.5) as u64\<close>: below \<open>2\<^sup>5\<^sup>3\<close> the conversion is exact and
  the result is the half rounded down; above, both are clamped to the maximum.\<close>

definition aimd_decrease :: "u64 \<Rightarrow> u64" where
  "aimd_decrease current = clamp64 LONG_POLL_MIN_MS LONG_POLL_MAX_MS (current div 2)"

section \<open>Requests and the poll they make\<close>

record poll_request =
  pq_auth :: auth_token
  pq_mailbox :: mailbox_id
  pq_after :: nano_timestamp
  pq_respond_to :: nat

type_synonym poll_slot = "mailbox_id \<times> auth_token"

type_synonym poll_response = "anyhow + (server_rpc_error + (mailbox_id, mailbox_entry list) btree)"

type_synonym poll_reply = "nat \<times> (anyhow + mailbox_entry)"

text \<open>\<open>map.entry(key).and_modify(f).or_insert(v)\<close>.\<close>

fun hm_entry :: "'k \<Rightarrow> ('v \<Rightarrow> 'v) \<Rightarrow> 'v \<Rightarrow> ('k \<times> 'v) list \<Rightarrow> ('k \<times> 'v) list" where
  "hm_entry k f v [] = [(k, v)]"
| "hm_entry k f v ((k', v') # m) = (if k' = k then (k, f v') # m else (k', v') # hm_entry k f v m)"

definition poll_key :: "poll_request \<Rightarrow> poll_slot" where
  "poll_key req = (pq_mailbox req, pq_auth req)"

fun build_args_loop ::
  "nat \<Rightarrow> poll_request list \<Rightarrow> (poll_slot \<times> nano_timestamp) list \<Rightarrow> (poll_slot \<times> nat list) list
    \<Rightarrow> (poll_slot \<times> nano_timestamp) list \<times> (poll_slot \<times> nat list) list" where
  "build_args_loop idx [] min_after indices = (min_after, indices)"
| "build_args_loop idx (req # pending) min_after indices =
     (let key = poll_key req in
      build_args_loop (idx + 1) pending
        (hm_entry key (\<lambda>existing. if pq_after req < existing then pq_after req else existing) (pq_after req) min_after)
        (hm_entry key (\<lambda>is. is @ [idx]) [idx] indices))"

definition build_args :: "poll_request list \<Rightarrow> mailbox_recv_args list \<times> (poll_slot \<times> nat list) list" where
  "build_args pending =
     (let (min_after, indices) = build_args_loop 0 pending [] [] in
      (map (\<lambda>((mailbox, auth), after). \<lparr> mra_auth = auth, mra_mailbox = mailbox, mra_after = after \<rparr>) min_after,
       indices))"

fun deliver ::
  "(mailbox_id, mailbox_entry list) btree \<Rightarrow> (poll_slot \<times> nat list) list \<Rightarrow> nat \<Rightarrow> poll_request list
    \<Rightarrow> poll_request list \<times> poll_reply list" where
  "deliver response mailbox_keys idx [] = ([], [])"
| "deliver response mailbox_keys idx (request # pending) =
     (let (still_pending, replies) = deliver response mailbox_keys (idx + 1) pending in
      case map_of mailbox_keys (poll_key request) of
        None \<Rightarrow> (request # still_pending, replies)
      | Some indices \<Rightarrow>
          if idx \<notin> set indices then (request # still_pending, replies)
          else (case map_of response (pq_mailbox request) of
              None \<Rightarrow> (request # still_pending, replies)
            | Some entries \<Rightarrow>
                (case find (\<lambda>entry. pq_after request < mbe_received_at entry) entries of
                   Some entry \<Rightarrow> (still_pending, (pq_respond_to request, Inr entry) # replies)
                 | None \<Rightarrow> (request # still_pending, replies))))"

definition username_poll_response ::
  "poll_response \<Rightarrow> (poll_slot \<times> nat list) list \<Rightarrow> poll_request list
    \<Rightarrow> (anyhow + unit) \<times> poll_request list \<times> poll_reply list" where
  "username_poll_response response mailbox_keys pending =
     (case response of
        Inl err \<Rightarrow> (Inl err, pending, [])
      | Inr (Inl err) \<Rightarrow>
          (Inr (), [], map (\<lambda>request. (pq_respond_to request, Inl (rpc_error_display err))) pending)
      | Inr (Inr response) \<Rightarrow>
          if response = [] then (Inr (), pending, [])
          else (let (still_pending, replies) = deliver response mailbox_keys 0 pending
                in (Inr (), still_pending, replies)))"

section \<open>The worker\<close>

datatype worker_event = NewRequest poll_request | PollResponse poll_response | Shutdown

record worker =
  lw_pending :: "poll_request list"
  lw_timeout :: u64
  lw_running :: bool

definition worker_init :: worker where
  "worker_init = \<lparr> lw_pending = [], lw_timeout = LONG_POLL_MIN_MS, lw_running = True \<rparr>"

definition next_timeout :: "u64 \<Rightarrow> poll_response \<Rightarrow> u64" where
  "next_timeout timeout_ms response =
     (case response of
        Inl _ \<Rightarrow> aimd_decrease timeout_ms
      | Inr (Inr m) \<Rightarrow> if m = [] then aimd_increase timeout_ms else timeout_ms
      | Inr (Inl _) \<Rightarrow> timeout_ms)"

text \<open>One turn of the loop, or \<open>None\<close> where the event cannot occur: the worker has stopped, or
  no poll is under way because nothing is pending. A request that arrives cancels the poll, so a
  response is always to the requests now pending.\<close>

definition run_server_worker :: "worker \<Rightarrow> worker_event \<Rightarrow> (worker \<times> poll_reply list) option" where
  "run_server_worker w ev =
     (if \<not> lw_running w then None
      else case ev of
        NewRequest request \<Rightarrow> Some (w \<lparr> lw_pending := lw_pending w @ [request] \<rparr>, [])
      | Shutdown \<Rightarrow>
          Some (w \<lparr> lw_pending := [], lw_running := False \<rparr>,
            map (\<lambda>request. (pq_respond_to request, Inl ''long poller shutdown'')) (lw_pending w))
      | PollResponse response \<Rightarrow>
          if lw_pending w = [] then None
          else (let (args, mailbox_keys) = build_args (lw_pending w);
                    (res, still_pending, replies) = username_poll_response response mailbox_keys (lw_pending w)
                in Some (w \<lparr> lw_pending := still_pending, lw_timeout := next_timeout (lw_timeout w) response \<rparr>,
                         replies)))"

fun worker_run :: "worker \<Rightarrow> worker_event list \<Rightarrow> (worker \<times> poll_reply list) option" where
  "worker_run w [] = Some (w, [])"
| "worker_run w (ev # evs) =
     (case run_server_worker w ev of
        None \<Rightarrow> None
      | Some (w', replies) \<Rightarrow> map_option (\<lambda>(w'', rs). (w'', replies @ rs)) (worker_run w' evs))"

section \<open>Lemmas\<close>

lemma clamp64_bounds: "lo \<le> hi \<Longrightarrow> lo \<le> clamp64 lo hi x \<and> clamp64 lo hi x \<le> hi"
  by (auto simp: clamp64_def)

lemma aimd_bounds:
  "LONG_POLL_MIN_MS \<le> aimd_increase t \<and> aimd_increase t \<le> LONG_POLL_MAX_MS"
  "LONG_POLL_MIN_MS \<le> aimd_decrease t \<and> aimd_decrease t \<le> LONG_POLL_MAX_MS"
  unfolding aimd_increase_def aimd_decrease_def
  by (intro clamp64_bounds, simp add: LONG_POLL_MIN_MS_def LONG_POLL_MAX_MS_def)+

text \<open>What the two maps of \<open>build_args\<close> hold.\<close>

lemma map_of_hm_entry:
  "map_of (hm_entry k f v m) =
     (map_of m)(k \<mapsto> (case map_of m k of None \<Rightarrow> v | Some x \<Rightarrow> f x))"
  by (induction m) (auto simp: fun_eq_iff)

lemma fst_hm_entry: "fst ` set (hm_entry k f v m) = insert k (fst ` set m)"
  by (induction k f v m rule: hm_entry.induct) (simp_all add: insert_commute)

lemma distinct_hm_entry: "distinct (map fst m) \<Longrightarrow> distinct (map fst (hm_entry k f v m))"
proof (induction m)
  case (Cons x m)
  then show ?case
    using fst_hm_entry [of k f v m] by (cases x) auto
qed simp

lemma build_args_indices:
  "i < length pending \<Longrightarrow> \<exists>is. map_of (snd (build_args_loop idx pending ma ind)) (poll_key (pending ! i)) = Some is
     \<and> idx + i \<in> set is"
proof -
  have keep: "map_of ind k = Some js \<Longrightarrow> j \<in> set js \<Longrightarrow>
      \<exists>is. map_of (snd (build_args_loop idx pending ma ind)) k = Some is \<and> j \<in> set is" for k j js idx ma ind pending
  proof (induction pending arbitrary: idx ma ind js)
    case (Cons r pending)
    let ?ind = "hm_entry (poll_key r) (\<lambda>is. is @ [idx]) [idx] ind"
    have "\<exists>js'. map_of ?ind k = Some js' \<and> j \<in> set js'"
      using Cons.prems by (auto simp: map_of_hm_entry)
    with Cons.IH show ?case by (auto simp: Let_def)
  qed auto
  show "i < length pending \<Longrightarrow> \<exists>is. map_of (snd (build_args_loop idx pending ma ind)) (poll_key (pending ! i)) = Some is
     \<and> idx + i \<in> set is"
  proof (induction pending arbitrary: idx ma ind i)
    case (Cons r pending)
    let ?ma = "hm_entry (poll_key r) (\<lambda>existing. if pq_after r < existing then pq_after r else existing) (pq_after r) ma"
    let ?ind = "hm_entry (poll_key r) (\<lambda>is. is @ [idx]) [idx] ind"
    show ?case
    proof (cases i)
      case 0
      have "\<exists>js. map_of ?ind (poll_key r) = Some js \<and> idx \<in> set js"
        by (cases "map_of ind (poll_key r)") (auto simp: map_of_hm_entry)
      with keep [of ?ind "poll_key r" _ idx "idx + 1" pending ?ma] 0 show ?thesis
        by (auto simp: Let_def)
    next
      case (Suc j)
      with Cons.prems Cons.IH [of j "idx + 1" ?ma ?ind] show ?thesis by (simp add: Let_def)
    qed
  qed simp
qed

text \<open>The poll asks, for every pending request, from a point no later than the request's, and each
  argument is the point of some pending request.\<close>

lemma build_args_min:
  "distinct (map fst ma) \<Longrightarrow>
     distinct (map fst (fst (build_args_loop idx pending ma ind))) \<and>
     (\<forall>k t. map_of ma k = Some t \<longrightarrow>
       (\<exists>t' \<le> t. map_of (fst (build_args_loop idx pending ma ind)) k = Some t')) \<and>
     (\<forall>r \<in> set pending. \<exists>t \<le> pq_after r. map_of (fst (build_args_loop idx pending ma ind)) (poll_key r) = Some t)"
proof (induction pending arbitrary: idx ma ind)
  case Nil
  then show ?case by auto
next
  case (Cons r pending)
  let ?f = "\<lambda>existing. if pq_after r < existing then pq_after r else existing"
  let ?ma = "hm_entry (poll_key r) ?f (pq_after r) ma"
  let ?ind = "hm_entry (poll_key r) (\<lambda>is. is @ [idx]) [idx] ind"
  let ?res = "fst (build_args_loop (idx + 1) pending ?ma ?ind)"
  have d: "distinct (map fst ?ma)" using Cons.prems by (rule distinct_hm_entry)
  note ih = Cons.IH [OF d, of "idx + 1" ?ind]
  from ih have d': "distinct (map fst ?res)" by blast
  from ih have old: "\<exists>t' \<le> t. map_of ?res k = Some t'" if "map_of ?ma k = Some t" for k t
    using that by blast
  from ih have new: "\<exists>t \<le> pq_after q. map_of ?res (poll_key q) = Some t" if "q \<in> set pending" for q
    using that by blast
  have "\<exists>t0. map_of ?ma (poll_key r) = Some t0 \<and> t0 \<le> pq_after r"
    by (auto simp: map_of_hm_entry split: option.split)
  then obtain t0 where t0: "map_of ?ma (poll_key r) = Some t0" "t0 \<le> pq_after r" by blast
  have "\<exists>t' \<le> t. map_of ?res k = Some t'" if "map_of ma k = Some t" for k t
  proof -
    have "\<exists>t1. map_of ?ma k = Some t1 \<and> t1 \<le> t"
      using that by (auto simp: map_of_hm_entry)
    then obtain t1 where "map_of ?ma k = Some t1" "t1 \<le> t" by blast
    with old [of k t1] show ?thesis by (meson order_trans)
  qed
  moreover have "\<exists>t \<le> pq_after r. map_of ?res (poll_key r) = Some t"
    using old [OF t0(1)] t0(2) by (meson order_trans)
  ultimately show ?case using d' new by (simp add: Let_def)
qed

lemma build_args_loop_from:
  "map_of (fst (build_args_loop idx pending ma ind)) k = Some t \<Longrightarrow>
     map_of ma k = Some t \<or> (\<exists>r \<in> set pending. poll_key r = k \<and> pq_after r = t)"
proof (induction pending arbitrary: idx ma ind)
  case (Cons r pending)
  let ?f = "\<lambda>existing. if pq_after r < existing then pq_after r else existing"
  from Cons.prems Cons.IH have "map_of (hm_entry (poll_key r) ?f (pq_after r) ma) k = Some t \<or>
      (\<exists>q \<in> set pending. poll_key q = k \<and> pq_after q = t)"
    by (simp add: Let_def)
  then show ?case
    by (auto simp: map_of_hm_entry split: if_splits option.splits)
qed simp

lemma map_of_args:
  assumes "distinct (map fst ma)"
    and "arg \<in> set (map (\<lambda>((mailbox, auth), after). \<lparr> mra_auth = auth, mra_mailbox = mailbox, mra_after = after \<rparr>) ma)"
  shows "map_of ma (mra_mailbox arg, mra_auth arg) = Some (mra_after arg)"
  using assms by (auto simp: map_of_eq_Some_iff)

text \<open>With the indices of \<open>build_args\<close>, delivering answers exactly the requests for which the
  response holds a newer message, each with the first one.\<close>

definition poll_answer :: "(mailbox_id, mailbox_entry list) btree \<Rightarrow> poll_request \<Rightarrow> mailbox_entry option" where
  "poll_answer response q =
     Option.bind (map_of response (pq_mailbox q)) (find (\<lambda>entry. pq_after q < mbe_received_at entry))"

definition poll_replies :: "(mailbox_id, mailbox_entry list) btree \<Rightarrow> poll_request list \<Rightarrow> poll_reply list" where
  "poll_replies response pending =
     map (\<lambda>q. (pq_respond_to q, Inr (the (poll_answer response q))))
       (filter (\<lambda>q. poll_answer response q \<noteq> None) pending)"

lemma deliver_exact:
  assumes "\<And>j. j < length pending \<Longrightarrow> \<exists>is. map_of keys (poll_key (pending ! j)) = Some is \<and> idx + j \<in> set is"
  shows "deliver response keys idx pending =
    (filter (\<lambda>q. poll_answer response q = None) pending, poll_replies response pending)"
  using assms
proof (induction pending arbitrary: idx)
  case Nil
  then show ?case by (simp add: poll_replies_def)
next
  case (Cons p pending)
  obtain js where "map_of keys (poll_key p) = Some js" "idx \<in> set js"
    using Cons.prems [of 0] by auto
  moreover have "\<exists>is. map_of keys (poll_key (pending ! j)) = Some is \<and> (idx + 1) + j \<in> set is"
    if "j < length pending" for j
    using Cons.prems [of "Suc j"] that by simp
  note Cons.IH [OF this]
  ultimately show ?case
    by (simp add: Let_def poll_answer_def poll_replies_def split: option.split)
qed

lemma deliver_built:
  "deliver response (snd (build_args pending)) 0 pending =
     (filter (\<lambda>q. poll_answer response q = None) pending, poll_replies response pending)"
proof (rule deliver_exact)
  fix j
  assume "j < length pending"
  then show "\<exists>is. map_of (snd (build_args pending)) (poll_key (pending ! j)) = Some is \<and> 0 + j \<in> set is"
    using build_args_indices [of j pending 0 "[]" "[]"] by (simp add: build_args_def case_prod_beta)
qed

lemma mset_replies:
  "mset (map fst (poll_replies response pending)) +
     mset (map pq_respond_to (filter (\<lambda>q. poll_answer response q = None) pending))
     = mset (map pq_respond_to pending)"
  by (induction pending) (simp_all add: poll_replies_def)

definition submitted :: "worker_event list \<Rightarrow> nat list" where
  "submitted evs = concat (map (\<lambda>ev. case ev of NewRequest r \<Rightarrow> [pq_respond_to r] | _ \<Rightarrow> []) evs)"

definition worker_ok :: "worker \<Rightarrow> bool" where
  "worker_ok w \<longleftrightarrow> LONG_POLL_MIN_MS \<le> lw_timeout w \<and> lw_timeout w \<le> LONG_POLL_MAX_MS \<and>
     (lw_running w \<or> lw_pending w = [])"

lemma worker_step:
  assumes "run_server_worker w ev = Some (w', replies)" and "worker_ok w"
  shows "worker_ok w' \<and>
    mset (map pq_respond_to (lw_pending w)) + mset (submitted [ev])
      = mset (map pq_respond_to (lw_pending w')) + mset (map fst replies)"
proof (cases ev)
  case (PollResponse response)
  have t: "LONG_POLL_MIN_MS \<le> next_timeout (lw_timeout w) response \<and> next_timeout (lw_timeout w) response \<le> LONG_POLL_MAX_MS"
    using assms(2) aimd_bounds by (auto simp: next_timeout_def worker_ok_def split: sum.split)
  obtain args keys where keys: "build_args (lw_pending w) = (args, keys)" by fastforce
  have d: "deliver m keys 0 (lw_pending w) =
      (filter (\<lambda>q. poll_answer m q = None) (lw_pending w), poll_replies m (lw_pending w))" for m
    using deliver_built [of m "lw_pending w"] keys by simp
  show ?thesis
    using assms PollResponse keys t
    by (auto simp: run_server_worker_def username_poll_response_def worker_ok_def submitted_def d
        mset_replies [simplified, symmetric] multiset.map_comp comp_def add.commute split: if_splits sum.splits)
qed (use assms in \<open>auto simp: run_server_worker_def worker_ok_def submitted_def multiset.map_comp comp_def split: if_splits\<close>)

lemma worker_run_ok:
  assumes "worker_run w evs = Some (w', replies)" and "worker_ok w"
  shows "worker_ok w' \<and>
    mset (map pq_respond_to (lw_pending w)) + mset (submitted evs)
      = mset (map pq_respond_to (lw_pending w')) + mset (map fst replies)"
  using assms
proof (induction evs arbitrary: w replies)
  case Nil
  then show ?case by (simp add: submitted_def)
next
  case (Cons ev evs)
  obtain w1 r1 r2 where one: "run_server_worker w ev = Some (w1, r1)"
    and rest: "worker_run w1 evs = Some (w', r2)" and r: "replies = r1 @ r2"
    using Cons.prems(1) by (auto split: option.splits)
  note s = worker_step [OF one Cons.prems(2)]
  note t = Cons.IH [OF rest conjunct1 [OF s]]
  have "submitted (ev # evs) = submitted [ev] @ submitted evs" by (simp add: submitted_def)
  with s t show ?case by (simp add: r ac_simps)
qed

section \<open>What a reply is\<close>

lemma sint_less_small:
  assumes "unat (a :: u64) < 2 ^ 63" and "unat (b :: u64) < 2 ^ 63"
  shows "sint a < sint b \<longleftrightarrow> a < b" "sint a \<le> sint b \<longleftrightarrow> a \<le> b"
  by (simp_all add: sint_small_unat [OF assms(1)] sint_small_unat [OF assms(2)] word_less_def word_le_def)

lemma find_sorted_least:
  "sorted (map k es) \<Longrightarrow> find P es = Some e \<Longrightarrow> e' \<in> set es \<Longrightarrow> P e' \<Longrightarrow> k e \<le> k e'"
  by (induction es) (auto split: if_splits)

lemma find_SomeD: "find P es = Some e \<Longrightarrow> e \<in> set es \<and> P e"
  by (induction es) (auto split: if_splits)

text \<open>A request of the pending list and the argument its mailbox and token are polled with.\<close>

lemma build_args_covers:
  assumes "arg \<in> set (fst (build_args pending))" and "q \<in> set pending"
    and "poll_key q = (mra_mailbox arg, mra_auth arg)"
  shows "mra_after arg \<le> pq_after q"
proof -
  let ?ma = "fst (build_args_loop 0 pending [] [])"
  have d: "distinct (map fst ?ma)" and c: "\<exists>t \<le> pq_after q. map_of ?ma (poll_key q) = Some t"
    using build_args_min [of "[]" 0 pending "[]"] assms(2) by auto
  have "map_of ?ma (mra_mailbox arg, mra_auth arg) = Some (mra_after arg)"
    using assms(1) by (intro map_of_args [OF d]) (simp add: build_args_def case_prod_beta)
  with c assms(3) show ?thesis by auto
qed

lemma build_args_owner:
  assumes "arg \<in> set (fst (build_args pending))"
  shows "\<exists>q \<in> set pending. poll_key q = (mra_mailbox arg, mra_auth arg) \<and> pq_after q = mra_after arg"
proof -
  let ?ma = "fst (build_args_loop 0 pending [] [])"
  have d: "distinct (map fst ?ma)" using build_args_min [of "[]" 0 pending "[]"] by auto
  have "map_of ?ma (mra_mailbox arg, mra_auth arg) = Some (mra_after arg)"
    using assms by (intro map_of_args [OF d]) (simp add: build_args_def case_prod_beta)
  from build_args_loop_from [OF this] show ?thesis by simp
qed

lemma poll_page_least:
  assumes "recv_pass E now db arg = Inr (entries, db')"
    and small: "\<forall>r \<in> set (db_entries db). unat (er_received_at r) < 2 ^ 63"
    and after: "mra_after arg \<le> pq_after q" "unat (pq_after q) < 2 ^ 63"
    and "pq_mailbox q = mra_mailbox arg"
    and e: "find (\<lambda>entry. pq_after q < mbe_received_at entry) entries = Some e"
    and r: "r \<in> set (db_entries db)" "unread (pq_mailbox q) (pq_after q) now r"
  shows "mbe_received_at e \<le> er_received_at r"
proof -
  note page = recv_page [OF assms(1)]
  from after have sm: "unat (mra_after arg) < 2 ^ 63" by (simp add: word_le_nat_alt)
  have es: "unat (mbe_received_at f) < 2 ^ 63" if "f \<in> set entries" for f
    using page small that by auto
  from find_SomeD [OF e] have ein: "e \<in> set entries" by blast
  have "sint (mra_after arg) \<le> sint (pq_after q)"
    using after(1) by (simp add: sint_less_small(2) [OF sm after(2)])
  with r(2) have "unread (mra_mailbox arg) (mra_after arg) now r"
    using assms(5) by (auto simp: unread_def)
  with page r(1) consider f where "f \<in> set entries" "mbe_received_at f = er_received_at r"
    | "\<forall>f \<in> set entries. sint (mbe_received_at f) \<le> sint (er_received_at r)" by blast
  then have "sint (mbe_received_at e) \<le> sint (er_received_at r)"
  proof cases
    case 1
    have "sint (pq_after q) < sint (er_received_at r)" using r(2) by (simp add: unread_def)
    then have "pq_after q < mbe_received_at f"
      using sint_less_small(1) [OF after(2) es [OF 1(1)]] 1(2) by simp
    moreover have "sorted (map (\<lambda>e. sint (mbe_received_at e)) entries)" using page by blast
    ultimately show ?thesis using find_sorted_least [of "\<lambda>e. sint (mbe_received_at e)", OF _ e 1(1)] 1(2) by simp
  next
    case 2
    with ein show ?thesis by blast
  qed
  then show ?thesis
    using sint_less_small(2) [OF es [OF ein]] small r(1) by blast
qed

text \<open>The replies to a poll of one of the pending mailboxes, and what each of them is.\<close>

lemma multirecv_replies:
  assumes "run_server_worker w (PollResponse (Inr (multirecv_reply (Some (Inr (m, entries)))))) = Some (w', replies)"
  shows "replies = poll_replies [(m, entries)] (lw_pending w)"
proof -
  obtain args keys where keys: "build_args (lw_pending w) = (args, keys)" by fastforce
  with assms deliver_built [of "[(m, entries)]" "lw_pending w"] show ?thesis
    by (auto simp: run_server_worker_def multirecv_reply_def username_poll_response_def split: if_splits)
qed

lemma poll_reply:
  assumes arg: "arg \<in> set (fst (build_args pending))"
    and pass: "recv_pass E now db arg = Inr (entries, db')"
    and auth: "\<forall>q \<in> set pending. pq_mailbox q = mra_mailbox arg \<longrightarrow> pq_auth q = mra_auth arg"
    and small: "\<forall>q \<in> set pending. unat (pq_after q) < 2 ^ 63"
      "\<forall>r \<in> set (db_entries db). unat (er_received_at r) < 2 ^ 63"
    and reply: "(i, ans) \<in> set (poll_replies [(mra_mailbox arg, entries)] pending)"
  obtains q e where "q \<in> set pending" "i = pq_respond_to q" "ans = Inr e" "pq_mailbox q = mra_mailbox arg"
    "e \<in> set entries" "pq_after q < mbe_received_at e"
    "\<forall>r \<in> set (db_entries db). unread (pq_mailbox q) (pq_after q) now r \<longrightarrow> mbe_received_at e \<le> er_received_at r"
proof -
  from reply obtain q e where q: "q \<in> set pending" and i: "i = pq_respond_to q" "ans = Inr e"
    and ans: "poll_answer [(mra_mailbox arg, entries)] q = Some e"
    by (auto simp: poll_replies_def)
  from ans have m: "pq_mailbox q = mra_mailbox arg"
    and e: "find (\<lambda>entry. pq_after q < mbe_received_at entry) entries = Some e"
    by (auto simp: poll_answer_def split: if_splits)
  have "mra_after arg \<le> pq_after q"
    using build_args_covers [OF arg q] m q auth by (simp add: poll_key_def)
  then have "\<forall>r \<in> set (db_entries db). unread (pq_mailbox q) (pq_after q) now r \<longrightarrow> mbe_received_at e \<le> er_received_at r"
    using poll_page_least [OF pass small(2) _ _ m e] q small(1) by blast
  with that q i m find_SomeD [OF e] show ?thesis by blast
qed

section \<open>Properties\<close>

text \<open>C33: whatever happens to a worker, its time-out stays between fifteen seconds and half an hour,
  and every request is either still pending or has been answered exactly once; none is lost, and none
  is left behind when the worker stops.\<close>

theorem poll_worker_conserves:
  assumes "worker_run worker_init evs = Some (w, replies)"
  shows "15000 \<le> lw_timeout w \<and> lw_timeout w \<le> 1800000 \<and>
    mset (submitted evs) = mset (map pq_respond_to (lw_pending w)) + mset (map fst replies) \<and>
    (lw_running w \<or> lw_pending w = [])"
proof -
  have "worker_ok worker_init"
    by (simp add: worker_ok_def worker_init_def LONG_POLL_MIN_MS_def LONG_POLL_MAX_MS_def)
  from worker_run_ok [OF assms this] show ?thesis
    by (simp add: worker_ok_def worker_init_def LONG_POLL_MIN_MS_def LONG_POLL_MAX_MS_def)
qed

definition demo_poll :: "nat \<Rightarrow> nano_timestamp \<Rightarrow> poll_request" where
  "demo_poll i after = \<lparr> pq_auth = AuthToken 5, pq_mailbox = demo_mailbox, pq_after = after, pq_respond_to = i \<rparr>"

theorem poll_worker_conserves_witness:
  "\<exists>w replies. worker_run worker_init [NewRequest (demo_poll 1 2), PollResponse (Inl ''timeout''),
       NewRequest (demo_poll 2 9), PollResponse (Inr (Inl AccessDenied))] = Some (w, replies) \<and>
     15000 \<le> lw_timeout w \<and> {# 1, 2 #} = mset (map pq_respond_to (lw_pending w)) + mset (map fst replies)"
proof -
  let ?evs = "[NewRequest (demo_poll 1 2), PollResponse (Inl ''timeout''),
       NewRequest (demo_poll 2 9), PollResponse (Inr (Inl AccessDenied))]"
  have "worker_run worker_init ?evs \<noteq> None" by code_simp
  then obtain w replies where run: "worker_run worker_init ?evs = Some (w, replies)" by auto
  have "mset (submitted ?evs) = {# 1, 2 #}" by (simp add: submitted_def demo_poll_def)
  with poll_worker_conserves [OF run] run show ?thesis by metis
qed



end
