(* ===== verification/ClientLoops.thy ===== *)
theory ClientLoops
  imports Internal LongPoll
begin

text \<open>
  The loops of the client: the notifier every loop sleeps on and the two event loops
  (\<open>nullspace-client/src/database.rs\<close>), the loop that receives direct messages
  (\<open>convo/dm_recv.rs\<close>) and the tasks that receive for each group (\<open>convo/group_recv.rs\<close>). A loop is
  its start and one turn; what a turn waits for, the long poller's reply, is an argument. The section
  on the stream of direct messages composes the turn with the long poller and the server.
\<close>

section \<open>The notifier\<close>

text \<open>A listener works, enters \<open>wait_for_change\<close> or is back at the top of its loop, has found the
  generation unchanged, or is registered with the \<open>Notify\<close>. \<open>touch\<close> is two steps: it bumps the
  generation, then wakes those who are registered.\<close>

datatype listener_phase = Working | Entering | Checked | Parked

record listener =
  dl_last_seen :: u64
  dl_phase :: listener_phase

record db_notify =
  dn_gen :: u64
  dn_waking :: nat   \<comment> \<open>callers of \<open>touch\<close> between their two steps\<close>
  dn_listeners :: "listener list"

datatype notify_event = New | Bump | Wake | Wait nat | Check nat | Park nat

definition listener_new :: "db_notify \<Rightarrow> listener" where
  "listener_new n = \<lparr> dl_last_seen = dn_gen n, dl_phase = Working \<rparr>"

definition notify_waiters :: "listener list \<Rightarrow> listener list" where
  "notify_waiters = map (\<lambda>l. if dl_phase l = Parked then l \<lparr> dl_phase := Entering \<rparr> else l)"

definition check_generation :: "u64 \<Rightarrow> listener \<Rightarrow> listener" where
  "check_generation now l =
     (if now \<noteq> dl_last_seen l then l \<lparr> dl_last_seen := now, dl_phase := Working \<rparr> else l \<lparr> dl_phase := Checked \<rparr>)"

definition on_listener :: "nat \<Rightarrow> listener_phase \<Rightarrow> (listener \<Rightarrow> listener) \<Rightarrow> db_notify \<Rightarrow> db_notify option" where
  "on_listener i phase f n =
     (if i < length (dn_listeners n) \<and> dl_phase (dn_listeners n ! i) = phase
      then Some (n \<lparr> dn_listeners := (dn_listeners n)[i := f (dn_listeners n ! i)] \<rparr>) else None)"

fun notify_step :: "notify_event \<Rightarrow> db_notify \<Rightarrow> db_notify option" where
  "notify_step New n = Some (n \<lparr> dn_listeners := dn_listeners n @ [listener_new n] \<rparr>)"
| "notify_step Bump n = Some (n \<lparr> dn_gen := dn_gen n + 1, dn_waking := dn_waking n + 1 \<rparr>)"
| "notify_step Wake n =
     (if dn_waking n = 0 then None
      else Some (n \<lparr> dn_waking := dn_waking n - 1, dn_listeners := notify_waiters (dn_listeners n) \<rparr>))"
| "notify_step (Wait i) n = on_listener i Working (\<lambda>l. l \<lparr> dl_phase := Entering \<rparr>) n"
| "notify_step (Check i) n = on_listener i Entering (check_generation (dn_gen n)) n"
| "notify_step (Park i) n = on_listener i Checked (\<lambda>l. l \<lparr> dl_phase := Parked \<rparr>) n"

definition notify_init :: db_notify where
  "notify_init = \<lparr> dn_gen = 0, dn_waking = 0, dn_listeners = [] \<rparr>"

fun notify_run :: "db_notify \<Rightarrow> notify_event list \<Rightarrow> db_notify option" where
  "notify_run n [] = Some n"
| "notify_run n (ev # evs) = Option.bind (notify_step ev n) (\<lambda>n. notify_run n evs)"

section \<open>The event loops\<close>

datatype loop_event = StateChanged bool | ConvoUpdated convo_id | GroupUpdated group_id

definition login_event_turn :: "client_db \<Rightarrow> bool \<Rightarrow> bool \<times> loop_event list" where
  "login_event_turn db logged_in =
     (let next_logged_in = identity_exists db in
      if next_logged_in \<noteq> logged_in then (next_logged_in, [StateChanged next_logged_in]) else (logged_in, []))"

definition current_max_msg :: "client_db \<Rightarrow> int" where
  "current_max_msg db = (if c_messages db = [] then 0 else Max (cm_id ` set (c_messages db)))"

definition current_max_received_at :: "client_db \<Rightarrow> int" where
  "current_max_received_at db =
     (let ts = List.map_filter (\<lambda>m. map_option sint (cm_received_at m)) (c_messages db) in
      if ts = [] then 0 else Max (set ts))"

text \<open>\<open>convo_messages m JOIN convos c ON m.convo_id = c.id\<close>.\<close>

definition joined_messages :: "client_db \<Rightarrow> (message_row \<times> convo_row) list" where
  "joined_messages db = [(m, c). m \<leftarrow> c_messages db, c \<leftarrow> c_convos db, cv_id c = cm_convo_id m]"

definition convo_set :: "ext \<Rightarrow> convo_row list \<Rightarrow> convo_id list" where
  "convo_set E cs = remdups (List.map_filter (\<lambda>c. parse_convo_id E (cv_type c) (cv_counterparty c)) cs)"

definition new_message_convos :: "ext \<Rightarrow> client_db \<Rightarrow> int \<Rightarrow> int \<times> convo_id list" where
  "new_message_convos E db last_seen_id =
     (let rows = sort_key (\<lambda>(m, c). cm_id m) (filter (\<lambda>(m, c). last_seen_id < cm_id m) (joined_messages db)) in
      if rows = [] then (last_seen_id, [])
      else (fold (\<lambda>(m, c) max_id. max max_id (cm_id m)) rows last_seen_id, convo_set E (map snd rows)))"

text \<open>Times are compared as SQLite and \<open>i64\<close> do, with their sign.\<close>

definition received_after :: "int \<Rightarrow> message_row \<Rightarrow> bool" where
  "received_after t m \<longleftrightarrow> (case cm_received_at m of None \<Rightarrow> False | Some r \<Rightarrow> t < sint r)"

definition received_time :: "message_row \<Rightarrow> int" where
  "received_time m = (case cm_received_at m of None \<Rightarrow> 0 | Some r \<Rightarrow> sint r)"

definition new_received_convos :: "ext \<Rightarrow> client_db \<Rightarrow> int \<Rightarrow> int \<times> convo_id list" where
  "new_received_convos E db last_seen_received_at =
     (let rows = sort_key (\<lambda>(m, c). received_time m)
        (filter (\<lambda>(m, c). received_after last_seen_received_at m) (joined_messages db)) in
      if rows = [] then (last_seen_received_at, [])
      else (fold (\<lambda>(m, c) t. max t (received_time m)) rows last_seen_received_at, convo_set E (map snd rows)))"

definition load_group_versions :: "client_db \<Rightarrow> (group_id \<times> int) list" where
  "load_group_versions db =
     fold (\<lambda>r out. case array_try_from (gw_group_id r) of
         None \<Rightarrow> out
       | Some g \<Rightarrow> hm_entry (GroupId (Hash g)) (\<lambda>_. sint (gw_roster_version r)) (sint (gw_roster_version r)) out)
       (c_groups db) []"

definition updated_group_versions :: "client_db \<Rightarrow> (group_id \<times> int) list \<Rightarrow> (group_id \<times> int) list \<times> group_id list" where
  "updated_group_versions db known =
     (let current = load_group_versions db in
      if current = [] then (current, [])
      else (current, map fst (filter (\<lambda>(group_id, roster_version).
        case map_of known group_id of Some prev \<Rightarrow> prev < roster_version | None \<Rightarrow> True) current)))"

record event_seen =
  es_last_id :: int
  es_last_received :: int
  es_versions :: "(group_id \<times> int) list"

definition message_event_start :: "client_db \<Rightarrow> event_seen" where
  "message_event_start db = \<lparr> es_last_id = current_max_msg db, es_last_received = current_max_received_at db,
     es_versions = load_group_versions db \<rparr>"

definition message_event_turn :: "ext \<Rightarrow> client_db \<Rightarrow> event_seen \<Rightarrow> event_seen \<times> loop_event list" where
  "message_event_turn E db s =
     (let (new_last, convos) = new_message_convos E db (es_last_id s);
          (new_received_at, received_convos) = new_received_convos E db (es_last_received s);
          (next_versions, roster_groups) = updated_group_versions db (es_versions s)
      in (\<lparr> es_last_id = new_last, es_last_received = new_received_at, es_versions = next_versions \<rparr>,
          map ConvoUpdated (convos @ received_convos) @ map GroupUpdated roster_groups))"

section \<open>Receiving direct messages\<close>

record dm_session =
  se_server_name :: server_name
  se_auth :: auth_token
  se_mailbox :: mailbox_id
  se_after :: nano_timestamp

text \<open>\<open>match m { Ok(x) => x, Err(err) => h(err) }\<close>.\<close>

definition recover :: "('s, 'a) eff \<Rightarrow> (anyhow \<Rightarrow> ('s, 'a) eff) \<Rightarrow> ('s, 'a) eff" where
  "recover m h s = (case m s of (Inl e, s') \<Rightarrow> h e s' | (Inr x, s') \<Rightarrow> (Inr x, s'))"

definition dm_resume :: "server_name \<Rightarrow> auth_token \<Rightarrow> mailbox_id \<Rightarrow> (client_db, dm_session) eff" where
  "dm_resume server_name auth mailbox =
     call (modify_by (ensure_mailbox_state server_name mailbox 0)) (\<lambda>_.
     call (read_db (\<lambda>db. Inr (load_mailbox_after server_name mailbox db))) (\<lambda>after.
       done_with (Inr \<lparr> se_server_name = server_name, se_auth = auth, se_mailbox = mailbox, se_after = after \<rparr>)))"

definition dm_recv_start ::
  "ext \<Rightarrow> ('s, 'srv) client_env \<Rightarrow> (server_name \<rightharpoonup> auth_token)
    \<Rightarrow> ('s, dm_session \<times> (server_name \<rightharpoonup> auth_token)) sys_eff" where
  "dm_recv_start E C cache =
     call (on_db (read_db (load_identity E))) (\<lambda>identity.
     call (recover (refresh_own_server_name (ce_world C) identity)
       (\<lambda>err. done_with (ok_or err (id_server_name identity)))) (\<lambda>server_name.
     call (make_transport E C server_name) (\<lambda>server.
     call (get_auth_token E C cache) (\<lambda>(auth, cache).
     call (on_db (dm_resume server_name auth (mailbox_direct E (id_username identity)))) (\<lambda>session.
       done_with (Inr (session, cache)))))))"

text \<open>One turn of the inner loop, on what the poller answered; the flag is whether listeners are
  touched.\<close>

definition dm_recv_turn ::
  "ext \<Rightarrow> timestamp \<Rightarrow> nano_timestamp \<Rightarrow> (username \<Rightarrow> anyhow + user_descriptor option) \<Rightarrow> anyhow + mailbox_entry
    \<Rightarrow> dm_session \<Rightarrow> client_db \<Rightarrow> bool \<times> dm_session \<times> client_db" where
  "dm_recv_turn E now now_ns dir reply se db =
     (case reply of
        Inl err \<Rightarrow> (False, se, db)
      | Inr entry \<Rightarrow> (True, se \<lparr> se_after := mbe_received_at entry \<rparr>,
          snd (process_mailbox_entry E now now_ns dir (se_server_name se) (se_mailbox se) entry db)))"

section \<open>Receiving for groups\<close>

text \<open>The race of the two polls is the argument \<open>race\<close>: the transport, the group's token and the two
  mailboxes with their positions.\<close>

type_synonym 's poll_race =
  "proxying_transport \<Rightarrow> auth_token \<Rightarrow> mailbox_id \<times> nano_timestamp \<Rightarrow> mailbox_id \<times> nano_timestamp
    \<Rightarrow> ('s, group_mailbox_kind \<times> mailbox_entry) eff"

definition group_recv_once ::
  "ext \<Rightarrow> ('s, 'srv) client_env \<Rightarrow> 's poll_race \<Rightarrow> group_record \<Rightarrow> ('s, unit) sys_eff" where
  "group_recv_once E C race grp =
     (let message_box = mailbox_group_messages E (gr_group_id grp);
          manage_box = mailbox_group_management E (gr_group_id grp) in
      call (on_db (modify_by (ensure_mailbox_state (gr_server_name grp) message_box 0))) (\<lambda>_.
      call (on_db (modify_by (ensure_mailbox_state (gr_server_name grp) manage_box 0))) (\<lambda>_.
      call (on_db (read_db (\<lambda>db. Inr (load_mailbox_after (gr_server_name grp) message_box db)))) (\<lambda>message_after.
      call (on_db (read_db (\<lambda>db. Inr (load_mailbox_after (gr_server_name grp) manage_box db)))) (\<lambda>manage_after.
      call (make_transport E C (gr_server_name grp)) (\<lambda>server.
      call (on_net (race server (gr_token grp) (message_box, message_after) (manage_box, manage_after))) (\<lambda>(kind, entry).
      call (clock (\<lambda>s. (w_now_s (ce_world C) s, w_now_ns (ce_world C) s, w_dir (ce_world C) s))) (\<lambda>(now, now_ns, dir).
        on_db (modify_by (group_recv_entry E now now_ns dir grp kind entry))))))))))"

text \<open>One turn of a group's task; the task ends when the answer is \<open>False\<close>. An error is logged, and the
  next turn comes a second later.\<close>

definition group_recv_turn ::
  "ext \<Rightarrow> ('s, 'srv) client_env \<Rightarrow> 's poll_race \<Rightarrow> group_id \<Rightarrow> client_db \<times> 's \<Rightarrow> bool \<times> client_db \<times> 's" where
  "group_recv_turn E C race g st =
     (case load_group E g (fst st) of
        Inr (Some grp) \<Rightarrow> (True, snd (group_recv_once E C race grp st))
      | Inr None \<Rightarrow> (False, st)
      | Inl err \<Rightarrow> (True, st))"

text \<open>The tasks, by conversation; \<open>spawn\<close> starts one, and a handle tells whether its task has ended.\<close>

definition sync_group_tasks ::
  "ext \<Rightarrow> ('h \<Rightarrow> bool) \<Rightarrow> (group_id \<Rightarrow> 'h) \<Rightarrow> client_db \<Rightarrow> (convo_id \<times> 'h) list \<Rightarrow> (anyhow + unit) \<times> (convo_id \<times> 'h) list" where
  "sync_group_tasks E finished spawn db tasks =
     (let tasks = filter (\<lambda>(c, handle). \<not> finished handle) tasks in
      case load_groups E db of
        Inl err \<Rightarrow> (Inl err, tasks)
      | Inr groups \<Rightarrow>
          (let live = map (\<lambda>grp. Group (gr_group_id grp)) groups;
               tasks = fold (\<lambda>grp tasks. hm_entry (Group (gr_group_id grp)) (\<lambda>h. h) (spawn (gr_group_id grp)) tasks) groups tasks
           in (Inr (), filter (\<lambda>(c, handle). c \<in> set live) tasks)))"

section \<open>Lemmas\<close>

lemma on_listener_Some:
  "on_listener i phase f n = Some n' \<longleftrightarrow> i < length (dn_listeners n) \<and> dl_phase (dn_listeners n ! i) = phase \<and>
     n' = n \<lparr> dn_listeners := (dn_listeners n)[i := f (dn_listeners n ! i)] \<rparr>"
  by (auto simp: on_listener_def)

lemma notify_run_snoc:
  "notify_run n (evs @ [ev]) = Option.bind (notify_run n evs) (notify_step ev)"
  by (induction evs arbitrary: n) (auto split: bind_split)

text \<open>Where a listener that is about to sleep, or sleeps, last looked at the generation; unless a wake-up
  fell between that look and its registration, it has seen everything but the touches still under way.\<close>

definition missed_none :: "db_notify \<Rightarrow> listener \<Rightarrow> bool" where
  "missed_none n l \<longleftrightarrow> dl_last_seen l = dn_gen n \<or> 0 < dn_waking n"

primrec since_check :: "listener_phase \<Rightarrow> nat \<Rightarrow> notify_event list \<Rightarrow> bool \<Rightarrow> bool" where
  "since_check Working i evs ok = True"
| "since_check Entering i evs ok = True"
| "since_check Checked i evs ok = (\<exists>a b. evs = a @ Check i # b \<and> (Wake \<in> set b \<or> ok))"
| "since_check Parked i evs ok =
     (\<exists>a b c. evs = a @ Check i # b @ Park i # c \<and> Wake \<notin> set c \<and> (Wake \<in> set b \<or> ok))"

lemma since_check_snoc:
  assumes "since_check ph i evs ok" and "ok \<Longrightarrow> ok'" and "ev \<noteq> Wake"
  shows "since_check ph i (evs @ [ev]) ok'"
proof (cases ph)
  case Checked
  with assms(1) obtain a b where "evs = a @ Check i # b" "Wake \<in> set b \<or> ok" by auto
  then have "evs @ [ev] = a @ Check i # (b @ [ev])" "Wake \<in> set (b @ [ev]) \<or> ok'" using assms(2) by auto
  then show ?thesis unfolding Checked since_check.simps by blast
next
  case Parked
  with assms(1) obtain a b c where "evs = a @ Check i # b @ Park i # c" "Wake \<notin> set c" "Wake \<in> set b \<or> ok" by auto
  then have "evs @ [ev] = a @ Check i # b @ Park i # (c @ [ev])" "Wake \<notin> set (c @ [ev])" "Wake \<in> set b \<or> ok'"
    using assms(2,3) by auto
  then show ?thesis unfolding Parked since_check.simps by blast
qed simp_all

lemma notify_window_inv:
  "notify_run notify_init evs = Some n \<Longrightarrow> i < length (dn_listeners n) \<Longrightarrow>
     since_check (dl_phase (dn_listeners n ! i)) i evs (missed_none n (dn_listeners n ! i))"
proof (induction evs arbitrary: n rule: rev_induct)
  case Nil
  then show ?case by (auto simp: notify_init_def)
next
  case (snoc ev evs)
  then obtain m where run: "notify_run notify_init evs = Some m" and ev: "notify_step ev m = Some n"
    by (auto simp: notify_run_snoc bind_eq_Some_conv)
  show ?case
  proof (cases "i < length (dn_listeners m)")
    case True
    let ?l = "dn_listeners m ! i"
    note IH = snoc.IH [OF run True]
    show ?thesis
    proof (cases ev)
      case Wake
      show ?thesis
      proof (cases "dl_phase ?l")
        case Checked
        with IH obtain a b where "evs = a @ Check i # b" by auto
        then have "evs @ [ev] = a @ Check i # (b @ [Wake])" "Wake \<in> set (b @ [Wake])" by (simp_all add: Wake)
        then have "since_check Checked i (evs @ [ev]) (missed_none n (dn_listeners n ! i))"
          unfolding since_check.simps by blast
        with Checked Wake ev True show ?thesis
          by (auto simp del: since_check.simps simp: notify_waiters_def split: if_splits)
      qed (use Wake ev True in \<open>auto simp: notify_waiters_def split: if_splits\<close>)
    next
      case (Check j)
      with ev True snoc.prems(2) since_check_snoc [OF IH, of "missed_none n ?l" ev] show ?thesis
        by (cases "i = j") (auto simp: on_listener_Some check_generation_def missed_none_def)
    next
      case (Park j)
      show ?thesis
      proof (cases "i = j")
        case True
        with Park ev IH obtain a b where "evs = a @ Check i # b" "Wake \<in> set b \<or> missed_none m ?l"
          by (auto simp: on_listener_Some)
        then have "evs @ [ev] = a @ Check i # b @ Park i # []" "Wake \<notin> set []" "Wake \<in> set b \<or> missed_none m ?l"
          using True Park by simp_all
        then have "since_check Parked i (evs @ [ev]) (missed_none m ?l)"
          unfolding since_check.simps by blast
        with True Park ev show ?thesis
          by (auto simp del: since_check.simps simp: on_listener_Some missed_none_def)
      next
        case False
        with Park ev since_check_snoc [OF IH, of "missed_none n ?l" ev] show ?thesis
          by (auto simp: on_listener_Some missed_none_def)
      qed
    next
      case (Wait j)
      with ev since_check_snoc [OF IH, of "missed_none n ?l" ev] show ?thesis
        by (cases "i = j") (auto simp: on_listener_Some missed_none_def)
    qed (use ev True since_check_snoc [OF IH, of "missed_none n ?l" ev] in
        \<open>auto simp: missed_none_def nth_append listener_new_def\<close>)
  next
    case False
    with snoc.prems(2) ev show ?thesis
      by (cases ev) (auto simp: on_listener_Some notify_waiters_def nth_append listener_new_def split: if_splits)
  qed
qed

text \<open>A turn of the message loop.\<close>

lemma set_joined: "(m, c) \<in> set (joined_messages db) \<longleftrightarrow>
    m \<in> set (c_messages db) \<and> c \<in> set (c_convos db) \<and> cv_id c = cm_convo_id m"
  by (auto simp: joined_messages_def)

lemma set_convo_set: "x \<in> set (convo_set E cs) \<longleftrightarrow>
    (\<exists>c \<in> set cs. parse_convo_id E (cv_type c) (cv_counterparty c) = Some x)"
  by (auto simp: convo_set_def List.map_filter_def image_iff)

lemma fold_max_rows:
  fixes k :: "message_row \<Rightarrow> int"
  shows "fold (\<lambda>(m, c) t. max t (k m)) rows t0 = Max (insert t0 (k ` fst ` set rows))"
proof (induction rows arbitrary: t0)
  case (Cons r rows)
  have "Max (insert (max t0 (k (fst r))) (k ` fst ` set rows)) = Max (insert t0 (insert (k (fst r)) (k ` fst ` set rows)))"
    by (cases "k ` fst ` set rows = {}") (simp_all add: max.assoc)
  with Cons show ?case by (cases r) (simp add: insert_commute)
qed simp

lemma new_message_convos_spec:
  "x \<in> set (snd (new_message_convos E db t)) \<longleftrightarrow> (\<exists>(m, c) \<in> set (joined_messages db). t < cm_id m \<and>
     parse_convo_id E (cv_type c) (cv_counterparty c) = Some x)"
  "fst (new_message_convos E db t) = Max (insert t {cm_id m |m c. (m, c) \<in> set (joined_messages db) \<and> t < cm_id m})"
proof -
  let ?rows = "sort_key (\<lambda>(m, c). cm_id m) (filter (\<lambda>(m, c). t < cm_id m) (joined_messages db))"
  have new: "new_message_convos E db t = (Max (insert t (cm_id ` fst ` set ?rows)), convo_set E (map snd ?rows))"
    by (cases "?rows = []") (simp_all add: new_message_convos_def Let_def fold_max_rows convo_set_def)
  have "cm_id ` fst ` set ?rows = {cm_id m |m c. (m, c) \<in> set (joined_messages db) \<and> t < cm_id m}" by force
  then show "fst (new_message_convos E db t)
    = Max (insert t {cm_id m |m c. (m, c) \<in> set (joined_messages db) \<and> t < cm_id m})" by (simp only: new fst_conv)
  show "x \<in> set (snd (new_message_convos E db t)) \<longleftrightarrow> (\<exists>(m, c) \<in> set (joined_messages db). t < cm_id m \<and>
     parse_convo_id E (cv_type c) (cv_counterparty c) = Some x)"
    unfolding new by (force simp: set_convo_set)
qed

lemma new_received_convos_spec:
  "x \<in> set (snd (new_received_convos E db t)) \<longleftrightarrow> (\<exists>(m, c) \<in> set (joined_messages db). received_after t m \<and>
     parse_convo_id E (cv_type c) (cv_counterparty c) = Some x)"
  "fst (new_received_convos E db t)
    = Max (insert t {received_time m |m c. (m, c) \<in> set (joined_messages db) \<and> received_after t m})"
proof -
  let ?rows = "sort_key (\<lambda>(m, c). received_time m) (filter (\<lambda>(m, c). received_after t m) (joined_messages db))"
  have new: "new_received_convos E db t = (Max (insert t (received_time ` fst ` set ?rows)), convo_set E (map snd ?rows))"
    by (cases "?rows = []") (simp_all add: new_received_convos_def Let_def fold_max_rows convo_set_def)
  have "received_time ` fst ` set ?rows = {received_time m |m c. (m, c) \<in> set (joined_messages db) \<and> received_after t m}"
    by force
  then show "fst (new_received_convos E db t)
    = Max (insert t {received_time m |m c. (m, c) \<in> set (joined_messages db) \<and> received_after t m})"
    by (simp only: new fst_conv)
  show "x \<in> set (snd (new_received_convos E db t)) \<longleftrightarrow> (\<exists>(m, c) \<in> set (joined_messages db). received_after t m \<and>
     parse_convo_id E (cv_type c) (cv_counterparty c) = Some x)"
    unfolding new by (force simp: set_convo_set)
qed

lemma received_after_time: "received_after t m \<longleftrightarrow> cm_received_at m \<noteq> None \<and> t < received_time m"
  by (simp add: received_after_def received_time_def split: option.split)

lemma finite_joined: "finite {k m |m c. (m, c) \<in> set (joined_messages db) \<and> P m}"
  by (rule finite_subset [of _ "k ` fst ` set (joined_messages db)"]) force+

text \<open>After a turn the positions are past every row the query sees.\<close>

lemma message_turn_positions:
  "(m, c) \<in> set (joined_messages db) \<Longrightarrow> cm_id m \<le> es_last_id (fst (message_event_turn E db s))"
  "(m, c) \<in> set (joined_messages db) \<Longrightarrow> \<not> received_after (es_last_received (fst (message_event_turn E db s))) m"
proof -
  assume mem: "(m, c) \<in> set (joined_messages db)"
  have le: "k m \<le> Max (insert t {k m |m c. (m, c) \<in> set (joined_messages db) \<and> P m})" if "P m \<or> k m \<le> t"
    for k :: "message_row \<Rightarrow> int" and P t
  proof -
    let ?S = "{k m |m c. (m, c) \<in> set (joined_messages db) \<and> P m}"
    from that mem have "k m \<le> t \<or> k m \<in> ?S" by blast
    with Max_ge [of "insert t ?S"] finite_joined [of k db P] show ?thesis by (meson finite_insert insertCI order_trans)
  qed
  show "cm_id m \<le> es_last_id (fst (message_event_turn E db s))"
    using le [of "\<lambda>m. es_last_id s < cm_id m" cm_id "es_last_id s"]
    by (simp add: message_event_turn_def case_prod_beta new_message_convos_spec(2) not_less [symmetric] del: not_less)
  show "\<not> received_after (es_last_received (fst (message_event_turn E db s))) m"
  proof
    let ?max = "es_last_received (fst (message_event_turn E db s))"
    assume "received_after ?max m"
    then have m: "cm_received_at m \<noteq> None" "?max < received_time m" by (simp_all add: received_after_time)
    then have "received_after (es_last_received s) m \<or> received_time m \<le> es_last_received s"
      by (simp add: received_after_time linorder_not_less [symmetric] del: not_less)
    from le [where P = "received_after (es_last_received s)" and k = received_time, OF this] have "received_time m \<le> ?max"
      by (simp only: message_event_turn_def case_prod_beta Let_def fst_conv event_seen.select_convs new_received_convos_spec(2))
    with m(2) show False by simp
  qed
qed

text \<open>The versions of the groups.\<close>

lemma distinct_group_versions: "distinct (map fst (load_group_versions db))"
proof -
  have "distinct (map fst (fold (\<lambda>r out. case array_try_from (gw_group_id r) of None \<Rightarrow> out
       | Some g \<Rightarrow> hm_entry (GroupId (Hash g)) (\<lambda>_. sint (gw_roster_version r)) (sint (gw_roster_version r)) out) rs out))"
    if "distinct (map fst out)" for rs and out :: "(group_id \<times> int) list"
    using that
  proof (induction rs arbitrary: out)
    case (Cons r rs)
    then show ?case
      using distinct_hm_entry [of out] by (cases "array_try_from (gw_group_id r) :: 256 word option") simp_all
  qed simp
  from this [of "[]"] show ?thesis by (simp only: load_group_versions_def) simp
qed

lemma updated_versions_spec:
  "fst (updated_group_versions db known) = load_group_versions db"
  "g \<in> set (snd (updated_group_versions db known)) \<longleftrightarrow> (\<exists>v. map_of (load_group_versions db) g = Some v \<and>
     (case map_of known g of Some prev \<Rightarrow> prev < v | None \<Rightarrow> True))"
proof -
  let ?L = "load_group_versions db"
  have m: "map_of ?L g = Some v \<longleftrightarrow> (g, v) \<in> set ?L" for g v
    by (rule map_of_eq_Some_iff) (rule distinct_group_versions)
  show "fst (updated_group_versions db known) = ?L"
    by (simp add: updated_group_versions_def Let_def)
  show "g \<in> set (snd (updated_group_versions db known)) \<longleftrightarrow> (\<exists>v. map_of ?L g = Some v \<and>
     (case map_of known g of Some prev \<Rightarrow> prev < v | None \<Rightarrow> True))"
    unfolding m by (cases "?L = []") (auto simp: updated_group_versions_def Let_def image_iff)
qed

lemma message_turn_sel:
  "fst (message_event_turn E db s) = \<lparr> es_last_id = fst (new_message_convos E db (es_last_id s)),
     es_last_received = fst (new_received_convos E db (es_last_received s)), es_versions = load_group_versions db \<rparr>"
  "snd (message_event_turn E db s) = map ConvoUpdated (snd (new_message_convos E db (es_last_id s)) @
     snd (new_received_convos E db (es_last_received s))) @
     map GroupUpdated (snd (updated_group_versions db (es_versions s)))"
  by (simp_all add: message_event_turn_def case_prod_beta updated_versions_spec(1))

lemma announced:
  "ConvoUpdated x \<in> set (snd (message_event_turn E db s)) \<longleftrightarrow>
     x \<in> set (snd (new_message_convos E db (es_last_id s))) \<or> x \<in> set (snd (new_received_convos E db (es_last_received s)))"
  "GroupUpdated g \<in> set (snd (message_event_turn E db s)) \<longleftrightarrow> g \<in> set (snd (updated_group_versions db (es_versions s)))"
  by (auto simp: message_turn_sel(2))

text \<open>The tasks as maps.\<close>

lemma map_of_filter_key: "map_of (filter (\<lambda>(k, v). P k) t) k = (if P k then map_of t k else None)"
  by (induction t) auto

lemma map_of_filter_value:
  "distinct (map fst t) \<Longrightarrow> map_of (filter (\<lambda>(k, v). P v) t) k =
     (case map_of t k of Some v \<Rightarrow> if P v then Some v else None | None \<Rightarrow> None)"
proof (induction t)
  case (Cons a t)
  then show ?case by (cases a) (auto split: option.splits simp: map_of_eq_None_iff [symmetric] simp del: map_of_eq_None_iff)
qed simp

lemma distinct_filter_keys: "distinct (map fst t) \<Longrightarrow> distinct (map fst (filter P t))"
  by (simp add: distinct_map_filter)

lemma spawn_missing:
  fixes t :: "(convo_id \<times> 'h) list"
  shows "map_of (fold (\<lambda>grp t. hm_entry (Group (gr_group_id grp)) (\<lambda>h. h) (spawn (gr_group_id grp)) t) groups t) c =
    (case map_of t c of Some h \<Rightarrow> Some h
     | None \<Rightarrow> (case c of Group g \<Rightarrow> if g \<in> gr_group_id ` set groups then Some (spawn g) else None | Direct _ \<Rightarrow> None))"
  and "distinct (map fst t) \<Longrightarrow>
    distinct (map fst (fold (\<lambda>grp t. hm_entry (Group (gr_group_id grp)) (\<lambda>h. h) (spawn (gr_group_id grp)) t) groups t))"
  by (induction groups arbitrary: t) (auto simp: map_of_hm_entry distinct_hm_entry split: option.splits convo_id.splits)

section \<open>The stream of direct messages\<close>

text \<open>The receive loop with its server: sends and other requests change the server's database, other
  loops change the client's, the client may stop and resume from the stored position, and a poll of the
  worker whose pending requests contain the loop's is answered from a pass of the server. \<open>dy_sent\<close>,
  \<open>dy_late\<close> and \<open>dy_done\<close> record what was accepted for the mailbox, what was accepted with a time the
  loop had already passed, and what the loop processed.\<close>

record dm_sys =
  dy_server :: server_db
  dy_client :: client_db
  dy_session :: dm_session
  dy_sent :: "entry_row list"
  dy_late :: "entry_row list"
  dy_done :: "mailbox_entry list"

definition session_key :: "dm_session \<Rightarrow> string \<times> bytes" where
  "session_key se = (server_name_as_str (se_server_name se), mailbox_column (se_mailbox se))"

definition stored_position :: "dm_session \<Rightarrow> client_db \<Rightarrow> nano_timestamp option" where
  "stored_position se db = map_option mx_after (t_get mailbox_key (session_key se) (c_mailboxes db))"

inductive dm_step :: "ext \<Rightarrow> dm_sys \<Rightarrow> dm_sys \<Rightarrow> bool" for E where
  send: "mailbox_send E now (dy_server y) auth m message ttl = Inr (t, srv) \<Longrightarrow> unat now < 2 ^ 63 \<Longrightarrow>
    new = (if m = se_mailbox (dy_session y) then [last (db_entries srv)] else []) \<Longrightarrow>
    dm_step E y (y \<lparr> dy_server := srv, dy_sent := dy_sent y @ new,
      dy_late := dy_late y @ filter (\<lambda>r. er_received_at r \<le> se_after (dy_session y)) new \<rparr>)"
| serve: "db_entries srv = db_entries (dy_server y) \<Longrightarrow> dm_step E y (y \<lparr> dy_server := srv \<rparr>)"
| other_loops: "stored_position (dy_session y) db = stored_position (dy_session y) (dy_client y) \<Longrightarrow>
    is_ok (load_identity E db) \<Longrightarrow> dm_step E y (y \<lparr> dy_client := db \<rparr>)"
| restart: "dm_resume (se_server_name (dy_session y)) auth (se_mailbox (dy_session y)) (dy_client y) = (Inr se, db) \<Longrightarrow>
    dm_step E y (y \<lparr> dy_session := se, dy_client := db \<rparr>)"
| poll: "q \<in> set (lw_pending w) \<Longrightarrow> pq_mailbox q = se_mailbox (dy_session y) \<Longrightarrow> pq_auth q = se_auth (dy_session y) \<Longrightarrow>
    pq_after q = se_after (dy_session y) \<Longrightarrow>
    \<forall>q' \<in> set (lw_pending w). pq_respond_to q' = pq_respond_to q \<longrightarrow> q' = q \<Longrightarrow>
    \<forall>q' \<in> set (lw_pending w). unat (pq_after q') < 2 ^ 63 \<and>
      (pq_mailbox q' = pq_mailbox q \<longrightarrow> pq_auth q' = pq_auth q) \<Longrightarrow>
    arg \<in> set (fst (build_args (lw_pending w))) \<Longrightarrow> recv_pass E now (dy_server y) arg = Inr (entries, srv) \<Longrightarrow>
    run_server_worker w (PollResponse (Inr (multirecv_reply (Some (Inr (mra_mailbox arg, entries)))))) = Some (w', replies) \<Longrightarrow>
    (pq_respond_to q, reply) \<in> set replies \<Longrightarrow>
    dm_recv_turn E now_s now_ns dir reply (dy_session y) (dy_client y) = (touched, se, db) \<Longrightarrow>
    dm_step E y (y \<lparr> dy_server := srv, dy_session := se, dy_client := db,
      dy_done := dy_done y @ (case reply of Inr e \<Rightarrow> [e] | Inl _ \<Rightarrow> []) \<rparr>)"

text \<open>Where the loop starts: with the position the database holds.\<close>

definition dm_begun :: "ext \<Rightarrow> dm_sys \<Rightarrow> bool" where
  "dm_begun E y \<longleftrightarrow> (let m = se_mailbox (dy_session y); stored = filter (\<lambda>r. er_mailbox r = m) (db_entries (dy_server y)) in
     t_unique entry_key (db_entries (dy_server y)) \<and>
     (\<forall>r \<in> set (db_entries (dy_server y)). unat (er_received_at r) < 2 ^ 63) \<and>
     unat (se_after (dy_session y)) < 2 ^ 63 \<and> is_ok (load_identity E (dy_client y)) \<and>
     stored_position (dy_session y) (dy_client y) = Some (se_after (dy_session y)) \<and>
     dy_sent y = stored \<and> dy_late y = filter (\<lambda>r. er_received_at r \<le> se_after (dy_session y)) stored \<and> dy_done y = [])"

definition entry_of :: "entry_row \<Rightarrow> mailbox_entry \<Rightarrow> bool" where
  "entry_of r e \<longleftrightarrow> mbe_received_at e = er_received_at r \<and>
     mbe_message e = \<lparr> blob_kind = er_kind r, blob_inner = er_body r \<rparr>"

definition dm_inv :: "ext \<Rightarrow> dm_sys \<Rightarrow> bool" where
  "dm_inv E y \<longleftrightarrow>
     t_unique entry_key (db_entries (dy_server y)) \<and>
     (\<forall>r \<in> set (db_entries (dy_server y)). unat (er_received_at r) < 2 ^ 63) \<and>
     (\<forall>r \<in> set (db_entries (dy_server y)). er_mailbox r = se_mailbox (dy_session y) \<longrightarrow> r \<in> set (dy_sent y)) \<and>
     (\<forall>r \<in> set (dy_sent y). er_mailbox r = se_mailbox (dy_session y)) \<and>
     unat (se_after (dy_session y)) < 2 ^ 63 \<and> is_ok (load_identity E (dy_client y)) \<and>
     stored_position (dy_session y) (dy_client y) = Some (se_after (dy_session y)) \<and>
     sorted_wrt (\<lambda>e e'. mbe_received_at e < mbe_received_at e') (dy_done y) \<and>
     (\<forall>e \<in> set (dy_done y). mbe_received_at e \<le> se_after (dy_session y) \<and> (\<exists>r \<in> set (dy_sent y). entry_of r e)) \<and>
     (\<forall>r \<in> set (dy_sent y). er_expires_at r = None \<longrightarrow> r \<in> set (dy_late y) \<or> (\<exists>e \<in> set (dy_done y). entry_of r e) \<or>
       se_after (dy_session y) < er_received_at r \<and> r \<in> set (db_entries (dy_server y)))"

text \<open>What a processed entry leaves alone.\<close>

definition keeps_loop :: "client_db \<Rightarrow> client_db \<Rightarrow> bool" where
  "keeps_loop db db' \<longleftrightarrow> c_identity db' = c_identity db \<and> c_mailboxes db' = c_mailboxes db"

lemma root_hash_keeps_loop:
  "get_user_root_hash E now dir u db = (r, db') \<Longrightarrow> keeps_loop db db'"
  by (auto simp: keeps_loop_def get_user_root_hash_def cached_user_descriptor_def call_def transact_def
      store_cached_descriptor_def split: sum.splits option.splits if_splits prod.splits)

lemma store_received_keeps_loop:
  assumes "store_received E now_ns ctype cp sender content rcv db = (r, db')"
  shows "keeps_loop db db'"
proof -
  have "keeps_loop d (note_attachment E u mime body d)" for d u mime body
    by (auto simp: keeps_loop_def note_attachment_def store_attachment_root_def Let_def and_then_def
        split: option.split sum.split)
  moreover have "ensure_convo_id now_ns ctype cp d = Inr (i, d') \<Longrightarrow> keeps_loop d d'" for d i d'
    by (auto simp: keeps_loop_def ensure_convo_id_def Let_def split: option.splits if_splits)
  ultimately show ?thesis
    using assms by (fastforce simp: store_received_def call_def transact_def ignore_message_def keeps_loop_def
        split: sum.splits prod.splits)
qed

lemma process_entry_keeps:
  assumes "process_mailbox_entry E now now_ns dir n m entry db = (r, db')" and "is_ok (load_identity E db)"
  shows "keeps_loop (update_mailbox_after n m (mbe_received_at entry) db) db'"
proof -
  let ?db1 = "update_mailbox_after n m (mbe_received_at entry) db"
  define P where "P = (\<lambda>(r :: anyhow + unit, db'). keeps_loop ?db1 db')"
  have base: "P (q, d)" if "keeps_loop ?db1 d" for q d using that by (simp add: P_def)
  have refl: "keeps_loop d d" for d by (simp add: keeps_loop_def)
  have store: "P (store_received E now_ns ctype cp sender content rcv db2)"
    if "get_user_root_hash E now dir u ?db1 = (Inr root, db2)" for ctype cp sender content rcv u root db2
  proof -
    obtain r3 db3 where st: "store_received E now_ns ctype cp sender content rcv db2 = (r3, db3)" by fastforce
    from root_hash_keeps_loop [OF that] store_received_keeps_loop [OF st] show ?thesis
      by (simp add: st P_def keeps_loop_def)
  qed
  obtain identity where "load_identity E db = Inr identity" using assms(2) by (cases "load_identity E db") auto
  then have "P (process_mailbox_entry E now now_ns dir n m entry db)"
    by (auto simp: process_mailbox_entry_def Let_def call_done refl root_hash_keeps_loop intro: base intro!: store
        split: sum.split call_split recipient.split)
  with assms(1) show ?thesis by (simp add: P_def)
qed

lemma recv_pass_entry:
  assumes "recv_pass E now db arg = Inr (entries, srv)" and "e \<in> set entries"
  shows "\<exists>r \<in> set (db_entries db). er_mailbox r = mra_mailbox arg \<and> entry_of r e"
    and "srv = purge_expired_entries db now"
proof -
  let ?rows = "recv_rows srv (mra_mailbox arg) (mra_after arg) now"
  let ?f = "\<lambda>r. (er_received_at r, \<lparr> blob_kind = er_kind r, blob_inner = er_body r \<rparr>)"
  from assms(1) show srv: "srv = purge_expired_entries db now"
    by (auto simp: recv_pass_def Let_def split: if_splits)
  from assms(1) have "rows_to_entries ?rows = Inr entries"
    by (auto simp: recv_pass_def Let_def split: if_splits)
  from arg_cong [OF rows_to_entries_map [OF this], of set]
  have img: "(\<lambda>e. (mbe_received_at e, mbe_message e)) ` set entries = ?f ` set ?rows" by simp
  have "(mbe_received_at e, mbe_message e) \<in> ?f ` set ?rows"
    unfolding img [symmetric] using assms(2) by (rule imageI)
  then obtain r where "r \<in> set ?rows" "entry_of r e" by (auto simp: entry_of_def)
  with recv_rows_subset [OF this(1)] show "\<exists>r \<in> set (db_entries db). er_mailbox r = mra_mailbox arg \<and> entry_of r e"
    by (auto simp: unread_def srv set_purged)
qed

lemma mailbox_send_row:
  assumes "mailbox_send E now db auth m message ttl = Inr (t, srv)"
  obtains r where "db_entries srv = db_entries (purge_expired_entries db now) @ [r]" "er_mailbox r = m"
    "er_received_at r = now" "entry_key r \<notin> entry_key ` set (db_entries (purge_expired_entries db now))"
  using assms by (auto simp: mailbox_send_def Let_def t_insert_def entry_key_def split: if_splits)

lemma load_position:
  "load_mailbox_after (se_server_name se) (se_mailbox se) db = (case stored_position se db of Some a \<Rightarrow> a | None \<Rightarrow> 0)"
  by (simp add: load_mailbox_after_def stored_position_def session_key_def split: option.split)

lemma stored_position_simps:
  "stored_position se db = Some a \<Longrightarrow> stored_position se (ensure_mailbox_state n m i db) = Some a"
  "stored_position se db = Some a \<Longrightarrow>
     stored_position se (update_mailbox_after (se_server_name se) (se_mailbox se) b db) = Some b"
  "keeps_loop db db' \<Longrightarrow> stored_position se db' = stored_position se db"
  "se_server_name se = se_server_name se' \<Longrightarrow> se_mailbox se = se_mailbox se' \<Longrightarrow> stored_position se = stored_position se'"
proof -
  have k: "mailbox_key (r \<lparr> mx_after := x \<rparr>) = mailbox_key r" for r x by (simp add: mailbox_key_def)
  show "stored_position se db = Some a \<Longrightarrow> stored_position se (ensure_mailbox_state n m i db) = Some a"
    by (auto simp: stored_position_def ensure_mailbox_state_def t_get_ignore)
  show "stored_position se db = Some a \<Longrightarrow>
     stored_position se (update_mailbox_after (se_server_name se) (se_mailbox se) b db) = Some b"
    by (auto simp: stored_position_def update_mailbox_after_def session_key_def t_get_update [where key = mailbox_key, OF k])
qed (simp_all add: stored_position_def keeps_loop_def session_key_def fun_eq_iff)

lemma keeps_identity: "keeps_loop db db' \<Longrightarrow> load_identity E db' = load_identity E db"
  by (simp add: keeps_loop_def load_identity_def)

lemma dm_resume_position:
  assumes "dm_resume (se_server_name se) auth (se_mailbox se) db = (Inr se', db')" and "stored_position se db = Some a"
  shows "se_mailbox se' = se_mailbox se" and "se_server_name se' = se_server_name se" and "se_after se' = a"
    and "stored_position se' db' = Some a" and "load_identity E db' = load_identity E db"
proof -
  let ?db = "ensure_mailbox_state (se_server_name se) (se_mailbox se) 0 db"
  have "stored_position se ?db = Some a" by (rule stored_position_simps(1) [OF assms(2)])
  moreover from this have se': "se' = \<lparr> se_server_name = se_server_name se, se_auth = auth, se_mailbox = se_mailbox se,
      se_after = a \<rparr>" "db' = ?db"
    using assms(1) by (auto simp: dm_resume_def load_position)
  ultimately show "stored_position se' db' = Some a" using stored_position_simps(4) [of se' se] by simp
  show "se_mailbox se' = se_mailbox se" "se_server_name se' = se_server_name se" "se_after se' = a"
    by (simp_all add: se')
  show "load_identity E db' = load_identity E db" by (simp add: se' ensure_mailbox_state_def load_identity_def)
qed

text \<open>The least unread entry is processed next, so the position passes nothing that was not processed.\<close>

lemma dm_poll_reply:
  assumes "q \<in> set (lw_pending w)"
    and only: "\<forall>q' \<in> set (lw_pending w). pq_respond_to q' = pq_respond_to q \<longrightarrow> q' = q"
    and small: "\<forall>q' \<in> set (lw_pending w). unat (pq_after q') < 2 ^ 63 \<and> (pq_mailbox q' = pq_mailbox q \<longrightarrow> pq_auth q' = pq_auth q)"
      "\<forall>r \<in> set (db_entries db). unat (er_received_at r) < 2 ^ 63"
    and arg: "arg \<in> set (fst (build_args (lw_pending w)))" and pass: "recv_pass E now db arg = Inr (entries, srv)"
    and run: "run_server_worker w (PollResponse (Inr (multirecv_reply (Some (Inr (mra_mailbox arg, entries)))))) = Some (w', replies)"
    and reply: "(pq_respond_to q, reply) \<in> set replies"
  obtains e where "reply = Inr e" "e \<in> set entries" "mra_mailbox arg = pq_mailbox q" "pq_after q < mbe_received_at e"
    "\<forall>r \<in> set (db_entries db). unread (pq_mailbox q) (pq_after q) now r \<longrightarrow> mbe_received_at e \<le> er_received_at r"
proof -
  note reply = reply [unfolded multirecv_replies [OF run]]
  from reply obtain q' where "q' \<in> set (lw_pending w)" "pq_respond_to q' = pq_respond_to q" "pq_mailbox q' = mra_mailbox arg"
    by (auto simp: poll_replies_def poll_answer_def split: if_splits)
  with only have m: "pq_mailbox q = mra_mailbox arg" by blast
  obtain q0 where q0: "q0 \<in> set (lw_pending w)" "poll_key q0 = (mra_mailbox arg, mra_auth arg)"
    using build_args_owner [OF arg] by blast
  with m small(1) have auth: "\<forall>q' \<in> set (lw_pending w). pq_mailbox q' = mra_mailbox arg \<longrightarrow> pq_auth q' = mra_auth arg"
    by (auto simp: poll_key_def)
  from small(1) have "\<forall>q' \<in> set (lw_pending w). unat (pq_after q') < 2 ^ 63" by blast
  from poll_reply [OF arg pass auth this small(2) reply] only m that show ?thesis by metis
qed

lemma unread_iff:
  assumes "unat after < 2 ^ 63" and "unat (er_received_at r) < 2 ^ 63" and "er_expires_at r = None"
  shows "unread m after now r \<longleftrightarrow> er_mailbox r = m \<and> after < er_received_at r"
  using assms by (simp add: unread_def alive_def sint_less_small)

lemma dm_turn_position:
  assumes "dm_recv_turn E now_s now_ns dir (Inr e) se db = (touched, se', db')"
    and "stored_position se db = Some a" and "is_ok (load_identity E db)"
  shows "se_mailbox se' = se_mailbox se" and "se_after se' = mbe_received_at e"
    and "stored_position se' db' = Some (mbe_received_at e)" and "is_ok (load_identity E db')"
proof -
  let ?db1 = "update_mailbox_after (se_server_name se) (se_mailbox se) (mbe_received_at e) db"
  obtain r where "process_mailbox_entry E now_s now_ns dir (se_server_name se) (se_mailbox se) e db = (r, db')"
    using assms(1) by (cases "process_mailbox_entry E now_s now_ns dir (se_server_name se) (se_mailbox se) e db")
      (simp add: dm_recv_turn_def)
  from process_entry_keeps [OF this assms(3)] have k: "keeps_loop ?db1 db'" .
  from assms(1) have se': "se' = se \<lparr> se_after := mbe_received_at e \<rparr>" by (simp add: dm_recv_turn_def)
  then show "se_mailbox se' = se_mailbox se" "se_after se' = mbe_received_at e" by simp_all
  have "stored_position se db' = Some (mbe_received_at e)"
    using stored_position_simps(2) [OF assms(2)] stored_position_simps(3) [OF k] by simp
  then show "stored_position se' db' = Some (mbe_received_at e)"
    using stored_position_simps(4) [of se' se] se' by simp
  show "is_ok (load_identity E db')" using keeps_identity [OF k] assms(3) by simp
qed

lemma dm_invI:
  assumes "t_unique entry_key (db_entries (dy_server y))"
    and "\<forall>r \<in> set (db_entries (dy_server y)). unat (er_received_at r) < 2 ^ 63 \<and>
      (er_mailbox r = se_mailbox (dy_session y) \<longrightarrow> r \<in> set (dy_sent y))"
    and "\<forall>r \<in> set (dy_sent y). er_mailbox r = se_mailbox (dy_session y)"
    and "unat (se_after (dy_session y)) < 2 ^ 63" and "is_ok (load_identity E (dy_client y))"
    and "stored_position (dy_session y) (dy_client y) = Some (se_after (dy_session y))"
    and "sorted_wrt (\<lambda>e e'. mbe_received_at e < mbe_received_at e') (dy_done y)"
    and "\<forall>e \<in> set (dy_done y). mbe_received_at e \<le> se_after (dy_session y) \<and> (\<exists>r \<in> set (dy_sent y). entry_of r e)"
    and "\<And>r. r \<in> set (dy_sent y) \<Longrightarrow> er_expires_at r = None \<Longrightarrow> r \<in> set (dy_late y) \<or>
      (\<exists>e \<in> set (dy_done y). entry_of r e) \<or> se_after (dy_session y) < er_received_at r \<and> r \<in> set (db_entries (dy_server y))"
  shows "dm_inv E y"
  using assms unfolding dm_inv_def by blast

lemma dm_invD:
  assumes "dm_inv E y"
  shows "t_unique entry_key (db_entries (dy_server y))"
    and "r \<in> set (db_entries (dy_server y)) \<Longrightarrow> unat (er_received_at r) < 2 ^ 63"
    and "r \<in> set (db_entries (dy_server y)) \<Longrightarrow> er_mailbox r = se_mailbox (dy_session y) \<Longrightarrow> r \<in> set (dy_sent y)"
    and "r \<in> set (dy_sent y) \<Longrightarrow> er_mailbox r = se_mailbox (dy_session y)"
    and "unat (se_after (dy_session y)) < 2 ^ 63" and "is_ok (load_identity E (dy_client y))"
    and "stored_position (dy_session y) (dy_client y) = Some (se_after (dy_session y))"
    and "sorted_wrt (\<lambda>e e'. mbe_received_at e < mbe_received_at e') (dy_done y)"
    and "e \<in> set (dy_done y) \<Longrightarrow> mbe_received_at e \<le> se_after (dy_session y)"
    and "e \<in> set (dy_done y) \<Longrightarrow> \<exists>r \<in> set (dy_sent y). entry_of r e"
    and "r \<in> set (dy_sent y) \<Longrightarrow> er_expires_at r = None \<Longrightarrow> r \<in> set (dy_late y) \<or>
      (\<exists>e \<in> set (dy_done y). entry_of r e) \<or> se_after (dy_session y) < er_received_at r \<and> r \<in> set (db_entries (dy_server y))"
  using assms unfolding dm_inv_def by blast+

lemma dm_begun_inv: "dm_begun E y \<Longrightarrow> dm_inv E y"
  by (auto simp: dm_begun_def dm_inv_def Let_def not_le)

text \<open>A send: the new row has the time of the send, which no row of the mailbox has.\<close>

lemma dm_inv_send:
  assumes inv: "dm_inv E y" and send: "mailbox_send E now (dy_server y) auth m message ttl = Inr (t, srv)" and now: "unat now < 2 ^ 63"
    and new: "new = (if m = se_mailbox (dy_session y) then [last (db_entries srv)] else [])"
  shows "dm_inv E (y \<lparr> dy_server := srv, dy_sent := dy_sent y @ new,
    dy_late := dy_late y @ filter (\<lambda>r. er_received_at r \<le> se_after (dy_session y)) new \<rparr>)"
proof -
  obtain r where r: "db_entries srv = db_entries (purge_expired_entries (dy_server y) now) @ [r]" "er_mailbox r = m"
    "er_received_at r = now" "entry_key r \<notin> entry_key ` set (db_entries (purge_expired_entries (dy_server y) now))"
    by (rule mailbox_send_row [OF send])
  have uniq: "t_unique entry_key (db_entries srv)"
    using inv r(4) by (simp add: r(1) dm_inv_def t_unique_def purge_expired_entries_def t_delete_def distinct_map_filter)
  have set: "set (db_entries srv) = insert r {r \<in> set (db_entries (dy_server y)). alive now (er_expires_at r)}"
    by (simp add: r(1) set_purged)
  have "new = (if m = se_mailbox (dy_session y) then [r] else [])" by (simp add: new r(1))
  then show ?thesis
    using inv uniq now r(2,3) by (auto simp: dm_inv_def set alive_def not_le)
qed

lemma dm_inv_poll:
  assumes inv: "dm_inv E y" and entry: "mra_mailbox arg = se_mailbox (dy_session y)" "e \<in> set entries"
      "se_after (dy_session y) < mbe_received_at e"
      "\<forall>r \<in> set (db_entries (dy_server y)). unread (se_mailbox (dy_session y)) (se_after (dy_session y)) now r \<longrightarrow>
        mbe_received_at e \<le> er_received_at r"
    and pass: "recv_pass E now (dy_server y) arg = Inr (entries, srv)"
    and turn: "dm_recv_turn E now_s now_ns dir (Inr e) (dy_session y) (dy_client y) = (touched, se, db)"
  shows "dm_inv E (y \<lparr> dy_server := srv, dy_session := se, dy_client := db, dy_done := dy_done y @ [e] \<rparr>)"
proof -
  let ?after = "se_after (dy_session y)" and ?m = "se_mailbox (dy_session y)"
  obtain r where r: "r \<in> set (db_entries (dy_server y))" "er_mailbox r = ?m" "entry_of r e"
    using recv_pass_entry(1) [OF pass entry(2)] entry(1) by auto
  have srv: "srv = purge_expired_entries (dy_server y) now" by (rule recv_pass_entry(2) [OF pass entry(2)])
  note I = dm_invD [OF inv]
  note se = dm_turn_position [OF turn I(7,6)]
  have left: "(\<exists>e' \<in> set (dy_done y @ [e]). entry_of q e') \<or> mbe_received_at e < er_received_at q"
    if q: "q \<in> set (db_entries (dy_server y))" "er_mailbox q = ?m" "er_expires_at q = None" "?after < er_received_at q" for q
  proof (cases "er_received_at q = mbe_received_at e")
    case True
    then have "entry_key q = entry_key r" using q r by (simp add: entry_key_def entry_of_def)
    then have "q = r" using I(1) q(1) r(1) by (auto simp: t_unique_def distinct_map dest: inj_onD)
    with r(3) show ?thesis by simp
  next
    case False
    have "unread ?m ?after now q"
      using unread_iff [OF I(5) I(2) [OF q(1)] q(3)] q(2,4) by blast
    then have "mbe_received_at e \<le> er_received_at q" using entry(4) q(1) by blast
    with False have "mbe_received_at e < er_received_at q" by (metis le_less)
    then show ?thesis ..
  qed
  have e: "unat (mbe_received_at e) < 2 ^ 63" "r \<in> set (dy_sent y)"
    using I(2) [OF r(1)] I(3) [OF r(1,2)] r(3) by (simp_all add: entry_of_def)
  have uniq: "t_unique entry_key (db_entries srv)" using I(1) by (simp add: srv purge_expired_entries_def)
  have older: "mbe_received_at e' < mbe_received_at e" if "e' \<in> set (dy_done y)" for e'
    using I(9) [OF that] entry(3) by (rule le_less_trans)
  have keep: "q \<in> set (dy_late y) \<or> (\<exists>e' \<in> set (dy_done y @ [e]). entry_of q e') \<or>
      mbe_received_at e < er_received_at q \<and> q \<in> set (db_entries srv)"
    if q: "q \<in> set (dy_sent y)" "er_expires_at q = None" for q
  proof -
    from I(11) [OF q] I(4) [OF q(1)] consider "q \<in> set (dy_late y)" | "\<exists>e' \<in> set (dy_done y). entry_of q e'"
      | "?after < er_received_at q" "q \<in> set (db_entries (dy_server y))" "er_mailbox q = ?m"
      by blast
    then show ?thesis
      using left [of q] q(2) by cases (auto simp: srv set_purged alive_def)
  qed
  have "\<forall>e' \<in> set (dy_done y @ [e]). mbe_received_at e' \<le> mbe_received_at e \<and> (\<exists>r \<in> set (dy_sent y). entry_of r e')"
    using older I(10) e(2) r(3) by (auto intro: less_imp_le)
  moreover have "sorted_wrt (\<lambda>e e'. mbe_received_at e < mbe_received_at e') (dy_done y @ [e])"
    using I(8) older by (simp add: sorted_wrt_append)
  moreover have "\<forall>q \<in> set (db_entries srv). unat (er_received_at q) < 2 ^ 63 \<and> (er_mailbox q = ?m \<longrightarrow> q \<in> set (dy_sent y))"
    using I(2,3) by (simp add: srv set_purged)
  moreover have "\<forall>q \<in> set (dy_sent y). er_mailbox q = ?m" using I(4) by blast
  ultimately show ?thesis
    using se e(1) uniq keep by (intro dm_invI) simp_all
qed

lemma dm_step_inv: "dm_step E y y' \<Longrightarrow> dm_inv E y \<Longrightarrow> dm_inv E y'"
proof (induction rule: dm_step.induct)
  case (send now y auth m message ttl t srv new)
  then show ?case using dm_inv_send by blast
next
  case (restart y auth se db)
  note I = dm_invD [OF restart.prems]
  from dm_resume_position [OF restart.hyps I(7)] restart.prems show ?case by (simp add: dm_inv_def)
next
  case (poll q w y arg now entries srv w' replies reply now_s now_ns dir touched se db)
  have "\<forall>r \<in> set (db_entries (dy_server y)). unat (er_received_at r) < 2 ^ 63"
    using dm_invD(2) [OF poll.prems] by blast
  from dm_poll_reply [OF poll.hyps(1,5,6) this poll.hyps(7-10)] obtain e where e: "reply = Inr e" "e \<in> set entries"
    "mra_mailbox arg = pq_mailbox q" "pq_after q < mbe_received_at e"
    "\<forall>r \<in> set (db_entries (dy_server y)). unread (pq_mailbox q) (pq_after q) now r \<longrightarrow> mbe_received_at e \<le> er_received_at r"
    by metis
  show ?case
    using dm_inv_poll [OF poll.prems e(3,2,4,5) [unfolded poll.hyps(2,4)] poll.hyps(8) poll.hyps(11) [unfolded e(1)]] e(1)
    by simp
qed (simp_all add: dm_inv_def)

section \<open>Properties\<close>

text \<open>C39: what one turn of the message loop tells the interface. It names exactly the conversations that
  have a message with a new row number or a time of receipt above the greatest seen, and exactly the
  groups whose roster version rose or is new; and it remembers enough that a second turn on an
  unchanged database says nothing. A time of receipt that is written later than a greater one, the
  second clause shows, is never announced.\<close>

theorem message_events_exact:
  "(\<forall>x. ConvoUpdated x \<in> set (snd (message_event_turn E db s)) \<longleftrightarrow>
      (\<exists>(m, c) \<in> set (joined_messages db). parse_convo_id E (cv_type c) (cv_counterparty c) = Some x \<and>
        (es_last_id s < cm_id m \<or> received_after (es_last_received s) m))) \<and>
   (\<forall>g. GroupUpdated g \<in> set (snd (message_event_turn E db s)) \<longleftrightarrow>
      (\<exists>v. map_of (load_group_versions db) g = Some v \<and> map_of (es_versions s) g \<noteq> Some v \<and>
        \<not> (\<exists>prev. map_of (es_versions s) g = Some prev \<and> v < prev))) \<and>
   message_event_turn E db (fst (message_event_turn E db s)) = (fst (message_event_turn E db s), [])"
proof (intro conjI allI)
  fix x
  show "ConvoUpdated x \<in> set (snd (message_event_turn E db s)) \<longleftrightarrow>
      (\<exists>(m, c) \<in> set (joined_messages db). parse_convo_id E (cv_type c) (cv_counterparty c) = Some x \<and>
        (es_last_id s < cm_id m \<or> received_after (es_last_received s) m))"
    unfolding announced(1) new_message_convos_spec(1) new_received_convos_spec(1) split_beta by blast
next
  fix g
  show "GroupUpdated g \<in> set (snd (message_event_turn E db s)) \<longleftrightarrow>
      (\<exists>v. map_of (load_group_versions db) g = Some v \<and> map_of (es_versions s) g \<noteq> Some v \<and>
        \<not> (\<exists>prev. map_of (es_versions s) g = Some prev \<and> v < prev))"
    unfolding announced(2) by (auto simp: updated_versions_spec(2) split: option.splits)
next
  let ?s = "fst (message_event_turn E db s)"
  note past = message_turn_positions [of _ _ db E s]
  have id: "{cm_id m |m c. (m, c) \<in> set (joined_messages db) \<and> es_last_id ?s < cm_id m} = {}"
    and rc: "{received_time m |m c. (m, c) \<in> set (joined_messages db) \<and> received_after (es_last_received ?s) m} = {}"
    using past by fastforce+
  have v: "es_versions ?s = load_group_versions db" by (simp add: message_turn_sel)
  have "fst (message_event_turn E db ?s) = ?s"
    unfolding message_turn_sel(1) [of E db ?s] new_message_convos_spec(2) new_received_convos_spec(2) id rc
    using v by simp
  moreover have none: "(\<And>x. x \<notin> set l) \<Longrightarrow> l = []" for l :: "'z list" by (cases l) auto
  have "snd (new_message_convos E db (es_last_id ?s)) = []"
    by (rule none) (unfold new_message_convos_spec(1), use past(1) in fastforce)
  moreover have "snd (new_received_convos E db (es_last_received ?s)) = []"
    by (rule none) (unfold new_received_convos_spec(1), use past(2) in fastforce)
  moreover have "snd (updated_group_versions db (es_versions ?s)) = []"
    by (rule none) (simp add: v updated_versions_spec(2))
  ultimately show "message_event_turn E db ?s = (?s, [])"
    by (intro prod_eqI) (simp_all add: message_turn_sel(2) [of E db ?s])
qed


definition demo_direct_row :: entry_row where
  "demo_direct_row = \<lparr> er_mailbox = demo_mailbox, er_entry_id = 1, er_received_at = 3, er_kind = ''k'', er_body = [7],
     er_sender = None, er_expires_at = None \<rparr>"

definition demo_dm_sys :: "client_db \<Rightarrow> dm_sys" where
  "demo_dm_sys db = \<lparr> dy_server = demo_mail_db \<lparr> db_entries := [demo_direct_row] \<rparr>,
     dy_client = db \<lparr> c_mailboxes := [\<lparr> mx_server_name = ''~serv_01'', mx_mailbox_id = mailbox_column demo_mailbox, mx_after = 2 \<rparr>] \<rparr>,
     dy_session = \<lparr> se_server_name = ServerName ''~serv_01'', se_auth = AuthToken 5, se_mailbox = demo_mailbox, se_after = 2 \<rparr>,
     dy_sent = [demo_direct_row], dy_late = [], dy_done = [] \<rparr>"

lemma demo_dm_polled:
  "\<exists>y e. dm_step demo_ext (demo_dm_sys db) y \<and> dy_done y = [e] \<and> dy_sent y = [demo_direct_row]"
proof -
  let ?y = "demo_dm_sys db"
  let ?arg = "\<lparr> mra_auth = AuthToken 5, mra_mailbox = demo_mailbox, mra_after = 2 \<rparr>"
  let ?q = "demo_poll 1 2"
  let ?w = "worker_init \<lparr> lw_pending := [?q] \<rparr>"
  let ?e = "\<lparr> mbe_message = \<lparr> blob_kind = ''k'', blob_inner = [7] \<rparr>, mbe_received_at = 3, mbe_sender_auth_token_hash = None \<rparr>"
  have right: "right_of demo_ext (dy_server ?y) demo_mailbox (token_hash demo_ext (AuthToken 5)) Recv"
    by (simp add: demo_dm_sys_def right_of_def entry_right_def load_acl_hash_def demo_mail_db_def t_get_simps acl_key_def)
  have "unread demo_mailbox 2 10 demo_direct_row" by (simp add: unread_def alive_def demo_direct_row_def)
  then have page: "recv_pass demo_ext 10 (dy_server ?y) ?arg = Inr ([?e], purge_expired_entries (dy_server ?y) 10)"
    using right by (simp add: recv_pass_def Let_def recv_rows_def purge_expired_entries_def t_delete_def demo_dm_sys_def
        demo_direct_row_def alive_def)
  have arg: "?arg \<in> set (fst (build_args (lw_pending ?w)))"
    by (simp add: build_args_def demo_poll_def poll_key_def Let_def)
  obtain w' replies where run: "run_server_worker ?w (PollResponse (Inr (multirecv_reply (Some (Inr (mra_mailbox ?arg, [?e])))))) =
      Some (w', replies)"
    by (simp add: run_server_worker_def worker_init_def case_prod_beta)
  have reply: "(pq_respond_to ?q, Inr ?e) \<in> set replies"
    unfolding multirecv_replies [OF run] by (simp add: poll_replies_def poll_answer_def demo_poll_def)
  obtain touched se db' where turn: "dm_recv_turn demo_ext 0 0 demo_dir_lookup (Inr ?e) (dy_session ?y) (dy_client ?y) = (touched, se, db')"
    by (metis surj_pair)
  let ?y' = "?y \<lparr> dy_server := purge_expired_entries (dy_server ?y) 10, dy_session := se, dy_client := db',
      dy_done := dy_done ?y @ (case Inr ?e :: anyhow + mailbox_entry of Inr e \<Rightarrow> [e] | Inl _ \<Rightarrow> []) \<rparr>"
  have "dm_step demo_ext ?y ?y'"
    by (rule dm_step.poll [OF _ _ _ _ _ _ arg page run reply turn]) (simp_all add: demo_dm_sys_def demo_poll_def)
  moreover have "dy_done ?y' = [?e]" "dy_sent ?y' = [demo_direct_row]" by (simp_all add: demo_dm_sys_def)
  ultimately show ?thesis by blast
qed


text \<open>C40: a task of the client never sleeps through a change, with one exception. When a listener is
  registered with the notifier, its generation is behind and no caller of \<open>touch\<close> is still at work, then
  a wake-up fell between the listener's look at the generation and its registration; that change is seen
  only when the next one wakes the listener.\<close>

theorem notify_window:
  assumes "notify_run notify_init evs = Some n" and "i < length (dn_listeners n)"
    and "dl_phase (dn_listeners n ! i) = Parked"
    and "dl_last_seen (dn_listeners n ! i) \<noteq> dn_gen n" and "dn_waking n = 0"
  shows "\<exists>a b c. evs = a @ Check i # b @ Park i # c \<and> Wake \<in> set b \<and> Wake \<notin> set c"
  using notify_window_inv [OF assms(1,2)] assms(3-5) by (auto simp: missed_none_def)

theorem notify_window_witness:
  "\<exists>n. notify_run notify_init [New, Wait 0, Check 0, Bump, Wake, Park 0] = Some n \<and> dl_last_seen (dn_listeners n ! 0) \<noteq> dn_gen n \<and>
     (\<exists>a b c. [New, Wait 0, Check 0, Bump, Wake, Park 0] = a @ Check 0 # b @ Park 0 # c \<and> Wake \<in> set b \<and> Wake \<notin> set c)"
proof -
  obtain n where n: "notify_run notify_init [New, Wait 0, Check 0, Bump, Wake, Park 0] = Some n"
    "0 < length (dn_listeners n)" "dl_phase (dn_listeners n ! 0) = Parked" "dl_last_seen (dn_listeners n ! 0) \<noteq> dn_gen n"
    "dn_waking n = 0"
    by (simp add: notify_init_def listener_new_def on_listener_def check_generation_def notify_waiters_def)
  from notify_window [OF n] n(1,4) show ?thesis by blast
qed

text \<open>The receive tasks follow the stored groups. After a synchronisation exactly the groups of the
  database have a task, each one; a task that runs is kept, and one that has ended or is missing is
  started again.\<close>

theorem group_tasks_follow:
  assumes "distinct (map fst tasks)" and "load_groups E db = Inr groups"
  shows "fst (sync_group_tasks E finished spawn db tasks) = Inr () \<and>
    distinct (map fst (snd (sync_group_tasks E finished spawn db tasks))) \<and>
    map_of (snd (sync_group_tasks E finished spawn db tasks)) c =
      (case c of Direct _ \<Rightarrow> None
       | Group g \<Rightarrow> if g \<notin> gr_group_id ` set groups then None
           else (case map_of tasks c of
               Some handle \<Rightarrow> Some (if finished handle then spawn g else handle)
             | None \<Rightarrow> Some (spawn g)))"
proof -
  let ?kept = "filter (\<lambda>(c, handle). \<not> finished handle) tasks"
  let ?live = "set (map (\<lambda>grp. Group (gr_group_id grp)) groups)"
  have sync: "sync_group_tasks E finished spawn db tasks = (Inr (), filter (\<lambda>(c, handle). c \<in> ?live)
      (fold (\<lambda>grp t. hm_entry (Group (gr_group_id grp)) (\<lambda>h. h) (spawn (gr_group_id grp)) t) groups ?kept))"
    by (simp add: sync_group_tasks_def assms(2) Let_def)
  have "distinct (map fst ?kept)" by (rule distinct_filter_keys [OF assms(1)])
  from distinct_filter_keys [OF spawn_missing(2) [OF this]] show ?thesis
    unfolding sync
    by (auto simp: map_of_filter_key spawn_missing(1) map_of_filter_value [OF assms(1)] image_iff
        split: convo_id.split option.split)
qed

theorem group_tasks_follow_witness:
  "map_of (snd (sync_group_tasks demo_ext (\<lambda>h. h = (0 :: nat)) (\<lambda>g. 1) empty_client_db [(Group demo_group, 2)])) (Group demo_group) = None"
proof -
  have "load_groups demo_ext empty_client_db = Inr []" by (simp add: load_groups_def empty_client_db_def)
  from group_tasks_follow [OF _ this, of "[(Group demo_group, 2 :: nat)]" "\<lambda>h. h = 0" "\<lambda>g. 1" "Group demo_group"] show ?thesis by simp
qed

end
