(* ===== verification/ClientSteps.thy ===== *)
theory ClientSteps
  imports ClientLoops
begin

text \<open>
  Everything the client does to its database, as one step relation over the handlers of the other
  theories, and what holds of the database whatever happens. \<open>preserves\<close> is the statement that a handler
  preserves a predicate, with a rule per construct in \<open>eff_rule\<close>. The locale \<open>client_store\<close> is the
  interface between the tables and the handlers: its assumptions say that the few primitive writes
  preserve a predicate, its lemmas that every handler does. \<open>ClientTyping\<close> interprets it on the typing
  of the database and on the history of a message.
\<close>

section \<open>Predicates a handler preserves\<close>

named_theorems eff_rule \<open>one rule per construct of a handler\<close>

definition preserves :: "('s \<Rightarrow> bool) \<Rightarrow> ('s \<Rightarrow> 'r \<times> 's) \<Rightarrow> bool" where
  "preserves I m \<longleftrightarrow> (\<forall>s. I s \<longrightarrow> I (snd (m s)))"

lemma preservesI: "(\<And>s r s'. I s \<Longrightarrow> m s = (r, s') \<Longrightarrow> I s') \<Longrightarrow> preserves I m"
  by (metis preserves_def prod.collapse)

lemma preservesD: "preserves I m \<Longrightarrow> I s \<Longrightarrow> m s = (r, s') \<Longrightarrow> I s'"
  by (metis preserves_def snd_conv)

lemma preserves_call [eff_rule]:
  assumes "preserves I m" and "\<And>s x s'. I s \<Longrightarrow> m s = (Inr x, s') \<Longrightarrow> preserves I (k x)"
  shows "preserves I (call m k)"
proof (rule preservesI)
  fix s r s'
  assume s: "I s" and run: "call m k s = (r, s')"
  obtain r1 s1 where m: "m s = (r1, s1)" by (cases "m s")
  have "I s1" by (rule preservesD [OF assms(1) s m])
  then show "I s'" using run m assms(2) [OF s] by (cases r1) (auto simp: call_def intro: preservesD)
qed

lemma preserves_icall [eff_rule]:
  assumes "preserves I m" and "\<And>s x s'. I s \<Longrightarrow> m s = (Inr x, s') \<Longrightarrow> preserves I (k x)"
  shows "preserves I (icall m k)"
proof (rule preservesI)
  fix s r s'
  assume s: "I s" and run: "icall m k s = (r, s')"
  obtain r1 s1 where m: "m s = (r1, s1)" by (cases "m s")
  have "I s1" by (rule preservesD [OF assms(1) s m])
  then show "I s'" using run m assms(2) [OF s] by (cases r1) (auto simp: icall_def intro: preservesD)
qed

lemma preserves_leaf [eff_rule]:
  "preserves I (done_with r)" "preserves I (idone q)" "preserves I (read_db f)" "preserves I (\<lambda>s. (g s, s))"
  by (simp_all add: preserves_def read_db_def)

lemma preserves_wrapped [eff_rule]:
  "preserves I m \<Longrightarrow> preserves I (or_other m)" "preserves I m \<Longrightarrow> preserves I (or_mapped m)"
  "preserves I m \<Longrightarrow> preserves I (attempt m)" "preserves I m \<Longrightarrow> preserves I (\<lambda>s. (r, snd (m s)))"
  by (auto simp: or_other_def or_mapped_def attempt_def intro!: preservesI dest: preservesD split: prod.splits)
    (metis preservesD prod.collapse)

lemma preserves_recover [eff_rule]:
  assumes "preserves I m" and "\<And>e. preserves I (h e)"
  shows "preserves I (recover m h)"
proof (rule preservesI)
  fix s r s'
  assume s: "I s" and run: "recover m h s = (r, s')"
  obtain r1 s1 where m: "m s = (r1, s1)" by (cases "m s")
  have "I s1" by (rule preservesD [OF assms(1) s m])
  then show "I s'" using run m assms(2) by (cases r1) (auto simp: recover_def intro: preservesD)
qed

lemma preserves_if [eff_rule]:
  "(b \<Longrightarrow> preserves I m) \<Longrightarrow> (\<not> b \<Longrightarrow> preserves I n) \<Longrightarrow> preserves I (if b then m else n)"
  by simp

lemma preserves_cases [eff_rule]:
  "(\<And>x y. p = (x, y) \<Longrightarrow> preserves I (h x y)) \<Longrightarrow> preserves I (case p of (x, y) \<Rightarrow> h x y)"
  "(z = None \<Longrightarrow> preserves I m) \<Longrightarrow> (\<And>x. z = Some x \<Longrightarrow> preserves I (q x)) \<Longrightarrow>
     preserves I (case z of None \<Rightarrow> m | Some x \<Rightarrow> q x)"
  "(\<And>u. rc = RUser u \<Longrightarrow> preserves I (d u)) \<Longrightarrow> (\<And>g. rc = RGroup g \<Longrightarrow> preserves I (e g)) \<Longrightarrow>
     preserves I (case rc of RUser u \<Rightarrow> d u | RGroup g \<Rightarrow> e g)"
  "(\<And>u. c = Direct u \<Longrightarrow> preserves I (d u)) \<Longrightarrow> (\<And>g. c = Group g \<Longrightarrow> preserves I (e g)) \<Longrightarrow>
     preserves I (case c of Direct u \<Rightarrow> d u | Group g \<Rightarrow> e g)"
  by (cases p; simp) (auto split: option.split recipient.split convo_id.split)

lemma preserves_modify: "(\<And>s. I s \<Longrightarrow> I (f s)) \<Longrightarrow> preserves I (modify_by f)"
  by (simp add: preserves_def)

lemma preserves_transact: "(\<And>s x s'. I s \<Longrightarrow> t s = Inr (x, s') \<Longrightarrow> I s') \<Longrightarrow> preserves I (transact t)"
  by (auto simp: preserves_def transact_def split: sum.split)

text \<open>A handler of the database and the world, for a predicate on the database.\<close>

abbreviation on_fst :: "('a \<Rightarrow> bool) \<Rightarrow> 'a \<times> 'b \<Rightarrow> bool" where
  "on_fst I \<equiv> (\<lambda>st. I (fst st))"

lemma preserves_world [eff_rule]:
  "preserves I m \<Longrightarrow> preserves (on_fst I) (on_db m)"
  "preserves (on_fst I) (on_net n)" "preserves (on_fst I) (draw w)" "preserves (on_fst I) (clock h)"
  by (auto simp: on_net_def draw_def on_db_def clock_def intro!: preservesI dest: preservesD split: prod.splits)

lemma preserves_rpc [eff_rule]: "preserves (on_fst I) (rpc p)"
  unfolding rpc_def by (intro eff_rule)

lemma preserves_keeps: "keeps v m \<Longrightarrow> preserves (\<lambda>s. I (v s)) m"
  by (simp add: keeps_def preserves_def)

lemma preserves_retry:
  assumes "preserves I m" and "I s"
  shows "I (fst (snd (retry_backoff m s)))"
proof -
  have step: "I s \<Longrightarrow> I (snd (m s))" for s using assms(1) by (simp add: preserves_def)
  have "I (state_at m k s)" for k
    using assms(2) by (induction k arbitrary: s) (simp_all add: step)
  moreover have "\<exists>k. fst (snd (retry_backoff m s)) = state_at m k s" by (rule retry_state)
  ultimately show ?thesis by metis
qed

text \<open>What running the constructs shows of their results.\<close>

lemma eff_results:
  "(done_with r s = (Inr x, s')) \<longleftrightarrow> (r = Inr x \<and> s' = s)"
  "(idone q s = (Inr z, s')) \<longleftrightarrow> (q = Inr z \<and> s' = s)"
  "(read_db f s = (Inr x, s')) \<longleftrightarrow> (f s = Inr x \<and> s' = s)"
  "(on_db m st = (Inr y, st')) \<longleftrightarrow> (m (fst st) = (Inr y, fst st') \<and> snd st' = snd st)"
  "(clock h st = (Inr c, st')) \<longleftrightarrow> (c = h (snd st) \<and> st' = st)"
  by (cases st'; auto simp: read_db_def on_db_def clock_def split: prod.splits)+

section \<open>What decoding checks\<close>

lemma bcs_from_Some: "bcs_from E t d b = Some x \<Longrightarrow> \<exists>v. d v = Some x"
  by (auto simp: bcs_from_def bind_eq_Some_conv)

lemma json_from_Some: "json_from E t d b = Some x \<Longrightarrow> \<exists>v. d v = Some x"
  by (auto simp: json_from_def bind_eq_Some_conv)

lemma decode_as_Inr: "decode_as E t d b = Inr x \<Longrightarrow> \<exists>v. d v = Some x"
  by (auto simp: decode_as_def ok_or_Inr dest: bcs_from_Some)

lemma de_server_name_wf: "de_server_name v = Some n \<Longrightarrow> server_name_wf n"
  by (cases "de_str v") (auto simp: de_server_name_def server_name_try_from_def server_name_wf_def split: if_splits)

lemma de_recipient_wf: "de_recipient v = Some r \<Longrightarrow> recipient_wf r"
  by (cases v rule: de_recipient.cases) (auto dest: de_username_wf split: if_splits)

lemma de_event_wf: "de_event v = Some e \<Longrightarrow> recipient_wf (ev_recipient e)"
  by (cases v rule: de_event.cases) (auto dest: de_recipient_wf split: option.splits)

lemma de_device_signed_wf: "de_device_signed E v = Some d \<Longrightarrow> username_wf (ds_sender d)"
  by (cases "(E, v)" rule: de_device_signed.cases) (auto dest: de_username_wf split: option.splits)

lemma de_group_descriptor_wf: "de_group_descriptor dh dk v = Some d \<Longrightarrow> gd_wf d"
  by (cases "(dh, dk, v)" rule: de_group_descriptor.cases)
    (auto simp: gd_wf_def dest: de_username_wf de_server_name_wf split: option.splits)

lemma de_group_invite_wf: "de_group_invite E v = Some i \<Longrightarrow> gd_wf (gi_descriptor i)"
  by (cases "(E, v)" rule: de_group_invite.cases) (auto dest: de_group_descriptor_wf split: option.splits)

lemma de_group_manage_wf: "de_group_manage v = Some m \<Longrightarrow> manage_wf m"
  by (cases v rule: de_group_manage.cases) (auto simp: bind_eq_Some_conv dest: de_username_wf split: if_splits)

lemma decrypt_message_wf: "decrypt_message E g k = Inr d \<Longrightarrow> username_wf (ds_sender d)"
  by (auto simp: decrypt_message_def ok_or_Inr dest!: bcs_from_Some dest: de_device_signed_wf)

lemma record_of_row_wf: "record_of_row E r = Inr grp \<Longrightarrow> gd_wf (gr_descriptor grp)"
  by (auto simp: record_of_row_def dest!: decode_as_Inr dest: de_group_descriptor_wf)

lemma load_group_wf: "load_group E g db = Inr (Some grp) \<Longrightarrow> gd_wf (gr_descriptor grp)"
  by (auto simp: load_group_def dest: record_of_row_wf split: option.splits)

lemma load_groups_wf:
  assumes "load_groups E db = Inr grps" and "grp \<in> set grps"
  shows "gd_wf (gr_descriptor grp)"
proof -
  have "records_of_rows E rows = Inr out \<Longrightarrow> grp \<in> set out \<Longrightarrow> gd_wf (gr_descriptor grp)" for rows out
    by (induction rows arbitrary: out) (auto dest: record_of_row_wf)
  with assms show ?thesis by (simp add: load_groups_def)
qed

lemma find_invite_wf: "find_invite E i db = Inr msg \<Longrightarrow> gd_wf (gi_descriptor msg)"
  by (auto simp: find_invite_def ok_or_Inr dest!: json_from_Some dest: de_group_invite_wf split: if_splits)

section \<open>The interface between the tables and the handlers\<close>

text \<open>The descriptors the directory client answers were decoded.\<close>

definition world_wf :: "('s, 'srv) world \<Rightarrow> bool" where
  "world_wf W \<longleftrightarrow> (\<forall>s u d. w_dir W s u = Inr (Some d) \<longrightarrow> server_name_wf (ud_server_name d))"

definition same_rows :: "client_db \<Rightarrow> client_db \<Rightarrow> bool" where
  "same_rows db db' \<longleftrightarrow> c_identity db' = c_identity db \<and> c_convos db' = c_convos db \<and> c_messages db' = c_messages db \<and>
     c_groups db' = c_groups db \<and> c_members db' = c_members db"

locale client_store =
  fixes E :: ext and I :: "client_db \<Rightarrow> bool"
  assumes frame: "I db \<Longrightarrow> same_rows db db' \<Longrightarrow> I db'"
    and server_moved: "I db \<Longrightarrow> server_name_wf n \<Longrightarrow> I (store_server_name n db)"
    and rotated: "I db \<Longrightarrow> store_rotated E current new_sk db = Inr (r, db') \<Longrightarrow> I db'"
    and registered: "I db \<Longrightarrow> username_wf u \<Longrightarrow> server_name_wf n \<Longrightarrow> chain_wf E ch \<Longrightarrow>
      persist_identity E db u n ds ch sk = Inr db' \<Longrightarrow> I db'"
    and convo_made: "I db \<Longrightarrow> convo_wf c \<Longrightarrow>
      ensure_convo_id now (convo_type c) (convo_counterparty E c) db = Inr (i, db') \<Longrightarrow> I db'"
    and message_added: "I db \<Longrightarrow> username_wf u \<Longrightarrow> i \<in> cv_id ` set (c_convos db) \<Longrightarrow>
      (i, sent_at) \<notin> sent_key ` set (c_messages db) \<Longrightarrow>
      I (db \<lparr> c_messages := c_messages db @ [new_message i (username_as_str u) mime body sent_at received_at db] \<rparr>)"
    and message_sent: "I db \<Longrightarrow> p \<in> pending_ids db \<Longrightarrow> I (mark_message_sent p t db)"
    and message_failed: "I db \<Longrightarrow> p \<in> pending_ids db \<Longrightarrow> I (mark_message_failed p err t db)"
    and member_put: "I db \<Longrightarrow> username_wf (rm_username m) \<Longrightarrow> upsert_member g m db = Inr (changed, db') \<Longrightarrow> I db'"
    and member_gone: "I db \<Longrightarrow> I (snd (remove_member g u db))"
    and version_moved: "I db \<Longrightarrow> I (set_version g f db)"
    and key_installed: "I db \<Longrightarrow> install_key E grp k db = Inr (r, db') \<Longrightarrow> I db'"
    and group_made: "I db \<Longrightarrow> gd_wf d \<Longrightarrow> insert_group E g d (gd_server d) token key db = Inr db' \<Longrightarrow> I db'"
begin

lemma caches_frame [eff_rule]:
  "preserves I (transact (store_cached_descriptor E now u d))"
  "preserves I (transact (store_cached_user_info E now u cs ms))"
  "preserves I (transact (store_attachment_root E u a))"
  "preserves I (modify_by (update_mailbox_after n mb t))"
  "preserves I (modify_by (ensure_mailbox_state n mb t))"
  "preserves I (modify_by (note_attachment E u mime body))"
  by (auto simp: store_cached_descriptor_def store_cached_user_info_def store_attachment_root_def note_attachment_def
      update_mailbox_after_def ensure_mailbox_state_def same_rows_def Let_def
      intro!: preserves_transact preserves_modify split: option.split sum.split elim!: frame)

lemma roster_loaded_keeps: "I db \<Longrightarrow> username_wf a \<Longrightarrow> roster_load g a db = Inr db' \<Longrightarrow> I db'"
  by (auto simp: roster_load_def ensure_initialized_def intro!: version_moved elim!: member_put [rotated 2] split: if_splits)

lemma roster_load_rule [eff_rule]:
  "username_wf a \<Longrightarrow> preserves I (transact (\<lambda>db. and_then (roster_load g a db) (\<lambda>db. Inr ((), db))))"
  by (auto intro!: preserves_transact dest: roster_loaded_keeps)

lemma manage_change_keeps:
  assumes "I db" and "username_wf s" and "manage_wf m" and "manage_change g s m db = Inr (changed, db')"
  shows "I db'"
proof -
  have put: "username_wf u \<Longrightarrow> upsert_member g \<lparr> rm_username = u, rm_is_admin = a, rm_status = st \<rparr> db = Inr (c, d) \<Longrightarrow> I d"
    for u a st c d
    using member_put [OF assms(1), where m = "\<lparr> rm_username = u, rm_is_admin = a, rm_status = st \<rparr>" and g = g] by simp
  have gone: "remove_member g s db = (c, d) \<Longrightarrow> I d" for c d using member_gone [OF assms(1), of g s] by simp
  show ?thesis
    using assms put gone
    by (cases m) (auto simp: manage_change_def Let_def split: if_splits option.splits)
qed

lemma managed_keeps:
  "I db \<Longrightarrow> username_wf s \<Longrightarrow> manage_wf m \<Longrightarrow> apply_manage_message g s m db = Inr (changed, db') \<Longrightarrow> I db'"
  by (auto simp: apply_manage_message_def bump_version_def intro: version_moved dest: manage_change_keeps split: if_splits)

lemma lookup_rules [eff_rule]:
  "preserves I (cached_user_descriptor E now dir u)"
proof -
  have "preserves I (call (done_with r) (\<lambda>d. call (transact (store_cached_descriptor E now u d)) (\<lambda>_. done_with (Inr d))))" for r
    by (intro eff_rule)
  then show ?thesis
    by (auto simp: cached_user_descriptor_def preserves_def split: sum.split option.split)
qed

lemma user_info_rules [eff_rule]:
  "preserves I (get_user_root_hash E now dir u)" "preserves I (get_user_info E now dir api u)"
  unfolding get_user_root_hash_def get_user_info_def Let_def by (intro eff_rule)+

lemma ensure_convo_known: "ensure_convo_id now ct cp db = Inr (i, db') \<Longrightarrow> i \<in> cv_id ` set (c_convos db')"
  by (auto simp: ensure_convo_id_def Let_def dest!: t_get_SomeD split: option.splits if_splits)

lemma ensure_convo_rule [eff_rule]:
  "convo_wf c \<Longrightarrow> preserves I (transact (ensure_convo_id now (convo_type c) (convo_counterparty E c)))"
  by (auto intro!: preserves_transact dest: convo_made)

lemma with_convo:
  assumes "convo_wf c" and "\<And>i db. I db \<Longrightarrow> i \<in> cv_id ` set (c_convos db) \<Longrightarrow> I (snd (k i db))"
  shows "preserves I (call (transact (ensure_convo_id now (convo_type c) (convo_counterparty E c))) k)"
proof (rule preservesI)
  fix db r db'
  assume db: "I db" and run: "call (transact (ensure_convo_id now (convo_type c) (convo_counterparty E c))) k db = (r, db')"
  show "I db'"
  proof (cases "ensure_convo_id now (convo_type c) (convo_counterparty E c) db")
    case (Inl e)
    with run db show ?thesis by (simp add: call_def transact_def)
  next
    case (Inr p)
    then obtain i db1 where e: "ensure_convo_id now (convo_type c) (convo_counterparty E c) db = Inr (i, db1)"
      by (cases p) auto
    with run have "k i db1 = (r, db')" by (simp add: call_def transact_def)
    with assms(2) [OF convo_made [OF db assms(1) e] ensure_convo_known [OF e]] show ?thesis by simp
  qed
qed

lemma message_rule:
  assumes "I db" and "username_wf u" and "i \<in> cv_id ` set (c_convos db)"
  shows "I (ignore_message i (username_as_str u) mime body sent_at received_at db)"
  using assms message_added [OF assms(1,2,3), of sent_at mime body received_at]
  by (auto simp: ignore_message_def t_ignore_def sent_key_def new_message_def)

lemma store_received_rule [eff_rule]:
  "convo_wf c \<Longrightarrow> username_wf u \<Longrightarrow> preserves I (store_received E now (convo_type c) (convo_counterparty E c) u content t)"
  unfolding store_received_def
  by (rule preserves_call [OF caches_frame(6)], rule with_convo) (auto intro: message_rule)

lemma queue_message_rule [eff_rule]:
  assumes "convo_wf c" and "username_wf u"
  shows "preserves I (queue_message E now c u mime body)"
proof -
  have "I (snd (call (transact (\<lambda>db. let row = new_message i (username_as_str u) mime body now None db in
       and_then (ok_or ''UNIQUE constraint failed'' (t_insert sent_key row (c_messages db))) (\<lambda>rows.
         Inr (cm_id row, db \<lparr> c_messages := rows \<rparr>)))) (\<lambda>row_id.
       call (modify_by (note_attachment E u mime body)) (\<lambda>_. done_with (Inr row_id))) db))"
    if "I db" and "i \<in> cv_id ` set (c_convos db)" for i db
    using message_added [OF that(1) assms(2) that(2), of now mime body None] caches_frame(6) [of u mime body] that(1)
    by (auto simp: call_def transact_def t_insert_def sent_key_def new_message_def Let_def preserves_def)
  then show ?thesis unfolding queue_message_def by (intro with_convo assms(1))
qed

end

section \<open>Every handler preserves what the writes preserve\<close>

lemma decoded_wf:
  "decode_as E ty (de_device_signed E) b = Inr d \<Longrightarrow> username_wf (ds_sender d)"
  "decode_as E ty' de_event b' = Inr e \<Longrightarrow> ev_recipient e = RUser u \<Longrightarrow> username_wf u"
  "json_from E ty'' de_group_manage b'' = Some m \<Longrightarrow> manage_wf m"
  by (auto dest!: decode_as_Inr json_from_Some dest: de_device_signed_wf de_event_wf de_group_manage_wf)

lemma opened_wf:
  "(case decrypt_message E g k of Inr ds \<Rightarrow> Inr ds | Inl e \<Rightarrow> map_err f (decrypt_message E g k')) = Inr signed_ds \<Longrightarrow>
     username_wf (ds_sender signed_ds)"
  by (auto dest: decrypt_message_wf split: sum.splits)

lemma gd_wf_sel: "gd_wf d \<Longrightarrow> username_wf (gd_init_admin d)" "gd_wf d \<Longrightarrow> server_name_wf (gd_server d)"
  by (simp_all add: gd_wf_def)

context client_store
begin

lemma store_received_forms [eff_rule]:
  "username_wf peer \<Longrightarrow> username_wf u \<Longrightarrow> preserves I (store_received E now ''direct'' (username_as_str peer) u content t)"
  "username_wf u \<Longrightarrow> preserves I (store_received E now ''group'' (group_id_display E g) u content t)"
  using store_received_rule [of "Direct peer" u now content t] store_received_rule [of "Group g" u now content t] by simp_all

lemma install_rule [eff_rule]: "preserves I (transact (install_key E grp k))"
  by (auto intro!: preserves_transact dest: key_installed)

lemma mailbox_entry_rule [eff_rule]: "preserves I (process_mailbox_entry E now now_ns dir n mb entry)"
  unfolding process_mailbox_entry_def Let_def
  by (intro eff_rule) (auto simp: eff_results dest: decoded_wf load_identity_wf)

lemma group_rekey_rule [eff_rule]:
  "gd_wf (gr_descriptor grp) \<Longrightarrow> preserves I (process_group_rekey_entry E now dir grp message)"
  unfolding process_group_rekey_entry_def Let_def
  by (intro eff_rule) (auto simp: gd_wf_def)

lemma group_message_rule [eff_rule]:
  "gd_wf (gr_descriptor grp) \<Longrightarrow> preserves I (process_group_message_entry E now now_ns dir grp entry)"
  unfolding process_group_message_entry_def Let_def
  by (intro eff_rule) (auto simp: eff_results dest: opened_wf)

lemma group_management_rule [eff_rule]:
  assumes "gd_wf (gr_descriptor grp)"
  shows "preserves I (process_group_management_entry E now dir grp entry)"
proof -
  have "preserves I (transact (\<lambda>db.
      and_then (roster_load (gr_group_id grp) (gd_init_admin (gr_descriptor grp)) db) (\<lambda>db.
      and_then (apply_manage_message (gr_group_id grp) u manage db) (\<lambda>(changed, db). Inr ((), db)))))"
    if wf: "username_wf u" "manage_wf manage" for u manage
  proof (rule preserves_transact)
    fix db r db'
    assume db: "I db" and run: "and_then (roster_load (gr_group_id grp) (gd_init_admin (gr_descriptor grp)) db) (\<lambda>db.
      and_then (apply_manage_message (gr_group_id grp) u manage db) (\<lambda>(changed, db). Inr ((), db))) = Inr (r, db')"
    then obtain db1 changed where "roster_load (gr_group_id grp) (gd_init_admin (gr_descriptor grp)) db = Inr db1"
      and "apply_manage_message (gr_group_id grp) u manage db1 = Inr (changed, db')" by auto
    then show "I db'" by (rule managed_keeps [OF roster_loaded_keeps [OF db gd_wf_sel(1) [OF assms]] wf])
  qed
  then show ?thesis
    unfolding process_group_management_entry_def Let_def
    by (intro eff_rule) (auto simp: eff_results ok_or_Inr dest: decrypt_message_wf decoded_wf)
qed

lemma group_entry_rule [eff_rule]:
  assumes "gd_wf (gr_descriptor grp)"
  shows "preserves I (modify_by (group_recv_entry E now now_ns dir grp kind entry))"
proof (rule preserves_modify)
  fix db
  assume db: "I db"
  have at: "I (update_mailbox_after n mb t db)" for n mb t
    using caches_frame(4) [of n mb t] db by (simp add: preserves_def)
  have run: "preserves I m \<Longrightarrow> I (snd (m (update_mailbox_after n mb t db)))" for n mb t and m :: "(client_db, unit) eff"
    unfolding preserves_def by (drule spec, drule mp, rule at, assumption)
  show "I (group_recv_entry E now now_ns dir grp kind entry db)"
    unfolding group_recv_entry_def Let_def
    by (cases kind; simp only: group_mailbox_kind.case)
      (rule run [OF group_message_rule [OF assms]], rule run [OF group_management_rule [OF assms]])
qed

lemma own_server_rule [eff_rule]:
  "world_wf W \<Longrightarrow> preserves (on_fst I) (refresh_own_server_name W identity)"
  "world_wf W \<Longrightarrow> preserves (on_fst I) (own_server_name W identity)"
proof -
  have moved: "server_name_wf n \<Longrightarrow> preserves I (modify_by (store_server_name n))" for n
    by (auto intro: preserves_modify server_moved)
  show refresh: "world_wf W \<Longrightarrow> preserves (on_fst I) (refresh_own_server_name W identity)"
    unfolding refresh_own_server_name_def
    by (intro eff_rule moved) (auto simp: eff_results world_wf_def ok_or_Inr)
  show "world_wf W \<Longrightarrow> preserves (on_fst I) (own_server_name W identity)"
    unfolding own_server_name_def by (intro eff_rule refresh)
qed

lemma send_rules [eff_rule]:
  assumes "world_wf W"
  shows "preserves (on_fst I) (send_dm_once E W identity target message)"
    and "preserves (on_fst I) (send_message E W c mime body sent_at)"
    and "preserves (on_fst I) (send_management_message E W identity grp manage)"
proof -
  show once: "preserves (on_fst I) (send_dm_once E W identity target message)" for identity target message
    unfolding send_dm_once_def by (intro eff_rule assms)
  show "preserves (on_fst I) (send_message E W c mime body sent_at)"
    unfolding send_message_def send_dm_def send_group_message_def send_to_group_mailbox_def Let_def
    by (intro eff_rule once)
  show "preserves (on_fst I) (send_management_message E W identity grp manage)"
    unfolding send_management_message_def send_to_group_mailbox_def by (intro eff_rule)
qed

lemma send_turn_keeps:
  assumes "world_wf W" and "I (fst st)"
  shows "I (fst (send_turn E W st))"
proof (cases "next_pending_message (fst st)")
  case None
  with assms(2) show ?thesis by (simp add: send_turn_def)
next
  case (Some p)
  then have p: "pm_id p \<in> pending_ids (fst st)"
    by (elim next_pending_Some) (auto simp: pending_ids_def)
  show ?thesis
  proof (cases "parse_convo_id E (pm_convo_type p) (pm_counterparty p)")
    case None
    with Some p assms(2) show ?thesis by (simp add: send_turn_def message_failed)
  next
    case (Some c)
    let ?m = "send_message E W c (pm_mime p) (pm_body p) (pm_sent_at p)"
    obtain r st' slept where run: "retry_backoff ?m st = (r, st', slept)" by (cases "retry_backoff ?m st") auto
    have "I (fst st')"
      using preserves_retry [OF send_rules(2) [OF assms(1)], of st c "pm_mime p" "pm_body p" "pm_sent_at p"] assms(2) run by simp
    moreover have "queue_view (fst st') = queue_view (fst st)"
      using keeps_retry [OF keeps_send_message, of E W c "pm_mime p" "pm_body p" "pm_sent_at p" st] run by simp
    then have "pm_id p \<in> pending_ids (fst st')"
      using p by (simp add: queue_view_def pending_ids_def is_pending_def)
    ultimately show ?thesis
      using run Some \<open>next_pending_message (fst st) = Some p\<close>
      by (cases r) (simp_all add: send_turn_def message_sent message_failed)
  qed
qed

lemma mailbox_states:
  "I db \<Longrightarrow> I (ensure_mailbox_state n mb t db)"
  using caches_frame(5) [of n mb t] by (simp add: preserves_def)

lemma group_convo_made: "I db \<Longrightarrow> ensure_convo_id now ''group'' (group_id_display E g) db = Inr (i, db') \<Longrightarrow> I db'"
  using convo_made [of db "Group g" now i db'] by simp

lemma create_rows_rule [eff_rule]:
  assumes "gd_wf d"
  shows "preserves I (transact (create_group_rows E now g d token key))"
proof (rule preserves_transact)
  fix db r db'
  assume "I db" and "create_group_rows E now g d token key db = Inr (r, db')"
  then obtain db1 db2 i where made: "insert_group E g d (gd_server d) token key db = Inr db1"
    and loaded: "roster_load g (gd_init_admin d) db1 = Inr db2"
    and convo: "ensure_convo_id now ''group'' (group_id_display E g)
      (ensure_mailbox_state (gd_server d) (mailbox_group_messages E g) now
        (ensure_mailbox_state (gd_server d) (mailbox_group_management E g) 0 db2)) = Inr (i, db')"
    by (auto simp: create_group_rows_def Let_def)
  have "I db2" by (rule roster_loaded_keeps [OF group_made [OF \<open>I db\<close> assms made] gd_wf_sel(1) [OF assms] loaded])
  then show "I db'" by (rule group_convo_made [OF mailbox_states [OF mailbox_states] convo])
qed

lemma accept_rows_rule [eff_rule]:
  assumes "gd_wf (gi_descriptor msg)"
  shows "preserves I (transact (accept_rows E now msg))"
proof (rule preserves_transact)
  fix db r db'
  let ?d = "gi_descriptor msg" and ?g = "group_descriptor_id E (gi_descriptor msg)"
  assume db: "I db" and run: "accept_rows E now msg db = Inr (r, db')"
  obtain db1 i where made: "(if group_known db (group_column ?g) then Inr db
      else insert_group E ?g ?d (gd_server ?d) (gi_token msg) (gi_group_key msg) db) = Inr db1"
    and convo: "ensure_convo_id now ''group'' (group_id_display E ?g)
      (ensure_mailbox_state (gd_server ?d) (mailbox_group_messages E ?g) (gi_created_at msg)
        (ensure_mailbox_state (gd_server ?d) (mailbox_group_management E ?g) 0 db1)) = Inr (i, db')"
    using run by (auto simp: accept_rows_def Let_def simp del: if_split)
  have "I db1" using made db group_made [OF db assms] by (auto split: if_splits)
  then show "I db'" by (rule group_convo_made [OF mailbox_states [OF mailbox_states] convo])
qed

lemma group_rules [eff_rule]:
  assumes "world_wf W"
  shows "preserves (on_fst I) (create_group E W n)"
    and "username_wf u \<Longrightarrow> preserves (on_fst I) (invite E W g u)"
    and "preserves (on_fst I) (accept_invite E W i)"
proof -
  show "preserves (on_fst I) (create_group E W n)"
    unfolding create_group_def Let_def
    by (intro eff_rule) (use assms in \<open>auto simp: eff_results gd_wf_def world_wf_def ok_or_Inr dest: load_identity_wf\<close>)
  show "username_wf u \<Longrightarrow> preserves (on_fst I) (invite E W g u)"
    unfolding invite_def Let_def
    by (intro eff_rule assms) (auto simp: eff_results dest: load_identity_wf)
  show "preserves (on_fst I) (accept_invite E W i)"
    unfolding accept_invite_def Let_def
    by (intro eff_rule assms) (auto simp: eff_results dest: find_invite_wf)
qed

lemma collect_rule [eff_rule]: "preserves (on_fst I) (collect_members E W ms)"
  by (induction ms) (auto intro!: eff_rule)

lemma send_rekey_rule [eff_rule]:
  "gd_wf (gr_descriptor grp) \<Longrightarrow> preserves (on_fst I) (send_group_rekey E W identity grp)"
  unfolding send_group_rekey_def collect_group_recipients_def send_to_group_mailbox_def
  by (intro eff_rule) (auto dest: gd_wf_sel)

lemma rekey_groups_rule [eff_rule]:
  "\<forall>grp \<in> set grps. gd_wf (gr_descriptor grp) \<Longrightarrow> preserves (on_fst I) (rekey_groups E W identity grps)"
proof (induction grps)
  case (Cons grp grps)
  then have wf: "gd_wf (gr_descriptor grp)" "username_wf (gd_init_admin (gr_descriptor grp))" by (auto dest: gd_wf_sel)
  show ?case
    unfolding rekey_groups.simps Let_def
    by (intro eff_rule wf) (use Cons in auto)
qed (simp add: eff_rule)

lemma rekey_loop_rule [eff_rule]: "preserves (on_fst I) (group_rekey_loop_once E W)"
  unfolding group_rekey_loop_once_def by (intro eff_rule) (auto simp: eff_results dest: load_groups_wf)

lemma rotate_rule [eff_rule]: "preserves (on_fst I) (rotate_once E C)"
proof -
  have "preserves I (transact (store_rotated E current new_sk))" for current new_sk
    by (auto intro!: preserves_transact dest: rotated)
  then show ?thesis unfolding rotate_once_def by (intro eff_rule)
qed

lemma request_rules [eff_rule]:
  assumes "world_wf (ce_world C)"
  shows "preserves (on_fst I) (server_endpoint C n)"
    and "preserves (on_fst I) (get_auth_token E C cache)"
    and "preserves (on_fst I) (make_transport E C n)"
proof -
  show point: "preserves (on_fst I) (server_endpoint C n)" for n
    unfolding server_endpoint_def by (intro eff_rule)
  show "preserves (on_fst I) (get_auth_token E C cache)"
    unfolding get_auth_token_def by (intro eff_rule point assms)
  show "preserves (on_fst I) (make_transport E C n)"
    unfolding make_transport_def by (intro eff_rule point)
qed

lemma dm_start_rule [eff_rule]:
  assumes "world_wf (ce_world C)"
  shows "preserves (on_fst I) (dm_recv_start E C cache)"
  unfolding dm_recv_start_def dm_resume_def by (intro eff_rule assms)

lemma group_once_rule [eff_rule]:
  assumes "world_wf (ce_world C)"
  shows "gd_wf (gr_descriptor grp) \<Longrightarrow> preserves (on_fst I) (group_recv_once E C race grp)"
  unfolding group_recv_once_def Let_def by (intro eff_rule assms)

lemma turns_keep:
  "I db \<Longrightarrow> dm_recv_turn E now now_ns dir reply se db = (b, se', db') \<Longrightarrow> I db'"
  "world_wf (ce_world C) \<Longrightarrow> I (fst st) \<Longrightarrow> group_recv_turn E C race g st = (b, st') \<Longrightarrow> I (fst st')"
proof -
  show "I db \<Longrightarrow> dm_recv_turn E now now_ns dir reply se db = (b, se', db') \<Longrightarrow> I db'"
    using mailbox_entry_rule by (auto simp: dm_recv_turn_def preserves_def split: sum.splits)
  assume wf: "world_wf (ce_world C)" and st: "I (fst st)" and run: "group_recv_turn E C race g st = (b, st')"
  show "I (fst st')"
  proof (cases "\<exists>grp. load_group E g (fst st) = Inr (Some grp)")
    case True
    then obtain grp where grp: "load_group E g (fst st) = Inr (Some grp)" by blast
    then have "st' = snd (group_recv_once E C race grp st)" using run by (simp add: group_recv_turn_def)
    then show ?thesis by (metis preservesD [OF group_once_rule [OF wf load_group_wf [OF grp]] st] prod.collapse)
  next
    case False
    with st run show ?thesis by (auto simp: group_recv_turn_def split: sum.splits option.splits)
  qed
qed

lemma decode_row_rule [eff_rule]: "preserves I (decode_row E c m)"
  unfolding decode_row_def decode_message_content_def by (intro eff_rule)

lemma listing_rules [eff_rule]:
  "preserves I (convo_list_rows E rows)" "preserves I (history_rows E c ms)"
proof -
  show "preserves I (convo_list_rows E rows)" by (induction rows) (auto intro!: eff_rule)
  show "preserves I (history_rows E c ms)" by (induction ms) (auto intro!: eff_rule)
qed

lemma convo_send_rule [eff_rule]:
  assumes "convo_wf c"
  shows "preserves (on_fst I) (convo_send E C c message)"
proof (rule preservesI)
  fix st r st'
  assume st: "I (fst st)" and run: "convo_send E C c message st = (r, st')"
  show "I (fst st')"
  proof (cases "load_identity E (fst st)")
    case (Inl e)
    with st run show ?thesis by (simp add: convo_send_def)
  next
    case (Inr i)
    have "preserves (on_fst I) (icall (idone q) (\<lambda>(mime, body). or_other (call (clock (w_now_ns (ce_world C))) (\<lambda>now.
        on_db (queue_message E now c (id_username i) mime body)))))" for q
      using load_identity_wf [OF Inr] assms by (intro eff_rule) simp_all
    from preservesD [OF this st] run Inr show ?thesis by (simp add: convo_send_def)
  qed
qed

lemma registered_rule [eff_rule]: "preserves (on_fst I) m \<Longrightarrow> preserves (on_fst I) (when_registered m)"
  by (auto simp: when_registered_def preserves_def)

lemma profile_rule [eff_rule]: "preserves (on_fst I) (get_profile E C u)"
  unfolding get_profile_def by (intro eff_rule)

lemma surface_rules [eff_rule]:
  assumes "world_wf (ce_world C)"
  shows "preserves (on_fst I) (convo_create_group E C n)"
    and "username_wf u \<Longrightarrow> preserves (on_fst I) (group_invite E C g u)"
    and "preserves (on_fst I) (group_members E g)"
    and "preserves (on_fst I) (group_accept_invite E C i)"
    and "preserves (on_fst I) (user_details E C u)"
    and "preserves (on_fst I) (new_device_bundle E C can_issue expiry)"
    and "preserves (on_fst I) (own_profile_set E C display_name avatar)"
proof -
  show "preserves (on_fst I) (convo_create_group E C n)"
    unfolding convo_create_group_def by (intro eff_rule assms)
  show "username_wf u \<Longrightarrow> preserves (on_fst I) (group_invite E C g u)"
    unfolding group_invite_def by (intro eff_rule assms)
  show "preserves (on_fst I) (group_members E g)"
    unfolding group_members_def
    by (intro eff_rule) (auto simp: or_other_def eff_results ok_or_Inr split: prod.splits dest!: load_group_wf gd_wf_sel(1))
  show "preserves (on_fst I) (group_accept_invite E C i)"
    unfolding group_accept_invite_def by (intro eff_rule assms)
  show "preserves (on_fst I) (user_details E C u)"
    unfolding user_details_def by (intro eff_rule)
  show "preserves (on_fst I) (new_device_bundle E C can_issue expiry)"
    unfolding new_device_bundle_def Let_def by (intro eff_rule)
  show "preserves (on_fst I) (own_profile_set E C display_name avatar)"
    unfolding own_profile_set_def server_from_name_def Let_def by (intro eff_rule)
qed

lemma download_keeps:
  "I db \<Longrightarrow> download_inner E F s busy taken nonce path_text i dir (db, fs) = Some (r, db', fs') \<Longrightarrow> I db'"
  by (auto simp: download_inner_def same_rows_def elim!: frame split: if_splits sum.splits option.splits prod.splits)
    (metis sumE old.unit.exhaust)+

lemma register_rule:
  assumes "world_wf (ce_world C)" and "sig_law E"
    and "\<forall>u n. request = BootstrapNewUser u n \<longrightarrow> username_wf u \<and> server_name_wf n"
  shows "preserves (on_fst I) (register_finish E C request)"
proof -
  have new: "preserves (on_fst I) (persist_new E u n ds ch sk)"
    if wf: "username_wf u" "server_name_wf n" "chain_wf E ch" for u n ds ch sk
  proof -
    have "preserves I (transact (\<lambda>db. and_then (persist_identity E db u n ds ch sk) (\<lambda>db. Inr ((), db))))"
      by (auto intro!: preserves_transact dest: registered [OF _ wf])
    then show ?thesis unfolding persist_new_def by (intro eff_rule)
  qed
  have chain: "chain_wf E \<lparr> chain_ancestors = [], chain_this = self_signed E ds (2 ^ 64 - 1) True \<rparr>" for ds
    using assms(2) by (simp add: chain_wf_def chain_certs_def)
  have boot: "preserves (on_fst I) (register_bootstrap E C u n)" if "username_wf u" "server_name_wf n" for u n
    unfolding register_bootstrap_def server_from_name_def register_medium_key_def Let_def
    by (intro eff_rule new that chain)
  have add: "preserves (on_fst I) (register_add_device E C bs)" for bs
    unfolding register_add_device_def server_from_name_def register_medium_key_def
    by (intro eff_rule new) (use assms(1) in \<open>auto simp: eff_results sys_steps ok_or_Inr world_wf_def
      dest!: de_bundle_wf split: prod.splits\<close>)
  show ?thesis
  proof (rule preservesI)
    fix st r st'
    assume st: "I (fst st)" and run: "register_finish E C request st = (r, st')"
    show "I (fst st')"
      using preservesD [OF boot st] preservesD [OF add st] st run assms(3)
      by (cases st') (auto simp: register_finish_def split: if_splits register_request.splits)
  qed
qed

end

section \<open>Every step of the client\<close>

text \<open>The tasks of a client take turns: each rule is one handler of the front end or one turn of a
  loop, from whatever state the servers, the directory and the clock are in.\<close>

inductive client_step ::
  "ext \<Rightarrow> ('s, 'srv) client_env \<Rightarrow> 's poll_race \<Rightarrow> client_db \<times> 's \<Rightarrow> client_db \<times> 's \<Rightarrow> bool" for E C race where
  elsewhere: "client_step E C race (db, s) (db, s')"
| register: "\<forall>u n. request = BootstrapNewUser u n \<longrightarrow> username_wf u \<and> server_name_wf n \<Longrightarrow>
    register_finish E C request st = (r1, st') \<Longrightarrow> client_step E C race st st'"
| auth_token: "get_auth_token E C cache st = (r2, st') \<Longrightarrow> client_step E C race st st'"
| transport: "make_transport E C n st = (r3, st') \<Longrightarrow> client_step E C race st st'"
| rotate: "rotate_once E C st = (r4, st') \<Longrightarrow> client_step E C race st st'"
| send_loop: "client_step E C race st (send_turn E (ce_world C) st)"
| rekey_loop: "group_rekey_loop_once E (ce_world C) st = (r5, st') \<Longrightarrow> client_step E C race st st'"
| dm_start: "dm_recv_start E C cache st = (r6, st') \<Longrightarrow> client_step E C race st st'"
| dm_turn: "dm_recv_turn E now now_ns dir reply se db = (touched, se', db') \<Longrightarrow>
    client_step E C race (db, s) (db', s)"
| group_turn: "group_recv_turn E C race g st = (touched, st') \<Longrightarrow> client_step E C race st st'"
| listing: "convo_list E db = (r7, db') \<Longrightarrow> client_step E C race (db, s) (db', s)"
| history: "convo_history E c before after limit db = (r8, db') \<Longrightarrow> client_step E C race (db, s) (db', s)"
| say: "convo_wf c \<Longrightarrow> convo_send E C c message st = (r9, st') \<Longrightarrow> client_step E C race st st'"
| make_group: "convo_create_group E C n st = (r10, st') \<Longrightarrow> client_step E C race st st'"
| ask: "username_wf u \<Longrightarrow> group_invite E C g u st = (r11, st') \<Longrightarrow> client_step E C race st st'"
| roster: "group_members E g st = (r12, st') \<Longrightarrow> client_step E C race st st'"
| accept: "group_accept_invite E C i st = (r13, st') \<Longrightarrow> client_step E C race st st'"
| details: "user_details E C u st = (r14, st') \<Longrightarrow> client_step E C race st st'"
| issue: "new_device_bundle E C can_issue expiry st = (r15, st') \<Longrightarrow> client_step E C race st st'"
| profile: "own_profile_set E C display_name avatar st = (r16, st') \<Longrightarrow> client_step E C race st st'"
| download: "download_inner E F s busy taken nonce path_text h save_dir (db, fs) = Some (r17, db', fs') \<Longrightarrow>
    client_step E C race (db, s) (db', s)"

abbreviation client_runs ::
  "ext \<Rightarrow> ('s, 'srv) client_env \<Rightarrow> 's poll_race \<Rightarrow> client_db \<times> 's \<Rightarrow> client_db \<times> 's \<Rightarrow> bool" where
  "client_runs E C race \<equiv> (client_step E C race)\<^sup>*\<^sup>*"

context client_store
begin

lemma step_keeps:
  assumes "client_step E C race st st'" and "world_wf (ce_world C)" and "sig_law E" and "I (fst st)"
  shows "I (fst st')"
  using assms(1,4)
proof cases
  case (register request r)
  with preservesD [OF register_rule [OF assms(2,3)]] assms(4) show ?thesis by blast
next
  case send_loop
  with send_turn_keeps [OF assms(2,4)] show ?thesis by simp
next
  case (listing db r db' s)
  with assms(4) show ?thesis using listing_rules(1) [of "convo_list_query db"]
    by (auto simp: convo_list_def dest: preservesD)
next
  case (history c before after limit db r db' s)
  with assms(4) show ?thesis using listing_rules(2) [of c]
    by (auto simp: convo_history_def dest: preservesD)
qed (use assms(2,4) in \<open>auto dest: turns_keep download_keeps preservesD [OF request_rules(2)] preservesD [OF request_rules(3)]
  preservesD [OF rotate_rule] preservesD [OF rekey_loop_rule] preservesD [OF dm_start_rule] preservesD [OF convo_send_rule]
  preservesD [OF surface_rules(1)] preservesD [OF surface_rules(2)] preservesD [OF surface_rules(3)]
  preservesD [OF surface_rules(4)] preservesD [OF surface_rules(5)] preservesD [OF surface_rules(6)]
  preservesD [OF surface_rules(7)]\<close>)

lemma runs_keep:
  assumes "client_runs E C race st st'" and "world_wf (ce_world C)" and "sig_law E" and "I (fst st)"
  shows "I (fst st')"
  using assms(1,4) by induction (auto intro: step_keeps [OF _ assms(2,3)])

end

end
