(* ===== verification/ClientTyping.thy ===== *)
theory ClientTyping
  imports ClientSteps
begin

text \<open>
  What holds of the client's database in every state it can reach: each row reads back as a value of the
  type its readers expect (\<open>db_typed\<close>), and a message stays, settled at most once (\<open>message_kept\<close>).
  Both are interpretations of \<open>client_store\<close>: the laws about the primitive writes are proved here, what
  the handlers do with them is in \<open>ClientSteps\<close>.
\<close>

section \<open>The typing of the database\<close>

text \<open>Every row reads back: keys are unique, references resolve, and what a later handler decodes or
  parses was encoded from, or checked to be, a value of the type it expects.\<close>

definition convo_typed :: "ext \<Rightarrow> convo_row \<Rightarrow> bool" where
  "convo_typed E r \<longleftrightarrow> (\<exists>c. parse_convo_id E (cv_type r) (cv_counterparty r) = Some c)"

definition message_typed :: "client_db \<Rightarrow> message_row \<Rightarrow> bool" where
  "message_typed db m \<longleftrightarrow> sender_parses m \<and> cm_convo_id m \<in> cv_id ` set (c_convos db)"

definition group_typed :: "ext \<Rightarrow> group_row \<Rightarrow> bool" where
  "group_typed E r \<longleftrightarrow> (\<exists>grp. record_of_row E r = Inr grp \<and> gw_group_id r = group_column (gr_group_id grp))"

definition member_typed :: "client_db \<Rightarrow> member_row \<Rightarrow> bool" where
  "member_typed db r \<longleftrightarrow> is_ok (username_parse (mw_username r)) \<and> mw_is_admin r \<in> {0, 1} \<and>
     status_from_str (mw_status r) \<noteq> None \<and> group_known db (mw_group_id r)"

definition keys_typed :: "client_db \<Rightarrow> bool" where
  "keys_typed db \<longleftrightarrow> t_unique cv_id (c_convos db) \<and> t_unique convo_key (c_convos db) \<and> t_unique cm_id (c_messages db) \<and>
     t_unique sent_key (c_messages db) \<and> t_unique gw_group_id (c_groups db) \<and> t_unique member_key (c_members db)"

definition db_typed :: "ext \<Rightarrow> client_db \<Rightarrow> bool" where
  "db_typed E db \<longleftrightarrow> keys_typed db \<and> (c_identity db \<noteq> None \<longrightarrow> is_ok (load_identity E db)) \<and>
     (\<forall>r \<in> set (c_convos db). convo_typed E r) \<and> (\<forall>m \<in> set (c_messages db). message_typed db m) \<and>
     (\<forall>r \<in> set (c_groups db). group_typed E r) \<and> (\<forall>r \<in> set (c_members db). member_typed db r)"

lemma db_typedD:
  assumes "db_typed E db"
  shows "keys_typed db" and "c_identity db \<noteq> None \<Longrightarrow> is_ok (load_identity E db)"
    and "r1 \<in> set (c_convos db) \<Longrightarrow> convo_typed E r1" and "m \<in> set (c_messages db) \<Longrightarrow> message_typed db m"
    and "r2 \<in> set (c_groups db) \<Longrightarrow> group_typed E r2" and "r3 \<in> set (c_members db) \<Longrightarrow> member_typed db r3"
  using assms by (auto simp: db_typed_def)

lemma db_typed_empty: "db_typed E empty_client_db"
  by (simp add: db_typed_def keys_typed_def empty_client_db_def t_unique_def)

lemma t_unique_append: "t_unique key (t @ [r]) \<longleftrightarrow> t_unique key t \<and> key r \<notin> key ` set t"
  by (simp add: t_unique_def)

lemma load_identity_cong: "c_identity db = c_identity db' \<Longrightarrow> load_identity E db = load_identity E db'"
  by (simp add: load_identity_def)

lemma typed_frame:
  assumes "db_typed E db" and "same_rows db db'"
  shows "db_typed E db'"
  using assms load_identity_cong [of db' db E]
  by (simp add: db_typed_def same_rows_def keys_typed_def message_typed_def member_typed_def group_known_def)

lemma typed_identity:
  assumes "db_typed E db" and "is_ok (load_identity E db')" and "db' = db \<lparr> c_identity := c_identity db' \<rparr>"
  shows "db_typed E db'"
proof -
  obtain i where db': "db' = db \<lparr> c_identity := i \<rparr>" using assms(3) by blast
  from assms(1,2) show ?thesis
    unfolding db' by (simp add: db_typed_def keys_typed_def message_typed_def member_typed_def group_known_def)
qed

lemma typed_server:
  assumes "db_typed E db" and "server_name_wf n"
  shows "db_typed E (store_server_name n db)"
proof (cases "c_identity db")
  case None
  then have "store_server_name n db = db" by (simp add: store_server_name_def)
  with assms(1) show ?thesis by simp
next
  case (Some row)
  with db_typedD(2) [OF assms(1)] have "is_ok (load_identity E db)" by simp
  with Some assms(2) have "is_ok (load_identity E (store_server_name n db))"
    by (auto simp: load_identity_def store_server_name_def is_ok_iff server_name_parse_as_str split: option.splits)
  then show ?thesis by (rule typed_identity [OF assms(1)]) (simp add: store_server_name_def)
qed

lemma typed_rotated:
  assumes "bcs_law E" and "db_typed E db" and rot: "store_rotated E current new_sk db = Inr (r, db')"
  shows "db_typed E db'"
proof -
  from rot obtain p k where e: "bcs_enc E (ser_dh_secret current) = Some p" "bcs_enc E (ser_dh_secret new_sk) = Some k"
    and db': "db' = db \<lparr> c_identity := map_option (\<lambda>r. r \<lparr> ir_medium_sk_prev := p, ir_medium_sk_current := k \<rparr>) (c_identity db) \<rparr>"
    by (auto simp: store_rotated_def)
  show ?thesis
  proof (cases "c_identity db")
    case None
    then have "db' = db" by (simp add: db')
    with assms(2) show ?thesis by simp
  next
    case (Some row)
    with db_typedD(2) [OF assms(2)] have "is_ok (load_identity E db)" by simp
    with Some have "is_ok (load_identity E db')"
      by (auto simp: load_identity_def db' is_ok_iff bcs_from_enc [OF assms(1) e(1)] bcs_from_enc [OF assms(1) e(2)])
    then show ?thesis by (rule typed_identity [OF assms(2)]) (simp add: db')
  qed
qed

lemma typed_registered:
  assumes "bcs_law E" and "db_typed E db" and "username_wf u" and "server_name_wf n" and "chain_wf E ch"
    and new: "persist_identity E db u n ds ch sk = Inr db'"
  shows "db_typed E db'"
proof -
  have "is_ok (load_identity E db')" using load_persisted [OF assms(1) new assms(3-5)] by (simp add: is_ok_iff)
  then show ?thesis
    by (rule typed_identity [OF assms(2)]) (use new in \<open>auto simp: persist_identity_def split: if_splits\<close>)
qed

lemma typed_convo:
  assumes "hex_law E" and "db_typed E db" and "convo_wf c"
    and made: "ensure_convo_id now (convo_type c) (convo_counterparty E c) db = Inr (i, db')"
  shows "db_typed E db'"
proof (cases "t_get convo_key (convo_type c, convo_counterparty E c) (c_convos db)")
  case (Some r)
  with made assms(2) show ?thesis by (simp add: ensure_convo_id_def)
next
  case None
  let ?r = "\<lparr> cv_id = next_rowid cv_id (c_convos db), cv_type = convo_type c, cv_counterparty = convo_counterparty E c,
    cv_created_at = now \<rparr>"
  have db': "db' = db \<lparr> c_convos := c_convos db @ [?r] \<rparr>"
    using made None by (auto simp: ensure_convo_id_def Let_def split: if_splits)
  have "convo_typed E ?r" using parse_convo_id_back [OF assms(1,3)] by (simp add: convo_typed_def)
  moreover have "cv_id ?r \<notin> cv_id ` set (c_convos db)" using next_rowid_fresh [of _ "c_convos db" cv_id] by fastforce
  moreover have "convo_key ?r \<notin> convo_key ` set (c_convos db)" using None by (simp add: t_get_None convo_key_def)
  ultimately show ?thesis
    using assms(2) unfolding db_typed_def keys_typed_def db'
    by (auto simp: t_unique_append message_typed_def member_typed_def group_known_def load_identity_def)
qed

lemma typed_message:
  assumes "db_typed E db" and "username_wf u" and "i \<in> cv_id ` set (c_convos db)"
    and "(i, sent_at) \<notin> sent_key ` set (c_messages db)"
  shows "db_typed E (db \<lparr> c_messages := c_messages db @ [new_message i (username_as_str u) mime body sent_at received_at db] \<rparr>)"
proof -
  let ?m = "new_message i (username_as_str u) mime body sent_at received_at db"
  have "cm_id ?m \<notin> cm_id ` set (c_messages db)"
    using next_rowid_fresh [of _ "c_messages db" cm_id] by (fastforce simp: new_message_def)
  moreover have "sent_key ?m \<notin> sent_key ` set (c_messages db)" using assms(4) by (simp add: sent_key_def new_message_def)
  moreover have "message_typed db ?m"
    using assms(2,3) by (simp add: message_typed_def sender_parses_def new_message_def username_parse_as_str)
  ultimately show ?thesis
    using assms(1) unfolding db_typed_def keys_typed_def
    by (auto simp: t_unique_append message_typed_def member_typed_def group_known_def load_identity_def)
qed

lemma typed_messages_map:
  assumes "db_typed E db" and "\<And>m. cm_id (f m) = cm_id m" and "\<And>m. sent_key (f m) = sent_key m"
    and "\<And>m. cm_sender_username (f m) = cm_sender_username m"
  shows "db_typed E (db \<lparr> c_messages := t_update P f (c_messages db) \<rparr>)"
proof -
  have "cm_convo_id (f m) = cm_convo_id m" for m using assms(3) [of m] by (simp add: sent_key_def)
  then show ?thesis
    using assms(1,4) t_unique_update [where f = f and key = cm_id, OF _ assms(2)]
      t_unique_update [where f = f and key = sent_key, OF _ assms(3)]
    unfolding db_typed_def keys_typed_def
    by (auto simp: message_typed_def sender_parses_def member_typed_def group_known_def load_identity_def t_update_def)
qed

lemma typed_marked:
  "db_typed E db \<Longrightarrow> db_typed E (mark_message_sent p t db)"
  "db_typed E db \<Longrightarrow> db_typed E (mark_message_failed p err t db)"
  unfolding mark_message_sent_def mark_message_failed_def
  by (rule typed_messages_map; simp add: sent_key_def)+

lemma typed_members:
  assumes "db_typed E db" and "t_unique member_key ms" and "\<forall>r \<in> set ms. member_typed db r"
  shows "db_typed E (db \<lparr> c_members := ms \<rparr>)"
  using assms unfolding db_typed_def keys_typed_def
  by (auto simp: message_typed_def member_typed_def group_known_def load_identity_def)

lemma typed_upsert:
  assumes "db_typed E db" and "username_wf (rm_username m)" and put: "upsert_member g m db = Inr (changed, db')"
  shows "db_typed E db'"
proof (cases "t_get member_key (group_column g, username_as_str (rm_username m)) (c_members db)")
  case None
  let ?r = "\<lparr> mw_group_id = group_column g, mw_username = username_as_str (rm_username m),
    mw_is_admin = bool_i64 (rm_is_admin m), mw_status = status_as_str (rm_status m) \<rparr>"
  have known: "group_known db (group_column g)" and db': "db' = db \<lparr> c_members := c_members db @ [?r] \<rparr>"
    using put None by (auto simp: upsert_member_def Let_def split: if_splits)
  have "member_typed db ?r" using known assms(2) by (simp add: member_typed_def username_parse_as_str bool_i64_def)
  moreover have "member_key ?r \<notin> member_key ` set (c_members db)" using None by (simp add: t_get_None)
  ultimately show ?thesis
    unfolding db' using db_typedD(1,6) [OF assms(1)] by (intro typed_members [OF assms(1)]) (auto simp: t_unique_append keys_typed_def)
next
  case (Some r0)
  let ?f = "\<lambda>r. r \<lparr> mw_is_admin := bool_i64 (rm_is_admin m), mw_status := status_as_str (rm_status m) \<rparr>"
  show ?thesis
  proof (cases "db' = db")
    case False
    then obtain P where db': "db' = db \<lparr> c_members := t_update P ?f (c_members db) \<rparr>"
      using put Some by (auto simp: upsert_member_def Let_def split: if_splits)
    have "\<forall>r \<in> set (t_update P ?f (c_members db)). member_typed db r"
      using db_typedD(6) [OF assms(1)] by (auto simp: t_update_def member_typed_def bool_i64_def)
    then show ?thesis
      unfolding db' using db_typedD(1) [OF assms(1)]
      by (intro typed_members [OF assms(1)] t_unique_update) (auto simp: keys_typed_def)
  qed (use assms(1) in simp)
qed

lemma typed_removed:
  assumes "db_typed E db"
  shows "db_typed E (snd (remove_member g u db))"
  using db_typedD(1,6) [OF assms]
  by (auto simp: remove_member_def Let_def keys_typed_def intro!: typed_members [OF assms])

lemma typed_groups_map:
  assumes "db_typed E db" and "\<And>r. gw_group_id (f r) = gw_group_id r"
    and "\<And>r. r \<in> set (c_groups db) \<Longrightarrow> P r \<Longrightarrow> group_typed E (f r)"
  shows "db_typed E (db \<lparr> c_groups := t_update P f (c_groups db) \<rparr>)"
proof -
  have "map gw_group_id (t_update P f (c_groups db)) = map gw_group_id (c_groups db)"
    using assms(2) by (simp add: t_update_def)
  then have "gw_group_id ` set (t_update P f (c_groups db)) = gw_group_id ` set (c_groups db)"
    by (metis list.set_map)
  then show ?thesis
    using assms t_unique_update [where f = f and key = gw_group_id, OF _ assms(2)]
    unfolding db_typed_def keys_typed_def
    by (auto simp: message_typed_def member_typed_def group_known_def load_identity_def t_update_def)
qed

lemma typed_version: "db_typed E db \<Longrightarrow> db_typed E (set_version g f db)"
  unfolding set_version_def
  by (rule typed_groups_map) (auto dest: db_typedD(5) simp: group_typed_def)

lemma typed_key:
  assumes "bcs_law E" and "db_typed E db" and inst: "install_key E grp k db = Inr (r, db')"
  shows "db_typed E db'"
proof -
  obtain p c where p: "bcs_enc E (ser_aead_key (gr_key_current grp)) = Some p" and c: "bcs_enc E (ser_aead_key k) = Some c"
    and db': "db' = db \<lparr> c_groups := t_update (\<lambda>r. gw_group_id r = group_column (gr_group_id grp))
         (\<lambda>r. r \<lparr> gw_key_prev := p, gw_key_current := c \<rparr>) (c_groups db) \<rparr>"
    using inst by (auto simp: install_key_def)
  have "decode_as E TBytes de_aead_key p = Inr (gr_key_current grp)" "decode_as E TBytes de_aead_key c = Inr k"
    by (rule decode_as_enc [OF assms(1) p], simp_all) (rule decode_as_enc [OF assms(1) c], simp_all)
  then have "group_typed E (r \<lparr> gw_key_prev := p, gw_key_current := c \<rparr>)" if "group_typed E r" for r
    using that by (auto simp: group_typed_def record_of_row_def)
  then show ?thesis
    unfolding db' by (intro typed_groups_map [OF assms(2)]) (auto dest: db_typedD(5) [OF assms(2)])
qed

lemma typed_group:
  assumes "bcs_law E" and "db_typed E db" and "gd_wf d" and ins: "insert_group E g d (gd_server d) token key db = Inr db'"
  shows "db_typed E db'"
proof -
  have "\<exists>r. gw_group_id r = group_column g \<and> group_column g \<notin> gw_group_id ` set (c_groups db) \<and>
      db' = db \<lparr> c_groups := c_groups db @ [r] \<rparr>"
    using ins by (auto simp: insert_group_def t_insert_def split: if_splits intro!: exI)
  then obtain r where rows: "gw_group_id r = group_column g" "group_column g \<notin> gw_group_id ` set (c_groups db)"
    and db': "db' = db \<lparr> c_groups := c_groups db @ [r] \<rparr>" by blast
  have "load_group E g db' = Inr (Some \<lparr> gr_group_id = g, gr_descriptor = d, gr_server_name = gd_server d, gr_token = token,
    gr_key_current = key, gr_key_prev = key \<rparr>)"
    by (rule load_group_inserted [OF assms(1) ins assms(3) gd_wf_sel(2) [OF assms(3)]])
  moreover have "t_get gw_group_id (group_column g) (c_groups db) = None" using rows(2) by (simp add: t_get_None)
  then have "t_get gw_group_id (group_column g) (c_groups db') = Some r"
    using rows(1) by (simp add: db' t_get_append t_get_simps)
  ultimately have "group_typed E r" using rows(1) by (auto simp: load_group_def group_typed_def)
  then show ?thesis
    using assms(2) rows unfolding db_typed_def keys_typed_def db'
    by (auto simp: t_unique_append message_typed_def member_typed_def group_known_def load_identity_def)
qed

interpretation typing: client_store E "\<lambda>db. bcs_law E \<and> hex_law E \<longrightarrow> db_typed E db" for E
  by unfold_locales (auto dest: typed_frame typed_server typed_rotated typed_registered typed_convo typed_message typed_marked
    typed_upsert typed_removed typed_version typed_key typed_group)

section \<open>The history of a message\<close>

text \<open>A message is the row it was stored as, or, if it was waiting to be sent, that row with the outcome.\<close>

definition settles :: "message_row \<Rightarrow> message_row \<Rightarrow> bool" where
  "settles m m' \<longleftrightarrow> m' = m \<or> cm_received_at m = None \<and> cm_send_error m = None \<and>
     (\<exists>e t. m' = m \<lparr> cm_send_error := e, cm_received_at := Some t \<rparr>)"

definition message_kept :: "message_row \<Rightarrow> client_db \<Rightarrow> bool" where
  "message_kept m db \<longleftrightarrow> t_unique cm_id (c_messages db) \<and> (\<exists>m' \<in> set (c_messages db). settles m m')"

lemma unique_row: "t_unique key t \<Longrightarrow> r \<in> set t \<Longrightarrow> r' \<in> set t \<Longrightarrow> key r = key r' \<Longrightarrow> r = r'"
  by (metis option.inject t_get_unique)

lemma kept_marked:
  assumes "message_kept m db" and p: "p \<in> pending_ids db"
    and f: "\<And>r. cm_send_error r = None \<Longrightarrow> f r = r \<lparr> cm_send_error := e, cm_received_at := Some t \<rparr>"
    and id: "\<And>r. cm_id (f r) = cm_id r"
  shows "message_kept m (db \<lparr> c_messages := t_update (\<lambda>r. cm_id r = p) f (c_messages db) \<rparr>)"
proof -
  from assms(1) obtain m' where uniq: "t_unique cm_id (c_messages db)" and m': "m' \<in> set (c_messages db)" "settles m m'"
    by (auto simp: message_kept_def)
  let ?new = "if cm_id m' = p then f m' else m'"
  have "settles m ?new"
  proof (cases "cm_id m' = p")
    case True
    with p have "is_pending db m'" using unique_row [OF uniq _ m'(1)] by (auto simp: pending_ids_def)
    with True m'(2) f show ?thesis by (auto simp: is_pending_def settles_def)
  qed (simp add: m'(2))
  moreover have "?new \<in> set (t_update (\<lambda>r. cm_id r = p) f (c_messages db))" using m'(1) by (auto simp: t_update_def)
  ultimately show ?thesis
    using t_unique_update [OF uniq id] by (simp add: message_kept_def) blast
qed

lemma kept_added:
  "message_kept m db \<Longrightarrow>
     message_kept m (db \<lparr> c_messages := c_messages db @ [new_message i u mime body sent_at received_at db] \<rparr>)"
proof -
  have "cm_id (new_message i u mime body sent_at received_at db) \<notin> cm_id ` set (c_messages db)"
    using next_rowid_fresh [of _ "c_messages db" cm_id] by (fastforce simp: new_message_def)
  then show "message_kept m db \<Longrightarrow>
     message_kept m (db \<lparr> c_messages := c_messages db @ [new_message i u mime body sent_at received_at db] \<rparr>)"
    by (auto simp: message_kept_def t_unique_append)
qed

lemma moved_messages:
  "c_messages (store_server_name n db) = c_messages db"
  "c_messages (snd (remove_member g u db)) = c_messages db"
  "c_messages (set_version g f db) = c_messages db"
  by (simp_all add: store_server_name_def remove_member_def set_version_def Let_def)

lemma untouched_messages:
  "same_rows db db' \<Longrightarrow> c_messages db' = c_messages db"
  "store_rotated E current new_sk db = Inr (r, db') \<Longrightarrow> c_messages db' = c_messages db"
  "persist_identity E db u n ds ch sk = Inr db' \<Longrightarrow> c_messages db' = c_messages db"
  "ensure_convo_id now ct cp db = Inr (i, db') \<Longrightarrow> c_messages db' = c_messages db"
  "upsert_member g m db = Inr (changed, db') \<Longrightarrow> c_messages db' = c_messages db"
  "install_key E grp k db = Inr (x, db') \<Longrightarrow> c_messages db' = c_messages db"
  "insert_group E g d n token key db = Inr db' \<Longrightarrow> c_messages db' = c_messages db"
  by (auto simp: same_rows_def store_rotated_def persist_identity_def ensure_convo_id_def Let_def
      upsert_member_def install_key_def insert_group_def split: if_splits option.splits)

interpretation keeping: client_store E "message_kept m" for E m
proof unfold_locales
  fix db p t
  assume "message_kept m db" and "p \<in> pending_ids db"
  then show "message_kept m (mark_message_sent p t db)"
    unfolding mark_message_sent_def by (rule kept_marked [where e = None and t = t]) simp_all
next
  fix db p err t
  assume "message_kept m db" and "p \<in> pending_ids db"
  then show "message_kept m (mark_message_failed p err t db)"
    unfolding mark_message_failed_def by (rule kept_marked [where e = "Some err" and t = t]) simp_all
next
  fix db u i sent_at mime body received_at
  assume "message_kept m db"
  then show "message_kept m (db \<lparr> c_messages := c_messages db @ [new_message i (username_as_str u) mime body sent_at received_at db] \<rparr>)"
    by (rule kept_added)
qed (auto simp: message_kept_def moved_messages dest!: untouched_messages)

section \<open>Properties\<close>

lemma listing_ok:
  assumes "\<forall>(c, last_message) \<in> set rows. convo_typed E c \<and> (\<forall>m. last_message = Some m \<longrightarrow> sender_parses m)"
  shows "is_ok (fst (convo_list_rows E rows db))"
  using assms
proof (induction rows arbitrary: db)
  case (Cons row rows)
  obtain c last_message where row: "row = (c, last_message)" by (cases row)
  from Cons.prems row obtain k where k: "parse_convo_id E (cv_type c) (cv_counterparty c) = Some k"
    by (auto simp: convo_typed_def)
  obtain shown db1 where one: "(case last_message of None \<Rightarrow> done_with (Inr None) | Some m \<Rightarrow> decode_row E k m) db = (Inr shown, db1)"
  proof (cases last_message)
    case (Some m)
    with Cons.prems row obtain u where "username_parse (cm_sender_username m) = Inr u" by (auto simp: sender_parses_def is_ok_iff)
    from decode_row_result [OF this] that Some show thesis by fastforce
  qed (use that in simp)
  from Cons.IH [of db1] Cons.prems obtain out db2 where "convo_list_rows E rows db1 = (Inr out, db2)"
    by (cases "convo_list_rows E rows db1") (auto simp: is_ok_iff)
  with k one row show ?case by (simp add: call_def)
qed simp

lemma list_rows_ok: "\<forall>r \<in> set rows. member_typed db r \<Longrightarrow> is_ok (list_rows rows)"
  by (induction rows) (auto simp: member_typed_def is_ok_iff row_member_def)

lemma records_ok: "\<forall>r \<in> set rows. group_typed E r \<Longrightarrow> is_ok (records_of_rows E rows)"
  by (induction rows) (auto simp: group_typed_def is_ok_iff)

lemma typed_reads:
  assumes "db_typed E db"
  shows "is_ok (load_groups E db)" and "is_ok (list_raw g db)" and "is_ok (fst (convo_list E db))"
    and "is_ok (fst (convo_history E c before after limit db))"
    and "next_pending_message db = Some p \<Longrightarrow> parse_convo_id E (pm_convo_type p) (pm_counterparty p) \<noteq> None"
proof -
  show "is_ok (load_groups E db)"
    unfolding load_groups_def using db_typedD(5) [OF assms] by (intro records_ok) blast
  show "is_ok (list_raw g db)"
    unfolding list_raw_def using db_typedD(6) [OF assms] by (intro list_rows_ok [of _ db]) simp
  have sender: "m \<in> set (c_messages db) \<Longrightarrow> sender_parses m" for m
    using db_typedD(4) [OF assms] by (simp add: message_typed_def)
  then have "last_row db c = Some m \<Longrightarrow> sender_parses m" for c m
    by (auto simp: last_row_def Let_def dest: t_get_SomeD split: if_splits)
  then show "is_ok (fst (convo_list E db))"
    unfolding convo_list_def using db_typedD(3) [OF assms] by (intro listing_ok) (auto simp: convo_list_query_def)
  have "\<exists>page db'. convo_history E c before after limit db = (Inr page, db')"
  proof -
    let ?q = "history_query E db c (case before of Some b \<Rightarrow> b | None \<Rightarrow> 2 ^ 63 - 1) (case after of Some a \<Rightarrow> a | None \<Rightarrow> - (2 ^ 63)) (unat limit)"
    have "\<forall>m \<in> set ?q. sender_parses m" using sender by (auto simp: history_query_def dest: in_set_takeD)
    from history_rows_result [OF this, of E c db] show ?thesis by (auto simp: convo_history_def)
  qed
  then show "is_ok (fst (convo_history E c before after limit db))" by (auto simp: is_ok_iff)
  show "next_pending_message db = Some p \<Longrightarrow> parse_convo_id E (pm_convo_type p) (pm_counterparty p) \<noteq> None"
    using db_typedD(3) [OF assms] by (fastforce simp: next_pending_message_def convo_typed_def dest: t_get_SomeD split: list.splits)
qed

text \<open>C5: in every state a client reaches from an empty database, whatever its servers, the directory and
  its peers send, everything stored reads back: its identity, its groups, their rosters, the list and the
  history of its conversations, and the conversation of the message its send loop takes up.\<close>

theorem client_db_reads:
  assumes "bcs_law E" and "hex_law E" and "sig_law E" and "world_wf (ce_world C)"
    and "client_runs E C race (empty_client_db, s) (db, s')"
  shows "(c_identity db \<noteq> None \<longrightarrow> is_ok (load_identity E db)) \<and> is_ok (load_groups E db) \<and> (\<forall>g. is_ok (list_raw g db)) \<and>
    is_ok (fst (convo_list E db)) \<and> (\<forall>c before after limit. is_ok (fst (convo_history E c before after limit db))) \<and>
    (\<forall>p. next_pending_message db = Some p \<longrightarrow> parse_convo_id E (pm_convo_type p) (pm_counterparty p) \<noteq> None)"
proof -
  have "db_typed E db"
    using typing.runs_keep [OF assms(5,4,3)] assms(1,2) db_typed_empty by simp
  with typed_reads [OF this] db_typedD(2) [OF this] show ?thesis by blast
qed

theorem client_db_reads_witness:
  "\<exists>db. client_runs demo_ext demo_reg_env (\<lambda>t a m g s. (Inl ''offline'', s)) (empty_client_db, ()) (db, ()) \<and>
     register_finish demo_ext demo_reg_env (BootstrapNewUser (UserName ''@carol'') (ServerName ''~serv_01''))
       (empty_client_db, ()) = (Inr (), db, ()) \<and> is_ok (load_groups demo_ext db) \<and> is_ok (fst (convo_list demo_ext db))"
proof -
  let ?race = "\<lambda>t a m g s. (Inl ''offline'', s) :: (anyhow + group_mailbox_kind \<times> mailbox_entry) \<times> unit"
  obtain db where run: "register_finish demo_ext demo_reg_env (BootstrapNewUser (UserName ''@carol'') (ServerName ''~serv_01''))
     (empty_client_db, ()) = (Inr (), db, ())" using demo_registers by blast
  have wf: "username_wf (UserName ''@carol'')" "server_name_wf (ServerName ''~serv_01'')" by code_simp+
  have "client_step demo_ext demo_reg_env ?race (empty_client_db, ()) (db, ())"
    by (rule client_step.register [OF _ run]) (simp add: wf)
  then have runs: "client_runs demo_ext demo_reg_env ?race (empty_client_db, ()) (db, ())" by (rule r_into_rtranclp)
  have "world_wf (ce_world demo_reg_env)" by (simp add: world_wf_def demo_reg_env_def)
  from client_db_reads [OF demo_laws(1) _ demo_laws(5) this runs] demo_laws run runs show ?thesis by blast
qed

text \<open>C27: a message that was stored stays in the table with its conversation, sender, type, body and time of
  sending, whatever the client does next: it changes at most once, from waiting to be sent to settled.\<close>

theorem message_stays:
  assumes "sig_law E" and "world_wf (ce_world C)" and "client_runs E C race (db, s) (db', s')"
    and "t_unique cm_id (c_messages db)" and "m \<in> set (c_messages db)"
  shows "\<exists>m' \<in> set (c_messages db'). cm_id m' = cm_id m \<and> cm_convo_id m' = cm_convo_id m \<and>
    cm_sender_username m' = cm_sender_username m \<and> cm_mime m' = cm_mime m \<and> cm_body m' = cm_body m \<and>
    cm_sent_at m' = cm_sent_at m \<and> (cm_received_at m \<noteq> None \<longrightarrow> m' = m)"
proof -
  have "message_kept m db" using assms(4,5) by (auto simp: message_kept_def settles_def)
  then have "message_kept m db'" using keeping.runs_keep [OF assms(3,2,1)] by simp
  then obtain m' where "m' \<in> set (c_messages db')" "settles m m'" by (auto simp: message_kept_def)
  then show ?thesis by (intro bexI [of _ m']) (auto simp: settles_def)
qed

theorem message_stays_witness:
  "\<exists>m' \<in> set (c_messages (fst (send_turn demo_ext demo_world (demo_queue, ())))).
     cm_id m' = 1 \<and> cm_body m' = [1] \<and> cm_sender_username m' = ''@alice''"
proof -
  let ?race = "\<lambda>t a m g s. (Inl ''offline'', s) :: (anyhow + group_mailbox_kind \<times> mailbox_entry) \<times> unit"
  let ?m = "hd (c_messages demo_queue)"
  have env: "ce_world demo_env = demo_world" by (simp add: demo_env_def)
  obtain db' s' where turn: "send_turn demo_ext demo_world (demo_queue, ()) = (db', s')" by (metis surj_pair)
  have "client_step demo_ext demo_env ?race (demo_queue, ()) (send_turn demo_ext (ce_world demo_env) (demo_queue, ()))"
    by (rule client_step.send_loop)
  then have runs: "client_runs demo_ext demo_env ?race (demo_queue, ()) (db', s')"
    unfolding env turn by (rule r_into_rtranclp)
  have "server_name_wf (ServerName ''~serv_01'')" by code_simp
  then have "world_wf (ce_world demo_env)" by (auto simp: env world_wf_def demo_world_def demo_dir_lookup_def split: if_splits)
  from message_stays [OF demo_laws(5) this runs, of ?m]
  have "\<exists>m' \<in> set (c_messages db'). cm_id m' = 1 \<and> cm_body m' = [1] \<and> cm_sender_username m' = ''@alice''"
    by (auto simp: demo_queue_def t_unique_def)
  then show ?thesis by (simp add: turn)
qed

end
