(* ===== verification/Screens.thy ===== *)
theory Screens
  imports Internal LongPoll
begin

text \<open>
  The state behind the screens of \<open>nullspace-egui\<close>: the slot a widget keeps a background call in
  (\<open>promises.rs\<close>), the login screen, the forms, the events the application takes in (\<open>main.rs\<close>) and the
  cache of profiles (\<open>utils/profile_loader.rs\<close>). A widget is a function of one frame: what the user did in
  it and which calls have completed are arguments, drawing is left out. A panic is \<open>None\<close>.
\<close>

section \<open>Background calls\<close>

text \<open>A promise is named by \<open>'p\<close>; \<open>ready p\<close> is its value once the call it stands for has completed.\<close>

datatype ('p, 'a) promise_state = Idle | Running 'p | Ready 'a

definition slot_new :: "('p, 'a) promise_state" where
  "slot_new = Idle"

definition slot_start :: "'p \<Rightarrow> ('p, 'a) promise_state \<Rightarrow> bool \<times> ('p, 'a) promise_state" where
  "slot_start promise slot = (case slot of Running _ \<Rightarrow> (False, slot) | _ \<Rightarrow> (True, Running promise))"

definition slot_poll :: "('p \<Rightarrow> 'a option) \<Rightarrow> ('p, 'a) promise_state \<Rightarrow> 'a option \<times> ('p, 'a) promise_state" where
  "slot_poll ready slot =
     (case slot of
        Idle \<Rightarrow> (None, slot)
      | Ready v \<Rightarrow> (Some v, slot)
      | Running promise \<Rightarrow> (case ready promise of None \<Rightarrow> (None, slot) | Some v \<Rightarrow> (Some v, Ready v)))"

definition slot_take :: "('p \<Rightarrow> 'a option) \<Rightarrow> ('p, 'a) promise_state \<Rightarrow> 'a option \<times> ('p, 'a) promise_state" where
  "slot_take ready slot =
     (case slot of
        Idle \<Rightarrow> (None, slot)
      | Ready v \<Rightarrow> (Some v, Idle)
      | Running promise \<Rightarrow> (case ready promise of None \<Rightarrow> (None, slot) | Some v \<Rightarrow> (Some v, Idle)))"

primrec slot_is_running :: "('p, 'a) promise_state \<Rightarrow> bool" where
  "slot_is_running Idle = False"
| "slot_is_running (Running p) = True"
| "slot_is_running (Ready v) = False"

primrec slot_is_idle :: "('p, 'a) promise_state \<Rightarrow> bool" where
  "slot_is_idle Idle = True"
| "slot_is_idle (Running p) = False"
| "slot_is_idle (Ready v) = False"

primrec internal_error_display :: "internal_rpc_error \<Rightarrow> string" where
  "internal_error_display INotReady = ''client not ready''"
| "internal_error_display IAccessDenied = ''access denied''"
| "internal_error_display (IOther text) = text"

definition flatten_rpc :: "string + (internal_rpc_error + 'a) \<Rightarrow> string + 'a" where
  "flatten_rpc result =
     (case result of
        Inr (Inr x) \<Rightarrow> Inr x
      | Inr (Inl err) \<Rightarrow> Inl (internal_error_display err)
      | Inl err \<Rightarrow> Inl err)"

lemma slot_take_Some: "slot_take ready slot = (Some v, slot') \<Longrightarrow> slot' = Idle"
  by (auto simp: slot_take_def split: promise_state.splits option.splits)

section \<open>Login\<close>

datatype login_step = EnterUsername | FinishBootstrap | FinishAddDevice

record 'p login =
  lg_step :: login_step
  lg_username_str :: string
  lg_server_str :: string
  lg_server_choice :: string
  lg_custom_server_str :: string
  lg_bundle_str :: string
  lg_register_start :: "('p, string + register_start_info option) promise_state"
  lg_register_finish :: "('p, string + unit) promise_state"
  lg_error_dialog :: "string option"

definition login_init :: "'p login" where
  "login_init = \<lparr> lg_step = EnterUsername, lg_username_str = [], lg_server_str = [], lg_server_choice = ''~public_test'',
     lg_custom_server_str = [], lg_bundle_str = [], lg_register_start = slot_new, lg_register_finish = slot_new,
     lg_error_dialog = None \<rparr>"

text \<open>One frame: the texts as the user leaves them, whether the button was pressed, and the calls.\<close>

record 'p login_input =
  lf_username_str :: string
  lf_server_choice :: string
  lf_custom_server_str :: string
  lf_bundle_str :: string
  lf_clicked :: bool
  lf_start_ready :: "'p \<Rightarrow> (string + register_start_info option) option"
  lf_finish_ready :: "'p \<Rightarrow> (string + unit) option"
  lf_spawn_start :: "username \<Rightarrow> 'p"
  lf_spawn_finish :: "register_request \<Rightarrow> 'p"

definition login_enter_username :: "'p login_input \<Rightarrow> 'p login \<Rightarrow> 'p login option" where
  "login_enter_username f s =
     (let s = s \<lparr> lg_username_str := lf_username_str f \<rparr>;
          finish = (\<lambda>s. case slot_take (lf_start_ready f) (lg_register_start s) of
              (None, slot) \<Rightarrow> s \<lparr> lg_register_start := slot \<rparr>
            | (Some (Inr (Some info)), slot) \<Rightarrow>
                s \<lparr> lg_register_start := slot, lg_server_str := server_name_as_str (rs_server_name info), lg_step := FinishAddDevice \<rparr>
            | (Some (Inr None), slot) \<Rightarrow> s \<lparr> lg_register_start := slot, lg_step := FinishBootstrap \<rparr>
            | (Some (Inl err), slot) \<Rightarrow>
                s \<lparr> lg_register_start := slot, lg_error_dialog := Some (''register_start: '' @ err) \<rparr>)
      in if slot_is_running (lg_register_start s) then Some (finish s)
         else if lf_clicked f then
           (case username_parse (lg_username_str s) of
              Inl err \<Rightarrow> Some (s \<lparr> lg_error_dialog := Some (''invalid username: invalid format for username'') \<rparr>)
            | Inr username \<Rightarrow>
                Some (finish (s \<lparr> lg_register_start := snd (slot_start (lf_spawn_start f username) (lg_register_start s)) \<rparr>)))
         else Some (finish s))"

definition login_take_finish :: "'p login_input \<Rightarrow> string \<Rightarrow> string \<Rightarrow> 'p login \<Rightarrow> 'p login" where
  "login_take_finish f success failure s =
     (case slot_take (lf_finish_ready f) (lg_register_finish s) of
        (None, slot) \<Rightarrow> s \<lparr> lg_register_finish := slot \<rparr>
      | (Some (Inr _), slot) \<Rightarrow> s \<lparr> lg_register_finish := slot, lg_error_dialog := Some success \<rparr>
      | (Some (Inl err), slot) \<Rightarrow> s \<lparr> lg_register_finish := slot, lg_error_dialog := Some (failure @ err) \<rparr>)"

definition login_finish_bootstrap :: "'p login_input \<Rightarrow> 'p login \<Rightarrow> 'p login option" where
  "login_finish_bootstrap f s =
     (case username_parse (lg_username_str s) of
        Inl err \<Rightarrow> None
      | Inr username \<Rightarrow>
          let s = s \<lparr> lg_server_choice := lf_server_choice f \<rparr>;
              s = (if lg_server_choice s = ''Custom''
                then s \<lparr> lg_custom_server_str := lf_custom_server_str f, lg_server_str := lf_custom_server_str f \<rparr>
                else s \<lparr> lg_server_str := lg_server_choice s \<rparr>);
              register_enabled = (\<not> slot_is_running (lg_register_start s) \<and> \<not> slot_is_running (lg_register_finish s));
              finish = login_take_finish f ''registration submitted'' ''register_finish: ''
          in if register_enabled \<and> lf_clicked f then
               (case server_name_parse (lg_server_str s) of
                  Inl err \<Rightarrow> Some (s \<lparr> lg_error_dialog := Some (''invalid server: invalid server name'') \<rparr>)
                | Inr server_name \<Rightarrow>
                    Some (finish (s \<lparr> lg_register_finish := snd (slot_start
                      (lf_spawn_finish f (BootstrapNewUser username server_name)) (lg_register_finish s)) \<rparr>)))
             else Some (finish s))"

definition login_finish_add_device :: "ext \<Rightarrow> 'p login_input \<Rightarrow> 'p login \<Rightarrow> 'p login option" where
  "login_finish_add_device E f s =
     (case slot_poll (lf_start_ready f) (lg_register_start s) of
        (None, slot) \<Rightarrow> None
      | (Some (Inl err), slot) \<Rightarrow> None
      | (Some (Inr None), slot) \<Rightarrow>
          Some (s \<lparr> lg_register_start := slot, lg_error_dialog := Some ''missing register info'', lg_step := EnterUsername \<rparr>)
      | (Some (Inr (Some info)), slot) \<Rightarrow>
          let s = s \<lparr> lg_register_start := slot, lg_bundle_str := lf_bundle_str f \<rparr>;
              add_enabled = (\<not> slot_is_running (lg_register_start s) \<and> \<not> slot_is_running (lg_register_finish s));
              finish = login_take_finish f ''device added'' ''add device: ''
          in if add_enabled \<and> lf_clicked f then
               (case b64_dec E (trim (lg_bundle_str s)) of
                  None \<Rightarrow> Some (s \<lparr> lg_error_dialog := Some (''invalid bundle: '' @ ''decode error'') \<rparr>)
                | Some raw \<Rightarrow>
                    Some (finish (s \<lparr> lg_register_finish := snd (slot_start
                      (lf_spawn_finish f (AddDevice raw)) (lg_register_finish s)) \<rparr>)))
             else Some (finish s))"

definition login_frame :: "ext \<Rightarrow> 'p login_input \<Rightarrow> 'p login \<Rightarrow> 'p login option" where
  "login_frame E f s =
     (case lg_step s of
        EnterUsername \<Rightarrow> login_enter_username f s
      | FinishBootstrap \<Rightarrow> login_finish_bootstrap f s
      | FinishAddDevice \<Rightarrow> login_finish_add_device E f s)"

fun login_run :: "ext \<Rightarrow> 'p login_input list \<Rightarrow> 'p login \<Rightarrow> 'p login option" where
  "login_run E [] s = Some s"
| "login_run E (f # fs) s = Option.bind (login_frame E f s) (login_run E fs)"

text \<open>A slot is emptied when its value moves the screen on.\<close>

lemma enter_username_step:
  assumes "login_enter_username f s = Some s'" and "lg_step s = EnterUsername"
  shows "lg_step s' = EnterUsername \<or> slot_is_idle (lg_register_start s')"
  using assms
  by (auto simp: login_enter_username_def Let_def split: if_splits prod.splits option.splits sum.splits dest: slot_take_Some)

lemma take_finish_sel [simp]:
  "lg_step (login_take_finish f a b s) = lg_step s" "lg_register_start (login_take_finish f a b s) = lg_register_start s"
  "lg_username_str (login_take_finish f a b s) = lg_username_str s"
  by (auto simp: login_take_finish_def split: prod.split option.split sum.split)

lemma bootstrap_step:
  "login_finish_bootstrap f s = Some s' \<Longrightarrow> lg_step s' = lg_step s \<and> lg_register_start s' = lg_register_start s"
  by (auto simp: login_finish_bootstrap_def Let_def split: if_splits sum.splits)

section \<open>Events\<close>

datatype app_event =
    LoginState bool
  | ConvoChanged convo_id
  | GroupChanged group_id
  | UploadProgress int u64 u64
  | UploadDone int attachment
  | UploadFailed int string
  | DownloadProgress hash u64 u64
  | DownloadDone hash string
  | DownloadFailed hash string

record app_state =
  ap_logged_in :: "bool option"
  ap_msg_updates :: u64
  ap_attach_updates :: u64
  ap_upload_progress :: "int \<rightharpoonup> u64 \<times> u64"
  ap_upload_done :: "int \<rightharpoonup> attachment"
  ap_upload_error :: "int \<rightharpoonup> string"
  ap_download_progress :: "hash \<rightharpoonup> u64 \<times> u64"
  ap_download_error :: "hash \<rightharpoonup> string"

definition app_init :: app_state where
  "app_init = \<lparr> ap_logged_in = None, ap_msg_updates = 0, ap_attach_updates = 0, ap_upload_progress = Map.empty,
     ap_upload_done = Map.empty, ap_upload_error = Map.empty, ap_download_progress = Map.empty, ap_download_error = Map.empty \<rparr>"

primrec app_take_event :: "app_event \<Rightarrow> app_state \<Rightarrow> app_state" where
  "app_take_event (LoginState logged_in) s = s \<lparr> ap_logged_in := Some logged_in \<rparr>"
| "app_take_event (ConvoChanged convo) s = s \<lparr> ap_msg_updates := sat_add64 (ap_msg_updates s) 1 \<rparr>"
| "app_take_event (GroupChanged g) s = s \<lparr> ap_msg_updates := sat_add64 (ap_msg_updates s) 1 \<rparr>"
| "app_take_event (UploadProgress i uploaded_size total_size) s =
     s \<lparr> ap_upload_progress := (ap_upload_progress s)(i \<mapsto> (uploaded_size, total_size)) \<rparr>"
| "app_take_event (UploadDone i root) s =
     s \<lparr> ap_upload_progress := (ap_upload_progress s)(i := None), ap_upload_done := (ap_upload_done s)(i \<mapsto> root),
       ap_upload_error := (ap_upload_error s)(i := None), ap_attach_updates := ap_attach_updates s + 1 \<rparr>"
| "app_take_event (UploadFailed i err) s =
     s \<lparr> ap_upload_progress := (ap_upload_progress s)(i := None), ap_upload_error := (ap_upload_error s)(i \<mapsto> err),
       ap_attach_updates := ap_attach_updates s + 1 \<rparr>"
| "app_take_event (DownloadProgress a downloaded_size total_size) s =
     s \<lparr> ap_download_progress := (ap_download_progress s)(a \<mapsto> (downloaded_size, total_size)) \<rparr>"
| "app_take_event (DownloadDone a path) s =
     s \<lparr> ap_download_progress := (ap_download_progress s)(a := None), ap_download_error := (ap_download_error s)(a := None),
       ap_attach_updates := ap_attach_updates s + 1 \<rparr>"
| "app_take_event (DownloadFailed a err) s =
     s \<lparr> ap_download_progress := (ap_download_progress s)(a := None), ap_download_error := (ap_download_error s)(a \<mapsto> err),
       ap_attach_updates := ap_attach_updates s + 1 \<rparr>"

text \<open>What the composer of a conversation and the profile editor show of an upload, in this order.\<close>

datatype upload_status = UploadBar u64 u64 | UploadReady attachment | UploadError string | UploadSpinner

definition upload_view :: "app_state \<Rightarrow> int \<Rightarrow> upload_status" where
  "upload_view s i =
     (case ap_upload_progress s i of
        Some (uploaded, whole) \<Rightarrow> UploadBar uploaded whole
      | None \<Rightarrow>
          (case ap_upload_done s i of
             Some done_root \<Rightarrow> UploadReady done_root
           | None \<Rightarrow> (case ap_upload_error s i of Some err \<Rightarrow> UploadError err | None \<Rightarrow> UploadSpinner)))"

definition upload_clear :: "int \<Rightarrow> app_state \<Rightarrow> app_state" where
  "upload_clear i s = s \<lparr> ap_upload_done := (ap_upload_done s)(i := None),
     ap_upload_progress := (ap_upload_progress s)(i := None), ap_upload_error := (ap_upload_error s)(i := None) \<rparr>"

text \<open>The attachment part of the composer in one frame: the message to send, and the upload it waits for.\<close>

definition composer_upload ::
  "bool \<Rightarrow> int option \<Rightarrow> app_state \<Rightarrow> outgoing_message option \<times> int option \<times> app_state" where
  "composer_upload clear_clicked attachment s =
     (case attachment of
        None \<Rightarrow> (None, None, s)
      | Some in_progress \<Rightarrow>
          (case upload_view s in_progress of
             UploadReady root \<Rightarrow> (Some (OutAttachment root), None, upload_clear in_progress s)
           | UploadError err \<Rightarrow>
               if clear_clicked then (None, None, upload_clear in_progress s) else (None, Some in_progress, s)
           | _ \<Rightarrow> (None, Some in_progress, s)))"

definition composer_send :: "bool \<Rightarrow> string \<Rightarrow> outgoing_message option \<times> string" where
  "composer_send enter_pressed draft =
     (if enter_pressed \<and> trim draft \<noteq> [] then (Some (OutPlainText draft), []) else (None, draft))"

text \<open>An image is fetched without a click when the preferences allow its size.\<close>

definition auto_download :: "string \<Rightarrow> u64 \<Rightarrow> u64 option \<Rightarrow> string option \<Rightarrow> bool \<Rightarrow> bool" where
  "auto_download mime size_of max_auto dl_path image_downloading \<longleftrightarrow>
     take 6 mime = ''image/'' \<and> dl_path = None \<and> \<not> image_downloading \<and>
     (case max_auto of None \<Rightarrow> False | Some limit \<Rightarrow> size_of \<le> limit)"

primrec event_upload :: "app_event \<Rightarrow> int option" where
  "event_upload (LoginState b) = None"
| "event_upload (ConvoChanged c) = None"
| "event_upload (GroupChanged g) = None"
| "event_upload (UploadProgress i u t) = Some i"
| "event_upload (UploadDone i r) = Some i"
| "event_upload (UploadFailed i e) = Some i"
| "event_upload (DownloadProgress a d t) = None"
| "event_upload (DownloadDone a p) = None"
| "event_upload (DownloadFailed a e) = None"

primrec event_view :: "app_event \<Rightarrow> upload_status" where
  "event_view (LoginState b) = UploadSpinner"
| "event_view (ConvoChanged c) = UploadSpinner"
| "event_view (GroupChanged g) = UploadSpinner"
| "event_view (UploadProgress i u t) = UploadBar u t"
| "event_view (UploadDone i r) = UploadReady r"
| "event_view (UploadFailed i e) = UploadError e"
| "event_view (DownloadProgress a d t) = UploadSpinner"
| "event_view (DownloadDone a p) = UploadSpinner"
| "event_view (DownloadFailed a e) = UploadSpinner"

lemma other_upload: "event_upload e \<noteq> Some i \<Longrightarrow> upload_view (app_take_event e s) i = upload_view s i"
  by (cases e) (auto simp: upload_view_def split: option.split)

lemma own_upload: "event_upload e = Some i \<Longrightarrow> ap_upload_done s i = None \<or> (\<forall>err. e \<noteq> UploadFailed i err) \<Longrightarrow>
    upload_view (app_take_event e s) i = event_view e"
  by (cases e) (auto simp: upload_view_def)

lemma done_event: "ap_upload_done (fold app_take_event es app_init) i \<noteq> None \<Longrightarrow> \<exists>root. UploadDone i root \<in> set es"
proof (induction es rule: rev_induct)
  case (snoc e es)
  then show ?case by (cases e) (auto split: if_splits)
qed (simp add: app_init_def)

lemma upload_view_last:
  assumes "(\<forall>root. UploadDone i root \<notin> set es) \<or> (\<forall>err. UploadFailed i err \<notin> set es)"
  shows "upload_view (fold app_take_event es app_init) i =
    (case rev (filter (\<lambda>e. event_upload e = Some i) es) of [] \<Rightarrow> UploadSpinner | e # _ \<Rightarrow> event_view e)"
  using assms
proof (induction es rule: rev_induct)
  case (snoc e es)
  then have "ap_upload_done (fold app_take_event es app_init) i = None \<or> (\<forall>err. e \<noteq> UploadFailed i err)"
    using done_event [of es i] by auto
  with snoc own_upload [of e i] other_upload [of e i] show ?case by (cases "event_upload e = Some i") auto
qed (simp add: upload_view_def app_init_def)

section \<open>The window and the preferences\<close>

datatype tray_action = TrayShow | TrayHide | TrayQuit

datatype viewport_command = Visible bool | Minimized bool | FocusWindow | CancelClose | CloseWindow

record window =
  wi_tray :: bool   \<comment> \<open>a tray icon exists\<close>
  wi_tray_hidden :: bool
  wi_pending_quit :: bool
  wi_supports_hide :: bool

fun tray_turn :: "tray_action list \<Rightarrow> window \<Rightarrow> viewport_command list \<times> window" where
  "tray_turn [] w = ([], w)"
| "tray_turn (action # actions) w =
     (let (sent, w) = (case action of
              TrayShow \<Rightarrow> ([Visible True, Minimized False, FocusWindow], w \<lparr> wi_tray_hidden := False \<rparr>)
            | TrayHide \<Rightarrow> if wi_supports_hide w then ([Visible False], w \<lparr> wi_tray_hidden := True \<rparr>) else ([], w)
            | TrayQuit \<Rightarrow> ([], w \<lparr> wi_pending_quit := True \<rparr>));
          (rest, w) = tray_turn actions w
      in (sent @ rest, w))"

definition window_turn :: "tray_action list \<Rightarrow> bool \<Rightarrow> window \<Rightarrow> viewport_command list \<times> window" where
  "window_turn actions close_requested w =
     (let (sent, w) = (if wi_tray w then tray_turn actions w else ([], w));
          (kept, w) = (if close_requested \<and> wi_tray w \<and> wi_supports_hide w \<and> \<not> wi_pending_quit w
            then ([CancelClose, Visible False], w \<lparr> wi_tray_hidden := True \<rparr>) else ([], w))
      in (sent @ kept @ (if wi_pending_quit w then [CloseWindow] else []), w))"

text \<open>A close request never ends the application while it can hide in the tray, unless the user quits.\<close>

lemma tray_turn_keeps:
  "tray_turn actions w = (sent, w') \<Longrightarrow> wi_tray w' = wi_tray w \<and> wi_supports_hide w' = wi_supports_hide w \<and>
     (wi_pending_quit w' \<longleftrightarrow> wi_pending_quit w \<or> TrayQuit \<in> set actions)"
  by (induction actions arbitrary: w sent) (auto split: tray_action.splits if_splits prod.splits)

lemma close_hides:
  assumes "window_turn actions True w = (sent, w')" and "wi_tray w" and "wi_supports_hide w"
  shows "CancelClose \<in> set sent \<or> wi_pending_quit w \<or> TrayQuit \<in> set actions"
proof -
  obtain sent1 w1 where "tray_turn actions w = (sent1, w1)" by fastforce
  with tray_turn_keeps [OF this] assms show ?thesis by (auto simp: window_turn_def split: if_splits)
qed

text \<open>\<open>written\<close> is whether the file could be written.\<close>

definition prefs_turn :: "bool \<Rightarrow> 'prefs \<Rightarrow> 'prefs \<Rightarrow> 'prefs option \<times> 'prefs" where
  "prefs_turn written prefs last_saved_prefs =
     (if prefs \<noteq> last_saved_prefs then (if written then (Some prefs, prefs) else (None, last_saved_prefs))
      else (None, last_saved_prefs))"

section \<open>Forms\<close>

datatype avatar_choice = Keep | Clear | Set attachment

definition profile_save_request ::
  "string \<Rightarrow> avatar_choice \<Rightarrow> user_details_info \<Rightarrow> bool \<Rightarrow> bool \<Rightarrow> (string option \<times> attachment option) option" where
  "profile_save_request display_name_input choice profile_view upload_busy save_busy =
     (let display_name_trimmed = trim display_name_input;
          new_display_name = (if display_name_trimmed = [] then None else Some display_name_trimmed);
          avatar_to_send = (case choice of Keep \<Rightarrow> de_avatar profile_view | Clear \<Rightarrow> None | Set a \<Rightarrow> Some a);
          display_changed = (new_display_name \<noteq> de_display_name profile_view);
          avatar_changed = (choice \<noteq> Keep);
          can_save = ((display_changed \<or> avatar_changed) \<and> \<not> upload_busy \<and> \<not> save_busy)
      in if can_save then Some (new_display_name, avatar_to_send) else None)"

text \<open>The upload of a new avatar in one frame: the choice, and the upload it waits for.\<close>

definition profile_avatar_upload ::
  "bool \<Rightarrow> avatar_choice \<Rightarrow> int option \<Rightarrow> app_state \<Rightarrow> avatar_choice \<times> int option \<times> app_state" where
  "profile_avatar_upload clear_clicked choice avatar_upload_id s =
     (case avatar_upload_id of
        None \<Rightarrow> (choice, None, s)
      | Some i \<Rightarrow>
          (case upload_view s i of
             UploadReady root \<Rightarrow> (Set root, None, upload_clear i s)
           | UploadError err \<Rightarrow> if clear_clicked then (choice, None, upload_clear i s) else (choice, Some i, s)
           | _ \<Rightarrow> (choice, Some i, s)))"

definition avatar_mime_ok :: "string \<Rightarrow> bool" where
  "avatar_mime_ok mime \<longleftrightarrow> take 6 mime = ''image/''"

definition add_device_expiry :: "bool \<Rightarrow> u32 \<Rightarrow> timestamp \<Rightarrow> timestamp" where
  "add_device_expiry never_expires expiry_days now =
     (if never_expires then 2 ^ 64 - 1 else sat_add64 (sat_mul64 (ucast expiry_days) 86400) now)"

definition add_contact_request :: "string \<Rightarrow> string \<Rightarrow> string + (convo_id \<times> outgoing_message)" where
  "add_contact_request username_str message_str =
     and_then (map_err (\<lambda>_. ''invalid username: invalid format for username'') (username_parse (trim username_str)))
       (\<lambda>username. Inr (Direct username, OutPlainText message_str))"

definition invite_request :: "group_id \<Rightarrow> string \<Rightarrow> string + (group_id \<times> username)" where
  "invite_request g invite_username =
     and_then (map_err (\<lambda>_. ''invalid username: invalid format for username'') (username_parse (trim invite_username)))
       (\<lambda>username. Inr (g, username))"

section \<open>Profiles and labels\<close>

record 'p profile_entry =
  pe_last_good :: "user_details_info option"
  pe_inflight :: "'p option"
  pe_last_error :: "string option"
  pe_retry_after :: "nat option"   \<comment> \<open>seconds of the monotonic clock\<close>
  pe_missing :: bool
  pe_force_refresh :: bool

record 'p profile_loader =
  pl_entries :: "(username \<times> 'p profile_entry) list"
  pl_label_counts :: "string \<rightharpoonup> nat"
  pl_label_index_dirty :: bool
  pl_cache_writes :: "user_details_info list"

definition PROFILE_RETRY_BACKOFF :: nat where "PROFILE_RETRY_BACKOFF = 60"

definition profile_entry_default :: "'p profile_entry" where
  "profile_entry_default = \<lparr> pe_last_good = None, pe_inflight = None, pe_last_error = None, pe_retry_after = None,
     pe_missing = False, pe_force_refresh = False \<rparr>"

definition profile_loader_new :: "user_details_info list \<Rightarrow> 'p profile_loader" where
  "profile_loader_new initial =
     \<lparr> pl_entries = fold (\<lambda>d. let e = profile_entry_default \<lparr> pe_last_good := Some d \<rparr> in
         hm_entry (de_username_of d) (\<lambda>_. e) e) initial [],
       pl_label_counts = Map.empty, pl_label_index_dirty = True, pl_cache_writes = [] \<rparr>"

definition display_of :: "'p profile_entry \<Rightarrow> string option" where
  "display_of e = Option.bind (pe_last_good e) de_display_name"

text \<open>A call that has completed is taken in; the flag says whether the display name has changed.\<close>

definition profile_take_result ::
  "('p \<Rightarrow> (string + user_details_info) option) \<Rightarrow> nat \<Rightarrow> 'p profile_entry \<Rightarrow> 'p profile_entry \<times> user_details_info list \<times> bool" where
  "profile_take_result poll now e =
     (case Option.bind (pe_inflight e) poll of
        None \<Rightarrow> (e, [], False)
      | Some (Inr profile) \<Rightarrow>
          (e \<lparr> pe_inflight := None, pe_missing := False, pe_last_good := Some profile, pe_last_error := None, pe_retry_after := None \<rparr>,
           [profile], display_of e \<noteq> de_display_name profile)
      | Some (Inl err) \<Rightarrow>
          (e \<lparr> pe_inflight := None, pe_last_error := Some err, pe_retry_after := Some (now + PROFILE_RETRY_BACKOFF) \<rparr>, [], False))"

definition profile_should_fetch :: "nat \<Rightarrow> 'p profile_entry \<Rightarrow> bool" where
  "profile_should_fetch now e \<longleftrightarrow> pe_inflight e = None \<and>
     (pe_force_refresh e \<or>
      (pe_last_good e = None \<and> \<not> pe_missing e \<and> (case pe_retry_after e of None \<Rightarrow> True | Some t \<Rightarrow> t \<le> now)))"

definition profile_view ::
  "('p \<Rightarrow> (string + user_details_info) option) \<Rightarrow> (username \<Rightarrow> 'p) \<Rightarrow> nat \<Rightarrow> username \<Rightarrow> 'p profile_loader
    \<Rightarrow> user_details_info option \<times> 'p profile_loader" where
  "profile_view poll spawn now u L =
     (let known = map_of (pl_entries L) u;
          (e, written, changed) = profile_take_result poll now (case known of Some e \<Rightarrow> e | None \<Rightarrow> profile_entry_default);
          e = (if profile_should_fetch now e then e \<lparr> pe_force_refresh := False, pe_inflight := Some (spawn u) \<rparr> else e)
      in (pe_last_good e,
          L \<lparr> pl_entries := hm_entry u (\<lambda>_. e) e (pl_entries L),
              pl_label_index_dirty := pl_label_index_dirty L \<or> known = None \<or> changed,
              pl_cache_writes := pl_cache_writes L @ written \<rparr>))"

definition label_base :: "username \<Rightarrow> 'p profile_entry \<Rightarrow> string" where
  "label_base u e = (case display_of e of Some name \<Rightarrow> name | None \<Rightarrow> username_as_str u)"

definition refresh_label_index :: "'p profile_loader \<Rightarrow> 'p profile_loader" where
  "refresh_label_index L =
     (if \<not> pl_label_index_dirty L then L
      else L \<lparr> pl_label_index_dirty := False,
        pl_label_counts := fold (\<lambda>(u, e) counts.
          counts(label_base u e \<mapsto> (case counts (label_base u e) of Some n \<Rightarrow> n + 1 | None \<Rightarrow> 1))) (pl_entries L) Map.empty \<rparr>)"

definition label_for ::
  "('p \<Rightarrow> (string + user_details_info) option) \<Rightarrow> (username \<Rightarrow> 'p) \<Rightarrow> nat \<Rightarrow> username \<Rightarrow> 'p profile_loader
    \<Rightarrow> string \<times> 'p profile_loader" where
  "label_for poll spawn now u L =
     (let (view, L) = profile_view poll spawn now u L;
          L = refresh_label_index L;
          display_name = Option.bind view de_display_name;
          base = (case display_name of Some name \<Rightarrow> name | None \<Rightarrow> username_as_str u)
      in (if display_name \<noteq> None \<and> (case pl_label_counts L base of Some n \<Rightarrow> n | None \<Rightarrow> 0) > 1
          then base @ '' ('' @ username_as_str u @ '')'' else base, L))"

definition profile_invalidate :: "username \<Rightarrow> 'p profile_loader \<Rightarrow> 'p profile_loader" where
  "profile_invalidate u L =
     (let reset = (\<lambda>e. e \<lparr> pe_missing := False, pe_last_error := None, pe_retry_after := None, pe_force_refresh := True \<rparr>) in
      L \<lparr> pl_entries := hm_entry u reset (reset profile_entry_default) (pl_entries L) \<rparr>)"

text \<open>The loader as the application uses it: the profile editor invalidates only the profile it shows.\<close>

inductive loader_reached :: "'p profile_loader \<Rightarrow> bool" where
  start: "loader_reached (profile_loader_new initial)"
| view: "loader_reached L \<Longrightarrow> loader_reached (snd (profile_view poll spawn now u L))"
| label: "loader_reached L \<Longrightarrow> loader_reached (snd (label_for poll spawn now u L))"
| invalidate: "loader_reached L \<Longrightarrow> map_of (pl_entries L) u \<noteq> None \<Longrightarrow> loader_reached (profile_invalidate u L)"

definition label_count :: "(username \<times> 'p profile_entry) list \<Rightarrow> string \<Rightarrow> nat" where
  "label_count entries base = length (filter (\<lambda>(u, e). label_base u e = base) entries)"

definition index_ok :: "'p profile_loader \<Rightarrow> bool" where
  "index_ok L \<longleftrightarrow> distinct (map fst (pl_entries L)) \<and> (\<not> pl_label_index_dirty L \<longrightarrow>
     (\<forall>base. (case pl_label_counts L base of Some n \<Rightarrow> n | None \<Rightarrow> 0) = label_count (pl_entries L) base))"

lemma count_fold:
  "(case fold (\<lambda>(u, e) counts. counts(label_base u e \<mapsto> (case counts (label_base u e) of Some n \<Rightarrow> n + 1 | None \<Rightarrow> 1))) es acc base of
      Some n \<Rightarrow> n | None \<Rightarrow> 0) = (case acc base of Some n \<Rightarrow> n | None \<Rightarrow> 0) + label_count es base"
  by (induction es arbitrary: acc) (auto simp: label_count_def split: option.splits)

lemma index_refreshed: "index_ok L \<Longrightarrow> index_ok (refresh_label_index L)"
  "\<not> pl_label_index_dirty (refresh_label_index L)" "pl_entries (refresh_label_index L) = pl_entries L"
  by (auto simp: index_ok_def refresh_label_index_def count_fold)

text \<open>An update of an entry that keeps its display name keeps every count.\<close>

lemma label_count_entry:
  assumes "distinct (map fst m)" and "map_of m k = Some e" and "display_of (f e) = display_of e"
  shows "label_count (hm_entry k f v m) base = label_count m base"
  using assms
proof (induction k f v m rule: hm_entry.induct)
  case (2 k f v k' v' m)
  then show ?case by (auto simp: label_count_def label_base_def split: if_splits)
qed simp

lemma take_result_display:
  "profile_take_result poll now e = (e', written, False) \<Longrightarrow> display_of e' = display_of e"
  by (auto simp: profile_take_result_def display_of_def split: option.splits sum.splits)

lemma view_entry:
  assumes "profile_view poll spawn now u L = (found, L')"
  obtains e where "map_of (pl_entries L') u = Some e" and "found = pe_last_good e"
    and "pl_entries L' = hm_entry u (\<lambda>_. e) e (pl_entries L)" and "pl_label_counts L' = pl_label_counts L"
    and "\<not> pl_label_index_dirty L' \<Longrightarrow> \<not> pl_label_index_dirty L \<and>
      (\<exists>e0. map_of (pl_entries L) u = Some e0 \<and> display_of e = display_of e0)"
proof -
  let ?old = "case map_of (pl_entries L) u of Some e \<Rightarrow> e | None \<Rightarrow> profile_entry_default"
  obtain e1 written changed where take: "profile_take_result poll now ?old = (e1, written, changed)" by (cases "profile_take_result poll now ?old") auto
  let ?e = "if profile_should_fetch now e1 then e1 \<lparr> pe_force_refresh := False, pe_inflight := Some (spawn u) \<rparr> else e1"
  have L': "found = pe_last_good ?e" "L' = L \<lparr> pl_entries := hm_entry u (\<lambda>_. ?e) ?e (pl_entries L),
      pl_label_index_dirty := pl_label_index_dirty L \<or> map_of (pl_entries L) u = None \<or> changed,
      pl_cache_writes := pl_cache_writes L @ written \<rparr>"
    using assms take by (simp_all add: profile_view_def Let_def)
  have "display_of ?e = display_of e1" by (simp add: display_of_def)
  moreover have "\<not> changed \<Longrightarrow> display_of e1 = display_of ?old" using take by (auto dest: take_result_display)
  ultimately show thesis
    using L' by (intro that [of ?e]) (auto simp: map_of_hm_entry split: option.split)
qed

lemma view_index: "index_ok L \<Longrightarrow> profile_view poll spawn now u L = (found, L') \<Longrightarrow> index_ok L'"
proof (erule view_entry)
  fix e
  assume ok: "index_ok L" and es: "pl_entries L' = hm_entry u (\<lambda>_. e) e (pl_entries L)" and counts: "pl_label_counts L' = pl_label_counts L"
    and clean: "\<not> pl_label_index_dirty L' \<Longrightarrow> \<not> pl_label_index_dirty L \<and>
      (\<exists>e0. map_of (pl_entries L) u = Some e0 \<and> display_of e = display_of e0)"
  have dist: "distinct (map fst (pl_entries L))" using ok by (simp add: index_ok_def)
  have "label_count (pl_entries L') base = label_count (pl_entries L) base" if "\<not> pl_label_index_dirty L'" for base
  proof -
    from clean [OF that] obtain e0 where "map_of (pl_entries L) u = Some e0" "display_of e = display_of e0" by blast
    then show ?thesis unfolding es by (intro label_count_entry [OF dist]) simp_all
  qed
  then show "index_ok L'" using ok clean by (auto simp: index_ok_def es counts distinct_hm_entry)
qed

lemma label_view:
  assumes "label_for poll spawn now u L = (lbl, L')"
  obtains found L1 where "profile_view poll spawn now u L = (found, L1)" and "L' = refresh_label_index L1"
    and "lbl = (let name = Option.bind found de_display_name;
        base = (case name of Some n \<Rightarrow> n | None \<Rightarrow> username_as_str u) in
      if name \<noteq> None \<and> (case pl_label_counts L' base of Some n \<Rightarrow> n | None \<Rightarrow> 0) > 1
      then base @ '' ('' @ username_as_str u @ '')'' else base)"
  using assms by (auto simp: label_for_def Let_def split: prod.splits)

lemma distinct_fold_entries:
  "distinct (map fst es) \<Longrightarrow> distinct (map fst (fold (\<lambda>d. let e = f d in hm_entry (k d) (\<lambda>_. e) e) initial es))"
  by (induction initial arbitrary: es) (auto simp: Let_def distinct_hm_entry)

lemma loader_index:
  assumes "loader_reached L"
  shows "index_ok L"
  using assms
proof induction
  case (start initial)
  show ?case by (simp add: index_ok_def profile_loader_new_def distinct_fold_entries)
next
  case (view L poll spawn now u)
  then show ?case by (metis prod.collapse view_index)
next
  case (label L poll spawn now u)
  obtain lbl L' where run: "label_for poll spawn now u L = (lbl, L')" by fastforce
  then obtain found L1 where "profile_view poll spawn now u L = (found, L1)" "L' = refresh_label_index L1"
    by (rule label_view) blast
  with label run show ?case by (auto intro: index_refreshed(1) view_index)
next
  case (invalidate L u)
  let ?reset = "\<lambda>e. e \<lparr> pe_missing := False, pe_last_error := None, pe_retry_after := None, pe_force_refresh := True \<rparr>"
  obtain e where "map_of (pl_entries L) u = Some e" using invalidate by blast
  moreover have dist: "distinct (map fst (pl_entries L))" using invalidate by (simp add: index_ok_def)
  ultimately have "label_count (hm_entry u ?reset v (pl_entries L)) base = label_count (pl_entries L) base" for v base
    by (intro label_count_entry) (simp_all add: display_of_def)
  with invalidate dist show ?case by (simp add: index_ok_def profile_invalidate_def Let_def distinct_hm_entry)
qed

lemma label_count_others:
  assumes "distinct (map fst m)" and "map_of m u = Some e"
  shows "1 < label_count m (label_base u e) \<longleftrightarrow> (\<exists>v e'. v \<noteq> u \<and> map_of m v = Some e' \<and> label_base v e' = label_base u e)"
proof -
  let ?same = "filter (\<lambda>(v, e'). label_base v e' = label_base u e) m"
  have dist: "distinct (map fst ?same)" using assms(1) by (rule distinct_map_filter)
  have u: "(u, e) \<in> set ?same" using assms(2) by (auto dest: map_of_SomeD)
  have "1 < length ?same \<longleftrightarrow> (\<exists>x \<in> set ?same. fst x \<noteq> u)"
  proof
    assume "1 < length ?same"
    then obtain x y rest where xy: "?same = x # y # rest" by (cases ?same; cases "tl ?same") auto
    with dist have "fst x \<noteq> fst y" by simp
    with xy show "\<exists>x \<in> set ?same. fst x \<noteq> u" by (metis list.set_intros(1,2))
  next
    assume "\<exists>x \<in> set ?same. fst x \<noteq> u"
    then obtain x where x: "x \<in> set ?same" "x \<noteq> (u, e)" by auto
    then have "card {x, (u, e)} \<le> card (set ?same)" using u by (intro card_mono) auto
    also have "\<dots> \<le> length ?same" by (rule card_length)
    finally show "1 < length ?same" using x(2) by simp
  qed
  also have "\<dots> \<longleftrightarrow> (\<exists>v e'. v \<noteq> u \<and> map_of m v = Some e' \<and> label_base v e' = label_base u e)"
    using assms(1) by (fastforce dest: map_of_SomeD intro: map_of_is_SomeI)
  finally show ?thesis by (simp add: label_count_def)
qed

section \<open>Properties\<close>

text \<open>C25: the label of a user is its display name, or its user name when it has none; it carries the user
  name as well exactly when another user known to the application goes by the same text. So two users
  whose display names are equal are never shown alike.\<close>

theorem labels_tell_apart:
  assumes "loader_reached L" and "label_for poll spawn now u L = (lbl, L')"
  shows "\<exists>e. map_of (pl_entries L') u = Some e \<and> lbl =
    (if display_of e \<noteq> None \<and> (\<exists>v e'. v \<noteq> u \<and> map_of (pl_entries L') v = Some e' \<and> label_base v e' = label_base u e)
     then label_base u e @ '' ('' @ username_as_str u @ '')'' else label_base u e)"
proof -
  obtain found L1 where v: "profile_view poll spawn now u L = (found, L1)" and L': "L' = refresh_label_index L1"
    and lbl: "lbl = (let name = Option.bind found de_display_name;
        base = (case name of Some n \<Rightarrow> n | None \<Rightarrow> username_as_str u) in
      if name \<noteq> None \<and> (case pl_label_counts L' base of Some n \<Rightarrow> n | None \<Rightarrow> 0) > 1
      then base @ '' ('' @ username_as_str u @ '')'' else base)"
    using label_view [OF assms(2)] by blast
  obtain e where e: "map_of (pl_entries L1) u = Some e" "found = pe_last_good e" using view_entry [OF v] by blast
  have ok: "index_ok L'" using v L' loader_index [OF assms(1)] by (auto intro: index_refreshed(1) view_index)
  then have "(case pl_label_counts L' base of Some n \<Rightarrow> n | None \<Rightarrow> 0) = label_count (pl_entries L') base" for base
    using L' by (simp add: index_ok_def index_refreshed(2))
  moreover have "Option.bind found de_display_name = display_of e" "(case display_of e of Some n \<Rightarrow> n | None \<Rightarrow> username_as_str u) = label_base u e"
    using e(2) by (simp_all add: label_base_def display_of_def)
  moreover have known: "map_of (pl_entries L') u = Some e" using e(1) L' by (simp add: index_refreshed(3))
  ultimately have "lbl = (if display_of e \<noteq> None \<and>
      (\<exists>v e'. v \<noteq> u \<and> map_of (pl_entries L') v = Some e' \<and> label_base v e' = label_base u e)
     then label_base u e @ '' ('' @ username_as_str u @ '')'' else label_base u e)"
    using lbl label_count_others [OF _ known] ok by (simp only: Let_def index_ok_def)
  with known show ?thesis by blast
qed

theorem labels_tell_apart_witness:
  "\<exists>d L' e. d = \<lparr> de_username_of = UserName ''@alice'', de_display_name = Some ''Al'', de_avatar = None, de_server_name_of = None,
      de_common_groups = [], de_last_dm_message = None \<rparr> \<and>
     label_for (\<lambda>p. None) (\<lambda>u. ()) 0 (UserName ''@alice'') (profile_loader_new [d, d \<lparr> de_username_of := UserName ''@bobby'' \<rparr>])
       = (''Al (@alice)'', L') \<and> map_of (pl_entries L') (UserName ''@alice'') = Some e"
proof -
  let ?d = "\<lparr> de_username_of = UserName ''@alice'', de_display_name = Some ''Al'', de_avatar = None, de_server_name_of = None,
      de_common_groups = [], de_last_dm_message = None \<rparr>"
  let ?L = "profile_loader_new [?d, ?d \<lparr> de_username_of := UserName ''@bobby'' \<rparr>] :: unit profile_loader"
  have "fst (label_for (\<lambda>p. None) (\<lambda>u. ()) 0 (UserName ''@alice'') ?L) = ''Al (@alice)''" by code_simp
  then obtain L' where run: "label_for (\<lambda>p. None) (\<lambda>u. ()) 0 (UserName ''@alice'') ?L = (''Al (@alice)'', L')"
    by (metis prod.collapse)
  with labels_tell_apart [OF loader_reached.start run] run show ?thesis by blast
qed

lemma login_keeps:
  assumes "login_frame E f s = Some s'" and "lg_step s = EnterUsername \<or> slot_is_idle (lg_register_start s)"
  shows "lg_step s' = EnterUsername \<or> slot_is_idle (lg_register_start s')"
proof (cases "lg_step s")
  case EnterUsername
  with assms(1) show ?thesis by (auto simp: login_frame_def dest: enter_username_step)
next
  case FinishBootstrap
  with assms show ?thesis by (auto simp: login_frame_def dest!: bootstrap_step)
next
  case FinishAddDevice
  with assms have "lg_register_start s = Idle" by (cases "lg_register_start s") auto
  with FinishAddDevice assms(1) show ?thesis by (simp add: login_frame_def login_finish_add_device_def slot_poll_def)
qed

lemma login_reached:
  "login_run E fs s = Some s' \<Longrightarrow> lg_step s = EnterUsername \<or> slot_is_idle (lg_register_start s) \<Longrightarrow>
     lg_step s' = EnterUsername \<or> slot_is_idle (lg_register_start s')"
  by (induction fs arbitrary: s) (auto simp: bind_eq_Some_conv dest: login_keeps)

text \<open>C26: the frames in which the login screen panics are exactly these: every frame of the step that adds a
  device to an existing user, because the step before it has emptied the slot this step reads; and a frame
  of the registration whose user name does not parse.\<close>

theorem login_panics:
  assumes "login_run E fs login_init = Some s"
  shows "login_frame E f s = None \<longleftrightarrow> lg_step s = FinishAddDevice \<or>
    lg_step s = FinishBootstrap \<and> \<not> is_ok (username_parse (lg_username_str s))"
proof (cases "lg_step s")
  case EnterUsername
  then show ?thesis
    by (auto simp: login_frame_def login_enter_username_def Let_def split: sum.split)
next
  case FinishBootstrap
  then show ?thesis
    by (auto simp: login_frame_def login_finish_bootstrap_def Let_def is_ok_iff split: sum.split)
next
  case FinishAddDevice
  then have "lg_register_start s = Idle"
    using login_reached [OF assms] by (cases "lg_register_start s") (auto simp: login_init_def)
  with FinishAddDevice show ?thesis by (simp add: login_frame_def login_finish_add_device_def slot_poll_def)
qed

definition demo_login_frame :: "unit login_input" where
  "demo_login_frame = \<lparr> lf_username_str = ''@alice'', lf_server_choice = ''~public_test'', lf_custom_server_str = [],
     lf_bundle_str = [], lf_clicked = True,
     lf_start_ready = \<lambda>p. Some (Inr (Some \<lparr> rs_username = UserName ''@alice'', rs_server_name = ServerName ''~serv_01'' \<rparr>)),
     lf_finish_ready = \<lambda>p. None, lf_spawn_start = \<lambda>u. (), lf_spawn_finish = \<lambda>r. () \<rparr>"

theorem login_panics_witness:
  "\<exists>s. login_run demo_ext [demo_login_frame] login_init = Some s \<and> lg_step s = FinishAddDevice \<and>
     login_frame demo_ext demo_login_frame s = None"
proof -
  have "username_parse ''@alice'' = Inr (UserName ''@alice'')" by code_simp
  then have run: "\<exists>s. login_run demo_ext [demo_login_frame] login_init = Some s \<and> lg_step s = FinishAddDevice"
    by (simp add: login_init_def login_frame_def login_enter_username_def demo_login_frame_def slot_new_def slot_start_def
        slot_take_def Let_def)
  then obtain s where "login_run demo_ext [demo_login_frame] login_init = Some s" "lg_step s = FinishAddDevice" by blast
  with login_panics [OF this(1), of demo_login_frame] show ?thesis by blast
qed

end
