(* ===== verification/ChatView.thy ===== *)
theory ChatView
  imports ClientSteps Screens
begin

text \<open>
  A conversation as \<open>nullspace-egui\<close> keeps and shows it: the messages a widget holds
  (\<open>widgets/convo/convo_state.rs\<close>), fetched in pages from the client; their grouping for display
  (\<open>cluster.rs\<close>); and the notification of a new message (\<open>notify.rs\<close>). Identifiers of messages are
  integers, as in \<open>ClientDb\<close>.
\<close>

section \<open>The messages a widget holds\<close>

record convo_state =
  cs_messages :: "(int, convo_message) btree"
  cs_oldest_id :: "int option"
  cs_latest_received_id :: "int option"
  cs_last_update_count_seen :: u64
  cs_initialized :: bool
  cs_no_more_older :: bool
  cs_pending_scroll_to_bottom :: bool

definition INITIAL_LIMIT :: "16 word" where "INITIAL_LIMIT = 100"
definition PAGE_LIMIT :: "16 word" where "PAGE_LIMIT = 10"

definition convo_state_new :: convo_state where
  "convo_state_new = \<lparr> cs_messages = [], cs_oldest_id = None, cs_latest_received_id = None, cs_last_update_count_seen = 0,
     cs_initialized = False, cs_no_more_older = False, cs_pending_scroll_to_bottom = True \<rparr>"

text \<open>\<open>fetch before after limit\<close> is the call of \<open>convo_history\<close>.\<close>

type_synonym 's fetch = "int option \<Rightarrow> int option \<Rightarrow> 16 word \<Rightarrow> ('s, convo_message list) eff"

definition apply_message :: "convo_message \<Rightarrow> convo_state \<Rightarrow> convo_state" where
  "apply_message msg s =
     s \<lparr> cs_latest_received_id :=
           (if ms_received_at msg \<noteq> None
            then Some (case cs_latest_received_id s of Some i \<Rightarrow> max i (ms_id msg) | None \<Rightarrow> ms_id msg)
            else cs_latest_received_id s),
         cs_oldest_id := Some (case cs_oldest_id s of Some i \<Rightarrow> min i (ms_id msg) | None \<Rightarrow> ms_id msg),
         cs_messages := bt_insert (ms_id msg) msg (cs_messages s) \<rparr>"

definition apply_messages :: "convo_message list \<Rightarrow> convo_state \<Rightarrow> convo_state" where
  "apply_messages messages s = fold apply_message messages s"

definition load_initial :: "'s fetch \<Rightarrow> convo_state \<Rightarrow> 's \<Rightarrow> convo_state \<times> 's" where
  "load_initial fetch s st =
     (case fetch None None INITIAL_LIMIT st of
        (Inr messages, st) \<Rightarrow> ((apply_messages messages s) \<lparr> cs_initialized := True \<rparr>, st)
      | (Inl err, st) \<Rightarrow> (s, st))"

partial_function (option) refresh_loop :: "'s fetch \<Rightarrow> int \<Rightarrow> convo_state \<Rightarrow> 's \<Rightarrow> (convo_state \<times> 's) option" where
  "refresh_loop fetch after s st =
     (case fetch None (Some after) PAGE_LIMIT st of
        (Inl err, st) \<Rightarrow> Some (s, st)
      | (Inr messages, st) \<Rightarrow>
          if messages = [] then Some (s, st)
          else refresh_loop fetch (ms_id (last messages) + 1) (apply_messages messages s) st)"

definition checked_inc :: "int \<Rightarrow> int option" where
  "checked_inc i = (if i < 2 ^ 63 - 1 then Some (i + 1) else None)"

definition checked_dec :: "int \<Rightarrow> int option" where
  "checked_dec i = (if - (2 ^ 63) < i then Some (i - 1) else None)"

definition refresh_after :: "convo_state \<Rightarrow> int" where
  "refresh_after s = (case Option.bind (cs_latest_received_id s) checked_inc of Some a \<Rightarrow> a | None \<Rightarrow> 0)"

definition refresh_newer :: "'s fetch \<Rightarrow> convo_state \<Rightarrow> 's \<Rightarrow> (convo_state \<times> 's) option" where
  "refresh_newer fetch s st = refresh_loop fetch (refresh_after s) s st"

definition load_older :: "'s fetch \<Rightarrow> convo_state \<Rightarrow> 's \<Rightarrow> convo_state \<times> 's" where
  "load_older fetch s st =
     (if cs_no_more_older s then (s, st)
      else
        (case Option.bind (cs_oldest_id s) checked_dec of
           None \<Rightarrow> (s \<lparr> cs_no_more_older := True \<rparr>, st)
         | Some before \<Rightarrow>
             (case fetch (Some before) None PAGE_LIMIT st of
                (Inr messages, st) \<Rightarrow>
                  (if messages = [] then s \<lparr> cs_no_more_older := True \<rparr> else apply_messages messages s, st)
              | (Inl err, st) \<Rightarrow> (s, st))))"

text \<open>What a frame of the widget does before it draws.\<close>

definition convo_frame :: "'s fetch \<Rightarrow> u64 \<Rightarrow> convo_state \<Rightarrow> 's \<Rightarrow> (convo_state \<times> 's) option" where
  "convo_frame fetch update_count s st =
     (if \<not> cs_initialized s then
        (case load_initial fetch s st of (s, st) \<Rightarrow> Some (s \<lparr> cs_last_update_count_seen := update_count \<rparr>, st))
      else if cs_last_update_count_seen s < update_count then
        map_option (\<lambda>(s, st). (s \<lparr> cs_last_update_count_seen := update_count \<rparr>, st)) (refresh_newer fetch s st)
      else Some (s, st))"

section \<open>Pages of a history\<close>

definition last_n :: "nat \<Rightarrow> 'a list \<Rightarrow> 'a list" where
  "last_n n xs = drop (length xs - n) xs"

lemma last_n_cases: "last_n n xs = xs \<and> length xs \<le> n \<or> (\<exists>ys. xs = ys @ last_n n xs \<and> length (last_n n xs) = n)"
  by (cases "length xs \<le> n") (auto simp: last_n_def intro!: exI [of _ "take (length xs - n) xs"])

lemma last_n_prefix: "\<exists>ys. xs = ys @ last_n n xs"
  by (metis append_take_drop_id last_n_def)

lemma last_n_append: "xs = ys @ last_n k xs \<Longrightarrow> last_n (k + n) xs = last_n n ys @ last_n k xs"
proof (cases "length xs \<le> k")
  case False
  assume xs: "xs = ys @ last_n k xs"
  then have "length ys = length xs - k" using False by (metis (no_types) add_diff_cancel_right' diff_diff_cancel last_n_def
        length_append length_drop nat_le_linear)
  then have "last_n (k + n) xs = drop (length ys - n) xs" by (simp add: last_n_def)
  also have "\<dots> = drop (length ys - n) (ys @ last_n k xs)" using xs by metis
  finally show ?thesis by (simp add: last_n_def)
qed (simp add: last_n_def)

lemma sorted_last:
  fixes f :: "'a \<Rightarrow> 'b::linorder"
  shows "sorted_wrt (<) (map f xs) \<Longrightarrow> y \<in> set xs \<Longrightarrow> f y \<le> f (last xs)"
  by (induction xs rule: rev_induct) (auto simp: sorted_wrt_append order_less_imp_le)

lemma set_last_n: "x \<in> set (last_n n xs) \<Longrightarrow> x \<in> set xs"
  by (auto simp: last_n_def dest: in_set_dropD)

lemma apply_messages_simps [simp]:
  "apply_messages [] s = s" "apply_messages (m # ms) s = apply_messages ms (apply_message m s)"
  by (simp_all add: apply_messages_def)

lemma apply_message_sel [simp]:
  "cs_messages (apply_message m s) = bt_insert (ms_id m) m (cs_messages s)"
  "cs_oldest_id (apply_message m s) = Some (case cs_oldest_id s of Some i \<Rightarrow> min i (ms_id m) | None \<Rightarrow> ms_id m)"
  "cs_no_more_older (apply_message m s) = cs_no_more_older s"
  by (simp_all add: apply_message_def)

lemma apply_messages_flag [simp]: "cs_no_more_older (apply_messages ms s) = cs_no_more_older s"
  by (induction ms arbitrary: s) simp_all

lemma apply_messages_map:
  "map_of (cs_messages (apply_messages ms s)) = map_of (cs_messages s) ++ map_of (rev (map (\<lambda>m. (ms_id m, m)) ms))"
  by (induction ms arbitrary: s) simp_all

lemma apply_messages_oldest_keep:
  "cs_oldest_id s = Some i \<Longrightarrow> \<forall>m \<in> set ms. i \<le> ms_id m \<Longrightarrow> cs_oldest_id (apply_messages ms s) = Some i"
  by (induction ms arbitrary: s) (simp_all add: min_def)

lemma apply_messages_oldest:
  assumes "sorted_wrt (<) (map ms_id (m # ms))" and "\<forall>i \<in> set_option (cs_oldest_id s). ms_id m \<le> i"
  shows "cs_oldest_id (apply_messages (m # ms) s) = Some (ms_id m)"
proof -
  have "cs_oldest_id (apply_message m s) = Some (ms_id m)" using assms(2) by (auto simp: min_def split: option.split)
  moreover have "\<forall>m' \<in> set ms. ms_id m \<le> ms_id m'" using assms(1) by auto
  ultimately show ?thesis by (simp add: apply_messages_oldest_keep)
qed

lemma sorted_suffix:
  fixes x y :: "'a::linorder \<times> 'b"
  assumes "sorted_wrt (<) (map fst (xs @ ys))" and "x \<in> set (xs @ ys)" and "y \<in> set ys" and "fst y < fst x"
  shows "x \<in> set ys"
proof (rule ccontr)
  assume "x \<notin> set ys"
  with assms(1-3) have "fst x < fst y" by (auto simp: sorted_wrt_append)
  with assms(4) show False by simp
qed

text \<open>The messages of a widget, when they are a run of a conversation.\<close>

definition listing :: "convo_message list \<Rightarrow> (int, convo_message) btree" where
  "listing ms = map (\<lambda>m. (ms_id m, m)) ms"

lemma listing_insert:
  "sorted_wrt (<) (map ms_id (xs @ m # ys)) \<Longrightarrow> bt_insert (ms_id m) m (listing (xs @ ys)) = listing (xs @ m # ys)"
proof (induction xs)
  case Nil
  then show ?case by (cases ys) (simp_all add: listing_def)
next
  case (Cons x xs)
  moreover from Cons.prems have "ms_id x < ms_id m" by simp
  ultimately show ?case by (simp add: listing_def)
qed

lemma listing_apply:
  "sorted_wrt (<) (map ms_id (xs @ ms @ ys)) \<Longrightarrow> cs_messages s = listing (xs @ ys) \<Longrightarrow>
     cs_messages (apply_messages ms s) = listing (xs @ ms @ ys)"
proof (induction ms arbitrary: xs s)
  case (Cons m ms)
  have "sorted_wrt (<) (map ms_id (xs @ m # ys))" using Cons.prems(1) by (simp add: sorted_wrt_append)
  then have "cs_messages (apply_message m s) = listing ((xs @ [m]) @ ys)" using Cons.prems(2) listing_insert by simp
  from Cons.IH [OF _ this] Cons.prems(1) show ?case by simp
qed simp

definition holds_last :: "nat \<Rightarrow> convo_message list \<Rightarrow> convo_state \<Rightarrow> bool" where
  "holds_last k M s \<longleftrightarrow> cs_messages s = listing (last_n k M) \<and>
     cs_oldest_id s = (case last_n k M of [] \<Rightarrow> None | m # _ \<Rightarrow> Some (ms_id m)) \<and> (cs_no_more_older s \<longrightarrow> length M \<le> k)"

text \<open>The contract of the call that fetches a page: it reads a history that stays as it is, a list of
  identifiers in ascending order, each with its message where it has one that can be shown.\<close>

definition in_page :: "int option \<Rightarrow> int option \<Rightarrow> int \<Rightarrow> bool" where
  "in_page before after i \<longleftrightarrow>
     (case before of Some b \<Rightarrow> i \<le> b | None \<Rightarrow> True) \<and> (case after of Some a \<Rightarrow> a \<le> i | None \<Rightarrow> True)"

locale paged_history =
  fixes fetch :: "'s fetch"
    and ready :: "'s \<Rightarrow> bool"
    and history :: "'s \<Rightarrow> (int \<times> convo_message option) list"
  assumes ordered: "ready st \<Longrightarrow> sorted_wrt (<) (map fst (history st))"
    and bounded: "ready st \<Longrightarrow> x \<in> set (history st) \<Longrightarrow> - (2 ^ 63) \<le> fst x"
    and named: "ready st \<Longrightarrow> (i, Some m) \<in> set (history st) \<Longrightarrow> ms_id m = i"
    and fetched: "ready st \<Longrightarrow> \<exists>st'. fetch before after limit st =
      (Inr (List.map_filter snd (last_n (unat limit) (filter (\<lambda>x. in_page before after (fst x)) (history st)))), st') \<and>
      ready st' \<and> history st' = history st"
begin

lemma part_named:
  assumes "ready st" and "set L \<subseteq> set (history st)"
  shows "map ms_id (List.map_filter snd L) = map fst (filter (\<lambda>x. snd x \<noteq> None) L)"
  using assms(2) named [OF assms(1)] by (induction L) (auto simp: List.map_filter_def)

lemma shown_named:
  assumes "ready st" and "m \<in> set (List.map_filter snd L)" and "set L \<subseteq> set (history st)"
  shows "(ms_id m, Some m) \<in> set L"
proof -
  obtain x where x: "x \<in> set L" "snd x = Some m" using assms(2) by (auto simp: set_map_filter_iff)
  then have "x = (fst x, Some m)" by (simp add: prod_eq_iff)
  moreover from this have "ms_id m = fst x" using named [OF assms(1), of "fst x" m] x(1) assms(3) by (metis subsetD)
  ultimately show ?thesis using x(1) by metis
qed

lemma part_ordered:
  assumes "ready st" and "subseq_of = filter p (history st)"
  shows "sorted_wrt (<) (map fst subseq_of)"
  using ordered [OF assms(1)] assms(2) by (simp add: sorted_wrt_map sorted_wrt_filter)

text \<open>After a page of the newest messages, nothing newer is left.\<close>

lemma nothing_newer:
  fixes st after n
  defines "P \<equiv> last_n n (filter (\<lambda>x. in_page None (Some after) (fst x)) (history st))"
  assumes ready: "ready st" and some: "List.map_filter snd P \<noteq> []"
  shows "List.map_filter snd (last_n n (filter (\<lambda>x. in_page None (Some (ms_id (last (List.map_filter snd P)) + 1)) (fst x)) (history st))) = []"
    (is "?rest = []")
proof (rule ccontr)
  let ?m = "last (List.map_filter snd P)"
  assume "?rest \<noteq> []"
  then obtain y where "y \<in> set ?rest" by (meson last_in_set)
  then have y: "(ms_id y, Some y) \<in> set (filter (\<lambda>x. in_page None (Some (ms_id ?m + 1)) (fst x)) (history st))"
    by (rule set_last_n [OF shown_named [OF ready]]) (auto dest: set_last_n)
  have sub: "set P \<subseteq> set (history st)" unfolding P_def by (auto dest: set_last_n)
  have m: "(ms_id ?m, Some ?m) \<in> set P" using some sub by (intro shown_named [OF ready]) simp_all
  then have "after \<le> ms_id ?m" unfolding P_def by (drule_tac set_last_n) (simp add: in_page_def)
  with y have y_in: "(ms_id y, Some y) \<in> set (filter (\<lambda>x. in_page None (Some after) (fst x)) (history st))" and later: "ms_id ?m < ms_id y"
    by (simp_all add: in_page_def)
  obtain front where H: "filter (\<lambda>x. in_page None (Some after) (fst x)) (history st) = front @ P"
    unfolding P_def using last_n_prefix by blast
  have sorted: "sorted_wrt (<) (map fst (front @ P))" using part_ordered [OF ready H [symmetric]] .
  have "(ms_id y, Some y) \<in> set P" by (rule sorted_suffix [OF sorted _ m]) (use y_in later H in simp_all)
  then have "y \<in> set (List.map_filter snd P)" by (auto simp: set_map_filter_iff intro: bexI [of _ "(ms_id y, Some y)"])
  moreover have "sorted_wrt (<) (map ms_id (List.map_filter snd P))"
    using sorted part_named [OF ready sub] by (simp add: sorted_wrt_map sorted_wrt_append sorted_wrt_filter)
  ultimately have "ms_id y \<le> ms_id ?m" by (rule sorted_last [rotated])
  with later show False by simp
qed

lemma refresh_newer_result:
  assumes "ready st"
  shows "\<exists>st'. refresh_newer fetch s st =
      Some (apply_messages (List.map_filter snd (last_n 10 (filter (\<lambda>x. in_page None (Some (refresh_after s)) (fst x)) (history st)))) s, st') \<and>
      ready st' \<and> history st' = history st"
proof -
  let ?rows = "\<lambda>after. List.map_filter snd (last_n 10 (filter (\<lambda>x. in_page None (Some after) (fst x)) (history st)))"
  let ?page = "?rows (refresh_after s)"
  have fetch: "\<exists>st'. fetch None (Some after) PAGE_LIMIT st1 = (Inr (?rows after), st') \<and> ready st' \<and> history st' = history st"
    if "ready st1" "history st1 = history st" for after st1
    using fetched [OF that(1), of None "Some after" PAGE_LIMIT] that(2) by (simp add: PAGE_LIMIT_def)
  obtain st1 where st1: "fetch None (Some (refresh_after s)) PAGE_LIMIT st = (Inr ?page, st1)" "ready st1" "history st1 = history st"
    using fetch [OF assms refl] by blast
  show ?thesis
  proof (cases "?page = []")
    case True
    then show ?thesis using st1 by (simp add: refresh_newer_def refresh_loop.simps)
  next
    case False
    let ?next = "ms_id (last ?page) + 1"
    obtain st2 where st2: "fetch None (Some ?next) PAGE_LIMIT st1 = (Inr [], st2)" "ready st2" "history st2 = history st"
      using fetch [OF st1(2,3), of ?next] nothing_newer [OF assms False] by auto
    then have "refresh_loop fetch ?next (apply_messages ?page s) st1 = Some (apply_messages ?page s, st2)"
      by (simp add: refresh_loop.simps)
    then show ?thesis using st1 st2 False
      by (simp add: refresh_newer_def refresh_loop.simps [of fetch "refresh_after s"])
  qed
qed

text \<open>When every row can be shown, a page is a run of the messages.\<close>

abbreviation messages :: "'s \<Rightarrow> convo_message list" where
  "messages st \<equiv> List.map_filter snd (history st)"

lemma messages_sorted: "ready st \<Longrightarrow> sorted_wrt (<) (map ms_id (messages st))"
  using part_named [of st "history st"] ordered [of st] by (simp add: sorted_wrt_map sorted_wrt_filter)

lemma page_of_messages:
  assumes "ready st" and "\<forall>x \<in> set (history st). snd x \<noteq> None"
  shows "List.map_filter snd (last_n n (filter (\<lambda>x. in_page before after (fst x)) (history st))) =
    last_n n (filter (\<lambda>m. in_page before after (ms_id m)) (messages st))"
proof -
  have all: "L = map (\<lambda>m. (ms_id m, Some m)) (List.map_filter snd L)" if "set L \<subseteq> set (history st)" for L
    using that
  proof (induction L)
    case (Cons x L)
    then obtain m where "snd x = Some m" using assms(2) by fastforce
    then have "x = (ms_id m, Some m)" using named [OF assms(1), of "fst x" m] Cons.prems by (metis insert_subset list.simps(15) prod.collapse)
    with Cons show ?case by (simp add: List.map_filter_simps)
  qed (simp add: List.map_filter_simps)
  have some: "List.map_filter snd (map (\<lambda>m. (ms_id m, Some m)) ms) = ms" for ms
    by (induction ms) (simp_all add: List.map_filter_simps)
  have "last_n n (filter (\<lambda>x. in_page before after (fst x)) (history st)) =
      map (\<lambda>m. (ms_id m, Some m)) (last_n n (filter (\<lambda>m. in_page before after (ms_id m)) (messages st)))"
    by (subst all [of "history st"]) (simp_all add: last_n_def drop_map filter_map comp_def)
  then show ?thesis by (simp add: some)
qed

lemma load_initial_result:
  assumes "ready st" and "\<forall>x \<in> set (history st). snd x \<noteq> None"
  shows "\<exists>s st'. load_initial fetch convo_state_new st = (s, st') \<and> holds_last 100 (messages st) s \<and> ready st' \<and> history st' = history st"
proof -
  let ?page = "last_n 100 (messages st)"
  obtain front where front: "messages st = front @ ?page" using last_n_prefix by blast
  then have sorted: "sorted_wrt (<) (map ms_id ?page)" using messages_sorted [OF assms(1)] by (metis map_append sorted_wrt_append)
  have "\<exists>st'. fetch None None INITIAL_LIMIT st = (Inr ?page, st') \<and> ready st' \<and> history st' = history st"
    using fetched [OF assms(1), of None None INITIAL_LIMIT] page_of_messages [OF assms, of 100 None None]
    by (simp add: INITIAL_LIMIT_def in_page_def)
  moreover have "cs_messages (apply_messages ?page convo_state_new) = listing ?page"
    using listing_apply [of "[]" ?page "[]"] sorted by (simp add: convo_state_new_def listing_def)
  moreover have "cs_oldest_id (apply_messages ?page convo_state_new) = (case ?page of [] \<Rightarrow> None | m # _ \<Rightarrow> Some (ms_id m))"
    using apply_messages_oldest [of _ _ convo_state_new] sorted
    by (cases ?page) (simp_all add: convo_state_new_def)
  ultimately show ?thesis by (auto simp: load_initial_def holds_last_def convo_state_new_def)
qed

lemma older_page:
  assumes "ready st" and "messages st = front @ m # rest"
  shows "filter (\<lambda>x. in_page (Some (ms_id m - 1)) None (ms_id x)) (messages st) = front"
    and "x \<in> set front \<Longrightarrow> ms_id x < ms_id m"
proof -
  have sorted: "sorted_wrt (<) (map ms_id (front @ m # rest))" using messages_sorted [OF assms(1)] assms(2) by metis
  then show "x \<in> set front \<Longrightarrow> ms_id x < ms_id m" by (auto simp: sorted_wrt_append)
  from sorted have "\<forall>x \<in> set front. ms_id x \<le> ms_id m - 1" "\<forall>x \<in> set rest. \<not> ms_id x \<le> ms_id m - 1"
    by (auto simp: sorted_wrt_append)
  then show "filter (\<lambda>x. in_page (Some (ms_id m - 1)) None (ms_id x)) (messages st) = front"
    by (simp add: assms(2) in_page_def filter_id_conv filter_empty_conv)
qed

lemma nothing_before:
  assumes "ready st" and "messages st = front @ m # rest" and "checked_dec (ms_id m) = None"
  shows "front = []"
proof (rule ccontr)
  assume "front \<noteq> []"
  then have x: "hd front \<in> set front" by simp
  then have "(ms_id (hd front), Some (hd front)) \<in> set (history st)"
    using shown_named [OF assms(1), of "hd front" "history st"] assms(2) by simp
  then have "- (2 ^ 63) \<le> ms_id (hd front)" using bounded [OF assms(1)] by fastforce
  with older_page(2) [OF assms(1,2) x] assms(3) show False by (simp add: checked_dec_def split: if_splits)
qed

lemma older_applied:
  assumes "ready st" and "holds_last k (messages st) s" and "messages st = front @ last_n k (messages st)"
    and "last_n k (messages st) = m # rest" and "\<not> cs_no_more_older s" and "last_n 10 front \<noteq> []"
  shows "holds_last (k + 10) (messages st) (apply_messages (last_n 10 front) s)"
proof -
  let ?M = "messages st"
  obtain x xs where page: "last_n 10 front = x # xs" using assms(6) by (cases "last_n 10 front") auto
  have next_last: "last_n (k + 10) ?M = last_n 10 front @ last_n k ?M" by (rule last_n_append [OF assms(3)])
  then have sorted: "sorted_wrt (<) (map ms_id (last_n 10 front @ last_n k ?M))"
    using messages_sorted [OF assms(1)] last_n_prefix [of ?M "k + 10"] by (metis map_append sorted_wrt_append)
  have "cs_messages (apply_messages (x # xs) s) = listing (last_n (k + 10) ?M)"
    using listing_apply [of "[]" "x # xs" "last_n k ?M" s] sorted assms(2) page next_last by (simp add: holds_last_def)
  moreover have "cs_oldest_id (apply_messages (x # xs) s) = Some (ms_id x)"
    using sorted page assms(2,4) by (intro apply_messages_oldest) (auto simp: holds_last_def sorted_wrt_append)
  ultimately show ?thesis using assms(5) next_last page by (simp add: holds_last_def del: apply_messages_simps)
qed

lemma load_older_some:
  assumes "ready st" and "\<forall>x \<in> set (history st). snd x \<noteq> None" and "holds_last k (messages st) s"
    and "\<not> cs_no_more_older s" and "last_n k (messages st) = m # rest" and "messages st = front @ last_n k (messages st)"
  shows "front = [] \<and> load_older fetch s st = (s \<lparr> cs_no_more_older := True \<rparr>, st) \<or>
    (\<exists>st'. load_older fetch s st = (if front = [] then s \<lparr> cs_no_more_older := True \<rparr> else apply_messages (last_n 10 front) s, st') \<and>
      ready st' \<and> history st' = history st)"
proof -
  have oldest: "cs_oldest_id s = Some (ms_id m)" using assms(3,5) by (simp add: holds_last_def)
  have M: "messages st = front @ m # rest" using assms(5,6) by simp
  show ?thesis
  proof (cases "checked_dec (ms_id m)")
    case None
    then have "front = []" by (rule nothing_before [OF assms(1) M])
    with None assms(4) oldest show ?thesis by (simp add: load_older_def)
  next
    case (Some before)
    then have before: "before = ms_id m - 1" by (simp add: checked_dec_def split: if_splits)
    obtain st' where st': "fetch (Some before) None PAGE_LIMIT st = (Inr (last_n 10 front), st')" "ready st'" "history st' = history st"
      using fetched [OF assms(1), of "Some before" None PAGE_LIMIT] page_of_messages [OF assms(1,2), of 10 "Some before" None]
        older_page(1) [OF assms(1) M] by (auto simp: PAGE_LIMIT_def before)
    moreover have "last_n 10 front = [] \<longleftrightarrow> front = []" by (cases front) (auto simp: last_n_def)
    ultimately show ?thesis using Some assms(4) oldest by (simp add: load_older_def)
  qed
qed

lemma load_older_result:
  assumes "ready st" and "\<forall>x \<in> set (history st). snd x \<noteq> None" and "holds_last k (messages st) s" and "0 < k"
  shows "\<exists>s' st'. load_older fetch s st = (s', st') \<and> holds_last (k + 10) (messages st) s' \<and> ready st' \<and> history st' = history st"
proof -
  let ?M = "messages st"
  obtain front where M: "?M = front @ last_n k ?M" using last_n_prefix by blast
  have held: "length ?M \<le> k \<Longrightarrow> holds_last (k + 10) ?M (s \<lparr> cs_no_more_older := True \<rparr>)"
    "length ?M \<le> k \<Longrightarrow> holds_last (k + 10) ?M s"
    using assms(3) by (simp_all add: holds_last_def last_n_def)
  have short: "front = [] \<Longrightarrow> length ?M \<le> k" using M last_n_cases [of k ?M] by fastforce
  consider (finished) "cs_no_more_older s" | (none) "\<not> cs_no_more_older s" "last_n k ?M = []"
    | (some) m rest where "\<not> cs_no_more_older s" "last_n k ?M = m # rest"
    by (cases "last_n k ?M") auto
  then show ?thesis
  proof cases
    case finished
    then show ?thesis using assms(1,3) held by (auto simp: load_older_def holds_last_def)
  next
    case none
    then have "length ?M \<le> k" using assms(4) by (auto simp: last_n_def)
    moreover have "cs_oldest_id s = None" using none assms(3) by (simp add: holds_last_def)
    ultimately show ?thesis using none assms(1) held by (auto simp: load_older_def)
  next
    case some
    have "holds_last (k + 10) ?M (apply_messages (last_n 10 front) s)" if "front \<noteq> []"
      by (rule older_applied [OF assms(1,3) M some(2,1)]) (use that in \<open>cases front; simp add: last_n_def\<close>)
    with load_older_some [OF assms(1-3) some M] assms(1) held(1) [OF short] show ?thesis
      by (cases "front = []") auto
  qed
qed

lemma load_older_run:
  assumes "ready st" and "\<forall>x \<in> set (history st). snd x \<noteq> None" and "holds_last k (messages st) s" and "0 < k"
  shows "\<exists>s' st'. ((\<lambda>(s, st). load_older fetch s st) ^^ n) (s, st) = (s', st') \<and>
    holds_last (k + 10 * n) (messages st) s' \<and> ready st' \<and> history st' = history st"
proof (induction n)
  case (Suc n)
  then obtain s1 st1 where run: "((\<lambda>(s, st). load_older fetch s st) ^^ n) (s, st) = (s1, st1)"
    and s1: "holds_last (k + 10 * n) (messages st) s1" "ready st1" "history st1 = history st" by blast
  from load_older_result [of st1 "k + 10 * n" s1] s1 assms(2,4) show ?case by (auto simp: run ac_simps)
qed (use assms in simp)

end

section \<open>The client's history behind a widget\<close>

definition convo_rows :: "ext \<Rightarrow> client_db \<Rightarrow> convo_id \<Rightarrow> message_row list" where
  "convo_rows E db convo = sort_key cm_id (filter (in_convo db (convo_type convo) (convo_counterparty E convo)) (c_messages db))"

definition convo_log :: "ext \<Rightarrow> convo_id \<Rightarrow> client_db \<Rightarrow> (int \<times> convo_message option) list" where
  "convo_log E convo db = map (\<lambda>m. (cm_id m, shown_message E convo m)) (convo_rows E db convo)"

definition log_ready :: "client_db \<Rightarrow> bool" where
  "log_ready db \<longleftrightarrow> t_unique cm_id (c_messages db) \<and>
     (\<forall>m \<in> set (c_messages db). sender_parses m \<and> - (2 ^ 63) \<le> cm_id m \<and> cm_id m < 2 ^ 63)"

lemma convo_rows_sorted: "log_ready db \<Longrightarrow> sorted_wrt (\<lambda>x y. cm_id x < cm_id y) (convo_rows E db convo)"
  unfolding convo_rows_def by (rule strict_sort_key) (simp add: log_ready_def)

lemma set_convo_rows: "m \<in> set (convo_rows E db convo) \<Longrightarrow> m \<in> set (c_messages db)"
  by (simp add: convo_rows_def)

lemma history_query_log:
  assumes "log_ready db"
  shows "history_query E db convo (case before of Some b \<Rightarrow> b | None \<Rightarrow> 2 ^ 63 - 1) (case after of Some a \<Rightarrow> a | None \<Rightarrow> - (2 ^ 63)) n =
    last_n n (filter (\<lambda>m. in_page before after (cm_id m)) (convo_rows E db convo))"
    (is "history_query E db convo ?b ?a n = _")
proof -
  have "filter (wanted E db convo ?b ?a) (c_messages db) =
      filter (\<lambda>m. in_page before after (cm_id m)) (filter (in_convo db (convo_type convo) (convo_counterparty E convo)) (c_messages db))"
    unfolding filter_filter using assms
    by (intro filter_cong refl) (auto simp: wanted_def in_page_def log_ready_def split: option.split)
  then show ?thesis by (simp add: history_query_eq convo_rows_def last_n_def Let_def flip: filter_sort)
qed

lemma history_rows_frame:
  assumes "history_rows E convo rows db = (r, db')"
  shows "c_messages db' = c_messages db \<and> c_convos db' = c_convos db"
proof -
  let ?I = "\<lambda>d. c_messages d = c_messages db \<and> c_convos d = c_convos db"
  have store: "preserves ?I (transact (store_attachment_root E u a))" for u a
    by (auto simp: store_attachment_root_def Let_def intro!: preserves_transact split: option.splits if_splits)
  have "preserves ?I (decode_row E convo m)" for m
    unfolding decode_row_def decode_message_content_def by (intro eff_rule store)
  then have "preserves ?I (history_rows E convo rows)"
    by (induction rows) (auto intro!: eff_rule)
  from preservesD [OF this _ assms] show ?thesis by simp
qed

interpretation hist: paged_history "convo_history E convo" log_ready "convo_log E convo" for E convo
proof unfold_locales
  fix st
  assume ready: "log_ready st"
  show "sorted_wrt (<) (map fst (convo_log E convo st))"
    using convo_rows_sorted [OF ready] by (simp add: convo_log_def sorted_wrt_map comp_def)
  show "- (2 ^ 63) \<le> fst x" if "x \<in> set (convo_log E convo st)" for x
    using that ready by (auto simp: convo_log_def log_ready_def dest: set_convo_rows)
  show "ms_id m = i" if "(i, Some m) \<in> set (convo_log E convo st)" for i m
    using that by (auto simp: convo_log_def dest: sym shown_message_id)
  fix before after and limit :: "16 word"
  let ?rows = "last_n (unat limit) (filter (\<lambda>m. in_page before after (cm_id m)) (convo_rows E st convo))"
  have "\<forall>m \<in> set ?rows. sender_parses m" using ready by (auto simp: log_ready_def dest!: set_last_n set_convo_rows)
  then obtain st' where run: "history_rows E convo ?rows st = (Inr (List.map_filter (shown_message E convo) ?rows), st')"
    using history_rows_result by blast
  from history_rows_frame [OF this] have frame: "c_messages st' = c_messages st" "c_convos st' = c_convos st" by simp_all
  then have "in_convo st' = in_convo st" by (simp add: in_convo_def fun_eq_iff)
  then have "log_ready st' \<and> convo_log E convo st' = convo_log E convo st"
    using ready frame by (simp add: log_ready_def convo_log_def convo_rows_def)
  moreover have "List.map_filter snd (last_n (unat limit) (filter (\<lambda>x. in_page before after (fst x)) (convo_log E convo st))) =
      List.map_filter (shown_message E convo) ?rows"
    by (simp add: convo_log_def filter_map comp_def last_n_def drop_map List.map_filter_def)
  ultimately show "\<exists>st'. convo_history E convo before after limit st =
      (Inr (List.map_filter snd (last_n (unat limit) (filter (\<lambda>x. in_page before after (fst x)) (convo_log E convo st)))), st') \<and>
      log_ready st' \<and> convo_log E convo st' = convo_log E convo st"
    using run by (auto simp: convo_history_def history_query_log [OF ready])
qed

definition convo_messages :: "ext \<Rightarrow> convo_id \<Rightarrow> client_db \<Rightarrow> convo_message list" where
  "convo_messages E convo db = List.map_filter (shown_message E convo) (convo_rows E db convo)"

lemma log_messages: "List.map_filter snd (convo_log E convo db) = convo_messages E convo db"
  by (simp add: convo_log_def convo_messages_def List.map_filter_def filter_map comp_def)

lemma listing_rev: "sorted_wrt (<) (map ms_id ms) \<Longrightarrow> map_of (rev (listing ms)) = map_of (listing ms)"
  by (intro map_of_inject_set [THEN iffD2]) (auto simp: listing_def comp_def strict_sorted_iff rev_map [symmetric])

section \<open>Grouping\<close>

definition CLUSTER_WINDOW_NANOS :: u64 where "CLUSTER_WINDOW_NANOS = 3 * 60 * 1000000000"

datatype message_kind = TypeText | TypeAttachment | TypeGroupInvite

primrec body_type :: "message_content \<Rightarrow> message_kind" where
  "body_type (PlainText text) = TypeText"
| "body_type (AttachmentContent i n mime filename) = TypeAttachment"
| "body_type (GroupInviteContent i) = TypeGroupInvite"

definition message_type :: "convo_message \<Rightarrow> message_kind" where
  "message_type message = body_type (ms_body message)"

definition abs_diff :: "u64 \<Rightarrow> u64 \<Rightarrow> u64" where
  "abs_diff a b = (if a \<le> b then b - a else a - b)"

text \<open>\<open>now_at i\<close> is the time at which the loop looks at message \<open>i\<close>, which it does at most once as a candidate.\<close>

fun cluster_end :: "(nat \<Rightarrow> nano_timestamp) \<Rightarrow> convo_message \<Rightarrow> nano_timestamp \<Rightarrow> nat \<Rightarrow> convo_message list \<Rightarrow> nat" where
  "cluster_end now_at start_message start_ts n [] = n"
| "cluster_end now_at start_message start_ts n (candidate # rest) =
     (let candidate_ts = (case ms_received_at candidate of Some t \<Rightarrow> t | None \<Rightarrow> now_at n) in
      if ms_sender candidate \<noteq> ms_sender start_message then n
      else if message_type candidate \<noteq> message_type start_message then n
      else if abs_diff start_ts candidate_ts > CLUSTER_WINDOW_NANOS then n
      else cluster_end now_at start_message start_ts (Suc n) rest)"

lemma cluster_end_le: "n \<le> cluster_end now_at m t n rest"
  by (induction now_at m t n rest rule: cluster_end.induct) (auto simp: Let_def)

function cluster_from :: "(nat \<Rightarrow> nano_timestamp) \<Rightarrow> convo_message list \<Rightarrow> nat \<Rightarrow> convo_message list list" where
  "cluster_from now_at messages start =
     (if start < length messages then
        (case ms_received_at (messages ! start) of
           None \<Rightarrow> [messages ! start] # cluster_from now_at messages (start + 1)
         | Some start_ts \<Rightarrow>
             (let n = cluster_end now_at (messages ! start) start_ts (start + 1) (drop (start + 1) messages)
              in take (n - start) (drop start messages) # cluster_from now_at messages n))
      else [])"
  by pat_completeness auto
termination
  by (relation "measure (\<lambda>(now_at, messages, start). length messages - start)")
    (use cluster_end_le in \<open>auto intro!: diff_less_mono2 simp: less_le_trans [OF lessI]\<close>)

declare cluster_from.simps [simp del]

definition cluster_convo :: "(nat \<Rightarrow> nano_timestamp) \<Rightarrow> convo_message list \<Rightarrow> convo_message list list" where
  "cluster_convo now_at messages = cluster_from now_at messages 0"

text \<open>What a message must satisfy to stand with the first message of its group.\<close>

definition stands_with :: "convo_message \<Rightarrow> convo_message \<Rightarrow> bool" where
  "stands_with m x \<longleftrightarrow> ms_sender x = ms_sender m \<and> message_type x = message_type m \<and>
     (case (ms_received_at m, ms_received_at x) of
        (Some t, Some t') \<Rightarrow> abs_diff t t' \<le> CLUSTER_WINDOW_NANOS | _ \<Rightarrow> True)"

lemma cluster_end_step:
  assumes "cluster_end now_at m t n (candidate # rest) \<noteq> n"
  shows "ms_sender candidate = ms_sender m" "message_type candidate = message_type m"
    "\<not> abs_diff t (case ms_received_at candidate of Some t \<Rightarrow> t | None \<Rightarrow> now_at n) > CLUSTER_WINDOW_NANOS"
    "cluster_end now_at m t n (candidate # rest) = cluster_end now_at m t (Suc n) rest"
  using assms by (auto simp: Let_def split: if_splits)

lemma cluster_end_takes:
  "ms_received_at m = Some t \<Longrightarrow> x \<in> set (take (cluster_end now_at m t n rest - n) rest) \<Longrightarrow> stands_with m x"
proof (induction now_at m t n rest rule: cluster_end.induct)
  case (2 now_at m t n candidate rest)
  let ?stop = "cluster_end now_at m t n (candidate # rest)"
  have "?stop \<noteq> n" using 2(3) by (intro notI) simp
  note go = cluster_end_step [OF this]
  then have ok: "stands_with m candidate" using 2(2) by (auto simp: stands_with_def split: option.split)
  have "Suc n \<le> cluster_end now_at m t (Suc n) rest" by (rule cluster_end_le)
  then have "x = candidate \<or> x \<in> set (take (cluster_end now_at m t (Suc n) rest - Suc n) rest)"
    using 2(3) unfolding go(4) by (simp add: take_Cons' Suc_diff_le split: if_splits)
  with 2(1) [OF refl _ _ _ 2(2)] go ok show ?case by auto
qed simp

lemma cluster_end_splits:
  "ms_received_at m = Some t \<Longrightarrow> cluster_end now_at m t n rest < n + length rest \<Longrightarrow>
     ms_received_at (rest ! (cluster_end now_at m t n rest - n)) \<noteq> None \<Longrightarrow>
     \<not> stands_with m (rest ! (cluster_end now_at m t n rest - n))"
proof (induction now_at m t n rest rule: cluster_end.induct)
  case (2 now_at m t n candidate rest)
  show ?case
  proof (cases "cluster_end now_at m t n (candidate # rest) = n")
    case True
    have "cluster_end now_at m t (Suc n) rest \<noteq> n" using cluster_end_le [of "Suc n" now_at m t rest] by simp
    with True 2(2,4) show ?thesis by (auto simp: stands_with_def Let_def split: if_splits)
  next
    case False
    note go = cluster_end_step [OF False]
    have "Suc n \<le> cluster_end now_at m t (Suc n) rest" by (rule cluster_end_le)
    then show ?thesis using 2(1) [OF refl _ _ _ 2(2)] go(1-3) 2(3,4) unfolding go(4) by (simp add: nth_Cons' Suc_diff_le)
  qed
qed simp

lemma cluster_end_parts:
  fixes now_at start messages t
  defines "n \<equiv> cluster_end now_at (messages ! start) t (start + 1) (drop (start + 1) messages)"
  assumes "ms_received_at (messages ! start) = Some t" and "start < length messages" and "n < length messages"
    and "ms_received_at (messages ! n) \<noteq> None"
  shows "\<not> stands_with (messages ! start) (messages ! n)"
proof -
  let ?rest = "drop (start + 1) messages"
  have "start + 1 \<le> n" unfolding n_def by (rule cluster_end_le)
  then have nth: "?rest ! (n - (start + 1)) = messages ! n" using assms(4) by simp
  have "n < (start + 1) + length ?rest" using assms(3,4) by simp
  with cluster_end_splits [OF assms(2), of now_at "start + 1" ?rest] nth assms(5) show ?thesis
    unfolding n_def by simp
qed

lemma cluster_from_head:
  "start < length messages \<Longrightarrow> \<exists>c cs. cluster_from now_at messages start = c # cs \<and> c \<noteq> [] \<and> hd c = messages ! start"
  using cluster_end_le [of "start + 1"]
  by (subst cluster_from.simps) (auto simp: Let_def hd_drop_conv_nth not_le Suc_le_eq split: option.split)

text \<open>The groups are runs of the messages, and a group ends where it must.\<close>

definition parted :: "convo_message list \<Rightarrow> convo_message list \<Rightarrow> bool" where
  "parted c d \<longleftrightarrow> ms_received_at (hd c) = None \<or> ms_received_at (hd d) = None \<or> \<not> stands_with (hd c) (hd d)"

definition group_ok :: "convo_message list \<Rightarrow> bool" where
  "group_ok c \<longleftrightarrow> c \<noteq> [] \<and> (\<forall>x \<in> set c. stands_with (hd c) x) \<and> (ms_received_at (hd c) = None \<longrightarrow> length c = 1)"

lemma cluster_from_groups:
  "concat (cluster_from now_at messages start) = drop start messages \<and>
   (\<forall>c \<in> set (cluster_from now_at messages start). group_ok c) \<and> successively parted (cluster_from now_at messages start)"
proof (induction now_at messages start rule: cluster_from.induct)
  case (1 now_at messages start)
  show ?case
  proof (cases "start < length messages")
    case True
    let ?m = "messages ! start"
    have drop: "drop start messages = ?m # drop (Suc start) messages" using True by (simp add: Cons_nth_drop_Suc)
    show ?thesis
    proof (cases "ms_received_at ?m")
      case None
      then have run: "cluster_from now_at messages start = [?m] # cluster_from now_at messages (start + 1)"
        using True by (subst cluster_from.simps) simp
      have "group_ok [?m]" by (simp add: group_ok_def stands_with_def None)
      moreover have "parted [?m] d" for d by (simp add: parted_def None)
      ultimately show ?thesis using 1(1) [OF True None] drop unfolding run
        by (auto simp: successively_Cons)
    next
      case (Some t)
      let ?n = "cluster_end now_at ?m t (start + 1) (drop (start + 1) messages)"
      let ?c = "take (?n - start) (drop start messages)"
      have n: "start + 1 \<le> ?n" by (rule cluster_end_le)
      have run: "cluster_from now_at messages start = ?c # cluster_from now_at messages ?n"
        using True Some by (subst cluster_from.simps) (simp add: Let_def)
      have c: "?c = ?m # take (?n - (start + 1)) (drop (start + 1) messages)"
        using n by (simp add: drop take_Cons' Suc_diff_Suc)
      have whole: "?c @ drop ?n messages = drop start messages"
        using n by (metis add_leD1 append_take_drop_id drop_drop le_add_diff_inverse2)
      have "group_ok ?c"
        unfolding c group_ok_def using Some cluster_end_takes [OF Some] by (auto simp: stands_with_def abs_diff_def)
      moreover have "parted ?c (hd (cluster_from now_at messages ?n))" if "cluster_from now_at messages ?n \<noteq> []"
      proof -
        have len: "?n < length messages" using that by (subst (asm) cluster_from.simps) (auto split: if_splits)
        then have "hd (hd (cluster_from now_at messages ?n)) = messages ! ?n" using cluster_from_head [OF len, of now_at] by auto
        then show ?thesis using cluster_end_parts [OF Some True len] c by (auto simp: parted_def)
      qed
      ultimately show ?thesis using 1(2) [OF True Some refl] whole unfolding run by (auto simp: successively_Cons)
    qed
  qed (simp add: cluster_from.simps)
qed

section \<open>Notifications\<close>

primrec body_preview :: "message_content \<Rightarrow> string" where
  "body_preview (PlainText text) = text"
| "body_preview (AttachmentContent i n mime filename) = ''Attachment''"
| "body_preview (GroupInviteContent i) = ''Group invite''"

text \<open>The title and the text that are shown, and the new \<open>max_notified\<close>.\<close>

definition show_notification ::
  "app_event \<Rightarrow> bool \<Rightarrow> (convo_id \<Rightarrow> 's fetch) \<Rightarrow> u64 \<Rightarrow> 's \<Rightarrow> (string \<times> string) option \<times> u64 \<times> 's" where
  "show_notification event focused history max_notified st =
     (case event of
        ConvoChanged convo \<Rightarrow>
          (case convo of
             Direct peer \<Rightarrow>
               if focused then (None, max_notified, st)
               else
                 (case history convo None None 1 st of
                    (Inr messages, st) \<Rightarrow>
                      (if messages = [] then (None, max_notified, st)
                       else
                         (let message = last messages;
                              received_at = (case ms_received_at message of Some t \<Rightarrow> t | None \<Rightarrow> 0) in
                          if ms_sender message = peer \<and> received_at > max_notified
                          then (Some (''Message from '' @ username_as_str (ms_sender message), body_preview (ms_body message)),
                            received_at, st)
                          else (None, max_notified, st)))
                  | (Inl err, st) \<Rightarrow> (None, max_notified, st))
           | Group g \<Rightarrow> (None, max_notified, st))
      | _ \<Rightarrow> (None, max_notified, st))"

text \<open>Events one after the other, the state between two of them being whatever the client made of it.\<close>

fun notify_run :: "(convo_id \<Rightarrow> 's fetch) \<Rightarrow> (app_event \<times> bool \<times> 's) list \<Rightarrow> u64 \<Rightarrow> ((string \<times> string) \<times> u64) list" where
  "notify_run history [] max_notified = []"
| "notify_run history ((event, focused, st) # events) max_notified =
     (case show_notification event focused history max_notified st of
        (Some shown, t, st') \<Rightarrow> (shown, t) # notify_run history events t
      | (None, t, st') \<Rightarrow> notify_run history events t)"

lemma notification_moves:
  "show_notification event focused history max_notified st = (shown, t, st') \<Longrightarrow>
     (if shown = None then t = max_notified else max_notified < t)"
  by (auto simp: show_notification_def Let_def split: app_event.splits convo_id.splits if_splits sum.splits prod.splits)

text \<open>The messages notified have ever later times, so none is notified twice.\<close>

lemma notifications_grow:
  "sorted_wrt (<) (map snd (notify_run history events max_notified)) \<and>
   (\<forall>x \<in> set (notify_run history events max_notified). max_notified < snd x)"
proof (induction events arbitrary: max_notified)
  case (Cons e events)
  obtain event focused st where e: "e = (event, focused, st)" by (cases e)
  obtain shown t st' where run: "show_notification event focused history max_notified st = (shown, t, st')"
    by (metis prod_cases3)
  show ?case using Cons.IH [of t] notification_moves [OF run] by (cases shown) (auto simp: e run)
qed simp

section \<open>Properties\<close>


text \<open>C24: while the history stays as it is and every row of it can be shown, a widget that has loaded its
  first page and asked \<open>n\<close> times for older messages holds exactly the last \<open>100 + 10 n\<close> messages of the
  conversation, in order and with no gap, and it stops asking only when it holds them all.\<close>

theorem paging_back_contiguous:
  assumes "log_ready db" and "\<forall>m \<in> set (convo_rows E db convo). shown_message E convo m \<noteq> None"
  shows "\<exists>s db'. ((\<lambda>(s, db). load_older (convo_history E convo) s db) ^^ n)
      (load_initial (convo_history E convo) convo_state_new db) = (s, db') \<and>
    cs_messages s = listing (last_n (100 + 10 * n) (convo_messages E convo db)) \<and>
    (cs_no_more_older s \<longrightarrow> cs_messages s = listing (convo_messages E convo db))"
proof -
  have all: "\<forall>x \<in> set (convo_log E convo db). snd x \<noteq> None" using assms(2) by (simp add: convo_log_def)
  obtain s0 db0 where s0: "load_initial (convo_history E convo) convo_state_new db = (s0, db0)"
    "holds_last 100 (convo_messages E convo db) s0" "log_ready db0" "convo_log E convo db0 = convo_log E convo db"
    using hist.load_initial_result [OF assms(1) all] by (auto simp: log_messages)
  then have "convo_messages E convo db0 = convo_messages E convo db" by (metis log_messages)
  with hist.load_older_run [OF s0(3), of E convo 100 s0 n] s0 all obtain s db' where
    "((\<lambda>(s, db). load_older (convo_history E convo) s db) ^^ n) (s0, db0) = (s, db')"
    "holds_last (100 + 10 * n) (convo_messages E convo db) s"
    by (auto simp: log_messages)
  then show ?thesis by (auto simp: s0(1) holds_last_def last_n_def)
qed

text \<open>Grouping loses, repeats and reorders no message; a group is a run of messages of one sender and
  one type whose received times lie within three minutes of its first, a message not yet received that
  starts a group stands alone, and a group ends only where the next received message does not belong.\<close>

lemma clusters_partition:
  "concat (cluster_convo now_at messages) = messages \<and>
   list_all group_ok (cluster_convo now_at messages) \<and> successively parted (cluster_convo now_at messages)"
  using cluster_from_groups [of now_at messages 0] by (simp add: cluster_convo_def list_all_iff)

lemma demo_log_ready: "log_ready demo_queue"
proof -
  have "is_ok (username_parse ''@alice'')" by code_simp
  then show ?thesis by (simp add: log_ready_def demo_queue_def sender_parses_def t_unique_def)
qed

lemma demo_rows: "convo_rows demo_ext demo_queue (Direct (UserName ''@bobby'')) = c_messages demo_queue"
  by (simp add: convo_rows_def demo_queue_def in_convo_def)

lemma demo_shown: "\<exists>x. shown_message demo_ext (Direct (UserName ''@bobby'')) (hd (c_messages demo_queue)) = Some x \<and> ms_id x = 1"
proof -
  have "username_parse ''@alice'' = Inr (UserName ''@alice'')" by code_simp
  then show ?thesis by (simp add: demo_queue_def shown_message_def shown_content_def row_message_def)
qed


theorem paging_back_contiguous_witness:
  "\<exists>s db' x. load_initial (convo_history demo_ext (Direct (UserName ''@bobby''))) convo_state_new demo_queue = (s, db') \<and>
     cs_messages s = [(1, x)]"
proof -
  obtain x where x: "shown_message demo_ext (Direct (UserName ''@bobby'')) (hd (c_messages demo_queue)) = Some x" "ms_id x = 1"
    using demo_shown by blast
  then have "\<forall>m \<in> set (convo_rows demo_ext demo_queue (Direct (UserName ''@bobby''))).
      shown_message demo_ext (Direct (UserName ''@bobby'')) m \<noteq> None"
    by (simp add: demo_rows) (simp add: demo_queue_def)
  note run = paging_back_contiguous [OF demo_log_ready this, of 0]
  have "convo_messages demo_ext (Direct (UserName ''@bobby'')) demo_queue = [x]"
    unfolding convo_messages_def demo_rows using x(1) by (simp add: demo_queue_def List.map_filter_simps)
  with run x(2) show ?thesis by (auto simp: last_n_def listing_def)
qed

end
