(* ===== verification/Multitool.thy ===== *)
theory Multitool
  imports Internal DirClient
begin

text \<open>
  The command-line tool (\<open>nullspace-multitool\<close>): device secrets and certificate chains kept in files
  (\<open>commands/device.rs\<close>) and entries of the directory (\<open>commands/dir.rs\<close>). The state is the files and
  what was printed; the directory client and the servers are arguments, as the other theories define them.
\<close>

section \<open>State\<close>

datatype tool_output =
    ChainList "(hash, certificate_chain) btree option"
  | AuthOutput auth_token
  | ChainDumped "(device_certificate \<times> hash) list"
  | EntryLine mailbox_entry
  | UserQuery "user_descriptor option"
  | ServerQuery "server_descriptor option"

record 's tool =
  tl_files :: "string \<rightharpoonup> bytes"
  tl_private :: "string set"
  tl_printed :: "tool_output list"
  tl_world :: 's

record 's tool_env =
  te_writable :: "string \<Rightarrow> bool"
  te_chmod :: "string \<Rightarrow> bool"
  te_now :: "'s \<Rightarrow> timestamp"
  te_random_device :: "'s \<Rightarrow> device_secret \<times> 's"
  te_get_user_descriptor :: "username \<Rightarrow> ('s, user_descriptor option) eff"
  te_get_server_descriptor :: "server_name \<Rightarrow> ('s, server_descriptor option) eff"
  te_query_raw :: "string \<Rightarrow> ('s, directory_listing) eff"
  te_insert_user :: "username \<Rightarrow> user_descriptor \<Rightarrow> signing_secret \<Rightarrow> ('s, unit) eff"
  te_insert_server :: "server_name \<Rightarrow> server_descriptor \<Rightarrow> signing_secret \<Rightarrow> ('s, unit) eff"
  te_add_owner :: "string \<Rightarrow> signing_public \<Rightarrow> signing_secret \<Rightarrow> ('s, unit) eff"
  te_del_owner :: "string \<Rightarrow> signing_public \<Rightarrow> signing_secret \<Rightarrow> ('s, unit) eff"
  te_device_certs :: "string \<Rightarrow> username \<Rightarrow> ('s, server_rpc_error + (hash, certificate_chain) btree option) eff"
  te_device_auth :: "string \<Rightarrow> username \<Rightarrow> certificate_chain \<Rightarrow> ('s, server_rpc_error + auth_token) eff"
  te_mailbox_send :: "string \<Rightarrow> auth_token \<Rightarrow> mailbox_id \<Rightarrow> blob \<Rightarrow> u32 \<Rightarrow> ('s, server_rpc_error + nano_timestamp) eff"
  te_multirecv :: "string \<Rightarrow> mailbox_recv_args list \<Rightarrow> u64 \<Rightarrow>
    ('s, server_rpc_error + (mailbox_id, mailbox_entry list) btree) eff"

definition in_world :: "('s, 'a) eff \<Rightarrow> ('s tool, 'a) eff" where
  "in_world m t = (case m (tl_world t) of (r, w) \<Rightarrow> (r, t \<lparr> tl_world := w \<rparr>))"

text \<open>A request whose two layers of errors both end the command.\<close>

definition asked :: "('s, server_rpc_error + 'a) eff \<Rightarrow> ('s tool, 'a) eff" where
  "asked m = call (in_world m) (\<lambda>r. done_with (map_err rpc_error_display r))"

definition print_json :: "tool_output \<Rightarrow> ('s tool, unit) eff" where
  "print_json x t = (Inr (), t \<lparr> tl_printed := tl_printed t @ [x] \<rparr>)"

definition read_bcs :: "ext \<Rightarrow> styp \<Rightarrow> (sval \<Rightarrow> 'a option) \<Rightarrow> string \<Rightarrow> ('s tool, 'a) eff" where
  "read_bcs E ty de path t =
     (and_then (ok_or (''read '' @ path) (tl_files t path)) (\<lambda>data. ok_or (''decode BCS '' @ path) (bcs_from E ty de data)), t)"

definition write_bcs :: "ext \<Rightarrow> 's tool_env \<Rightarrow> string \<Rightarrow> sval \<Rightarrow> ('s tool, unit) eff" where
  "write_bcs E T path v t =
     (case bcs_enc E v of
        None \<Rightarrow> (Inl ''serialize BCS value'', t)
      | Some data \<Rightarrow>
          if te_writable T path then (Inr (), t \<lparr> tl_files := (tl_files t)(path \<mapsto> data) \<rparr>) else (Inl (''write '' @ path), t))"

definition write_secret_file :: "ext \<Rightarrow> 's tool_env \<Rightarrow> string \<Rightarrow> device_secret \<Rightarrow> ('s tool, unit) eff" where
  "write_secret_file E T path secret =
     call (write_bcs E T path (ser_signing_secret secret)) (\<lambda>_. \<lambda>t.
       if te_chmod T path then (Inr (), t \<lparr> tl_private := insert path (tl_private t) \<rparr>)
       else (Inl (''chmod secret '' @ path), t))"

section \<open>Devices\<close>

datatype device_command =
    List username
  | Auth username string
  | NewSecret string
  | ChainInit string "u64 option" bool string
  | ChainIssue string string string "u64 option" bool string
  | ChainDump string
  | MailboxSend username string string
  | MailboxRecv username string u64

definition resolve_server_endpoint :: "'s tool_env \<Rightarrow> username \<Rightarrow> ('s tool, string) eff" where
  "resolve_server_endpoint T u =
     call (in_world (te_get_user_descriptor T u)) (\<lambda>d.
     call (done_with (ok_or (''username not found: '' @ username_as_str u) d)) (\<lambda>descriptor.
     call (in_world (te_get_server_descriptor T (ud_server_name descriptor))) (\<lambda>s.
     call (done_with (ok_or (''server not found: '' @ server_name_as_str (ud_server_name descriptor)) s)) (\<lambda>server.
       done_with (ok_or ''server has no public URLs''
         (case sd_public_urls server of [] \<Rightarrow> None | url # _ \<Rightarrow> Some url))))))"

definition expiry_from_ttl :: "'s tool_env \<Rightarrow> u64 option \<Rightarrow> 's \<Rightarrow> timestamp" where
  "expiry_from_ttl T ttl_secs w = (case ttl_secs of Some ttl \<Rightarrow> sat_add64 (te_now T w) ttl | None \<Rightarrow> 2 ^ 64 - 1)"

definition chain_init ::
  "ext \<Rightarrow> 's tool_env \<Rightarrow> string \<Rightarrow> u64 option \<Rightarrow> bool \<Rightarrow> string \<Rightarrow> ('s tool, unit) eff" where
  "chain_init E T root_secret_path ttl_secs leaf out =
     call (read_bcs E TBytes de_signing_secret root_secret_path) (\<lambda>root_secret. \<lambda>t.
       let cert = self_signed E root_secret (expiry_from_ttl T ttl_secs (tl_world t)) (\<not> leaf)
       in write_bcs E T out (ser_chain \<lparr> chain_ancestors = [], chain_this = cert \<rparr>) t)"

definition chain_issue ::
  "ext \<Rightarrow> 's tool_env \<Rightarrow> string \<Rightarrow> string \<Rightarrow> string \<Rightarrow> u64 option \<Rightarrow> bool \<Rightarrow> string \<Rightarrow> ('s tool, unit) eff" where
  "chain_issue E T chain_path issuer_path subject_path ttl_secs leaf out =
     call (read_bcs E ty_chain (de_chain E) chain_path) (\<lambda>chain.
     call (read_bcs E TBytes de_signing_secret issuer_path) (\<lambda>issuer_secret.
     call (read_bcs E TBytes de_signing_secret subject_path) (\<lambda>subject_secret. \<lambda>t.
       let cert = issue_certificate E issuer_secret (signing_public_key E subject_secret)
             (expiry_from_ttl T ttl_secs (tl_world t)) (\<not> leaf);
           ancestors = chain_ancestors chain @ [chain_this chain]
       in write_bcs E T out (ser_chain \<lparr> chain_ancestors = ancestors, chain_this = cert \<rparr>) t)))"

definition chain_dump :: "ext \<Rightarrow> string \<Rightarrow> ('s tool, unit) eff" where
  "chain_dump E chain_path =
     call (read_bcs E ty_chain (de_chain E) chain_path) (\<lambda>chain.
       print_json (ChainDumped (map (\<lambda>cert. (cert, pk_hash E (cert_pk cert))) (chain_ancestors chain @ [chain_this chain]))))"

definition authenticate ::
  "ext \<Rightarrow> 's tool_env \<Rightarrow> username \<Rightarrow> string \<Rightarrow> ('s tool, string \<times> auth_token) eff" where
  "authenticate E T u chain_path =
     call (resolve_server_endpoint T u) (\<lambda>endpoint.
     call (read_bcs E ty_chain (de_chain E) chain_path) (\<lambda>chain.
     call (asked (te_device_auth T endpoint u chain)) (\<lambda>auth.
       done_with (Inr (endpoint, auth)))))"

definition tool_mailbox_send :: "ext \<Rightarrow> 's tool_env \<Rightarrow> username \<Rightarrow> string \<Rightarrow> string \<Rightarrow> ('s tool, unit) eff" where
  "tool_mailbox_send E T u chain_path message =
     call (authenticate E T u chain_path) (\<lambda>(endpoint, auth).
     call (asked (te_mailbox_send T endpoint auth (mailbox_direct E u)
       \<lparr> blob_kind = V1_PLAINTEXT_DIRECT_MESSAGE, blob_inner = str_bytes message \<rparr> 0)) (\<lambda>_.
       done_with (Inr ())))"

text \<open>One turn of the receiving loop: every entry is printed, and the position is that of the last.\<close>

fun print_entries :: "mailbox_entry list \<Rightarrow> nano_timestamp \<Rightarrow> ('s tool, nano_timestamp) eff" where
  "print_entries [] after = done_with (Inr after)"
| "print_entries (entry # entries) after =
     call (print_json (EntryLine entry)) (\<lambda>_. print_entries entries (mbe_received_at entry))"

definition mailbox_recv_turn ::
  "'s tool_env \<Rightarrow> string \<Rightarrow> auth_token \<Rightarrow> mailbox_id \<Rightarrow> u64 \<Rightarrow> nano_timestamp \<Rightarrow> ('s tool, nano_timestamp) eff" where
  "mailbox_recv_turn T endpoint auth mailbox timeout_ms after =
     call (asked (te_multirecv T endpoint [\<lparr> mra_auth = auth, mra_mailbox = mailbox, mra_after = after \<rparr>] timeout_ms))
       (\<lambda>response.
         let entries = (case map_of response mailbox of Some es \<Rightarrow> es | None \<Rightarrow> [])
         in if entries = [] then done_with (Inr after) else print_entries entries after)"

text \<open>The loop ends only with an error.\<close>

partial_function (option) mailbox_recv_loop ::
  "'s tool_env \<Rightarrow> string \<Rightarrow> auth_token \<Rightarrow> mailbox_id \<Rightarrow> u64 \<Rightarrow> nano_timestamp \<Rightarrow> 's tool \<Rightarrow> ((anyhow + unit) \<times> 's tool) option" where
  "mailbox_recv_loop T endpoint auth mailbox timeout_ms after t =
     (case mailbox_recv_turn T endpoint auth mailbox timeout_ms after t of
        (Inl err, t) \<Rightarrow> Some (Inl err, t)
      | (Inr after, t) \<Rightarrow> mailbox_recv_loop T endpoint auth mailbox timeout_ms after t)"

fun run_device :: "ext \<Rightarrow> 's tool_env \<Rightarrow> device_command \<Rightarrow> 's tool \<Rightarrow> ((anyhow + unit) \<times> 's tool) option" where
  "run_device E T (List u) t = Some
     (call (resolve_server_endpoint T u) (\<lambda>endpoint.
      call (asked (te_device_certs T endpoint u)) (\<lambda>chains. print_json (ChainList chains))) t)"
| "run_device E T (Auth u chain) t = Some
     (call (read_bcs E ty_chain (de_chain E) chain) (\<lambda>c.
      call (resolve_server_endpoint T u) (\<lambda>endpoint.
      call (asked (te_device_auth T endpoint u c)) (\<lambda>auth_token. print_json (AuthOutput auth_token)))) t)"
| "run_device E T (NewSecret out) t = Some
     (case te_random_device T (tl_world t) of
        (secret, w) \<Rightarrow> write_secret_file E T out secret (t \<lparr> tl_world := w \<rparr>))"
| "run_device E T (ChainInit root_secret ttl_secs leaf out) t = Some (chain_init E T root_secret ttl_secs leaf out t)"
| "run_device E T (ChainIssue chain issuer_path subject ttl_secs leaf out) t =
     Some (chain_issue E T chain issuer_path subject ttl_secs leaf out t)"
| "run_device E T (ChainDump chain) t = Some (chain_dump E chain t)"
| "run_device E T (MailboxSend u chain message) t = Some (tool_mailbox_send E T u chain message t)"
| "run_device E T (MailboxRecv u chain timeout_ms) t =
     (case authenticate E T u chain t of
        (Inl err, t) \<Rightarrow> Some (Inl err, t)
      | (Inr (endpoint, auth), t) \<Rightarrow> mailbox_recv_loop T endpoint auth (mailbox_direct E u) timeout_ms 0 t)"

section \<open>The directory\<close>

datatype dir_command =
    UsernameQuery username
  | UsernameInsert username server_name hash signing_secret
  | UsernameAddOwner username signing_public signing_secret
  | UsernameDelOwner username signing_public signing_secret
  | ServerNameQuery server_name
  | ServerInsert server_name "string list" signing_public signing_secret
  | ServerAddOwner server_name signing_public signing_secret
  | ServerDelOwner server_name signing_public signing_secret

fun run_dir :: "'s tool_env \<Rightarrow> dir_command \<Rightarrow> ('s tool, unit) eff" where
  "run_dir T (UsernameQuery u) = call (in_world (te_get_user_descriptor T u)) (\<lambda>d. print_json (UserQuery d))"
| "run_dir T (UsernameInsert u server_name roothash secret_key) =
     (let descriptor = \<lparr> ud_server_name = server_name, ud_root_cert_hash = roothash \<rparr> in
      call (in_world (te_get_user_descriptor T u)) (\<lambda>existing.
        if existing = Some descriptor then done_with (Inr ())
        else in_world (te_insert_user T u descriptor secret_key)))"
| "run_dir T (UsernameAddOwner u owner secret_key) =
     call (in_world (te_query_raw T (username_as_str u))) (\<lambda>listing.
       if owner \<in> set (dl_owners listing) then done_with (Inr ())
       else in_world (te_add_owner T (username_as_str u) owner secret_key))"
| "run_dir T (UsernameDelOwner u owner secret_key) = in_world (te_del_owner T (username_as_str u) owner secret_key)"
| "run_dir T (ServerNameQuery n) = call (in_world (te_get_server_descriptor T n)) (\<lambda>d. print_json (ServerQuery d))"
| "run_dir T (ServerInsert n public_urls server_pk secret_key) =
     in_world (te_insert_server T n \<lparr> sd_public_urls = public_urls, sd_server_pk = server_pk \<rparr> secret_key)"
| "run_dir T (ServerAddOwner n owner secret_key) = in_world (te_add_owner T (server_name_as_str n) owner secret_key)"
| "run_dir T (ServerDelOwner n owner secret_key) = in_world (te_del_owner T (server_name_as_str n) owner secret_key)"

section \<open>Properties\<close>

text \<open>A file that was written reads back.\<close>

lemma write_then_read:
  assumes "bcs_law E" and "write_bcs E T path v t = (Inr (), t')" and "has_styp ty v" and "map_free ty" and "de v = Some x"
  shows "read_bcs E ty de path t' = (Inr x, t')"
proof -
  obtain data where enc: "bcs_enc E v = Some data" and t': "t' = t \<lparr> tl_files := (tl_files t)(path \<mapsto> data) \<rparr>"
    using assms(2) by (auto simp: write_bcs_def split: option.splits if_splits)
  show ?thesis by (simp add: read_bcs_def t' bcs_from_enc [OF assms(1) enc assms(4,3)] assms(5))
qed

lemma read_ok: "read_bcs E ty de path t = (Inr x, t') \<longleftrightarrow>
    t' = t \<and> (\<exists>data. tl_files t path = Some data \<and> bcs_from E ty de data = Some x)"
  by (auto simp: read_bcs_def and_then_def split: option.splits sum.splits)

lemma issued_wf:
  assumes "sig_law E" and "chain_wf E ch"
  shows "chain_wf E (extend_chain ch (issue_certificate E sk (signing_public_key E subject) expiry can))"
  using assms by (simp add: extend_chain_def chain_wf_def chain_certs_def)

lemma decoded_chain_wf: "bcs_from E ty_chain (de_chain E) data = Some ch \<Longrightarrow> chain_wf E ch"
  by (auto simp: bcs_from_def bind_eq_Some_conv intro: de_chain_wf)

text \<open>What \<open>chain-issue\<close> writes reads back as the chain with a certificate for the subject's key, and
  verifies wherever the chain it extends does, provided the issuer's secret is that of the chain and its
  certificate may issue; the command checks neither.\<close>

lemma tool_chain_verifies:
  assumes "bcs_law E" and "sig_law E"
    and "run_device E T (ChainIssue chain issuer_path subject ttl_secs leaf out) t = Some (Inr (), t')"
    and "read_bcs E ty_chain (de_chain E) chain t = (Inr ch, t)"
    and "read_bcs E TBytes de_signing_secret issuer_path t = (Inr sk, t)"
    and "read_bcs E TBytes de_signing_secret subject t = (Inr sub, t)"
    and "chain_verify E now ch root = Inr ()" and "cert_pk (chain_this ch) = signing_public_key E sk"
    and "cert_can_issue (chain_this ch)" and "now < expiry_from_ttl T ttl_secs (tl_world t)"
    and "pk_hash E (signing_public_key E sub) \<noteq> root"
  shows "\<exists>ch'. read_bcs E ty_chain (de_chain E) out t' = (Inr ch', t') \<and> chain_verify E now ch' root = Inr () \<and>
    cert_pk (last_device ch') = signing_public_key E sub \<and> cert_can_issue (last_device ch') = (\<not> leaf)"
proof -
  let ?c = "issue_certificate E sk (signing_public_key E sub) (expiry_from_ttl T ttl_secs (tl_world t)) (\<not> leaf)"
  let ?ch = "extend_chain ch ?c"
  have "write_bcs E T out (ser_chain ?ch) t = (Inr (), t')"
    using assms(3) by (simp add: chain_issue_def call_def assms(4-6) extend_chain_def Let_def)
  moreover have "chain_wf E ?ch" using assms(4) decoded_chain_wf by (intro issued_wf assms(2)) (auto simp: read_ok)
  ultimately have "read_bcs E ty_chain (de_chain E) out t' = (Inr ?ch, t')"
    using write_then_read [OF assms(1), where ty = ty_chain and de = "de_chain E" and v = "ser_chain ?ch" and x = ?ch]
      serde_chain(2,3) serde_chain(1) [of E ?ch] by simp
  moreover have "chain_ok E now ?ch root"
    using assms(7-11)
    by (intro extended_chain_ok) (simp_all add: chain_verify_iff signed_by_issuer [OF assms(2)] fresh_def is_root_def flip: pk_hash_def)
  ultimately show ?thesis by (auto simp: chain_verify_iff extend_chain_def last_device_def)
qed

text \<open>A user name that is registered as wanted is not registered again.\<close>

lemma username_insert_idempotent:
  assumes "te_get_user_descriptor T u (tl_world t) = (Inr (Some \<lparr> ud_server_name = n, ud_root_cert_hash = h \<rparr>), w)"
  shows "run_dir T (UsernameInsert u n h sk) t = (Inr (), t \<lparr> tl_world := w \<rparr>)"
  using assms by (simp add: call_def in_world_def done_with_def Let_def)

end
