(* ===== verification/CApi.thy ===== *)
theory CApi
  imports Prelude
begin

text \<open>
  The C interface of the client (\<open>c_api.rs\<close>): clients in numbered slots, and a call whose request and
  response share one buffer of the caller. A buffer is the list of its bytes; reading a C string that has
  no end in the buffer is undefined, \<open>None\<close>. Parsing and the client are arguments.
\<close>

record ('cfg, 'req, 'resp, 'client, 's) capi_env =
  ca_utf8 :: "bytes \<Rightarrow> string option"
  ca_parse_config :: "string \<Rightarrow> 'cfg option"
  ca_runtime :: "'s \<Rightarrow> bool"
  ca_client_new :: "'cfg \<Rightarrow> 'client"
  ca_parse_request :: "string \<Rightarrow> 'req option"
  ca_call :: "'client \<Rightarrow> 'req \<Rightarrow> 's \<Rightarrow> 'resp option \<times> 's"
  ca_print_response :: "'resp \<Rightarrow> bytes option"

record ('client, 's) capi =
  cp_slots :: "32 word \<rightharpoonup> 'client"
  cp_world :: 's

definition c_str :: "bytes \<Rightarrow> bytes option" where
  "c_str buf = (if 0 \<in> set buf then Some (takeWhile (\<lambda>b. b \<noteq> 0) buf) else None)"

definition nullspace_start ::
  "('cfg, 'req, 'resp, 'client, 's) capi_env \<Rightarrow> 32 word \<Rightarrow> bytes option \<Rightarrow> ('client, 's) capi \<Rightarrow> (32 word \<times> ('client, 's) capi) option" where
  "nullspace_start A slot toml_cfg s =
     (case toml_cfg of
        None \<Rightarrow> Some (-1, s)
      | Some buf \<Rightarrow>
          if cp_slots s slot \<noteq> None then Some (-1, s)
          else map_option (\<lambda>cfg_str.
            case Option.bind (ca_utf8 A cfg_str) (ca_parse_config A) of
              None \<Rightarrow> (-1, s)
            | Some config \<Rightarrow>
                if ca_runtime A (cp_world s)
                then (0, s \<lparr> cp_slots := (cp_slots s)(slot \<mapsto> ca_client_new A config) \<rparr>)
                else (-1, s)) (c_str buf))"

definition nullspace_stop :: "32 word \<Rightarrow> ('client, 's) capi \<Rightarrow> 32 word \<times> ('client, 's) capi" where
  "nullspace_stop slot s =
     (if cp_slots s slot = None then (-1, s) else (0, s \<lparr> cp_slots := (cp_slots s)(slot := None) \<rparr>))"

text \<open>The result, the buffer afterwards and the state; \<open>maxlen\<close> is what the caller says its length is.\<close>

definition write_back :: "bytes \<Rightarrow> bytes \<Rightarrow> bytes" where
  "write_back reply buf = reply @ 0 # drop (length reply + 1) buf"

definition run_request ::
  "('cfg, 'req, 'resp, 'client, 's) capi_env \<Rightarrow> 'client \<Rightarrow> 'req \<Rightarrow> bytes \<Rightarrow> nat \<Rightarrow> ('client, 's) capi
    \<Rightarrow> 32 word \<times> bytes option \<times> ('client, 's) capi" where
  "run_request A client req buf maxlen s =
     (case ca_call A client req (cp_world s) of
        (None, w) \<Rightarrow> (-1, Some buf, s \<lparr> cp_world := w \<rparr>)
      | (Some response, w) \<Rightarrow>
          (case ca_print_response A response of
             None \<Rightarrow> (-1, Some buf, s \<lparr> cp_world := w \<rparr>)
           | Some reply \<Rightarrow>
               if length reply + 1 > maxlen then (-1, Some buf, s \<lparr> cp_world := w \<rparr>)
               else (of_nat (length reply), Some (write_back reply buf), s \<lparr> cp_world := w \<rparr>)))"

definition nullspace_rpc ::
  "('cfg, 'req, 'resp, 'client, 's) capi_env \<Rightarrow> 32 word \<Rightarrow> bytes option \<Rightarrow> nat \<Rightarrow> ('client, 's) capi
    \<Rightarrow> (32 word \<times> bytes option \<times> ('client, 's) capi) option" where
  "nullspace_rpc A slot inout maxlen s =
     (case inout of
        None \<Rightarrow> Some (-1, inout, s)
      | Some buf \<Rightarrow>
          if maxlen = 0 then Some (-1, inout, s)
          else
            (case cp_slots s slot of
               None \<Rightarrow> Some (-1, inout, s)
             | Some client \<Rightarrow>
                 map_option (\<lambda>input.
                   case Option.bind (ca_utf8 A input) (ca_parse_request A) of
                     None \<Rightarrow> (-1, inout, s)
                   | Some req \<Rightarrow> run_request A client req buf maxlen s)
                   (c_str buf)))"

text \<open>A buffer as long as the caller says keeps its length, whatever is written, and nothing past
  \<open>maxlen\<close> changes; a result other than the length of the response leaves it untouched.\<close>

lemma nullspace_rpc_bounds:
  assumes "nullspace_rpc A slot (Some buf) maxlen s = Some (n, Some buf', s')" and "maxlen \<le> length buf"
  shows "length buf' = length buf \<and> drop maxlen buf' = drop maxlen buf \<and>
    (buf' = buf \<and> n = -1 \<or> (\<exists>reply. n = of_nat (length reply) \<and> length reply < maxlen \<and> buf' = write_back reply buf))"
proof -
  have w: "length (write_back reply buf) = length buf \<and> drop maxlen (write_back reply buf) = drop maxlen buf"
    if "length reply < maxlen" for reply
    using that assms(2) by (auto simp: write_back_def drop_Cons' Suc_diff_Suc)
  have "buf' = buf \<and> n = -1 \<or> (\<exists>reply. n = of_nat (length reply) \<and> length reply < maxlen \<and> buf' = write_back reply buf)"
  proof -
    have run: "b = buf \<and> k = -1 \<or> (\<exists>reply. k = of_nat (length reply) \<and> length reply < maxlen \<and> b = write_back reply buf)"
      if "run_request A client req buf maxlen s = (k, Some b, s1)" for client req k b s1
      using that by (auto simp: run_request_def split: if_split_asm option.split_asm prod.split_asm)
    from assms(1) show ?thesis by (auto simp: nullspace_rpc_def split: if_split_asm option.split_asm dest: run)
  qed
  with w show ?thesis by blast
qed

text \<open>What the caller reads back is the response, unless it holds a zero byte.\<close>

lemma write_back_reads: "0 \<notin> set reply \<Longrightarrow> c_str (write_back reply buf) = Some reply"
  by (auto simp: c_str_def write_back_def takeWhile_append)

text \<open>A slot is started once until it is stopped.\<close>

lemma slot_life:
  "nullspace_start A slot cfg s = Some (0, s') \<Longrightarrow> cp_slots s slot = None \<and> cp_slots s' slot \<noteq> None"
  "nullspace_stop slot s = (0, s') \<Longrightarrow> cp_slots s slot \<noteq> None \<and> cp_slots s' slot = None"
  by (auto simp: nullspace_start_def nullspace_stop_def split: option.splits if_splits)

end
