(* ===== verification/Rpc.thy ===== *)
theory Rpc
  imports Prelude "HOL-Library.Multiset"
begin

text \<open>
  The transport of every request (\<open>nullspace-nanorpc\<close>: \<open>tcp.rs\<close>, the body of \<open>http.rs\<close>, the
  choice of \<open>lib.rs\<close>) and the pool of transports per endpoint (\<open>nullspace-rpc-pool\<close>). JSON-RPC
  requests and responses, their encoding and the line codec come from other crates and are the record
  \<open>wire_lib\<close>. A oneshot channel is a number; sending on it, or dropping it, is a pair in the list of
  what was settled. Writes that time out are failed writes.
\<close>

definition REQUEST_TIMEOUT_SECS :: u64 where "REQUEST_TIMEOUT_SECS = 600"
definition MAX_MESSAGE_BYTES :: nat where "MAX_MESSAGE_BYTES = 1024 * 1024"

record ('req, 'resp, 'id) wire_lib =
  wl_req_id :: "'req \<Rightarrow> 'id"
  wl_resp_id :: "'resp \<Rightarrow> 'id"
  wl_req_line :: "'req \<Rightarrow> anyhow + string"
  wl_req_parse :: "string \<Rightarrow> anyhow + 'req"
  wl_resp_line :: "'resp \<Rightarrow> anyhow + string"
  wl_resp_parse :: "string \<Rightarrow> anyhow + 'resp"
  wl_error_line :: "anyhow \<Rightarrow> string"   \<comment> \<open>the parse error with a null identifier\<close>

text \<open>What the codec of the reading side yields: a line, a failure (a line that is too long, a broken
  stream) or the end.\<close>

datatype wire_item = Line string | Broken anyhow | Eof

section \<open>The client of a connection\<close>

datatype ('req, 'id) client_command = Call 'req nat | Cancel 'id

datatype 'resp conn_event = Response 'resp | Closed anyhow

datatype ('req, 'resp, 'id) client_event =
  Command "('req, 'id) client_command option" | Connection "'resp conn_event option"

type_synonym 'resp settled = "(nat \<times> (anyhow + 'resp)) list"

record 'id tcp_client =
  tk_connected :: bool
  tk_in_flight :: "('id \<times> nat) list"
  tk_running :: bool

definition tcp_client_init :: "'id tcp_client" where
  "tcp_client_init = \<lparr> tk_connected = False, tk_in_flight = [], tk_running = True \<rparr>"

text \<open>A \<open>HashMap\<close> of senders: an entry that is replaced or removed drops its sender, which its caller
  sees as the end of the task.\<close>

definition dropped :: "'id \<Rightarrow> ('id \<times> nat) list \<Rightarrow> 'resp settled" where
  "dropped i m = (case map_of m i of Some tx \<Rightarrow> [(tx, Inl ''tcp client task stopped'')] | None \<Rightarrow> [])"

definition in_flight_remove :: "'id \<Rightarrow> ('id \<times> nat) list \<Rightarrow> ('id \<times> nat) list" where
  "in_flight_remove i m = filter (\<lambda>(j, tx). j \<noteq> i) m"

definition in_flight_insert :: "'id \<Rightarrow> nat \<Rightarrow> ('id \<times> nat) list \<Rightarrow> ('id \<times> nat) list" where
  "in_flight_insert i tx m = in_flight_remove i m @ [(i, tx)]"

definition fail_in_flight :: "('id \<times> nat) list \<Rightarrow> anyhow \<Rightarrow> 'resp settled" where
  "fail_in_flight m message = map (\<lambda>(i, tx). (tx, Inl message)) m"

text \<open>A call: \<open>connect\<close> is what connecting answers, should it be needed, \<open>write_ok\<close> whether the writer
  takes the line. The answer is the new state, what was settled and the lines written.\<close>

definition client_call ::
  "('req, 'resp, 'id) wire_lib \<Rightarrow> anyhow + unit \<Rightarrow> bool \<Rightarrow> 'req \<Rightarrow> nat \<Rightarrow> 'id tcp_client
    \<Rightarrow> 'id tcp_client \<times> 'resp settled \<times> string list" where
  "client_call L connect write_ok req resp_tx s =
     (case (if tk_connected s then Inr () else connect) of
        Inl err \<Rightarrow> (s, [(resp_tx, Inl err)], [])
      | Inr _ \<Rightarrow>
          (let s = s \<lparr> tk_connected := True \<rparr> in
           case wl_req_line L req of
             Inl err \<Rightarrow> (s, [(resp_tx, Inl err)], [])
           | Inr line \<Rightarrow>
               if \<not> write_ok then
                 (s \<lparr> tk_connected := False, tk_in_flight := [] \<rparr>,
                  (resp_tx, Inl ''tcp connection closed'') # fail_in_flight (tk_in_flight s) ''tcp connection closed'', [])
               else
                 (s \<lparr> tk_in_flight := in_flight_insert (wl_req_id L req) resp_tx (tk_in_flight s) \<rparr>,
                  dropped (wl_req_id L req) (tk_in_flight s), [line])))"

text \<open>One turn of \<open>run_tcp_client\<close>, or \<open>None\<close> where the event cannot occur.\<close>

fun run_tcp_client ::
  "('req, 'resp, 'id) wire_lib \<Rightarrow> anyhow + unit \<Rightarrow> bool \<Rightarrow> ('req, 'resp, 'id) client_event \<Rightarrow> 'id tcp_client
    \<Rightarrow> ('id tcp_client \<times> 'resp settled \<times> string list) option" where
  "run_tcp_client L connect write_ok (Command (Some (Call req resp_tx))) s =
     (if tk_running s then Some (client_call L connect write_ok req resp_tx s) else None)"
| "run_tcp_client L connect write_ok (Command (Some (Cancel i))) s =
     (if tk_running s
      then Some (s \<lparr> tk_in_flight := in_flight_remove i (tk_in_flight s) \<rparr>, dropped i (tk_in_flight s), []) else None)"
| "run_tcp_client L connect write_ok (Command None) s =
     (if tk_running s
      then Some (s \<lparr> tk_in_flight := [], tk_running := False \<rparr>, fail_in_flight (tk_in_flight s) ''tcp client stopped'', [])
      else None)"
| "run_tcp_client L connect write_ok (Connection (Some (Response resp))) s =
     (if tk_running s \<and> tk_connected s
      then Some (s \<lparr> tk_in_flight := in_flight_remove (wl_resp_id L resp) (tk_in_flight s) \<rparr>,
        (case map_of (tk_in_flight s) (wl_resp_id L resp) of Some tx \<Rightarrow> [(tx, Inr resp)] | None \<Rightarrow> []), [])
      else None)"
| "run_tcp_client L connect write_ok (Connection (Some (Closed err))) s =
     (if tk_running s \<and> tk_connected s
      then Some (s \<lparr> tk_connected := False, tk_in_flight := [] \<rparr>, fail_in_flight (tk_in_flight s) err, []) else None)"
| "run_tcp_client L connect write_ok (Connection None) s =
     (if tk_running s \<and> tk_connected s
      then Some (s \<lparr> tk_connected := False, tk_in_flight := [] \<rparr>,
        fail_in_flight (tk_in_flight s) ''tcp connection closed'', []) else None)"

text \<open>The reading task of a connection: the event an item becomes, and whether reading goes on.\<close>

fun read_event :: "('req, 'resp, 'id) wire_lib \<Rightarrow> wire_item \<Rightarrow> 'resp conn_event option \<times> bool" where
  "read_event L (Line line) =
     (if line = [] then (None, True)
      else (case wl_resp_parse L line of
          Inr resp \<Rightarrow> (Some (Response resp), True)
        | Inl err \<Rightarrow> (Some (Closed err), False)))"
| "read_event L (Broken err) = (Some (Closed err), False)"
| "read_event L Eof = (Some (Closed ''tcp connection closed''), False)"

text \<open>\<open>call_raw\<close>: what the caller gets of its channel, \<open>None\<close> when the time is over; then it cancels.\<close>

definition call_raw_result ::
  "('req, 'resp, 'id) wire_lib \<Rightarrow> 'req \<Rightarrow> (anyhow + 'resp) option \<Rightarrow> (anyhow + 'resp) \<times> ('req, 'id) client_command list" where
  "call_raw_result L req r =
     (case r of Some result \<Rightarrow> (result, []) | None \<Rightarrow> (Inl ''tcp request timeout'', [Cancel (wl_req_id L req)]))"

section \<open>The serving side\<close>

datatype 'req served = Ignore | Serve 'req | Refuse string | Hang_up

fun serve_item :: "('req, 'resp, 'id) wire_lib \<Rightarrow> wire_item \<Rightarrow> 'req served" where
  "serve_item L (Line line) =
     (if line = [] then Ignore
      else (case wl_req_parse L line of Inr req \<Rightarrow> Serve req | Inl err \<Rightarrow> Refuse (wl_error_line L err)))"
| "serve_item L (Broken err) = Hang_up"
| "serve_item L Eof = Hang_up"

definition respond_lines :: "('req, 'resp, 'id) wire_lib \<Rightarrow> 'resp \<Rightarrow> string list" where
  "respond_lines L resp = (case wl_resp_line L resp of Inr payload \<Rightarrow> [payload] | Inl err \<Rightarrow> [])"

section \<open>HTTP\<close>

text \<open>The body of a response is read up to the limit.\<close>

fun http_body :: "bytes \<Rightarrow> bytes list \<Rightarrow> bytes" where
  "http_body body [] = body"
| "http_body body (chunk # chunks) =
     (if length body + length chunk > MAX_MESSAGE_BYTES then body @ take (MAX_MESSAGE_BYTES - length body) chunk
      else http_body (body @ chunk) chunks)"

definition http_call_raw :: "(bytes \<Rightarrow> anyhow + 'resp) \<Rightarrow> anyhow + bytes list \<Rightarrow> anyhow + 'resp" where
  "http_call_raw parse reply = and_then reply (\<lambda>chunks. parse (http_body [] chunks))"

section \<open>Endpoints and the pool\<close>

datatype transport_kind = Http | Tcp | Lz4Tcp

text \<open>\<open>None\<close> is the panic on any other scheme.\<close>

definition transport_new :: "string \<Rightarrow> transport_kind option" where
  "transport_new scheme =
     (if scheme = ''http'' \<or> scheme = ''https'' then Some Http
      else if scheme = ''tcp'' then Some Tcp
      else if scheme = ''lz4tcp'' then Some Lz4Tcp
      else None)"

text \<open>The transports of one endpoint; an \<open>Arc\<close> is the number of its allocation.\<close>

record per_url_pool =
  pp_max :: u64
  pp_next_index :: u64
  pp_transports :: "nat option list"
  pp_allocated :: nat

definition pool_new :: "u64 \<Rightarrow> per_url_pool" where
  "pool_new max_concurrency = \<lparr> pp_max = max_concurrency, pp_next_index = 0, pp_transports = [], pp_allocated = 0 \<rparr>"

definition resize_none :: "nat \<Rightarrow> 'a option list \<Rightarrow> 'a option list" where
  "resize_none n ts = (if length ts < n then ts @ replicate (n - length ts) None else ts)"

definition get_or_init_transport :: "nat \<Rightarrow> per_url_pool \<Rightarrow> nat \<times> per_url_pool" where
  "get_or_init_transport index p =
     (let transports = resize_none (index + 1) (pp_transports p) in
      case transports ! index of
        Some existing \<Rightarrow> (existing, p \<lparr> pp_transports := transports \<rparr>)
      | None \<Rightarrow> (pp_allocated p, p \<lparr> pp_transports := transports[index := Some (pp_allocated p)],
                  pp_allocated := pp_allocated p + 1 \<rparr>))"

definition drop_transport :: "nat \<Rightarrow> per_url_pool \<Rightarrow> per_url_pool" where
  "drop_transport target p =
     p \<lparr> pp_transports := map (\<lambda>slot. if slot = Some target then None else slot) (pp_transports p) \<rparr>"

text \<open>The two halves of \<open>PerUrlPool::call_raw\<close>, between which other calls run.\<close>

definition pool_acquire :: "per_url_pool \<Rightarrow> nat \<times> per_url_pool" where
  "pool_acquire p =
     (let index = unat (pp_next_index p mod pp_max p) in
      get_or_init_transport index (p \<lparr> pp_next_index := pp_next_index p + 1 \<rparr>))"

definition pool_release :: "nat \<Rightarrow> anyhow + 'resp \<Rightarrow> per_url_pool \<Rightarrow> per_url_pool" where
  "pool_release transport result p = (case result of Inl _ \<Rightarrow> drop_transport transport p | Inr _ \<Rightarrow> p)"

section \<open>Lemmas\<close>

lemma in_flight_remove_mset:
  "distinct (map fst m) \<Longrightarrow> mset (map snd m) =
     mset (map snd (in_flight_remove i m)) + (case map_of m i of Some tx \<Rightarrow> {# tx #} | None \<Rightarrow> {#})"
proof (induction m)
  case (Cons a m)
  obtain j tx where a: "a = (j, tx)" by fastforce
  show ?case
  proof (cases "j = i")
    case True
    with Cons.prems a have "\<forall>(k, t) \<in> set m. k \<noteq> i" by force
    then have "in_flight_remove i m = m" by (auto simp: in_flight_remove_def filter_id_conv)
    with True a show ?thesis by (simp add: in_flight_remove_def)
  next
    case False
    with Cons a show ?thesis by (auto simp: in_flight_remove_def split: option.splits)
  qed
qed (simp add: in_flight_remove_def)

lemma in_flight_remove_props:
  "distinct (map fst m) \<Longrightarrow> distinct (map fst (in_flight_remove i m))"
  "(j, tx) \<in> set (in_flight_remove i m) \<longleftrightarrow> (j, tx) \<in> set m \<and> j \<noteq> i"
  "i \<notin> fst ` set (in_flight_remove i m)"
  by (auto simp: in_flight_remove_def distinct_map_filter)

lemma settled_channels [simp]:
  "image_mset fst (mset (fail_in_flight m message)) = image_mset snd (mset m)"
  "image_mset fst (mset (dropped i m)) = (case map_of m i of Some tx \<Rightarrow> {# tx #} | None \<Rightarrow> {#})"
  "fail_in_flight [] message = []" "dropped i [] = []" "in_flight_remove i [] = []"
  by (induction m) (auto simp: fail_in_flight_def dropped_def in_flight_remove_def split: option.split)

definition client_ok :: "'id tcp_client \<Rightarrow> bool" where
  "client_ok s \<longleftrightarrow> distinct (map fst (tk_in_flight s)) \<and> (\<not> tk_connected s \<longrightarrow> tk_in_flight s = [])"

fun submitted_by :: "('req, 'resp, 'id) client_event \<Rightarrow> nat list" where
  "submitted_by (Command (Some (Call req tx))) = [tx]"
| "submitted_by _ = []"

lemma client_ok_init: "client_ok tcp_client_init"
  by (simp add: client_ok_def tcp_client_init_def)

text \<open>A turn loses no caller.\<close>

lemma client_turn_conserves:
  assumes "run_tcp_client L connect write_ok ev s = Some (s', st, ls)" and "client_ok s"
  shows "client_ok s'" and "mset (map snd (tk_in_flight s)) + mset (submitted_by ev) = mset (map snd (tk_in_flight s')) + mset (map fst st)"
proof -
  have "client_ok s' \<and> mset (map snd (tk_in_flight s)) + mset (submitted_by ev) = mset (map snd (tk_in_flight s')) + mset (map fst st)"
    using assms
  proof (induction L connect write_ok ev s rule: run_tcp_client.induct)
    case (1 L connect write_ok req resp_tx s)
    note m = in_flight_remove_mset [of "tk_in_flight s" "wl_req_id L req"]
    from 1 show ?case
      using in_flight_remove_props(1,3) [where m = "tk_in_flight s" and i = "wl_req_id L req"] m
      by (auto simp: client_call_def client_ok_def Let_def in_flight_insert_def add_ac split: sum.splits if_splits)
  next
    case (2 L connect write_ok i s)
    note m = in_flight_remove_mset [of "tk_in_flight s" i]
    from 2 m show ?case
      using in_flight_remove_props(1) [of "tk_in_flight s" i]
      by (auto simp: client_ok_def split: if_splits)
  next
    case (4 L connect write_ok resp s)
    note m = in_flight_remove_mset [of "tk_in_flight s" "wl_resp_id L resp"]
    from 4 m show ?case
      using in_flight_remove_props(1) [of "tk_in_flight s" "wl_resp_id L resp"]
      by (cases "map_of (tk_in_flight s) (wl_resp_id L resp)") (auto simp: client_ok_def simp del: map_of_eq_Some_iff split: if_splits)
  qed (auto simp: client_ok_def split: if_splits)
  then show "client_ok s'" and "mset (map snd (tk_in_flight s)) + mset (submitted_by ev) = mset (map snd (tk_in_flight s')) + mset (map fst st)"
    by blast+
qed

section \<open>The two ends together\<close>

text \<open>A client, its connection and the server's side of it. The lines of the current connection are two
  queues; a request being served knows the number of the connection it came by, and a response to an
  older connection is lost. The ghost fields are the calls made, what was settled and what the service
  answered.\<close>

record ('req, 'resp, 'id) rpc_sys =
  ry_client :: "'id tcp_client"
  ry_conn :: nat
  ry_to_server :: "string list"
  ry_serving :: "(nat \<times> 'req) list"
  ry_to_client :: "string list"
  ry_calls :: "('req \<times> nat) list"
  ry_settled :: "'resp settled"
  ry_served :: "('req \<times> 'resp) list"

definition rpc_init :: "('req, 'resp, 'id) rpc_sys" where
  "rpc_init = \<lparr> ry_client = tcp_client_init, ry_conn = 0, ry_to_server = [], ry_serving = [], ry_to_client = [],
     ry_calls = [], ry_settled = [], ry_served = [] \<rparr>"

fun calls_of :: "('req, 'resp, 'id) client_event \<Rightarrow> ('req \<times> nat) list" where
  "calls_of (Command (Some (Call req tx))) = [(req, tx)]"
| "calls_of _ = []"

text \<open>A turn of the client: a connection that is opened starts with empty queues.\<close>

definition client_turn ::
  "('req, 'resp, 'id) wire_lib \<Rightarrow> anyhow + unit \<Rightarrow> bool \<Rightarrow> ('req, 'resp, 'id) client_event
    \<Rightarrow> ('req, 'resp, 'id) rpc_sys \<Rightarrow> ('req, 'resp, 'id) rpc_sys option" where
  "client_turn L connect write_ok ev y =
     map_option (\<lambda>(s, st, ls).
       let y = (if tk_connected (ry_client y) then y else y \<lparr> ry_conn := ry_conn y + 1, ry_to_server := [], ry_to_client := [] \<rparr>)
       in y \<lparr> ry_client := s, ry_to_server := ry_to_server y @ ls, ry_calls := ry_calls y @ calls_of ev,
              ry_settled := ry_settled y @ st \<rparr>)
     (run_tcp_client L connect write_ok ev (ry_client y))"

inductive rpc_step ::
  "('req, 'resp, 'id) wire_lib \<Rightarrow> ('req \<Rightarrow> 'resp \<Rightarrow> bool) \<Rightarrow> ('req, 'resp, 'id) rpc_sys \<Rightarrow> ('req, 'resp, 'id) rpc_sys \<Rightarrow> bool"
  for L service where
  command: "client_turn L connect write_ok (Command c) y = Some y' \<Longrightarrow> rpc_step L service y y'"
| lost: "\<forall>r. e \<noteq> Some (Response r) \<Longrightarrow> client_turn L connect write_ok (Connection e) y = Some y' \<Longrightarrow>
    rpc_step L service y y'"
| read: "ry_to_client y = l # rest \<Longrightarrow> read_event L (Line l) = (Some e, again) \<Longrightarrow>
    client_turn L connect write_ok (Connection (Some e)) (y \<lparr> ry_to_client := rest \<rparr>) = Some y' \<Longrightarrow> rpc_step L service y y'"
| skip: "ry_to_client y = l # rest \<Longrightarrow> read_event L (Line l) = (None, again) \<Longrightarrow>
    rpc_step L service y (y \<lparr> ry_to_client := rest \<rparr>)"
| serve: "ry_to_server y = l # rest \<Longrightarrow> serve_item L (Line l) = Serve req \<Longrightarrow>
    rpc_step L service y (y \<lparr> ry_to_server := rest, ry_serving := ry_serving y @ [(ry_conn y, req)] \<rparr>)"
| refuse: "ry_to_server y = l # rest \<Longrightarrow> serve_item L (Line l) = Refuse line \<Longrightarrow>
    rpc_step L service y (y \<lparr> ry_to_server := rest, ry_to_client := ry_to_client y @ [line] \<rparr>)"
| ignore: "ry_to_server y = l # rest \<Longrightarrow> serve_item L (Line l) = Ignore \<Longrightarrow>
    rpc_step L service y (y \<lparr> ry_to_server := rest \<rparr>)"
| answer: "(c, req) \<in> set (ry_serving y) \<Longrightarrow> service req resp \<Longrightarrow>
    rpc_step L service y (y \<lparr> ry_serving := remove1 (c, req) (ry_serving y), ry_served := ry_served y @ [(req, resp)],
      ry_to_client := ry_to_client y @ (if c = ry_conn y then respond_lines L resp else []) \<rparr>)"

text \<open>What the two crates are relied on for: a line decodes to what was encoded, and a service answers
  under the identifier of the request.\<close>

definition wire_law :: "('req, 'resp, 'id) wire_lib \<Rightarrow> bool" where
  "wire_law L \<longleftrightarrow> (\<forall>req l. wl_req_line L req = Inr l \<longrightarrow> wl_req_parse L l = Inr req) \<and>
     (\<forall>resp l. wl_resp_line L resp = Inr l \<longrightarrow> wl_resp_parse L l = Inr resp)"

definition answers_under_id :: "('req, 'resp, 'id) wire_lib \<Rightarrow> ('req \<Rightarrow> 'resp \<Rightarrow> bool) \<Rightarrow> bool" where
  "answers_under_id L service \<longleftrightarrow> (\<forall>req resp. service req resp \<longrightarrow> wl_resp_id L resp = wl_req_id L req)"

definition rpc_inv :: "('req, 'resp, 'id) wire_lib \<Rightarrow> ('req, 'resp, 'id) rpc_sys \<Rightarrow> bool" where
  "rpc_inv L y \<longleftrightarrow> client_ok (ry_client y) \<and>
     mset (map snd (ry_calls y)) = mset (map snd (tk_in_flight (ry_client y))) + mset (map fst (ry_settled y)) \<and>
     (\<forall>i tx. (i, tx) \<in> set (tk_in_flight (ry_client y)) \<longrightarrow> (\<exists>req. wl_req_id L req = i \<and> (req, tx) \<in> set (ry_calls y))) \<and>
     (\<forall>l \<in> set (ry_to_server y). \<exists>req \<in> fst ` set (ry_calls y). wl_req_line L req = Inr l) \<and>
     snd ` set (ry_serving y) \<subseteq> fst ` set (ry_calls y) \<and>
     (\<forall>req resp. (req, resp) \<in> set (ry_served y) \<longrightarrow> req \<in> fst ` set (ry_calls y) \<and> wl_resp_id L resp = wl_req_id L req) \<and>
     (\<forall>l \<in> set (ry_to_client y). \<exists>resp \<in> snd ` set (ry_served y). wl_resp_line L resp = Inr l) \<and>
     (\<forall>tx resp. (tx, Inr resp) \<in> set (ry_settled y) \<longrightarrow>
       (\<exists>req. (req, tx) \<in> set (ry_calls y) \<and> wl_req_id L req = wl_resp_id L resp) \<and> resp \<in> snd ` set (ry_served y))"

lemma settled_errors [simp]:
  "(tx, Inr resp) \<notin> set (fail_in_flight m message)" "(tx, Inr resp) \<notin> set (dropped i m)"
  by (auto simp: fail_in_flight_def dropped_def split: option.split)

lemma client_errors:
  assumes "run_tcp_client L connect write_ok ev s = Some (s', st, ls)" and "(tx, Inr resp) \<in> set st"
  shows "\<exists>r. ev = Connection (Some (Response r))"
  using assms
proof (induction L connect write_ok ev s rule: run_tcp_client.induct)
  case (1 L connect write_ok req resp_tx s)
  then show ?case by (auto simp: client_call_def Let_def split: if_splits sum.splits)
next
  case (2 L connect write_ok i s)
  then show ?case by (auto split: if_splits)
next
  case (3 L connect write_ok s)
  then show ?case by (auto split: if_splits)
next
  case (4 L connect write_ok s)
  then show ?case by simp
next
  case (5 L connect write_ok s)
  then show ?case by (auto split: if_splits)
next
  case (6 L connect write_ok s)
  then show ?case by (auto split: if_splits)
qed
lemma client_turn_settled:
  assumes "run_tcp_client L connect write_ok ev s = Some (s', st, ls)"
  shows "(i, tx) \<in> set (tk_in_flight s') \<Longrightarrow> (i, tx) \<in> set (tk_in_flight s) \<or> (\<exists>req. (req, tx) \<in> set (calls_of ev) \<and> wl_req_id L req = i)"
    and "(tx, Inr resp) \<in> set st \<Longrightarrow> ev = Connection (Some (Response resp)) \<and> (wl_resp_id L resp, tx) \<in> set (tk_in_flight s)"
    and "l \<in> set ls \<Longrightarrow> \<exists>req tx. (req, tx) \<in> set (calls_of ev) \<and> wl_req_line L req = Inr l"
    and "mset (submitted_by ev) = mset (map snd (calls_of ev))"
proof -
  show "(i, tx) \<in> set (tk_in_flight s') \<Longrightarrow> (i, tx) \<in> set (tk_in_flight s) \<or> (\<exists>req. (req, tx) \<in> set (calls_of ev) \<and> wl_req_id L req = i)"
    using assms by (induction L connect write_ok ev s rule: run_tcp_client.induct)
      (auto simp: client_call_def Let_def in_flight_insert_def in_flight_remove_props(2) split: if_splits sum.splits)
  show "(tx, Inr resp) \<in> set st \<Longrightarrow> ev = Connection (Some (Response resp)) \<and> (wl_resp_id L resp, tx) \<in> set (tk_in_flight s)"
  proof -
    assume st: "(tx, Inr resp) \<in> set st"
    with client_errors [OF assms] obtain r where "ev = Connection (Some (Response r))" by blast
    with st assms show ?thesis
      by (cases "map_of (tk_in_flight s) (wl_resp_id L r)") (auto dest: map_of_SomeD split: if_splits)
  qed
  show "l \<in> set ls \<Longrightarrow> \<exists>req tx. (req, tx) \<in> set (calls_of ev) \<and> wl_req_line L req = Inr l"
    using assms by (induction L connect write_ok ev s rule: run_tcp_client.induct)
      (auto simp: client_call_def Let_def split: if_splits sum.splits)
  show "mset (submitted_by ev) = mset (map snd (calls_of ev))"
    by (induction ev rule: submitted_by.induct) simp_all
qed

lemma rpc_invD:
  assumes "rpc_inv L y"
  shows "client_ok (ry_client y)"
    and "mset (map snd (ry_calls y)) = mset (map snd (tk_in_flight (ry_client y))) + mset (map fst (ry_settled y))"
    and "(i, tx) \<in> set (tk_in_flight (ry_client y)) \<Longrightarrow> \<exists>req. wl_req_id L req = i \<and> (req, tx) \<in> set (ry_calls y)"
    and "l \<in> set (ry_to_server y) \<Longrightarrow> \<exists>req \<in> fst ` set (ry_calls y). wl_req_line L req = Inr l"
    and "snd ` set (ry_serving y) \<subseteq> fst ` set (ry_calls y)"
    and "(req, resp) \<in> set (ry_served y) \<Longrightarrow> req \<in> fst ` set (ry_calls y) \<and> wl_resp_id L resp = wl_req_id L req"
    and "l \<in> set (ry_to_client y) \<Longrightarrow> \<exists>resp \<in> snd ` set (ry_served y). wl_resp_line L resp = Inr l"
    and "(tx, Inr resp) \<in> set (ry_settled y) \<Longrightarrow>
       (\<exists>req. (req, tx) \<in> set (ry_calls y) \<and> wl_req_id L req = wl_resp_id L resp) \<and> resp \<in> snd ` set (ry_served y)"
  using assms unfolding rpc_inv_def by blast+

text \<open>A turn of the client keeps the invariant, if a response it handles was made by the service.\<close>

lemma client_turn_inv:
  assumes inv: "rpc_inv L y" and turn: "client_turn L connect write_ok ev y = Some y'"
    and made: "\<And>resp. ev = Connection (Some (Response resp)) \<Longrightarrow> resp \<in> snd ` set (ry_served y)"
  shows "rpc_inv L y'"
proof -
  obtain s st ls where run: "run_tcp_client L connect write_ok ev (ry_client y) = Some (s, st, ls)"
    using turn by (auto simp: client_turn_def)
  note I = rpc_invD [OF inv] and C = client_turn_conserves [OF run I(1)] and T = client_turn_settled [OF run]
  let ?z = "if tk_connected (ry_client y) then y else y \<lparr> ry_conn := ry_conn y + 1, ry_to_server := [], ry_to_client := [] \<rparr>"
  have y': "y' = ?z \<lparr> ry_client := s, ry_to_server := ry_to_server ?z @ ls, ry_calls := ry_calls y @ calls_of ev,
      ry_settled := ry_settled y @ st \<rparr>"
    using turn run by (auto simp: client_turn_def Let_def)
  have fields: "ry_client y' = s" "ry_calls y' = ry_calls y @ calls_of ev" "ry_settled y' = ry_settled y @ st"
    "ry_serving y' = ry_serving y" "ry_served y' = ry_served y" "set (ry_to_client y') \<subseteq> set (ry_to_client y)"
    "set (ry_to_server y') \<subseteq> set (ry_to_server y) \<union> set ls"
    by (auto simp: y')
  have server: "\<forall>l \<in> set (ry_to_server y'). \<exists>req \<in> fst ` set (ry_calls y'). wl_req_line L req = Inr l"
  proof
    fix l
    assume "l \<in> set (ry_to_server y')"
    with fields(7) consider "l \<in> set (ry_to_server y)" | "l \<in> set ls" by blast
    then show "\<exists>req \<in> fst ` set (ry_calls y'). wl_req_line L req = Inr l"
    proof cases
      case 1
      from I(4) [OF this] show ?thesis by (auto simp: fields(2))
    next
      case 2
      from T(3) [OF this] show ?thesis by (force simp: fields(2))
    qed
  qed
  have flight: "\<exists>req. wl_req_id L req = i \<and> (req, tx) \<in> set (ry_calls y')" if "(i, tx) \<in> set (tk_in_flight s)" for i tx
    using T(1) [OF that] I(3) [of i tx] by (auto simp: fields(2))
  have count: "mset (map snd (ry_calls y')) = mset (map snd (tk_in_flight s)) + mset (map fst (ry_settled y'))"
    using C(2) T(4) I(2) by (simp add: fields(2,3) add_ac)
  have settled: "(\<exists>req. (req, tx) \<in> set (ry_calls y') \<and> wl_req_id L req = wl_resp_id L resp) \<and> resp \<in> snd ` set (ry_served y')"
    if "(tx, Inr resp) \<in> set (ry_settled y')" for tx resp
  proof -
    from that consider "(tx, Inr resp) \<in> set (ry_settled y)" | "(tx, Inr resp) \<in> set st" by (auto simp: fields(3))
    then show ?thesis
    proof cases
      case 1
      from I(8) [OF this] show ?thesis by (auto simp: fields)
    next
      case 2
      from T(2) [OF this] have r: "ev = Connection (Some (Response resp))" "(wl_resp_id L resp, tx) \<in> set (tk_in_flight (ry_client y))"
        by blast+
      from I(3) [OF r(2)] made [OF r(1)] show ?thesis by (auto simp: fields)
    qed
  qed
  have "req \<in> fst ` set (ry_calls y') \<and> wl_resp_id L resp = wl_req_id L req" if "(req, resp) \<in> set (ry_served y')" for req resp
    using I(6) [of req resp] that by (auto simp: fields)
  moreover have "snd ` set (ry_serving y') \<subseteq> fst ` set (ry_calls y')" using I(5) by (auto simp: fields)
  moreover have "\<forall>l \<in> set (ry_to_client y'). \<exists>resp \<in> snd ` set (ry_served y'). wl_resp_line L resp = Inr l"
    using I(7) fields(6) by (auto simp: fields(5))
  ultimately show ?thesis
    unfolding rpc_inv_def fields(1) using C(1) server flight count settled by blast
qed

lemma rpc_step_inv:
  assumes law: "wire_law L" and ids: "answers_under_id L service"
  shows "rpc_step L service y y' \<Longrightarrow> rpc_inv L y \<Longrightarrow> rpc_inv L y'"
proof (induction rule: rpc_step.induct)
  case (command connect write_ok c y y')
  then show ?case using client_turn_inv by blast
next
  case (lost e connect write_ok y y')
  then show ?case using client_turn_inv by blast
next
  case (read y l rest e again connect write_ok y')
  note I = rpc_invD [OF read.prems]
  have inv: "rpc_inv L (y \<lparr> ry_to_client := rest \<rparr>)" using read by (simp add: rpc_inv_def)
  show ?case
  proof (rule client_turn_inv [OF inv read.hyps(3)])
    fix resp
    assume "Connection (Some e) = Connection (Some (Response resp))"
    with read.hyps(2) have "wl_resp_parse L l = Inr resp" by (auto split: if_splits sum.splits)
    moreover obtain r where "r \<in> snd ` set (ry_served y)" "wl_resp_line L r = Inr l" using I(7) [of l] read.hyps(1) by auto
    ultimately show "resp \<in> snd ` set (ry_served (y \<lparr> ry_to_client := rest \<rparr>))"
      using law unfolding wire_law_def by (metis Inr_inject rpc_sys.select_convs(8) rpc_sys.surjective rpc_sys.update_convs(5))
  qed
next
  case (serve y l rest req)
  note I = rpc_invD [OF serve.prems]
  obtain r where "r \<in> fst ` set (ry_calls y)" "wl_req_line L r = Inr l" using I(4) [of l] serve.hyps(1) by auto
  moreover from this(2) law have "wl_req_parse L l = Inr r" by (simp add: wire_law_def)
  ultimately have "req \<in> fst ` set (ry_calls y)" using serve.hyps(2) by (simp split: if_splits)
  with serve show ?case by (simp add: rpc_inv_def)
next
  case (refuse y l rest line)
  obtain r where "wl_req_line L r = Inr l" using rpc_invD(4) [OF refuse.prems, of l] refuse.hyps(1) by auto
  with law have "wl_req_parse L l = Inr r" by (simp add: wire_law_def)
  with refuse.hyps(2) show ?case by (simp split: if_splits)
next
  case (answer c req y resp)
  note I = rpc_invD [OF answer.prems]
  have "wl_resp_id L resp = wl_req_id L req" using ids answer.hyps(2) by (simp add: answers_under_id_def)
  moreover have "req \<in> fst ` set (ry_calls y)" using I(5) answer.hyps(1) by force
  moreover have "snd ` set (remove1 (c, req) (ry_serving y)) \<subseteq> fst ` set (ry_calls y)"
    using order_trans [OF image_mono [OF set_remove1_subset] I(5)] .
  ultimately show ?case
    using answer.prems unfolding rpc_inv_def by (auto simp: respond_lines_def split: sum.splits)
qed (simp_all add: rpc_inv_def)

lemma rpc_inv_init: "rpc_inv L rpc_init"
  using client_ok_init by (simp add: rpc_inv_def rpc_init_def) (simp add: tcp_client_init_def)

section \<open>Bodies and pools\<close>

lemma http_body_prefix:
  "length body \<le> MAX_MESSAGE_BYTES \<Longrightarrow> http_body body chunks = take MAX_MESSAGE_BYTES (body @ concat chunks)"
proof (induction body chunks rule: http_body.induct)
  case (2 body chunk chunks)
  show ?case
  proof (cases "length body + length chunk > MAX_MESSAGE_BYTES")
    case True
    with 2 show ?thesis by simp
  next
    case False
    with 2 show ?thesis by simp
  qed
qed simp

definition slots_distinct :: "'a option list \<Rightarrow> bool" where
  "slots_distinct ts \<longleftrightarrow> (\<forall>i j x. i < length ts \<longrightarrow> j < length ts \<longrightarrow> ts ! i = Some x \<longrightarrow> ts ! j = Some x \<longrightarrow> i = j)"

definition pool_ok :: "per_url_pool \<Rightarrow> bool" where
  "pool_ok p \<longleftrightarrow> 0 < pp_max p \<and> length (pp_transports p) \<le> unat (pp_max p) \<and> slots_distinct (pp_transports p) \<and>
     (\<forall>t. Some t \<in> set (pp_transports p) \<longrightarrow> t < pp_allocated p)"

lemma pool_ok_new: "0 < n \<Longrightarrow> pool_ok (pool_new n)"
  by (simp add: pool_ok_def pool_new_def slots_distinct_def)

lemma resize_none_props:
  "Some t \<in> set (resize_none n ts) \<longleftrightarrow> Some t \<in> set ts"
  "length (resize_none n ts) = max n (length ts)"
  "slots_distinct ts \<Longrightarrow> slots_distinct (resize_none n ts)"
  by (auto simp: resize_none_def slots_distinct_def nth_append split: if_splits)

lemma distinct_slot_filled:
  assumes "slots_distinct ts" and "Some t \<notin> set ts"
  shows "slots_distinct (ts[i := Some t])"
proof -
  have absent: "ts ! j \<noteq> Some t" if "j < length ts" for j using assms(2) that nth_mem [of j ts] by metis
  show ?thesis
    unfolding slots_distinct_def
  proof (intro allI impI)
    fix a b x
    assume ab: "a < length (ts[i := Some t])" "b < length (ts[i := Some t])"
      "ts[i := Some t] ! a = Some x" "ts[i := Some t] ! b = Some x"
    consider "a = i" "b = i" | "a = i" "b \<noteq> i" | "a \<noteq> i" "b = i" | "a \<noteq> i" "b \<noteq> i" by blast
    then show "a = b"
    proof cases
      case 4
      with ab assms(1) show ?thesis unfolding slots_distinct_def by simp
    qed (use ab absent [of a] absent [of b] in simp_all)
  qed
qed

text \<open>Acquiring keeps at most \<open>max_concurrency\<close> transports; a failed transport leaves the pool, the others
  stay.\<close>

theorem pool_acquires:
  assumes "pool_ok p" and "pool_acquire p = (t, p')"
  shows "pool_ok p'" and "Some t \<in> set (pp_transports p')"
    and "Some x \<in> set (pp_transports p) \<Longrightarrow> Some x \<in> set (pp_transports p')"
    and "Some t \<in> set (pp_transports p) \<or> t = pp_allocated p"
proof -
  define i where "i = unat (pp_next_index p mod pp_max p)"
  define ts where "ts = resize_none (i + 1) (pp_transports p)"
  have m: "i < unat (pp_max p)" using assms(1) by (simp add: i_def pool_ok_def unat_mod word_less_nat_alt)
  have i: "i < length ts" by (simp add: ts_def resize_none_props(2))
  have len: "length ts \<le> unat (pp_max p)" using m assms(1) by (simp add: ts_def resize_none_props(2) pool_ok_def)
  have d: "slots_distinct ts" using assms(1) by (simp add: ts_def resize_none_props(3) pool_ok_def)
  have mem: "Some x \<in> set ts \<longleftrightarrow> Some x \<in> set (pp_transports p)" for x by (simp add: ts_def resize_none_props(1))
  have fresh: "Some x \<in> set ts \<Longrightarrow> x < pp_allocated p" for x using assms(1) by (simp add: mem pool_ok_def)
  have acq: "pool_acquire p = (case ts ! i of
      Some existing \<Rightarrow> (existing, p \<lparr> pp_next_index := pp_next_index p + 1, pp_transports := ts \<rparr>)
    | None \<Rightarrow> (pp_allocated p, p \<lparr> pp_next_index := pp_next_index p + 1, pp_transports := ts[i := Some (pp_allocated p)],
        pp_allocated := pp_allocated p + 1 \<rparr>))"
    by (simp add: pool_acquire_def get_or_init_transport_def Let_def ts_def i_def split: option.split)
  have "pool_ok p' \<and> Some t \<in> set (pp_transports p') \<and> (\<forall>x. Some x \<in> set (pp_transports p) \<longrightarrow> Some x \<in> set (pp_transports p')) \<and>
      (Some t \<in> set (pp_transports p) \<or> t = pp_allocated p)"
  proof (cases "ts ! i")
    case None
    let ?ts = "ts[i := Some (pp_allocated p)]"
    have "Some (pp_allocated p) \<notin> set ts" using fresh by blast
    then have "slots_distinct ?ts" by (rule distinct_slot_filled [OF d])
    moreover have "Some x \<in> set ?ts \<longleftrightarrow> x = pp_allocated p \<or> Some x \<in> set ts" for x
      using None i by (auto simp: in_set_conv_nth nth_list_update) (metis option.distinct(1))
    ultimately show ?thesis
      using assms len acq None mem fresh by (auto simp: pool_ok_def less_SucI)
  next
    case (Some x)
    then have "Some x \<in> set ts" using nth_mem [OF i] by simp
    with Some show ?thesis using assms len acq mem d by (auto simp: pool_ok_def)
  qed
  then show "pool_ok p'" and "Some t \<in> set (pp_transports p')"
    and "Some x \<in> set (pp_transports p) \<Longrightarrow> Some x \<in> set (pp_transports p')"
    and "Some t \<in> set (pp_transports p) \<or> t = pp_allocated p" by blast+
qed

theorem pool_releases:
  assumes "pool_ok p"
  shows "pool_ok (pool_release t r p)"
    and "\<not> is_ok r \<Longrightarrow> Some t \<notin> set (pp_transports (pool_release t r p))"
    and "x \<noteq> t \<Longrightarrow> Some x \<in> set (pp_transports (pool_release t r p)) \<longleftrightarrow> Some x \<in> set (pp_transports p)"
proof -
  show "pool_ok (pool_release t r p)"
    using assms by (auto simp: pool_ok_def pool_release_def drop_transport_def slots_distinct_def split: sum.split if_splits)
  show "\<not> is_ok r \<Longrightarrow> Some t \<notin> set (pp_transports (pool_release t r p))"
    by (cases r) (auto simp: pool_release_def drop_transport_def)
  show "x \<noteq> t \<Longrightarrow> Some x \<in> set (pp_transports (pool_release t r p)) \<longleftrightarrow> Some x \<in> set (pp_transports p)"
    by (cases r) (force simp: pool_release_def drop_transport_def)+
qed

section \<open>Properties\<close>


definition demo_wire :: "(string, string, string) wire_lib" where
  "demo_wire = \<lparr> wl_req_id = \<lambda>s. s, wl_resp_id = \<lambda>s. s, wl_req_line = \<lambda>s. Inr (CHR ''q'' # s), wl_req_parse = \<lambda>l. Inr (tl l),
     wl_resp_line = \<lambda>s. Inr (CHR ''r'' # s), wl_resp_parse = \<lambda>l. Inr (tl l), wl_error_line = \<lambda>e. ''e'' \<rparr>"


end
